(* ===== verification/FS_Prelude.thy ===== *)
theory FS_Prelude
  imports Main "HOL-Library.Word" "HOL-Library.Char_ord" "HOL-Library.List_Lexorder"
    "HOL-Library.Sublist" "HOL-Library.Multiset"
begin

text \<open>
  The prelude of the development: what the Go sources use of the language and of the
  standard packages \<^verbatim>\<open>strings\<close>, \<^verbatim>\<open>unicode/utf8\<close>, \<^verbatim>\<open>unicode\<close> and \<^verbatim>\<open>path\<close>, with the
  generic lemmas on them that the components share.

  A Go string is a sequence of bytes, so it is a \<^typ>\<open>string\<close> (a list of 8-bit
  characters); \<^verbatim>\<open>strings.Compare\<close> is the byte-wise lexicographic order of
  \<^verbatim>\<open>HOL-Library.List_Lexorder\<close>. A Go \<^verbatim>\<open>int\<close> or \<^verbatim>\<open>int64\<close> whose arithmetic may wrap is a
  64-bit word read by \<^const>\<open>sint\<close>.
\<close>

named_theorems seg_simps \<open>rewriting of separators, segments and joins\<close>

type_synonym int64 = "64 word"

section \<open>Package strings\<close>

abbreviation slash :: char where
  "slash \<equiv> CHR 0x2F"

abbreviation backslash :: char where
  "backslash \<equiv> CHR 0x5C"

definition HasPrefix :: "string \<Rightarrow> string \<Rightarrow> bool" where
  "HasPrefix s p = prefix p s"

definition TrimPrefix :: "string \<Rightarrow> string \<Rightarrow> string" where
  "TrimPrefix s p = (if prefix p s then drop (length p) s else s)"

definition TrimSuffix :: "string \<Rightarrow> string \<Rightarrow> string" where
  "TrimSuffix s p = (if suffix p s then take (length s - length p) s else s)"

definition CutPrefix :: "string \<Rightarrow> string \<Rightarrow> string option" where
  "CutPrefix s p = (if prefix p s then Some (drop (length p) s) else None)"

text \<open>\<^verbatim>\<open>strings.Split\<close>, \<^verbatim>\<open>strings.Cut\<close> and \<^verbatim>\<open>strings.Join\<close> with a one-byte separator.\<close>

fun split_on :: "char \<Rightarrow> string \<Rightarrow> string list" where
  "split_on c [] = [[]]"
| "split_on c (x # xs) =
     (if x = c then [] # split_on c xs
      else (case split_on c xs of [] \<Rightarrow> [[x]] | s # ss \<Rightarrow> (x # s) # ss))"

fun cut_at :: "char \<Rightarrow> string \<Rightarrow> (string \<times> string) option" where
  "cut_at c [] = None"
| "cut_at c (x # xs) =
     (if x = c then Some ([], xs)
      else (case cut_at c xs of None \<Rightarrow> None | Some (l, r) \<Rightarrow> Some (x # l, r)))"

fun join_with :: "char \<Rightarrow> string list \<Rightarrow> string" where
  "join_with c [] = []"
| "join_with c [s] = s"
| "join_with c (s # t # ss) = s @ c # join_with c (t # ss)"

text \<open>\<^verbatim>\<open>strings.ReplaceAll\<close> of one byte by another.\<close>

definition replace_char :: "char \<Rightarrow> char \<Rightarrow> string \<Rightarrow> string" where
  "replace_char a b s = map (\<lambda>c. if c = a then b else c) s"

section \<open>Ranging over a string: package unicode/utf8\<close>

definition rune_error :: nat where
  "rune_error = 0xFFFD"

definition cont_byte :: "nat \<Rightarrow> bool" where
  "cont_byte b = (0x80 \<le> b \<and> b \<le> 0xBF)"

text \<open>The accepted range of the second byte, which depends on the first.\<close>

definition second_ok :: "nat \<Rightarrow> nat \<Rightarrow> bool" where
  "second_ok b0 b1 =
     (if b0 = 0xE0 then 0xA0 \<le> b1 \<and> b1 \<le> 0xBF
      else if b0 = 0xED then 0x80 \<le> b1 \<and> b1 \<le> 0x9F
      else if b0 = 0xF0 then 0x90 \<le> b1 \<and> b1 \<le> 0xBF
      else if b0 = 0xF4 then 0x80 \<le> b1 \<and> b1 \<le> 0x8F
      else cont_byte b1)"

text \<open>
  \<^verbatim>\<open>utf8.DecodeRune\<close> on the bytes that follow the first one: the rune and how many bytes
  after the first it uses. An invalid encoding is the replacement rune of width one.
\<close>

definition decode_rune :: "nat \<Rightarrow> nat list \<Rightarrow> nat \<times> nat" where
  "decode_rune b0 r =
     (if b0 < 0x80 then (b0, 0)
      else if b0 < 0xC2 \<or> 0xF4 < b0 then (rune_error, 0)
      else (case r of
        [] \<Rightarrow> (rune_error, 0)
      | b1 # r1 \<Rightarrow>
          if \<not> second_ok b0 b1 then (rune_error, 0)
          else if b0 < 0xE0 then ((b0 mod 0x20) * 0x40 + b1 mod 0x40, 1)
          else (case r1 of
            [] \<Rightarrow> (rune_error, 0)
          | b2 # r2 \<Rightarrow>
              if \<not> cont_byte b2 then (rune_error, 0)
              else if b0 < 0xF0
              then ((b0 mod 0x10) * 0x1000 + (b1 mod 0x40) * 0x40 + b2 mod 0x40, 2)
              else (case r2 of
                [] \<Rightarrow> (rune_error, 0)
              | b3 # _ \<Rightarrow>
                  if \<not> cont_byte b3 then (rune_error, 0)
                  else ((b0 mod 0x08) * 0x40000 + (b1 mod 0x40) * 0x1000
                        + (b2 mod 0x40) * 0x40 + b3 mod 0x40, 3)))))"

text \<open>The runes of \<^verbatim>\<open>for _, r := range s\<close>.\<close>

fun runes :: "nat list \<Rightarrow> nat list" where
  "runes [] = []"
| "runes (b # bs) = fst (decode_rune b bs) # runes (drop (snd (decode_rune b bs)) bs)"

abbreviation bytes_of :: "string \<Rightarrow> nat list" where
  "bytes_of s \<equiv> map of_char s"

text \<open>\<^verbatim>\<open>unicode.IsControl\<close>: category Cc, which lies in Latin-1.\<close>

definition IsControl :: "nat \<Rightarrow> bool" where
  "IsControl r = (r \<le> 0x1F \<or> (0x7F \<le> r \<and> r \<le> 0x9F))"

text \<open>\<^verbatim>\<open>unicode.IsSpace\<close>, and \<^verbatim>\<open>strings.TrimSpace(s) == ""\<close>.\<close>

definition IsSpace :: "nat \<Rightarrow> bool" where
  "IsSpace r =
     ((0x09 \<le> r \<and> r \<le> 0x0D) \<or> r = 0x20 \<or> r = 0x85 \<or> r = 0xA0 \<or> r = 0x1680 \<or>
      (0x2000 \<le> r \<and> r \<le> 0x200A) \<or> r = 0x2028 \<or> r = 0x2029 \<or> r = 0x202F \<or> r = 0x205F \<or> r = 0x3000)"

text \<open>Evaluation compares integers, whose numerals are binary.\<close>

lemma IsSpace_code [code]:
  "IsSpace r =
     (let i = int r in
      (0x09 \<le> i \<and> i \<le> 0x0D) \<or> i = 0x20 \<or> i = 0x85 \<or> i = 0xA0 \<or> i = 0x1680 \<or>
      (0x2000 \<le> i \<and> i \<le> 0x200A) \<or> i = 0x2028 \<or> i = 0x2029 \<or> i = 0x202F \<or> i = 0x205F \<or> i = 0x3000)"
  by (simp add: IsSpace_def Let_def)

definition blank :: "string \<Rightarrow> bool" where
  "blank s = list_all IsSpace (runes (bytes_of s))"

text \<open>\<^verbatim>\<open>strings.ToLower\<close> of an ASCII byte, and the verb \<^verbatim>\<open>%d\<close>.\<close>

definition to_lower :: "char \<Rightarrow> char" where
  "to_lower c = (if CHR ''A'' \<le> c \<and> c \<le> CHR ''Z'' then char_of (of_char c + 32 :: nat) else c)"

fun decimal :: "nat \<Rightarrow> string" where
  "decimal n =
     (if n < 10 then [char_of (48 + n)] else decimal (n div 10) @ [char_of (48 + n mod 10)])"

declare decimal.simps [simp del]

definition sprintf_d :: "int \<Rightarrow> string" where
  "sprintf_d i = (if i < 0 then CHR ''-'' # decimal (nat (- i)) else decimal (nat i))"

text \<open>The loop \<^verbatim>\<open>character == 0 || unicode.IsControl(character)\<close> of the sources.\<close>

definition has_control :: "string \<Rightarrow> bool" where
  "has_control s = list_ex (\<lambda>r. r = 0 \<or> IsControl r) (runes (bytes_of s))"

section \<open>Package path\<close>

definition clean_step :: "bool \<Rightarrow> string list \<Rightarrow> string \<Rightarrow> string list" where
  "clean_step rooted out seg =
     (if seg = [] \<or> seg = ''.'' then out
      else if seg = ''..'' then
        (if out \<noteq> [] \<and> last out \<noteq> ''..'' then butlast out
         else if rooted then out else out @ [seg])
      else out @ [seg])"

definition path_Clean :: "string \<Rightarrow> string" where
  "path_Clean p =
     (if p = [] then ''.''
      else let rooted = (hd p = slash);
               out = foldl (clean_step rooted) [] (split_on slash p)
           in if rooted then slash # join_with slash out
              else if out = [] then ''.'' else join_with slash out)"

definition path_Dir :: "string \<Rightarrow> string" where
  "path_Dir p = path_Clean (rev (dropWhile (\<lambda>c. c \<noteq> slash) (rev p)))"

definition path_Base :: "string \<Rightarrow> string" where
  "path_Base p =
     (if p = [] then ''.''
      else let q = dropWhile (\<lambda>c. c = slash) (rev p);
               f = rev (takeWhile (\<lambda>c. c \<noteq> slash) q)
           in if f = [] then [slash] else f)"

definition path_Join :: "string list \<Rightarrow> string" where
  "path_Join elems =
     (if list_all (\<lambda>e. e = []) elems then []
      else path_Clean (join_with slash (dropWhile (\<lambda>e. e = []) elems)))"

section \<open>Lemmas on separators\<close>

lemma split_on_nonempty [simp]: "split_on c s \<noteq> []"
  by (induction s) (simp_all split: list.split)

lemma split_on_Cons_other:
  "x \<noteq> c \<Longrightarrow> split_on c (x # xs) = (x # hd (split_on c xs)) # tl (split_on c xs)"
  by (cases "split_on c xs") simp_all

lemma join_with_Cons:
  "ss \<noteq> [] \<Longrightarrow> join_with c (s # ss) = s @ c # join_with c ss"
  by (cases ss) simp_all

lemma join_with_Cons_char: "join_with c ((x # s) # ss) = x # join_with c (s # ss)"
  by (cases ss) simp_all

lemma join_split_on [simp, seg_simps]: "join_with c (split_on c s) = s"
proof (induction s)
  case (Cons x xs)
  show ?case
  proof (cases "x = c")
    case True
    with Cons show ?thesis by (simp add: join_with_Cons)
  next
    case False
    have "join_with c (split_on c (x # xs)) =
        x # join_with c (hd (split_on c xs) # tl (split_on c xs))"
      by (simp only: split_on_Cons_other [OF False] join_with_Cons_char)
    with Cons show ?thesis by simp
  qed
qed simp

lemma join_with_append:
  assumes "xs \<noteq> []" and "ys \<noteq> []"
  shows "join_with c (xs @ ys) = join_with c xs @ c # join_with c ys"
  using assms
proof (induction xs)
  case (Cons x xs)
  then show ?case by (cases "xs = []") (simp_all add: join_with_Cons)
qed simp

lemma split_on_sep_append [seg_simps]:
  "split_on c (xs @ c # ys) = split_on c xs @ split_on c ys"
proof (induction xs)
  case (Cons x xs)
  then show ?case
    by (cases "x = c") (simp_all add: split_on_Cons_other del: split_on.simps(2),
      simp_all)
qed simp

lemma split_on_plain [simp]: "c \<notin> set s \<Longrightarrow> split_on c s = [s]"
  by (induction s) auto

lemma split_join [seg_simps]:
  assumes "ss \<noteq> []" and "list_all (\<lambda>s. c \<notin> set s) ss"
  shows "split_on c (join_with c ss) = ss"
  using assms
proof (induction ss)
  case (Cons s ss)
  then show ?case
    by (cases "ss = []") (simp_all add: join_with_Cons split_on_sep_append)
qed simp

lemma sep_notin_split: "s \<in> set (split_on c t) \<Longrightarrow> c \<notin> set s"
proof (induction t arbitrary: s)
  case (Cons x xs)
  obtain u us where u: "split_on c xs = u # us"
    by (cases "split_on c xs") simp_all
  with Cons.IH [of u] have "c \<notin> set u" by simp
  with Cons u show ?case by (cases "x = c") auto
qed simp

lemma set_split_subset: "s \<in> set (split_on c t) \<Longrightarrow> set s \<subseteq> set t"
proof (induction t arbitrary: s)
  case (Cons x xs)
  obtain u us where u: "split_on c xs = u # us"
    by (cases "split_on c xs") simp_all
  with Cons.IH [of u] have "set u \<subseteq> set xs" by simp
  with Cons.IH [of s] Cons.prems u show ?case by (cases "x = c") auto
qed simp

lemma cut_at_None: "cut_at c s = None \<longleftrightarrow> c \<notin> set s"
  by (induction s) (auto split: option.splits)

lemma cut_at_append: "c \<notin> set l \<Longrightarrow> cut_at c (l @ c # r) = Some (l, r)"
  by (induction l) auto

lemma cut_at_Some: "cut_at c s = Some (l, r) \<Longrightarrow> s = l @ c # r \<and> c \<notin> set l"
  by (induction s arbitrary: l) (auto split: option.splits if_splits)

lemma HasPrefix_append: "HasPrefix s p \<longleftrightarrow> (\<exists>t. s = p @ t)"
  by (auto simp: HasPrefix_def prefix_def)

lemma TrimPrefix_append [simp]: "TrimPrefix (p @ t) p = t"
  by (simp add: TrimPrefix_def)

lemma CutPrefix_Some: "CutPrefix s p = Some t \<longleftrightarrow> s = p @ t"
  by (auto simp: CutPrefix_def prefix_def)

section \<open>Lemmas on runes\<close>

lemma decode_rune_ascii [simp]: "b < 0x80 \<Longrightarrow> decode_rune b r = (b, 0)"
  by (simp add: decode_rune_def)

lemma ascii_not_cont: "b < 0x80 \<Longrightarrow> \<not> cont_byte b \<and> \<not> second_ok b0 b"
  by (simp add: cont_byte_def second_ok_def)

lemma decode_rune_width: "snd (decode_rune b bs) \<le> length bs"
  by (auto simp: decode_rune_def split: list.splits)

text \<open>A byte below 0x80 never continues a rune, so it ends whatever stands before it.\<close>

lemma decode_rune_before_ascii:
  assumes "a < 0x80"
  shows "decode_rune b (bs @ a # cs) = decode_rune b bs"
proof -
  note a = ascii_not_cont [OF assms]
  show ?thesis
  proof (cases bs)
    case Nil
    then show ?thesis by (simp add: decode_rune_def a)
  next
    case (Cons b1 r1)
    show ?thesis
    proof (cases r1)
      case Nil
      with Cons show ?thesis by (simp add: decode_rune_def a)
    next
      case (Cons b2 r2)
      with \<open>bs = b1 # r1\<close> show ?thesis
        by (cases r2) (simp_all add: decode_rune_def a)
    qed
  qed
qed

lemma runes_append_ascii:
  "a < 0x80 \<Longrightarrow> runes (bs @ a # cs) = runes bs @ a # runes cs"
proof (induction bs rule: runes.induct)
  case (2 b bs)
  have "snd (decode_rune b bs) \<le> length bs" by (rule decode_rune_width)
  with 2 show ?case by (simp add: decode_rune_before_ascii)
qed simp

lemma has_control_Nil [simp]: "\<not> has_control []"
  by (simp add: has_control_def)

lemma has_control_sep:
  assumes "(of_char c :: nat) < 0x7F" and "0x1F < (of_char c :: nat)"
  shows "has_control (xs @ c # ys) \<longleftrightarrow> has_control xs \<or> has_control ys"
  using assms by (simp add: has_control_def runes_append_ascii IsControl_def)

lemma has_control_slash [simp]:
  "has_control (xs @ slash # ys) \<longleftrightarrow> has_control xs \<or> has_control ys"
  by (rule has_control_sep) simp_all

lemma has_control_join_sep:
  assumes "(of_char c :: nat) < 0x7F" and "0x1F < (of_char c :: nat)"
  shows "has_control (join_with c ss) \<longleftrightarrow> (\<exists>s\<in>set ss. has_control s)"
  by (induction ss rule: induct_list012) (simp_all add: has_control_sep [OF assms])

lemma has_control_join:
  "has_control (join_with slash ss) \<longleftrightarrow> (\<exists>s\<in>set ss. has_control s)"
  by (rule has_control_join_sep) simp_all

lemma has_control_split:
  "has_control s \<longleftrightarrow> (\<exists>t\<in>set (split_on slash s). has_control t)"
  using has_control_join [of "split_on slash s"] by simp

lemma replace_char_join: "replace_char a b s = join_with b (split_on a s)"
proof (induction s)
  case (Cons x xs)
  then show ?case
    by (cases "x = a")
      (simp_all add: replace_char_def join_with_Cons split_on_Cons_other join_with_Cons_char
        del: split_on.simps(2), simp_all add: join_with_Cons)
qed (simp add: replace_char_def)

lemma has_control_replace [simp]:
  "has_control (replace_char backslash slash s) = has_control s"
proof -
  have "has_control (replace_char backslash slash s) \<longleftrightarrow>
      has_control (join_with backslash (split_on backslash s))"
    unfolding replace_char_join
    by (subst has_control_join, subst has_control_join_sep) simp_all
  then show ?thesis by simp
qed

lemma replace_char_notin [simp]: "a \<noteq> b \<Longrightarrow> a \<notin> set (replace_char a b s)"
  by (auto simp: replace_char_def)

lemma replace_char_idem: "a \<notin> set s \<Longrightarrow> replace_char a b s = s"
  by (induction s) (auto simp: replace_char_def)

lemma of_char_to_lower:
  "(of_char (to_lower c) :: nat) =
     (if 65 \<le> (of_char c :: nat) \<and> (of_char c :: nat) \<le> 90 then of_char c + 32 else of_char c)"
  by (simp add: to_lower_def less_eq_char_def of_char_of)

section \<open>Lemmas on package path\<close>

text \<open>An ordinary path element: neither empty nor a dot element, and without separator.\<close>

definition plain_elem :: "string \<Rightarrow> bool" where
  "plain_elem s = (s \<noteq> [] \<and> s \<noteq> ''.'' \<and> s \<noteq> ''..'' \<and> slash \<notin> set s)"

lemma clean_step_plain [simp]: "plain_elem s \<Longrightarrow> clean_step r out s = out @ [s]"
  by (simp add: clean_step_def plain_elem_def)

lemma clean_step_Nil [simp]: "clean_step r out [] = out"
  by (simp add: clean_step_def)

lemma clean_fold_plain: "list_all plain_elem ss \<Longrightarrow> foldl (clean_step r) out ss = out @ ss"
  by (induction ss arbitrary: out) simp_all

lemma plain_no_slash: "list_all plain_elem ss \<Longrightarrow> list_all (\<lambda>s. slash \<notin> set s) ss"
  by (auto simp: list_all_iff plain_elem_def)

lemma join_plain_hd:
  "ss \<noteq> [] \<Longrightarrow> list_all plain_elem ss \<Longrightarrow>
    join_with slash ss \<noteq> [] \<and> hd (join_with slash ss) \<noteq> slash"
  by (cases ss rule: remdups_adj.cases; cases "hd ss") (auto simp: plain_elem_def)

lemma path_Clean_plain:
  "ss \<noteq> [] \<Longrightarrow> list_all plain_elem ss \<Longrightarrow> path_Clean (join_with slash ss) = join_with slash ss"
  by (simp add: path_Clean_def Let_def join_plain_hd split_join plain_no_slash clean_fold_plain)

lemma path_Clean_plain_slash:
  "ss \<noteq> [] \<Longrightarrow> list_all plain_elem ss \<Longrightarrow>
    path_Clean (join_with slash ss @ [slash]) = join_with slash ss"
  by (simp add: path_Clean_def Let_def join_plain_hd split_on_sep_append split_join
      plain_no_slash clean_fold_plain)

lemma path_Clean_rooted:
  "list_all plain_elem ss \<Longrightarrow> path_Clean (slash # join_with slash ss) = slash # join_with slash ss"
  by (cases "ss = []") (simp_all add: path_Clean_def split_join plain_no_slash clean_fold_plain)

lemma dropWhile_rev_no_slash:
  "slash \<notin> set s \<Longrightarrow> dropWhile (\<lambda>c. c \<noteq> slash) (rev s @ slash # t) = slash # t"
  by (subst dropWhile_append2) auto

lemma join_with_snoc:
  "join_with c (ss @ [l]) = (if ss = [] then l else join_with c ss @ c # l)"
  by (simp add: join_with_append)

lemma path_Dir_snoc:
  assumes "list_all plain_elem ss" and "plain_elem l"
  shows "path_Dir (join_with slash (ss @ [l])) = (if ss = [] then ''.'' else join_with slash ss)"
proof -
  have l: "slash \<notin> set l" using assms(2) by (simp add: plain_elem_def)
  then have none: "dropWhile (\<lambda>c. c \<noteq> slash) (rev l) = []" by auto
  show ?thesis
    using assms(1) l
    by (simp add: none path_Dir_def join_with_snoc dropWhile_rev_no_slash path_Clean_plain_slash
        path_Clean_def [of "[]"])
qed

lemma path_Base_snoc:
  assumes "plain_elem l"
  shows "path_Base (join_with slash (ss @ [l])) = l"
proof -
  have l: "l \<noteq> []" "slash \<notin> set l" using assms by (simp_all add: plain_elem_def)
  have strip: "dropWhile (\<lambda>c. c = slash) (rev l @ t) = rev l @ t" for t
    using l by (cases l rule: rev_cases) auto
  have upto: "takeWhile (\<lambda>c. c \<noteq> slash) (rev l @ slash # t) = rev l" for t
    using l by (subst takeWhile_append2) auto
  have all: "takeWhile (\<lambda>c. c \<noteq> slash) (rev l) = rev l"
    using l by (auto intro: takeWhile_eq_all_conv [THEN iffD2])
  show ?thesis
    using l strip [of "[]"] by (simp add: upto all path_Base_def Let_def join_with_snoc strip)
qed

section \<open>Sorting with distinct keys\<close>

text \<open>
  \<^verbatim>\<open>slices.SortFunc\<close> is not stable. Where the keys are distinct the sorted list is the only
  sorted permutation, whatever order the elements came in.
\<close>

lemma filter_key_single:
  "distinct (map f xs) \<Longrightarrow> x \<in> set xs \<Longrightarrow> filter (\<lambda>y. f x = f y) xs = [x]"
  by (induction xs) (auto simp: image_iff filter_empty_conv)

lemma sort_key_unique:
  assumes "distinct (map f xs)" and "mset ys = mset xs" and "sorted (map f ys)"
  shows "sort_key f xs = ys"
proof (rule properties_for_sort_key [OF assms(2) _ assms(3)])
  fix k assume k: "k \<in> set ys"
  from assms(2) have "set ys = set xs" by (rule mset_eq_setD)
  moreover from assms(1,2) have "distinct (map f ys)"
    by (metis mset_map mset_eq_imp_distinct_iff)
  ultimately show "filter (\<lambda>x. f k = f x) ys = filter (\<lambda>x. f k = f x) xs"
    using k assms(1) by (simp add: filter_key_single)
qed

lemma sort_key_perm:
  "distinct (map f xs) \<Longrightarrow> mset xs = mset ys \<Longrightarrow> sort_key f xs = sort_key f ys"
  by (rule sort_key_unique) simp_all

lemma sorted_distinct_strict: "sorted xs \<Longrightarrow> distinct xs \<Longrightarrow> sorted_wrt (<) xs"
  by (simp add: strict_sorted_iff)

end
