(* ===== verification/Go_Errors.thy ===== *)
theory Go_Errors
  imports FS_Prelude
begin

text \<open>
  Errors, results and contexts: \<^verbatim>\<open>src/errors.go\<close>, with the error trees that
  \<^verbatim>\<open>fmt.Errorf\<close>, \<^verbatim>\<open>errors.Join\<close> and the typed errors of the sources build and the
  classification \<^verbatim>\<open>errors.Is\<close> that the clients use.

  A Go function that returns a value and an error is a function into \<open>res\<close>: \<open>Ok\<close>, \<open>Err\<close>
  or \<open>Panic\<close>. The text of a message is kept unformatted (the format string and its
  operands), since the code only ever classifies errors.
\<close>

section \<open>Vocabulary of errors.go and capability.go\<close>

datatype capability =
    CapabilityRead | CapabilityWrite | CapabilityDelete | CapabilityList | CapabilityStat
  | CapabilityCopy | CapabilityMove | CapabilityRangeRead | CapabilityMetadata
  | CapabilityChecksum | CapabilityTemporaryURL | CapabilityVisibility | CapabilityMultipart
  | CapabilityStreamingWrite
  | CapabilityNamed string \<comment> \<open>any other value of the string type\<close>

datatype operation =
    OperationRead | OperationWrite | OperationDelete | OperationList | OperationStat
  | OperationCopy | OperationMove | OperationRangeRead | OperationSetMetadata
  | OperationChecksum | OperationTemporaryURL | OperationVisibility | OperationSetVisibility

datatype errno = ENOENT | EEXIST | ENOTEMPTY | ENOTDIR | EISDIR | EINVAL | ENOSYS | EOPNOTSUPP

datatype sentinel =
    ErrContextRequired | ErrUnsupportedCapability | ErrNotFound | ErrAlreadyExists
  | ErrInvalidRange | ErrPreconditionFailed | ErrPartialWrite | ErrResourceLimit
  | ErrInvalidPath \<comment> \<open>path.go\<close>
  | ContextCanceled | ContextDeadlineExceeded
  | FsErrNotExist | FsErrExist | FsErrInvalid | FsErrClosed
  | IoEOF | IoErrUnexpectedEOF | NetErrClosed
  | Errno errno
  | Package_error string \<comment> \<open>a sentinel of another package, by its name\<close>

datatype farg = FStr string | FInt int

datatype err =
    Sentinel sentinel
  | New string \<comment> \<open>\<^verbatim>\<open>errors.New\<close> at the point of failure\<close>
  | Errorf string "farg list" "err list" \<comment> \<open>format, operands, the \<^verbatim>\<open>%w\<close> operands\<close>
  | Joined "err list"
  | CapabilityError string capability operation
  | PathError string string err \<comment> \<open>\<^verbatim>\<open>fs.PathError\<close>\<close>
  | LinkError string string string err \<comment> \<open>\<^verbatim>\<open>os.LinkError\<close>\<close>
  | NetOpError string \<comment> \<open>\<^verbatim>\<open>net.OpError\<close>\<close>
  | CodedError string \<comment> \<open>an error that carries a service code\<close>
  | Sanitized err string \<comment> \<open>\<^verbatim>\<open>redact.sanitizedError\<close>\<close>

section \<open>Classification\<close>

text \<open>A \<^verbatim>\<open>syscall.Errno\<close> also matches the portable sentinel of its class.\<close>

fun sentinel_is :: "sentinel \<Rightarrow> sentinel \<Rightarrow> bool" where
  "sentinel_is (Errno e) t =
     (t = Errno e \<or> (e = ENOENT \<and> t = FsErrNotExist)
      \<or> ((e = EEXIST \<or> e = ENOTEMPTY) \<and> t = FsErrExist))"
| "sentinel_is s t = (s = t)"

fun errors_is :: "err \<Rightarrow> sentinel \<Rightarrow> bool" where
  "errors_is (Sentinel s) t = sentinel_is s t"
| "errors_is (New _) t = False"
| "errors_is (Errorf _ _ es) t = list_ex (\<lambda>e. errors_is e t) es"
| "errors_is (Joined es) t = list_ex (\<lambda>e. errors_is e t) es"
| "errors_is (CapabilityError _ _ _) t = (t = ErrUnsupportedCapability)"
| "errors_is (PathError _ _ e) t = errors_is e t"
| "errors_is (LinkError _ _ _ e) t = errors_is e t"
| "errors_is (NetOpError _) t = False"
| "errors_is (CodedError _) t = False"
| "errors_is (Sanitized e _) t = errors_is e t"

text \<open>\<^verbatim>\<open>errors.Is(err, target)\<close> on an error that may be nil.\<close>

fun opt_is :: "err option \<Rightarrow> sentinel \<Rightarrow> bool" where
  "opt_is None t = False"
| "opt_is (Some e) t = errors_is e t"

text \<open>\<^verbatim>\<open>errors.As\<close> with an error that carries a code: the code of the first one in the tree.\<close>

fun error_code :: "err \<Rightarrow> string option" and first_code :: "err list \<Rightarrow> string option" where
  "error_code (CodedError code) = Some code"
| "error_code (Errorf _ _ es) = first_code es"
| "error_code (Joined es) = first_code es"
| "error_code (PathError _ _ e) = error_code e"
| "error_code (LinkError _ _ _ e) = error_code e"
| "error_code (Sanitized e _) = error_code e"
| "error_code _ = None"
| "first_code [] = None"
| "first_code (e # es) = (case error_code e of Some c \<Rightarrow> Some c | None \<Rightarrow> first_code es)"

text \<open>An error of \<^verbatim>\<open>net.OpError\<close> anywhere in the tree, for \<^verbatim>\<open>errors.As\<close>.\<close>

fun is_net_error :: "err \<Rightarrow> bool" where
  "is_net_error (NetOpError _) = True"
| "is_net_error (Errorf _ _ es) = list_ex is_net_error es"
| "is_net_error (Joined es) = list_ex is_net_error es"
| "is_net_error (PathError _ _ e) = is_net_error e"
| "is_net_error (LinkError _ _ _ e) = is_net_error e"
| "is_net_error (Sanitized e _) = is_net_error e"
| "is_net_error _ = False"

definition errors_Join :: "err option list \<Rightarrow> err option" where
  "errors_Join es =
     (case List.map_filter (\<lambda>e. e) es of [] \<Rightarrow> None | xs \<Rightarrow> Some (Joined xs))"

definition Unsupported :: "string \<Rightarrow> capability \<Rightarrow> operation \<Rightarrow> err" where
  "Unsupported adapter capability operation = CapabilityError adapter capability operation"

section \<open>Results\<close>

datatype 'a res = Ok 'a | Err err | Panic err

fun bind_res :: "'a res \<Rightarrow> ('a \<Rightarrow> 'b res) \<Rightarrow> 'b res" where
  "bind_res (Ok x) f = f x"
| "bind_res (Err e) f = Err e"
| "bind_res (Panic m) f = Panic m"

fun err_of :: "'a res \<Rightarrow> err option" where
  "err_of (Err e) = Some e"
| "err_of _ = None"

fun is_panic :: "'a res \<Rightarrow> bool" where
  "is_panic (Panic _) = True"
| "is_panic _ = False"

fun fails_with :: "'a res \<Rightarrow> sentinel \<Rightarrow> bool" where
  "fails_with (Err e) t = errors_is e t"
| "fails_with _ t = False"

section \<open>Contexts\<close>

text \<open>
  A context is observed by polling (\<^verbatim>\<open>ctx.Err()\<close>, \<^verbatim>\<open>ctx.Done()\<close> in a select with a
  default). What an operation sees is a sequence of answers that is nil up to the moment of
  cancellation and the same error after it, so a context is the number of polls it stays
  live for and the error it then reports. Threading it through an operation covers every
  moment at which the cancellation can arrive.
\<close>

datatype ctx = Background | CancelAfter nat sentinel

fun ctx_Err :: "ctx \<Rightarrow> err option \<times> ctx" where
  "ctx_Err Background = (None, Background)"
| "ctx_Err (CancelAfter 0 s) = (Some (Sentinel s), CancelAfter 0 s)"
| "ctx_Err (CancelAfter (Suc n) s) = (None, CancelAfter n s)"

fun ctx_done :: "ctx \<Rightarrow> bool" where
  "ctx_done (CancelAfter 0 _) = True"
| "ctx_done _ = False"

text \<open>How many polls a context answers with nil: \<open>None\<close> when it is never cancelled.\<close>

fun ctx_budget :: "ctx \<Rightarrow> nat option" where
  "ctx_budget Background = None"
| "ctx_budget (CancelAfter n _) = Some n"

section \<open>Lemmas\<close>

lemma errors_is_Errorf_single [simp]:
  "errors_is (Errorf f as [e]) t = errors_is e t"
  by simp

lemma errors_Join_None_iff: "errors_Join es = None \<longleftrightarrow> (\<forall>e\<in>set es. e = None)"
  by (induction es)
    (auto simp: errors_Join_def List.map_filter_def split: list.splits option.splits)

lemma errors_is_Join:
  "opt_is (errors_Join es) t \<longleftrightarrow> (\<exists>e\<in>set es. opt_is e t)"
proof -
  have "list_ex (\<lambda>e. errors_is e t) (List.map_filter (\<lambda>e. e) es) \<longleftrightarrow> (\<exists>e\<in>set es. opt_is e t)"
    by (induction es) (auto simp: List.map_filter_def split: option.splits)
  then show ?thesis
    by (cases "List.map_filter (\<lambda>e. e) es") (simp_all add: errors_Join_def)
qed

lemma ctx_Err_cases:
  "ctx_Err c = (if ctx_done c then (Some (Sentinel (case c of CancelAfter _ s \<Rightarrow> s | _ \<Rightarrow> IoEOF)), c)
     else (None, snd (ctx_Err c)))"
  by (cases c rule: ctx_Err.cases) simp_all

lemma ctx_Err_done [simp]: "ctx_done c \<Longrightarrow> snd (ctx_Err c) = c"
  by (cases c rule: ctx_Err.cases) simp_all

lemma ctx_Err_None_iff: "fst (ctx_Err c) = None \<longleftrightarrow> \<not> ctx_done c"
  by (cases c rule: ctx_Err.cases) simp_all

lemma bind_res_Ok_iff: "bind_res r f = Ok y \<longleftrightarrow> (\<exists>x. r = Ok x \<and> f x = Ok y)"
  by (cases r) simp_all

end
