(* ===== verification/Capability_Sets.thy ===== *)
theory Capability_Sets
  imports Go_Errors
begin

text \<open>
  Capability sets: \<^verbatim>\<open>src/capability.go\<close>. A set keeps its members twice, as the list of
  declared values and as an index; the lemmas show that the two always agree, that
  duplicates keep their first position and that an unknown capability panics.
\<close>

section \<open>Definitions\<close>

definition knownCapabilities :: "capability set" where
  "knownCapabilities =
     {CapabilityRead, CapabilityWrite, CapabilityDelete, CapabilityList, CapabilityStat,
      CapabilityCopy, CapabilityMove, CapabilityRangeRead, CapabilityMetadata,
      CapabilityChecksum, CapabilityTemporaryURL, CapabilityVisibility, CapabilityMultipart,
      CapabilityStreamingWrite}"

record CapabilitySet =
  cs_values :: "capability list"
  cs_index :: "capability set"

fun new_capability_loop ::
  "capability list \<Rightarrow> capability list \<Rightarrow> capability set \<Rightarrow> CapabilitySet res" where
  "new_capability_loop [] vs ix = Ok \<lparr>cs_values = vs, cs_index = ix\<rparr>"
| "new_capability_loop (c # cs) vs ix =
     (if c \<notin> knownCapabilities then Panic (Errorf ''filesystem: unknown capability %q'' [] [])
      else if c \<in> ix then new_capability_loop cs vs ix
      else new_capability_loop cs (vs @ [c]) (insert c ix))"

definition NewCapabilitySet :: "capability list \<Rightarrow> CapabilitySet res" where
  "NewCapabilitySet cs = new_capability_loop cs [] {}"

definition Supports :: "CapabilitySet \<Rightarrow> capability \<Rightarrow> bool" where
  "Supports s c = (c \<in> cs_index s)"

definition CapabilitySet_List :: "CapabilitySet \<Rightarrow> capability list" where
  "CapabilitySet_List s = cs_values s"

text \<open>The representation invariant, and the order a set is expected to have.\<close>

definition capset_ok :: "CapabilitySet \<Rightarrow> bool" where
  "capset_ok s =
     (distinct (cs_values s) \<and> cs_index s = set (cs_values s)
      \<and> cs_index s \<subseteq> knownCapabilities)"

definition first_occurrences :: "'a list \<Rightarrow> 'a list" where
  "first_occurrences xs = rev (remdups (rev xs))"

section \<open>Lemmas\<close>

lemma first_occurrences_snoc:
  "first_occurrences (xs @ [x]) =
     (if x \<in> set xs then first_occurrences xs else first_occurrences xs @ [x])"
  by (simp add: first_occurrences_def)

lemma new_capability_loop_first:
  assumes "set cs \<subseteq> knownCapabilities"
  shows "new_capability_loop cs (first_occurrences ds) (set ds) =
    Ok \<lparr>cs_values = first_occurrences (ds @ cs), cs_index = set (ds @ cs)\<rparr>"
  using assms
proof (induction cs arbitrary: ds)
  case (Cons c cs)
  from Cons.prems have c: "c \<in> knownCapabilities" and cs: "set cs \<subseteq> knownCapabilities"
    by auto
  show ?case
  proof (cases "c \<in> set ds")
    case True
    then have "first_occurrences (ds @ [c]) = first_occurrences ds" "set (ds @ [c]) = set ds"
      by (auto simp: first_occurrences_snoc)
    with Cons.IH [OF cs, of "ds @ [c]"] True c show ?thesis by simp
  next
    case False
    then have "first_occurrences (ds @ [c]) = first_occurrences ds @ [c]"
      by (simp add: first_occurrences_snoc)
    with Cons.IH [OF cs, of "ds @ [c]"] False c show ?thesis by simp
  qed
qed simp

lemma new_capability_loop_panic:
  "\<not> set cs \<subseteq> knownCapabilities \<Longrightarrow>
    new_capability_loop cs vs ix = Panic (Errorf ''filesystem: unknown capability %q'' [] [])"
  by (induction cs arbitrary: vs ix) auto

lemma NewCapabilitySet_eq:
  "NewCapabilitySet cs =
     (if set cs \<subseteq> knownCapabilities
      then Ok \<lparr>cs_values = first_occurrences cs, cs_index = set cs\<rparr>
      else Panic (Errorf ''filesystem: unknown capability %q'' [] []))"
  using new_capability_loop_first [of cs "[]"] new_capability_loop_panic [of cs]
  by (auto simp: NewCapabilitySet_def first_occurrences_def)

lemma set_first_occurrences [simp]: "set (first_occurrences xs) = set xs"
  by (simp add: first_occurrences_def)

lemma distinct_first_occurrences [simp]: "distinct (first_occurrences xs)"
  by (simp add: first_occurrences_def)

lemma NewCapabilitySet_ok: "NewCapabilitySet cs = Ok s \<Longrightarrow> capset_ok s"
  by (auto simp: NewCapabilitySet_eq capset_ok_def split: if_splits)

lemma Supports_iff: "capset_ok s \<Longrightarrow> Supports s c \<longleftrightarrow> c \<in> set (CapabilitySet_List s)"
  by (simp add: Supports_def CapabilitySet_List_def capset_ok_def)

end
