(* ===== verification/Logical_Path.thy ===== *)
theory Logical_Path
  imports Go_Errors
begin

text \<open>
  Logical paths: \<^verbatim>\<open>src/path.go\<close>. \<open>wf_path\<close> states what the documentation of \<^verbatim>\<open>Path\<close>
  promises of every value; the lemmas show that \<open>ParsePath\<close> establishes it, that parsing a
  normalized path changes nothing, and how \<open>Dir\<close>, \<open>Base\<close> and \<open>Join\<close> act on the segments.
\<close>

section \<open>Definitions\<close>

record path =
  pvalue :: string

definition Root :: path where
  "Root = \<lparr>pvalue = []\<rparr>"

definition hasWindowsVolume :: "string \<Rightarrow> bool" where
  "hasWindowsVolume v =
     (case v of
        c0 # c1 # _ \<Rightarrow>
          c1 = CHR '':'' \<and>
          ((CHR ''A'' \<le> c0 \<and> c0 \<le> CHR ''Z'') \<or> (CHR ''a'' \<le> c0 \<and> c0 \<le> CHR ''z''))
      | _ \<Rightarrow> False)"

definition invalidPath :: "string \<Rightarrow> string \<Rightarrow> err" where
  "invalidPath v reason = Errorf ''%w %q: %s'' [FStr v, FStr reason] [Sentinel ErrInvalidPath]"

text \<open>The loop of \<open>ParsePath\<close> over the segments.\<close>

fun normalize_segments :: "string \<Rightarrow> string list \<Rightarrow> string list \<Rightarrow> string list res" where
  "normalize_segments v acc [] = Ok acc"
| "normalize_segments v acc (seg # segs) =
     (if seg = ''..'' then Err (invalidPath v ''parent segment'')
      else if seg \<noteq> [] \<and> seg \<noteq> ''.'' then normalize_segments v (acc @ [seg]) segs
      else normalize_segments v acc segs)"

definition ParsePath :: "string \<Rightarrow> path res" where
  "ParsePath v =
     (if v = [] then Err (invalidPath v ''path is empty'')
      else if HasPrefix v [backslash, backslash] \<or> hasWindowsVolume v
      then Err (invalidPath v ''platform-specific path'')
      else if has_control v then Err (invalidPath v ''control character'')
      else let v' = replace_char backslash slash v in
        bind_res (normalize_segments v' [] (split_on slash v'))
          (\<lambda>normalized.
             if normalized = [] then Err (invalidPath v' ''path has no segments'')
             else let normalizedValue = join_with slash normalized in
               if hasWindowsVolume normalizedValue
               then Err (invalidPath v' ''platform-specific path'')
               else Ok \<lparr>pvalue = normalizedValue\<rparr>))"

definition MustParsePath :: "string \<Rightarrow> path res" where
  "MustParsePath v = (case ParsePath v of Err e \<Rightarrow> Panic e | r \<Rightarrow> r)"

definition Path_String :: "path \<Rightarrow> string" where
  "Path_String p = pvalue p"

definition IsRoot :: "path \<Rightarrow> bool" where
  "IsRoot p = (pvalue p = [])"

definition Path_Base :: "path \<Rightarrow> string" where
  "Path_Base p = path_Base (pvalue p)"

definition Path_Dir :: "path \<Rightarrow> path" where
  "Path_Dir p =
     (let directory = path_Dir (pvalue p)
      in if directory = ''.'' then \<lparr>pvalue = []\<rparr> else \<lparr>pvalue = directory\<rparr>)"

definition Path_Join :: "path \<Rightarrow> string \<Rightarrow> path res" where
  "Path_Join p relative =
     bind_res (ParsePath relative)
       (\<lambda>joined. if pvalue p = [] then Ok joined
          else ParsePath (pvalue p @ slash # pvalue joined))"

text \<open>Well-formed segments and paths.\<close>

definition segment_ok :: "string \<Rightarrow> bool" where
  "segment_ok s =
     (s \<noteq> [] \<and> s \<noteq> ''.'' \<and> s \<noteq> ''..'' \<and> slash \<notin> set s \<and> backslash \<notin> set s \<and> \<not> has_control s)"

definition segments :: "path \<Rightarrow> string list" where
  "segments p = (if pvalue p = [] then [] else split_on slash (pvalue p))"

definition wf_path :: "path \<Rightarrow> bool" where
  "wf_path p = (list_all segment_ok (segments p) \<and> \<not> hasWindowsVolume (pvalue p))"

section \<open>Parsing\<close>

lemma path_eta [simp]: "\<lparr>pvalue = pvalue p\<rparr> = p"
  by (cases p) simp

lemma normalize_segments_eq:
  "normalize_segments v acc segs =
     (if ''..'' \<in> set segs then Err (invalidPath v ''parent segment'')
      else Ok (acc @ filter (\<lambda>s. s \<noteq> [] \<and> s \<noteq> ''.'') segs))"
  by (induction segs arbitrary: acc) auto

text \<open>The segments \<open>ParsePath\<close> keeps of its argument.\<close>

abbreviation kept_segments :: "string \<Rightarrow> string list" where
  "kept_segments v \<equiv>
     filter (\<lambda>s. s \<noteq> [] \<and> s \<noteq> ''.'') (split_on slash (replace_char backslash slash v))"

lemma ParsePath_Ok_iff:
  "ParsePath v = Ok p \<longleftrightarrow>
     \<not> HasPrefix v [backslash, backslash] \<and> \<not> hasWindowsVolume v \<and> \<not> has_control v \<and>
     ''..'' \<notin> set (split_on slash (replace_char backslash slash v)) \<and>
     kept_segments v \<noteq> [] \<and> \<not> hasWindowsVolume (join_with slash (kept_segments v)) \<and>
     p = \<lparr>pvalue = join_with slash (kept_segments v)\<rparr>"
  by (auto simp: ParsePath_def normalize_segments_eq replace_char_def Let_def)

lemma ParsePath_never_panics: "ParsePath v \<noteq> Panic e"
  by (simp add: ParsePath_def normalize_segments_eq Let_def)

lemma ParsePath_error_kind: "ParsePath v = Err e \<Longrightarrow> errors_is e ErrInvalidPath"
  by (auto simp: ParsePath_def normalize_segments_eq Let_def invalidPath_def split: if_splits)

lemma kept_segment_ok:
  assumes "\<not> has_control v" and "s \<in> set (kept_segments v)"
    and "''..'' \<notin> set (split_on slash (replace_char backslash slash v))"
  shows "segment_ok s"
proof -
  let ?r = "replace_char backslash slash v"
  from assms(2) have s: "s \<in> set (split_on slash ?r)" and ne: "s \<noteq> []" "s \<noteq> ''.''" by auto
  from s assms(3) have "s \<noteq> ''..''" by auto
  moreover from s have "slash \<notin> set s" by (rule sep_notin_split)
  moreover from set_split_subset [OF s] have "backslash \<notin> set s"
    using replace_char_notin [of backslash slash v] by auto
  moreover from s assms(1) has_control_split [of ?r] have "\<not> has_control s" by auto
  ultimately show ?thesis using ne by (simp add: segment_ok_def)
qed

lemma list_all_no_slash: "list_all segment_ok ss \<Longrightarrow> list_all (\<lambda>s. slash \<notin> set s) ss"
  by (auto simp: list_all_iff segment_ok_def)

lemma join_ok_nonempty:
  "ss \<noteq> [] \<Longrightarrow> list_all segment_ok ss \<Longrightarrow> join_with slash ss \<noteq> []"
  by (cases ss rule: remdups_adj.cases) (auto simp: segment_ok_def)

lemma segments_Nil [simp]: "segments \<lparr>pvalue = []\<rparr> = []"
  by (simp add: segments_def)

lemma segments_join:
  "list_all segment_ok ss \<Longrightarrow> segments \<lparr>pvalue = join_with slash ss\<rparr> = ss"
  by (cases "ss = []") (simp_all add: segments_def join_ok_nonempty split_join list_all_no_slash)

lemma join_segments: "join_with slash (segments p) = pvalue p"
  by (simp add: segments_def)

lemma segments_eq_iff: "segments p = segments q \<longleftrightarrow> p = q"
  by (metis (full_types) join_segments path.equality unit.exhaust)

lemma ParsePath_wf:
  assumes "ParsePath v = Ok p"
  shows "wf_path p" and "\<not> IsRoot p"
proof -
  from assms have ok: "list_all segment_ok (kept_segments v)"
    by (auto simp: ParsePath_Ok_iff list_all_iff simp del: set_filter intro: kept_segment_ok)
  with assms show "wf_path p"
    by (simp add: ParsePath_Ok_iff wf_path_def segments_join)
  from assms ok show "\<not> IsRoot p"
    by (auto simp: ParsePath_Ok_iff IsRoot_def dest: join_ok_nonempty)
qed

lemma filter_segments_ok:
  "list_all segment_ok ss \<Longrightarrow> filter (\<lambda>s. s \<noteq> [] \<and> s \<noteq> ''.'') ss = ss"
  by (auto simp: list_all_iff segment_ok_def intro: filter_True)

lemma split_replace_join:
  assumes "list_all segment_ok ss" and "ss \<noteq> []"
  shows "split_on slash (replace_char backslash slash (join_with slash ss)) = ss"
proof -
  have "backslash \<notin> set (join_with slash ss)"
    using assms by (induction ss rule: induct_list012) (auto simp: segment_ok_def)
  then show ?thesis
    using assms by (simp add: replace_char_idem split_join list_all_no_slash)
qed

lemma not_unc_join:
  "list_all segment_ok ss \<Longrightarrow> \<not> HasPrefix (join_with slash ss) [backslash, backslash]"
  by (cases ss rule: remdups_adj.cases)
    (auto simp: segment_ok_def HasPrefix_def prefix_def append_eq_Cons_conv Cons_eq_append_conv)

lemma ParsePath_join:
  assumes "list_all segment_ok ss" and "ss \<noteq> []"
    and "\<not> hasWindowsVolume (join_with slash ss)"
  shows "ParsePath (join_with slash ss) = Ok \<lparr>pvalue = join_with slash ss\<rparr>"
proof -
  have "''..'' \<notin> set ss" and "\<not> has_control (join_with slash ss)"
    using assms(1) by (auto simp: list_all_iff segment_ok_def has_control_join)
  then show ?thesis
    using assms by (simp add: ParsePath_Ok_iff split_replace_join filter_segments_ok not_unc_join)
qed

lemma ParsePath_String:
  assumes "wf_path p" and "\<not> IsRoot p"
  shows "ParsePath (Path_String p) = Ok p"
proof -
  from assms have "segments p \<noteq> []" by (simp add: segments_def IsRoot_def)
  with assms ParsePath_join [of "segments p"] show ?thesis
    by (simp add: join_segments wf_path_def Path_String_def)
qed

lemma MustParsePath_String:
  "wf_path p \<Longrightarrow> \<not> IsRoot p \<Longrightarrow> MustParsePath (Path_String p) = Ok p"
  by (simp add: MustParsePath_def ParsePath_String)

section \<open>Relations between paths\<close>

lemma segment_ok_plain: "segment_ok s \<Longrightarrow> plain_elem s"
  by (simp add: segment_ok_def plain_elem_def)

lemma segments_plain: "list_all segment_ok ss \<Longrightarrow> list_all plain_elem ss"
  by (auto simp: list_all_iff segment_ok_plain)

lemma hasWindowsVolume_slash [simp]:
  "a \<noteq> [] \<Longrightarrow> hasWindowsVolume (a @ slash # b) = hasWindowsVolume a"
  by (cases a rule: remdups_adj.cases) (simp_all add: hasWindowsVolume_def)

lemma hasWindowsVolume_Nil [simp]: "\<not> hasWindowsVolume []"
  by (simp add: hasWindowsVolume_def)

text \<open>The path with the segments of \<open>p\<close> followed by those of \<open>q\<close>.\<close>

definition path_append :: "path \<Rightarrow> path \<Rightarrow> path" where
  "path_append p q = \<lparr>pvalue = join_with slash (segments p @ segments q)\<rparr>"

lemma pvalue_append:
  "pvalue (path_append p q) =
     (if IsRoot p then pvalue q else if IsRoot q then pvalue p
      else pvalue p @ slash # pvalue q)"
  by (simp add: path_append_def segments_def IsRoot_def join_with_append)

lemma wf_pathD: "wf_path p \<Longrightarrow> list_all segment_ok (segments p)"
  by (simp add: wf_path_def)

lemma segments_append:
  "wf_path p \<Longrightarrow> wf_path q \<Longrightarrow> segments (path_append p q) = segments p @ segments q"
  by (simp add: path_append_def segments_join wf_path_def)

lemma wf_path_append: "wf_path p \<Longrightarrow> wf_path q \<Longrightarrow> wf_path (path_append p q)"
  using segments_append [of p q]
  by (auto simp: wf_path_def pvalue_append IsRoot_def)

lemma IsRoot_segments: "IsRoot p \<longleftrightarrow> segments p = []"
  by (simp add: IsRoot_def segments_def)

lemma ParsePath_append:
  assumes "wf_path p" "wf_path q" "\<not> IsRoot p" "\<not> IsRoot q"
  shows "ParsePath (Path_String p @ slash # Path_String q) = Ok (path_append p q)"
proof -
  have "\<not> IsRoot (path_append p q)"
    using assms by (simp add: pvalue_append IsRoot_def)
  from ParsePath_String [OF wf_path_append [OF assms(1,2)] this] assms(3,4) show ?thesis
    by (simp add: Path_String_def pvalue_append)
qed

lemma Path_Join_eq:
  assumes "wf_path p" and "ParsePath r = Ok q"
  shows "Path_Join p r = Ok (path_append p q)"
proof (cases "IsRoot p")
  case True
  then show ?thesis
    using assms by (simp add: Path_Join_def path_append_def IsRoot_def segments_def)
next
  case False
  with ParsePath_append [OF assms(1) ParsePath_wf(1) [OF assms(2)] _ ParsePath_wf(2) [OF assms(2)]]
  show ?thesis
    using assms(2) by (simp add: Path_Join_def Path_String_def IsRoot_def)
qed

lemma segments_snoc:
  assumes "\<not> IsRoot p"
  obtains ss l where "segments p = ss @ [l]"
  using assms by (cases "segments p" rule: rev_cases) (auto simp: IsRoot_segments)

lemma Path_Dir_segments:
  assumes "wf_path p"
  shows "segments (Path_Dir p) = butlast (segments p)" and "wf_path (Path_Dir p)"
proof -
  have "segments (Path_Dir p) = butlast (segments p) \<and> wf_path (Path_Dir p)"
  proof (cases "IsRoot p")
    case True
    then show ?thesis
      by (simp add: Path_Dir_def IsRoot_def path_Dir_def path_Clean_def segments_def wf_path_def)
  next
    case False
    then obtain ss l where p: "segments p = ss @ [l]" by (rule segments_snoc)
    with assms have ok: "list_all segment_ok ss" "segment_ok l" by (simp_all add: wf_path_def)
    have v: "pvalue p = join_with slash (ss @ [l])" by (metis join_segments p)
    have vol: "ss \<noteq> [] \<Longrightarrow> \<not> hasWindowsVolume (join_with slash ss)"
      using assms ok by (simp add: wf_path_def v join_with_snoc join_ok_nonempty)
    have "join_with slash ss \<noteq> ''.''" if "ss \<noteq> []"
    proof
      assume "join_with slash ss = ''.''"
      then have "split_on slash ''.'' = ss"
        using that ok by (metis split_join list_all_no_slash)
      with ok show False by (auto simp: segment_ok_def)
    qed
    then have "Path_Dir p = \<lparr>pvalue = join_with slash ss\<rparr>"
      using path_Dir_snoc [of ss l] ok
      by (simp add: Path_Dir_def v segments_plain segment_ok_plain)
    then show ?thesis
      using ok vol p by (cases "ss = []") (simp_all add: segments_join wf_path_def)
  qed
  then show "segments (Path_Dir p) = butlast (segments p)" and "wf_path (Path_Dir p)" by simp_all
qed

lemma Path_Base_segments:
  "wf_path p \<Longrightarrow> Path_Base p = (if IsRoot p then ''.'' else last (segments p))"
proof (cases "IsRoot p")
  case True
  then show ?thesis by (simp add: Path_Base_def IsRoot_def path_Base_def)
next
  case False
  assume "wf_path p"
  from False obtain ss l where p: "segments p = ss @ [l]" by (rule segments_snoc)
  moreover from this have "pvalue p = join_with slash (ss @ [l])" by (metis join_segments)
  ultimately show ?thesis
    using \<open>wf_path p\<close> False by (simp add: Path_Base_def path_Base_snoc wf_path_def segment_ok_plain)
qed

lemma segments_single: "segment_ok l \<Longrightarrow> segments \<lparr>pvalue = l\<rparr> = [l]"
  using segments_join [of "[l]"] by simp

section \<open>Properties\<close>

text \<open>
  (C25) What \<open>ParsePath\<close> returns is normalized, and every normalized path is returned by it:
  the values of type \<^verbatim>\<open>Path\<close> that parsing produces are exactly the non-root paths whose
  segments are non-empty, are no dot or parent segment, hold no slash, backslash or control
  rune, and that do not start with a drive letter.
\<close>

theorem ParsePath_image: "(\<exists>v. ParsePath v = Ok p) \<longleftrightarrow> wf_path p \<and> \<not> IsRoot p"
  using ParsePath_wf ParsePath_String by blast

text \<open>
  Parsing is idempotent: the text of a parsed path parses back to the same path, so the
  panic of \<open>MustParsePath\<close> is unreachable on it.
\<close>

theorem ParsePath_idempotent:
  assumes "ParsePath v = Ok p"
  shows "ParsePath (Path_String p) = Ok p \<and> MustParsePath (Path_String p) = Ok p"
  using ParsePath_wf [OF assms] by (simp add: ParsePath_String MustParsePath_String)

theorem ParsePath_idempotent_witness:
  "ParsePath ''a//./b'' = Ok \<lparr>pvalue = ''a/b''\<rparr> \<and>
   MustParsePath ''a/b'' = Ok \<lparr>pvalue = ''a/b''\<rparr>"
proof -
  have h: "ParsePath ''a//./b'' = Ok \<lparr>pvalue = ''a/b''\<rparr>" by code_simp
  show ?thesis using h ParsePath_idempotent [OF h] by (simp add: Path_String_def)
qed

text \<open>
  \<open>Dir\<close> and \<open>Base\<close> take a well-formed non-root path apart: \<open>Dir\<close> is well formed again,
  and joining the two parts gives the path back, except that \<open>Join\<close> rejects a base that on
  its own reads as a drive letter, such as the base of \<^verbatim>\<open>dir/c:x\<close>.
\<close>

theorem Dir_Base_Join:
  assumes "wf_path p" and "\<not> IsRoot p"
  shows "wf_path (Path_Dir p) \<and>
    (if hasWindowsVolume (Path_Base p)
     then fails_with (Path_Join (Path_Dir p) (Path_Base p)) ErrInvalidPath
     else Path_Join (Path_Dir p) (Path_Base p) = Ok p)"
proof -
  from assms(2) obtain ss l where p: "segments p = ss @ [l]" by (rule segments_snoc)
  with assms have l: "segment_ok l" and base: "Path_Base p = l"
    by (simp_all add: wf_path_def Path_Base_segments)
  note dir = Path_Dir_segments [OF assms(1)]
  show ?thesis
  proof (cases "hasWindowsVolume l")
    case True
    with l have "ParsePath l = Err (invalidPath l ''platform-specific path'')"
      by (simp add: ParsePath_def segment_ok_def)
    with True dir base show ?thesis by (simp add: Path_Join_def invalidPath_def)
  next
    case False
    with l have "ParsePath l = Ok \<lparr>pvalue = l\<rparr>"
      using ParsePath_join [of "[l]"] by simp
    then have "Path_Join (Path_Dir p) l = Ok (path_append (Path_Dir p) \<lparr>pvalue = l\<rparr>)"
      by (rule Path_Join_eq [OF dir(2)])
    moreover have "path_append (Path_Dir p) \<lparr>pvalue = l\<rparr> = \<lparr>pvalue = join_with slash (ss @ [l])\<rparr>"
      by (simp add: path_append_def segments_single l dir(1) p)
    moreover have "join_with slash (ss @ [l]) = pvalue p"
      by (metis join_segments p)
    ultimately show ?thesis using False dir base by simp
  qed
qed

theorem Dir_Base_Join_witness:
  "Path_Join (Path_Dir \<lparr>pvalue = ''a/b/c''\<rparr>) (Path_Base \<lparr>pvalue = ''a/b/c''\<rparr>)
     = Ok \<lparr>pvalue = ''a/b/c''\<rparr> \<and>
   fails_with (Path_Join (Path_Dir \<lparr>pvalue = ''a/c:x''\<rparr>) (Path_Base \<lparr>pvalue = ''a/c:x''\<rparr>))
     ErrInvalidPath"
proof -
  have "wf_path \<lparr>pvalue = ''a/b/c''\<rparr>" "\<not> IsRoot \<lparr>pvalue = ''a/b/c''\<rparr>"
    "wf_path \<lparr>pvalue = ''a/c:x''\<rparr>" "\<not> IsRoot \<lparr>pvalue = ''a/c:x''\<rparr>"
    "\<not> hasWindowsVolume (Path_Base \<lparr>pvalue = ''a/b/c''\<rparr>)"
    "hasWindowsVolume (Path_Base \<lparr>pvalue = ''a/c:x''\<rparr>)"
    by code_simp+
  then show ?thesis
    using Dir_Base_Join [of "\<lparr>pvalue = ''a/b/c''\<rparr>"] Dir_Base_Join [of "\<lparr>pvalue = ''a/c:x''\<rparr>"]
    by simp
qed

text \<open>
  \<open>Join\<close> cannot escape: a successful join is well formed and its segments are those of the
  receiver followed by those of the parsed argument; it fails only with an invalid-path error.
\<close>

theorem Join_confined:
  assumes "wf_path p"
  shows "case Path_Join p r of
      Ok q \<Rightarrow> wf_path q \<and> (\<exists>x. ParsePath r = Ok x \<and> segments q = segments p @ segments x)
    | Err e \<Rightarrow> errors_is e ErrInvalidPath
    | Panic _ \<Rightarrow> False"
proof (cases "ParsePath r")
  case (Ok x)
  with assms show ?thesis
    by (simp add: Path_Join_eq ParsePath_wf wf_path_append segments_append)
next
  case (Err e)
  then show ?thesis by (simp add: Path_Join_def ParsePath_error_kind)
next
  case (Panic e)
  then show ?thesis by (simp add: ParsePath_never_panics)
qed

theorem Join_confined_witness:
  "case Path_Join \<lparr>pvalue = ''a''\<rparr> ''../b'' of
      Ok q \<Rightarrow> False | Err e \<Rightarrow> errors_is e ErrInvalidPath | Panic _ \<Rightarrow> False"
proof -
  have h: "wf_path \<lparr>pvalue = ''a''\<rparr>" by code_simp
  have "Path_Join \<lparr>pvalue = ''a''\<rparr> ''../b'' = Err (invalidPath ''../b'' ''parent segment'')"
    by code_simp
  then show ?thesis using Join_confined [OF h, of "''../b''"] by simp
qed

end
