(* ===== verification/Contracts.thy ===== *)
theory Contracts
  imports Capability_Sets Logical_Path
begin

text \<open>
  The shared vocabulary of \<^verbatim>\<open>src/contracts.go\<close>: options, metadata, entries and the
  interfaces the adapters implement. An interface value is a record of operations over the
  state of its implementation, so that a client (a decorator, the \<^verbatim>\<open>io/fs\<close> bridge) is a
  function of that record. Streams and sources are the sequence of results that their
  \<^verbatim>\<open>Read\<close> calls give.
\<close>

section \<open>Data\<close>

type_synonym time = int
type_synonym usermeta = "(string \<times> string) list option" \<comment> \<open>a Go map, \<open>None\<close> for nil\<close>

record ByteRange =
  br_Offset :: int64
  br_Length :: int64

datatype EntryKind = EntryKindNone | EntryKindFile | EntryKindDirectory

datatype Visibility =
    VisibilityUnset \<comment> \<open>the empty string\<close>
  | VisibilityPrivate | VisibilityPublic | VisibilityNamed string

datatype ChecksumAlgorithm = ChecksumMD5 | ChecksumSHA256 | ChecksumCRC32C | ChecksumNamed string

record WriteOptions =
  wo_ContentType :: string
  wo_Metadata :: usermeta
  wo_Visibility :: Visibility
  wo_IfNoneMatch :: bool

record ListOptions =
  lo_Recursive :: bool
  lo_Limit :: int64

record CopyOptions =
  co_Overwrite :: bool

record MoveOptions =
  mo_Overwrite :: bool

record TemporaryURLOptions =
  tu_DownloadName :: string
  tu_ContentType :: string

record Metadata =
  m_Path :: path
  m_Kind :: EntryKind
  m_Size :: int64
  m_Modified :: time
  m_ETag :: string
  m_ContentType :: string
  m_UserMetadata :: usermeta
  m_Visibility :: Visibility

record Entry =
  e_Path :: path
  e_Kind :: EntryKind
  e_Size :: int64
  e_Modified :: time

record Checksum =
  ck_Algorithm :: ChecksumAlgorithm
  ck_Value :: string

definition zero_Entry :: Entry where
  "zero_Entry = \<lparr>e_Path = Root, e_Kind = EntryKindNone, e_Size = 0, e_Modified = 0\<rparr>"

section \<open>Machine integers and slices\<close>

text \<open>The length of a slice as an \<^verbatim>\<open>int\<close>, the builtin \<^verbatim>\<open>min\<close>, and \<^verbatim>\<open>xs[lo:hi]\<close>.\<close>

definition go_len :: "'a list \<Rightarrow> int64" where
  "go_len xs = of_nat (length xs)"

definition go_min :: "int64 \<Rightarrow> int64 \<Rightarrow> int64" where
  "go_min a b = (if sint a < sint b then a else b)"

definition go_slice :: "'a list \<Rightarrow> int64 \<Rightarrow> int64 \<Rightarrow> 'a list res" where
  "go_slice xs lo hi =
     (if 0 \<le> sint lo \<and> sint lo \<le> sint hi \<and> sint hi \<le> int (length xs)
      then Ok (take (nat (sint hi) - nat (sint lo)) (drop (nat (sint lo)) xs))
      else Panic (New ''slice bounds out of range''))"

section \<open>Readers and streams\<close>

text \<open>
  The results of successive \<^verbatim>\<open>Read\<close> calls; when they are used up, \<^verbatim>\<open>Read\<close> reports
  \<^verbatim>\<open>io.EOF\<close>. A stream also has the result of its \<^verbatim>\<open>Close\<close>.
\<close>

type_synonym reads = "(string \<times> err option) list"

record stream =
  st_reads :: reads
  st_close :: "err option"

definition bytes_stream :: "string \<Rightarrow> stream" where
  "bytes_stream content = \<lparr>st_reads = [(content, None)], st_close = None\<rparr>"

text \<open>\<^verbatim>\<open>io.Copy\<close> into a destination that accepts every byte: what arrives, and the error.\<close>

fun io_copy :: "reads \<Rightarrow> string \<times> err option" where
  "io_copy [] = ([], None)"
| "io_copy ((chunk, None) # rs) = (let (rest, e) = io_copy rs in (chunk @ rest, e))"
| "io_copy ((chunk, Some e) # rs) = (chunk, if e = Sentinel IoEOF then None else Some e)"

text \<open>
  \<^verbatim>\<open>io.Copy\<close> from a \<^verbatim>\<open>contextReader\<close>, which polls the context before every \<^verbatim>\<open>Read\<close>,
  the one that reports the end included.
\<close>

fun context_copy :: "ctx \<Rightarrow> reads \<Rightarrow> (string \<times> err option) \<times> ctx" where
  "context_copy c [] =
     (case ctx_Err c of (e, c') \<Rightarrow> (([], e), c'))"
| "context_copy c ((chunk, er) # rs) =
     (case ctx_Err c of
        (Some e, c') \<Rightarrow> (([], Some e), c')
      | (None, c') \<Rightarrow>
          (case er of
             None \<Rightarrow> (case context_copy c' rs of ((rest, e), c'') \<Rightarrow> ((chunk @ rest, e), c''))
           | Some e \<Rightarrow> ((chunk, if e = Sentinel IoEOF then None else Some e), c')))"

section \<open>Errors the adapters share\<close>

definition rootPathError :: err where
  "rootPathError = Errorf ''%w: object path is root'' [] [Sentinel ErrInvalidPath]"

definition invalid_range :: "string \<Rightarrow> int64 \<Rightarrow> int64 \<Rightarrow> err" where
  "invalid_range format x y = Errorf format [FInt (sint x), FInt (sint y)] [Sentinel ErrInvalidRange]"

section \<open>Iterators\<close>

record 'i iterator_ops =
  it_Next :: "'i \<Rightarrow> bool \<times> 'i"
  it_Entry :: "'i \<Rightarrow> Entry"
  it_Err :: "'i \<Rightarrow> err option"
  it_Close :: "'i \<Rightarrow> err option \<times> 'i"

text \<open>
  The loop \<^verbatim>\<open>for it.Next() { append(it.Entry()) }\<close> of a client. An iterator need not be
  finite, so the loop may have no result.
\<close>

partial_function (option) drain ::
  "'i iterator_ops \<Rightarrow> 'i \<Rightarrow> Entry list \<Rightarrow> (Entry list \<times> 'i) option" where
  "drain ops i acc =
     (case it_Next ops i of
        (ok, i') \<Rightarrow>
          if ok then drain ops i' (acc @ [it_Entry ops i']) else Some (acc, i'))"

section \<open>The adapter interface\<close>

text \<open>
  The guard \<^verbatim>\<open>if err := ctx.Err(); err != nil { return err }\<close> in front of the rest of an
  operation.
\<close>

definition check_ctx :: "ctx \<Rightarrow> 's \<Rightarrow> (ctx \<Rightarrow> 'a res \<times> 's \<times> ctx) \<Rightarrow> 'a res \<times> 's \<times> ctx" where
  "check_ctx c s k =
     (case ctx_Err c of (Some e, c') \<Rightarrow> (Err e, s, c') | (None, c') \<Rightarrow> k c')"

text \<open>
  The operations of the interface \<^verbatim>\<open>decorator.Backend\<close> over a state \<open>'s\<close>, iterators \<open>'i\<close>
  and writers \<open>'w\<close>. An operation takes the context and returns it with the polls it made.
\<close>

type_synonym ('s, 'a) action = "'s \<Rightarrow> ctx \<Rightarrow> 'a res \<times> 's \<times> ctx"

text \<open>What a stream writer runs on the bytes of its pipe.\<close>

type_synonym 's consumer = "reads \<Rightarrow> ('s, unit) action"

record ('s, 'i, 'w) backend =
  be_Capabilities :: CapabilitySet
  be_Open :: "path \<Rightarrow> ('s, stream) action"
  be_OpenRange :: "path \<Rightarrow> ByteRange \<Rightarrow> ('s, stream) action"
  be_Write :: "path \<Rightarrow> reads \<Rightarrow> WriteOptions \<Rightarrow> ('s, Metadata) action"
  be_OpenWriter :: "path \<Rightarrow> WriteOptions \<Rightarrow> ('s, 'w) action"
  be_Delete :: "path \<Rightarrow> ('s, unit) action"
  be_List :: "path \<Rightarrow> ListOptions \<Rightarrow> ('s, 'i) action"
  be_Stat :: "path \<Rightarrow> ('s, Metadata) action"
  be_Copy :: "path \<Rightarrow> path \<Rightarrow> CopyOptions \<Rightarrow> ('s, unit) action"
  be_Move :: "path \<Rightarrow> path \<Rightarrow> MoveOptions \<Rightarrow> ('s, unit) action"
  be_SetMetadata :: "path \<Rightarrow> usermeta \<Rightarrow> ('s, unit) action"
  be_Checksum :: "path \<Rightarrow> ChecksumAlgorithm \<Rightarrow> ('s, Checksum) action"
  be_Visibility :: "path \<Rightarrow> ('s, Visibility) action"
  be_SetVisibility :: "path \<Rightarrow> Visibility \<Rightarrow> ('s, unit) action"
  be_iterator :: "'i iterator_ops"

text \<open>An operation whose result the caller drops.\<close>

definition drop_result :: "'a res \<times> 's \<times> ctx \<Rightarrow> unit res \<times> 's \<times> ctx" where
  "drop_result r = (case r of (x, s, c) \<Rightarrow> (bind_res x (\<lambda>_. Ok ()), s, c))"

text \<open>
  A client of an adapter, seen from the adapter: a sequence of requests, each under a
  context of its own. Requests of concurrent clients that the adapter serves under its lock
  are such a sequence.
\<close>

datatype request =
    ReqOpen path
  | ReqOpenRange path ByteRange
  | ReqWrite path reads WriteOptions
  | ReqOpenWriter path WriteOptions
  | ReqDelete path
  | ReqList path ListOptions
  | ReqStat path
  | ReqCopy path path CopyOptions
  | ReqMove path path MoveOptions
  | ReqSetMetadata path usermeta
  | ReqChecksum path ChecksumAlgorithm
  | ReqVisibility path
  | ReqSetVisibility path Visibility

fun run_request :: "('s, 'i, 'w) backend \<Rightarrow> request \<Rightarrow> ('s, unit) action" where
  "run_request be (ReqOpen p) s c = drop_result (be_Open be p s c)"
| "run_request be (ReqOpenRange p r) s c = drop_result (be_OpenRange be p r s c)"
| "run_request be (ReqWrite p rs opts) s c = drop_result (be_Write be p rs opts s c)"
| "run_request be (ReqOpenWriter p opts) s c = drop_result (be_OpenWriter be p opts s c)"
| "run_request be (ReqDelete p) s c = be_Delete be p s c"
| "run_request be (ReqList p opts) s c = drop_result (be_List be p opts s c)"
| "run_request be (ReqStat p) s c = drop_result (be_Stat be p s c)"
| "run_request be (ReqCopy p q opts) s c = be_Copy be p q opts s c"
| "run_request be (ReqMove p q opts) s c = be_Move be p q opts s c"
| "run_request be (ReqSetMetadata p md) s c = be_SetMetadata be p md s c"
| "run_request be (ReqChecksum p alg) s c = drop_result (be_Checksum be p alg s c)"
| "run_request be (ReqVisibility p) s c = drop_result (be_Visibility be p s c)"
| "run_request be (ReqSetVisibility p v) s c = be_SetVisibility be p v s c"

text \<open>The paths of a request.\<close>

fun request_paths :: "request \<Rightarrow> path list" where
  "request_paths (ReqOpen p) = [p]"
| "request_paths (ReqOpenRange p _) = [p]"
| "request_paths (ReqWrite p _ _) = [p]"
| "request_paths (ReqOpenWriter p _) = [p]"
| "request_paths (ReqDelete p) = [p]"
| "request_paths (ReqList p _) = [p]"
| "request_paths (ReqStat p) = [p]"
| "request_paths (ReqCopy p q _) = [p, q]"
| "request_paths (ReqMove p q _) = [p, q]"
| "request_paths (ReqSetMetadata p _) = [p]"
| "request_paths (ReqChecksum p _) = [p]"
| "request_paths (ReqVisibility p) = [p]"
| "request_paths (ReqSetVisibility p _) = [p]"

fun mutates :: "request \<Rightarrow> bool" where
  "mutates (ReqWrite _ _ _) = True"
| "mutates (ReqOpenWriter _ _) = True"
| "mutates (ReqDelete _) = True"
| "mutates (ReqCopy _ _ _) = True"
| "mutates (ReqMove _ _ _) = True"
| "mutates (ReqSetMetadata _ _) = True"
| "mutates (ReqSetVisibility _ _) = True"
| "mutates _ = False"

text \<open>Requests on parsed paths whose copy and move destinations name an object.\<close>

fun request_ok :: "request \<Rightarrow> bool" where
  "request_ok (ReqWrite p _ _) = wf_path p"
| "request_ok (ReqCopy p q _) = (wf_path p \<and> wf_path q \<and> \<not> IsRoot q)"
| "request_ok (ReqMove p q _) = (wf_path p \<and> wf_path q \<and> \<not> IsRoot q)"
| "request_ok _ = True"

inductive executes :: "('s, 'i, 'w) backend \<Rightarrow> request list \<Rightarrow> 's \<Rightarrow> 's \<Rightarrow> bool" for be where
  finish: "executes be [] s s"
| serve: "run_request be req s c = (r, t, c') \<Longrightarrow> executes be reqs t u \<Longrightarrow>
    executes be (req # reqs) s u"

inductive_simps executes_Nil [simp]: "executes be [] s t"

lemma executes_one: "executes be [req] s (fst (snd (run_request be req s c)))"
  by (cases "run_request be req s c") (auto intro: executes.intros)

lemma executes_append:
  "executes be reqs s t \<Longrightarrow> executes be reqs' t u \<Longrightarrow> executes be (reqs @ reqs') s u"
  by (induction rule: executes.induct) (auto intro: executes.intros)

lemma executes_invariant:
  assumes "executes be reqs s t" and "list_all allowed reqs" and "I s"
    and "\<And>s req c. I s \<Longrightarrow> allowed req \<Longrightarrow> I (fst (snd (run_request be req s c)))"
  shows "I t"
  using assms(1-3)
proof induction
  case (serve req s c r t c' reqs u)
  with assms(4) [of s req c] show ?case by simp
qed simp

section \<open>Lemmas on machine integers\<close>

lemma sint_go_len: "length xs < 2 ^ 63 \<Longrightarrow> sint (go_len xs) = int (length xs)"
  by (simp add: go_len_def signed_of_nat signed_take_bit_int_eq_self)

lemma sint_go_min: "sint (go_min a b) = min (sint a) (sint b)"
  by (simp add: go_min_def min_def)

lemma sint_bounds: "- (2 ^ 63) \<le> sint (w :: int64)" "sint (w :: int64) < 2 ^ 63"
  using sint_greater_eq [of w] sint_less [of w] by simp_all

lemma unat_nonnegative:
  assumes "0 \<le> sint (w :: int64)" shows "unat w = nat (sint w)"
proof -
  have "uint w = uint (word_of_int (sint w) :: int64)" by simp
  also have "\<dots> = sint w mod 2 ^ 64" by (subst uint_word_of_int) simp
  also have "\<dots> = sint w" using assms sint_bounds(2) [of w] by simp
  finally show ?thesis by (simp add: unat_eq_nat_uint)
qed

lemma sint_sub:
  "- (2 ^ 63) \<le> sint a - sint b \<Longrightarrow> sint a - sint b < 2 ^ 63 \<Longrightarrow>
    sint (a - b :: int64) = sint a - sint b"
  by (simp add: sint_word_ariths signed_take_bit_int_eq_self)

lemma sint_add:
  "- (2 ^ 63) \<le> sint a + sint b \<Longrightarrow> sint a + sint b < 2 ^ 63 \<Longrightarrow>
    sint (a + b :: int64) = sint a + sint b"
  by (simp add: sint_word_ariths signed_take_bit_int_eq_self)

lemma sint_add_wraps:
  assumes "2 ^ 63 \<le> sint a + sint (b :: int64)"
  shows "sint (a + b) = sint a + sint b - 2 ^ 64"
proof -
  have b: "sint a + sint b < 2 ^ 64" using sint_bounds(2) [of a] sint_bounds(2) [of b] by simp
  have "sint (a + b) = signed_take_bit 63 (sint a + sint b)" by (simp add: sint_word_ariths)
  also have "\<dots> = signed_take_bit 63 (sint a + sint b - 2 ^ 64)"
    by (simp add: signed_take_bit_eq_iff_take_bit_eq take_bit_eq_mod mod_diff_right_eq)
  also have "\<dots> = sint a + sint b - 2 ^ 64"
    using assms b by (intro signed_take_bit_int_eq_self) simp_all
  finally show ?thesis .
qed

lemma check_ctx_Background [simp]: "check_ctx Background s k = k Background"
  by (simp add: check_ctx_def)

lemma check_ctx_done:
  "ctx_done c \<Longrightarrow> check_ctx c s k = (Err (the (fst (ctx_Err c))), s, c)"
  by (cases c rule: ctx_Err.cases) (simp_all add: check_ctx_def)

text \<open>The answer of a context that is done.\<close>

abbreviation ctx_error :: "ctx \<Rightarrow> err" where
  "ctx_error c \<equiv> the (fst (ctx_Err c))"

lemma check_ctx_if:
  "check_ctx c s k = (if ctx_done c then (Err (ctx_error c), s, c) else k (snd (ctx_Err c)))"
  by (cases c rule: ctx_Err.cases) (simp_all add: check_ctx_def)

section \<open>Lemmas on readers\<close>

lemma context_copy_Background: "context_copy Background rs = (io_copy rs, Background)"
  by (induction rs rule: io_copy.induct) (auto split: prod.splits)

text \<open>A context that outlives the reads does not change the copy.\<close>

lemma context_copy_live:
  "length rs < n \<Longrightarrow> fst (context_copy (CancelAfter n s) rs) = io_copy rs"
proof (induction rs arbitrary: n rule: io_copy.induct)
  case 1
  then show ?case by (cases n) simp_all
next
  case (2 chunk rs)
  then obtain m where n: "n = Suc m" by (cases n) auto
  with 2 have IH: "fst (context_copy (CancelAfter m s) rs) = io_copy rs" by simp
  then show ?case
    using n by (cases "context_copy (CancelAfter m s) rs") (auto split: prod.splits)
next
  case (3 chunk e rs)
  then show ?case by (cases n) simp_all
qed

lemma context_copy_cancelled:
  "ctx_done c \<Longrightarrow> context_copy c rs = (([], fst (ctx_Err c)), c)"
  by (cases c rule: ctx_Err.cases; cases rs) auto

lemma io_copy_clean:
  "list_all (\<lambda>r. snd r = None) rs \<Longrightarrow> io_copy rs = (concat (map fst rs), None)"
  by (induction rs rule: io_copy.induct) auto

lemma context_copy_prefix:
  "context_copy c rs = ((s, e), c') \<Longrightarrow> prefix s (concat (map fst rs))"
proof (induction c rs arbitrary: s e c' rule: context_copy.induct)
  case (1 c)
  then show ?case by (auto split: prod.splits)
next
  case (2 c chunk er rs)
  obtain x d where c: "ctx_Err c = (x, d)" by (cases "ctx_Err c")
  show ?case
  proof (cases "x = None \<and> er = None")
    case True
    with 2 c show ?thesis
      by (cases "context_copy d rs") auto
  next
    case False
    with "2.prems" c show ?thesis by (cases x; cases er) auto
  qed
qed

text \<open>A copy that reports no error is the whole of the source.\<close>

lemma context_copy_complete:
  "context_copy c rs = ((s, None), c') \<Longrightarrow> io_copy rs = (s, None)"
proof (induction c rs arbitrary: s c' rule: context_copy.induct)
  case (1 c)
  then show ?case by (auto split: prod.splits)
next
  case (2 c chunk er rs)
  obtain x d where c: "ctx_Err c = (x, d)" by (cases "ctx_Err c")
  with "2.prems" have x: "x = None" by (cases x) auto
  show ?case
  proof (cases er)
    case None
    with "2.prems" c x obtain rest where "context_copy d rs = ((rest, None), c')" "s = chunk @ rest"
      by (auto split: prod.splits)
    with "2.IH" [OF c [unfolded x, symmetric] refl None] c x None show ?thesis by simp
  next
    case (Some e)
    with "2.prems" c x show ?thesis by (auto split: if_splits)
  qed
qed

lemma io_copy_bytes_stream [simp]: "io_copy (st_reads (bytes_stream s)) = (s, None)"
  by (simp add: bytes_stream_def)

end
