(* ===== verification/Iterator_Contract.thy ===== *)
theory Iterator_Contract
  imports Contracts
begin

text \<open>
  The iterator interface \<^verbatim>\<open>EntryIterator\<close> of \<^verbatim>\<open>src/contracts.go\<close> as a contract, and the
  materialized iterator of the adapters: \<^verbatim>\<open>src/memory/memory.go\<close>, type \<^verbatim>\<open>iterator\<close> (the
  packages local, s3, sftp and ftp declare the same type).
\<close>

section \<open>The materialized iterator\<close>

record slice_iterator =
  si_entries :: "Entry list"
  si_current :: Entry
  si_hasCurrent :: bool
  si_closed :: bool

definition new_iterator :: "Entry list \<Rightarrow> slice_iterator" where
  "new_iterator entries =
     \<lparr>si_entries = entries, si_current = zero_Entry, si_hasCurrent = False, si_closed = False\<rparr>"

definition iterator_Next :: "slice_iterator \<Rightarrow> bool \<times> slice_iterator" where
  "iterator_Next i =
     (if si_closed i then (False, i)
      else (case si_entries i of
        [] \<Rightarrow> (False, i)
      | e # es \<Rightarrow> (True, i\<lparr>si_current := e, si_entries := es, si_hasCurrent := True\<rparr>)))"

definition iterator_Entry :: "slice_iterator \<Rightarrow> Entry" where
  "iterator_Entry i = (if \<not> si_hasCurrent i then zero_Entry else si_current i)"

definition iterator_Err :: "slice_iterator \<Rightarrow> err option" where
  "iterator_Err i = None"

definition iterator_Close :: "slice_iterator \<Rightarrow> err option \<times> slice_iterator" where
  "iterator_Close i = (None, i\<lparr>si_closed := True\<rparr>)"

definition slice_iterator_ops :: "slice_iterator iterator_ops" where
  "slice_iterator_ops =
     \<lparr>it_Next = iterator_Next, it_Entry = iterator_Entry, it_Err = iterator_Err,
      it_Close = iterator_Close\<rparr>"

definition si_pending :: "slice_iterator \<Rightarrow> Entry list" where
  "si_pending i = (if si_closed i then [] else si_entries i)"

section \<open>The contract\<close>

text \<open>
  \<open>pending\<close> is what an iterator has still to yield and \<open>fault\<close> the error it reports after
  it. \<open>Next\<close> yields the pending entries one by one and then false, for good.
\<close>

locale entry_iterator =
  fixes ops :: "'i iterator_ops"
    and pending :: "'i \<Rightarrow> Entry list"
    and fault :: "'i \<Rightarrow> err option"
  assumes next_Nil:
      "pending i = [] \<Longrightarrow>
        \<exists>i'. it_Next ops i = (False, i') \<and> pending i' = [] \<and> it_Err ops i' = fault i \<and>
          fault i' = fault i"
    and next_Cons:
      "pending i = e # es \<Longrightarrow>
        \<exists>i'. it_Next ops i = (True, i') \<and> it_Entry ops i' = e \<and> pending i' = es \<and>
          fault i' = fault i \<and> it_Err ops i' = None"
    and close_stops: "pending (snd (it_Close ops i)) = []"
    and close_clean: "fault i = None \<Longrightarrow> fst (it_Close ops i) = None"
begin

lemma drain_total:
  "\<exists>i'. drain ops i acc = Some (acc @ pending i, i') \<and> pending i' = [] \<and>
     it_Err ops i' = fault i \<and> fault i' = fault i"
proof (induction "pending i" arbitrary: i acc)
  case Nil
  then obtain i' where "it_Next ops i = (False, i')" "pending i' = []"
      "it_Err ops i' = fault i" "fault i' = fault i"
    using next_Nil [of i] by auto
  with Nil.hyps [symmetric] show ?case by (subst drain.simps) simp
next
  case (Cons e es)
  then obtain j where j: "it_Next ops i = (True, j)" "it_Entry ops j = e" "pending j = es"
      "fault j = fault i"
    using next_Cons [of i e es] by auto
  from Cons.hyps(1) [of j "acc @ [e]"] j(3) obtain i' where
      "drain ops j (acc @ [e]) = Some ((acc @ [e]) @ es, i')" "pending i' = []"
      "it_Err ops i' = fault j" "fault i' = fault j"
    by auto
  with Cons.hyps(2) [symmetric] j show ?case by (subst drain.simps) simp
qed

lemma next_False_iff: "fst (it_Next ops i) \<longleftrightarrow> pending i \<noteq> []"
  using next_Nil [of i] next_Cons [of i] by (cases "pending i") auto

end

lemma slice_iterator_ops_simps [simp]:
  "it_Next slice_iterator_ops = iterator_Next" "it_Entry slice_iterator_ops = iterator_Entry"
  "it_Err slice_iterator_ops = iterator_Err" "it_Close slice_iterator_ops = iterator_Close"
  by (simp_all add: slice_iterator_ops_def)

lemma iterator_Err_None [simp]: "iterator_Err i = None"
  by (simp add: iterator_Err_def)

lemma iterator_Next_Nil: "si_pending i = [] \<Longrightarrow> iterator_Next i = (False, i)"
  by (simp add: iterator_Next_def si_pending_def split: if_splits)

lemma iterator_Next_Cons:
  "si_pending i = e # es \<Longrightarrow>
    iterator_Next i = (True, i\<lparr>si_current := e, si_entries := es, si_hasCurrent := True\<rparr>)
    \<and> \<not> si_closed i"
  by (simp add: iterator_Next_def si_pending_def split: if_splits)

interpretation slice: entry_iterator slice_iterator_ops si_pending "\<lambda>_. None"
proof (unfold_locales, goal_cases)
  case (1 i)
  then show ?case by (simp add: iterator_Next_Nil)
next
  case (2 i e es)
  from iterator_Next_Cons [OF this] show ?case
    by (simp add: iterator_Entry_def si_pending_def)
next
  case (3 i)
  show ?case by (simp add: iterator_Close_def si_pending_def)
next
  case (4 i)
  show ?case by (simp add: iterator_Close_def)
qed

lemma si_pending_new [simp]: "si_pending (new_iterator es) = es"
  by (simp add: si_pending_def new_iterator_def)

section \<open>Properties\<close>

text \<open>
  Draining a materialized iterator ends, yields exactly its entries in order, reports no
  error, and after \<open>Close\<close> the iterator yields nothing more.
\<close>

theorem slice_iterator_drains:
  "(\<exists>i'. drain slice_iterator_ops (new_iterator es) [] = Some (es, i') \<and> iterator_Err i' = None)
   \<and> (\<forall>i. \<not> fst (iterator_Next (snd (iterator_Close i))))"
proof
  show "\<exists>i'. drain slice_iterator_ops (new_iterator es) [] = Some (es, i') \<and> iterator_Err i' = None"
    using slice.drain_total [of "new_iterator es" "[]"] by auto
  show "\<forall>i. \<not> fst (iterator_Next (snd (iterator_Close i)))"
    by (simp add: iterator_Next_def iterator_Close_def)
qed

end
