(* ===== verification/Store_Contract.thy ===== *)
theory Store_Contract
  imports Iterator_Contract
begin

text \<open>
  The abstract specification of an object store and the contract \<open>object_store\<close> that an
  adapter which implements \<^verbatim>\<open>decorator.Backend\<close> fully keeps: the interfaces \<^verbatim>\<open>Reader\<close>,
  \<^verbatim>\<open>Writer\<close>, \<^verbatim>\<open>Deleter\<close>, \<^verbatim>\<open>Lister\<close>, \<^verbatim>\<open>Statter\<close>, \<^verbatim>\<open>Copier\<close>, \<^verbatim>\<open>Mover\<close>,
  \<^verbatim>\<open>MetadataSetter\<close> and \<^verbatim>\<open>VisibilityManager\<close> of \<^verbatim>\<open>src/contracts.go\<close>, with the meaning that
  their comments and the conformance suite \<^verbatim>\<open>src/fstest/conformance.go\<close> give them.

  The abstract state is a partial function from paths to files. Times are not part of it.
\<close>

section \<open>The abstract store\<close>

record stored_file =
  f_content :: string
  f_metadata :: usermeta
  f_contentType :: string
  f_visibility :: Visibility

type_synonym store = "path \<rightharpoonup> stored_file"

definition spec_write :: "store \<Rightarrow> path \<Rightarrow> stored_file \<Rightarrow> bool \<Rightarrow> sentinel + store" where
  "spec_write V p f exclusive =
     (if exclusive \<and> V p \<noteq> None then Inl ErrPreconditionFailed else Inr (V(p \<mapsto> f)))"

definition spec_delete :: "store \<Rightarrow> path \<Rightarrow> sentinel + store" where
  "spec_delete V p = (if V p = None then Inl ErrNotFound else Inr (V(p := None)))"

definition spec_copy :: "store \<Rightarrow> path \<Rightarrow> path \<Rightarrow> bool \<Rightarrow> sentinel + store" where
  "spec_copy V source destination overwrite =
     (case V source of
        None \<Rightarrow> Inl ErrNotFound
      | Some f \<Rightarrow> if \<not> overwrite \<and> V destination \<noteq> None then Inl ErrAlreadyExists
                  else Inr (V(destination \<mapsto> f)))"

definition spec_move :: "store \<Rightarrow> path \<Rightarrow> path \<Rightarrow> bool \<Rightarrow> sentinel + store" where
  "spec_move V source destination overwrite =
     (case V source of
        None \<Rightarrow> Inl ErrNotFound
      | Some f \<Rightarrow> if \<not> overwrite \<and> V destination \<noteq> None then Inl ErrAlreadyExists
                  else if source = destination then Inr V
                  else Inr (V(destination \<mapsto> f, source := None)))"

definition spec_update :: "store \<Rightarrow> path \<Rightarrow> (stored_file \<Rightarrow> stored_file) \<Rightarrow> sentinel + store" where
  "spec_update V p g = (case V p of None \<Rightarrow> Inl ErrNotFound | Some f \<Rightarrow> Inr (V(p \<mapsto> g f)))"

text \<open>
  An operation implements a specification when it fails with the specified sentinel and
  leaves the abstract state as it was, or succeeds and reaches the specified state.
\<close>

definition implements ::
  "('s \<Rightarrow> bool) \<Rightarrow> ('s \<Rightarrow> store) \<Rightarrow> store \<Rightarrow> 'a res \<times> 's \<times> ctx \<Rightarrow> sentinel + store \<Rightarrow> bool" where
  "implements good view V outcome spec =
     (case outcome of (r, s', c) \<Rightarrow>
        good s' \<and> c = Background \<and>
        (case spec of
           Inl t \<Rightarrow> fails_with r t \<and> view s' = V
         | Inr V' \<Rightarrow> (\<exists>x. r = Ok x) \<and> view s' = V'))"

text \<open>An operation only reads when it keeps the abstract state; \<open>P\<close> is what it returns.\<close>

definition observes ::
  "('s \<Rightarrow> bool) \<Rightarrow> ('s \<Rightarrow> store) \<Rightarrow> store \<Rightarrow> 'a res \<times> 's \<times> ctx \<Rightarrow> ('a res \<Rightarrow> bool) \<Rightarrow> bool" where
  "observes good view V outcome P =
     (case outcome of (r, s', c) \<Rightarrow> good s' \<and> c = Background \<and> view s' = V \<and> P r)"

definition stream_of :: "stream \<Rightarrow> string \<Rightarrow> bool" where
  "stream_of st content = (io_copy (st_reads st) = (content, None) \<and> st_close st = None)"

definition describes :: "Metadata \<Rightarrow> path \<Rightarrow> stored_file \<Rightarrow> bool" where
  "describes md p f =
     (m_Path md = p \<and> m_Kind md = EntryKindFile \<and> m_Size md = go_len (f_content f) \<and>
      m_ContentType md = f_contentType f \<and> m_UserMetadata md = f_metadata f \<and>
      m_Visibility md = f_visibility f)"

text \<open>The visibility a request is stored with; \<open>None\<close> for a value outside the vocabulary.\<close>

definition spec_visibility :: "Visibility \<Rightarrow> Visibility option" where
  "spec_visibility v =
     (if v = VisibilityUnset \<or> v = VisibilityPrivate then Some VisibilityPrivate
      else if v = VisibilityPublic then Some VisibilityPublic else None)"

definition written_file :: "WriteOptions \<Rightarrow> string \<Rightarrow> Visibility \<Rightarrow> stored_file" where
  "written_file opts content v =
     \<lparr>f_content = content, f_metadata = wo_Metadata opts, f_contentType = wo_ContentType opts,
      f_visibility = v\<rparr>"

section \<open>Listings\<close>

definition beneath :: "path \<Rightarrow> path \<Rightarrow> bool" where
  "beneath d p = strict_prefix (segments d) (segments p)"

text \<open>The entry under which a listing of \<open>d\<close> shows the object \<open>p\<close>.\<close>

definition child_path :: "path \<Rightarrow> bool \<Rightarrow> path \<Rightarrow> path" where
  "child_path d recursive p =
     (if recursive then p
      else \<lparr>pvalue = join_with slash (take (Suc (length (segments d))) (segments p))\<rparr>)"

definition entry_key :: "Entry \<Rightarrow> string" where
  "entry_key e = Path_String (e_Path e)"

text \<open>What an entry of a listing may say of the store.\<close>

definition entry_true :: "store \<Rightarrow> bool \<Rightarrow> Entry \<Rightarrow> bool" where
  "entry_true V recursive e =
     ((e_Kind e = EntryKindFile \<and>
        (\<exists>f. V (e_Path e) = Some f \<and> e_Size e = go_len (f_content f)))
      \<or> (\<not> recursive \<and> e_Kind e = EntryKindDirectory \<and> (\<exists>p\<in>dom V. beneath (e_Path e) p)))"

definition listing :: "store \<Rightarrow> path \<Rightarrow> bool \<Rightarrow> Entry list \<Rightarrow> bool" where
  "listing V d recursive es =
     (sorted_wrt (<) (map entry_key es) \<and>
      e_Path ` set es = child_path d recursive ` {p \<in> dom V. beneath d p} \<and>
      (\<forall>e\<in>set es. entry_true V recursive e))"

definition limited :: "int64 \<Rightarrow> 'a list \<Rightarrow> 'a list" where
  "limited limit xs = (if limit = 0 then xs else take (nat (sint limit)) xs)"

section \<open>The contract\<close>

locale object_store =
  fixes be :: "('s, 'i, 'w) backend"
    and good :: "'s \<Rightarrow> bool"
    and view :: "'s \<Rightarrow> store"
    and room :: "'s \<Rightarrow> bool" \<comment> \<open>one more object does not exceed the machine integers\<close>
    and pending :: "'i \<Rightarrow> Entry list"
    and fault :: "'i \<Rightarrow> err option"
  assumes iterators: "entry_iterator (be_iterator be) pending fault"
    and view_finite: "good s \<Longrightarrow> finite (dom (view s))"
    and view_wf: "good s \<Longrightarrow> p \<in> dom (view s) \<Longrightarrow> wf_path p"
    and Open_law: "good s \<Longrightarrow> wf_path p \<Longrightarrow>
      observes good view (view s) (be_Open be p s Background)
        (\<lambda>r. case view s p of
           None \<Rightarrow> fails_with r ErrNotFound
         | Some f \<Rightarrow> \<exists>st. r = Ok st \<and> stream_of st (f_content f))"
    and Stat_law: "good s \<Longrightarrow> wf_path p \<Longrightarrow>
      observes good view (view s) (be_Stat be p s Background)
        (\<lambda>r. case view s p of
           None \<Rightarrow> fails_with r ErrNotFound
         | Some f \<Rightarrow> \<exists>md. r = Ok md \<and> describes md p f)"
    and Write_law: "good s \<Longrightarrow> room s \<Longrightarrow> wf_path p \<Longrightarrow> \<not> IsRoot p \<Longrightarrow> io_copy source = (content, None) \<Longrightarrow>
      spec_visibility (wo_Visibility opts) = Some v \<Longrightarrow>
      implements good view (view s) (be_Write be p source opts s Background)
        (spec_write (view s) p (written_file opts content v) (wo_IfNoneMatch opts))"
    and Delete_law: "good s \<Longrightarrow> wf_path p \<Longrightarrow>
      implements good view (view s) (be_Delete be p s Background) (spec_delete (view s) p)"
    and Copy_law: "good s \<Longrightarrow> room s \<Longrightarrow> wf_path p \<Longrightarrow> wf_path q \<Longrightarrow> \<not> IsRoot q \<Longrightarrow>
      implements good view (view s) (be_Copy be p q copts s Background)
        (spec_copy (view s) p q (co_Overwrite copts))"
    and Move_law: "good s \<Longrightarrow> room s \<Longrightarrow> wf_path p \<Longrightarrow> wf_path q \<Longrightarrow> \<not> IsRoot q \<Longrightarrow>
      implements good view (view s) (be_Move be p q mopts s Background)
        (spec_move (view s) p q (mo_Overwrite mopts))"
    and SetMetadata_law: "good s \<Longrightarrow> wf_path p \<Longrightarrow>
      implements good view (view s) (be_SetMetadata be p md s Background)
        (spec_update (view s) p (\<lambda>f. f\<lparr>f_metadata := md\<rparr>))"
    and SetVisibility_law: "good s \<Longrightarrow> wf_path p \<Longrightarrow> spec_visibility vis = Some v \<Longrightarrow>
      implements good view (view s) (be_SetVisibility be p vis s Background)
        (spec_update (view s) p (\<lambda>f. f\<lparr>f_visibility := v\<rparr>))"
    and List_law: "good s \<Longrightarrow> wf_path d \<Longrightarrow>
      0 \<le> sint (lo_Limit lopts) \<Longrightarrow>
      observes good view (view s) (be_List be d lopts s Background)
        (\<lambda>r. \<exists>it es. r = Ok it \<and> listing (view s) d (lo_Recursive lopts) es \<and>
           pending it = limited (lo_Limit lopts) es \<and> fault it = None)"
begin

text \<open>What a reader gets after a write, on the written path and on every other one.\<close>

lemma read_after_write:
  assumes s: "good s" "room s" and p: "wf_path p" "\<not> IsRoot p" and q: "wf_path q"
    and w: "io_copy source = (content, None)" "spec_visibility (wo_Visibility opts) = Some v"
      "\<not> (wo_IfNoneMatch opts \<and> view s p \<noteq> None)"
    and run: "be_Write be p source opts s Background = (r, s', c)"
  shows "observes good view (view s') (be_Open be q s' Background)
    (\<lambda>r. if q = p then \<exists>st. r = Ok st \<and> stream_of st content
         else case view s q of
           None \<Rightarrow> fails_with r ErrNotFound
         | Some f \<Rightarrow> \<exists>st. r = Ok st \<and> stream_of st (f_content f))"
proof -
  from Write_law [OF s p w(1,2)] w(3) run
  have s': "good s'" and V: "view s' = (view s)(p \<mapsto> written_file opts content v)"
    by (simp_all add: implements_def spec_write_def split: if_splits)
  show ?thesis
  proof (cases "q = p")
    case True
    with Open_law [OF s' q] V show ?thesis by (simp add: written_file_def)
  next
    case False
    with Open_law [OF s' q] V show ?thesis by simp
  qed
qed

end

sublocale object_store \<subseteq> it: entry_iterator "be_iterator be" pending fault
  by (rule iterators)

section \<open>Lemmas\<close>

lemma implements_refl_error:
  "good s \<Longrightarrow> view s = V \<Longrightarrow> errors_is e t \<Longrightarrow>
    implements good view V (Err e, s, Background) (Inl t)"
  by (simp add: implements_def)

lemma implements_Ok:
  "good s \<Longrightarrow> view s = V' \<Longrightarrow> implements good view V (Ok x, s, Background) (Inr V')"
  by (simp add: implements_def)

lemma beneath_iff:
  "beneath d p \<longleftrightarrow> (\<exists>r. r \<noteq> [] \<and> segments p = segments d @ r)"
  by (auto simp: beneath_def strict_prefix_def prefix_def)

lemma beneath_not_root: "beneath d p \<Longrightarrow> \<not> IsRoot p"
  by (auto simp: beneath_iff IsRoot_segments)

lemma wf_path_take:
  assumes "wf_path p" and "segments p = ss @ r" and "ss \<noteq> []"
  shows "segments \<lparr>pvalue = join_with slash ss\<rparr> = ss" and "wf_path \<lparr>pvalue = join_with slash ss\<rparr>"
proof -
  from assms have ok: "list_all segment_ok ss" "list_all segment_ok r"
    by (simp_all add: wf_path_def)
  then show seg: "segments \<lparr>pvalue = join_with slash ss\<rparr> = ss" by (simp add: segments_join)
  have "pvalue p = join_with slash (ss @ r)" by (metis join_segments assms(2))
  then have "hasWindowsVolume (pvalue p) = hasWindowsVolume (join_with slash ss)"
    using assms(3) ok by (cases "r = []") (simp_all add: join_with_append join_ok_nonempty)
  with assms(1) ok seg show "wf_path \<lparr>pvalue = join_with slash ss\<rparr>"
    by (simp add: wf_path_def)
qed

lemma child_path_facts:
  assumes "wf_path p" and "segments p = segments d @ x # r"
  shows "wf_path (child_path d rec p)" and "\<not> IsRoot (child_path d rec p)"
    and "segments (child_path d False p) = segments d @ [x]"
    and "child_path d False p = p \<longleftrightarrow> r = []"
    and "beneath d (child_path d rec p)"
proof -
  have p: "segments p = (segments d @ [x]) @ r" using assms(2) by simp
  note w = wf_path_take [OF assms(1) p]
  show seg: "segments (child_path d False p) = segments d @ [x]"
    using w(1) assms(2) by (simp add: child_path_def)
  show wf: "wf_path (child_path d rec p)"
    using w(2) assms by (simp add: child_path_def)
  show nr: "\<not> IsRoot (child_path d rec p)"
    using seg assms(2) by (cases rec) (simp_all add: child_path_def IsRoot_segments)
  show "child_path d False p = p \<longleftrightarrow> r = []"
    using seg assms(2) by (auto simp flip: segments_eq_iff)
  show "beneath d (child_path d rec p)"
    using seg assms(2) by (cases rec) (simp_all add: child_path_def beneath_iff)
qed

end
