(* ===== verification/Digest.thy ===== *)
theory Digest
  imports Contracts
begin

unbundle bit_operations_syntax

text \<open>
  The digests of the packages \<^verbatim>\<open>crypto/md5\<close>, \<^verbatim>\<open>crypto/sha256\<close> and \<^verbatim>\<open>hash/crc32\<close> that the
  checksum operations use, with \<^verbatim>\<open>encoding/hex\<close> and the \<^verbatim>\<open>%08x\<close> format. A \<^verbatim>\<open>hash.Hash\<close>
  that is written in pieces digests the concatenation of the pieces.
\<close>

section \<open>Hexadecimal text\<close>

definition hex_digit :: "nat \<Rightarrow> char" where
  "hex_digit n = (if n < 10 then char_of (48 + n) else char_of (87 + n))"

definition hex_EncodeToString :: "nat list \<Rightarrow> string" where
  "hex_EncodeToString bs = concat (map (\<lambda>b. [hex_digit (b div 16), hex_digit (b mod 16)]) bs)"

text \<open>The byte of a word that starts at a bit, and the big- and little-endian bytes.\<close>

definition byte_at :: "nat \<Rightarrow> 32 word \<Rightarrow> nat" where
  "byte_at k w = unat w div 2 ^ k mod 256"

definition be_bytes32 :: "32 word \<Rightarrow> nat list" where
  "be_bytes32 w = map (\<lambda>k. byte_at k w) [24, 16, 8, 0]"

definition le_bytes32 :: "32 word \<Rightarrow> nat list" where
  "le_bytes32 w = map (\<lambda>k. byte_at k w) [0, 8, 16, 24]"

definition sprintf_08x :: "32 word \<Rightarrow> string" where
  "sprintf_08x w = map (\<lambda>k. hex_digit (unat w div 2 ^ k mod 16)) [28, 24, 20, 16, 12, 8, 4, 0]"

section \<open>CRC-32C\<close>

definition crc_shift :: "32 word \<Rightarrow> 32 word" where
  "crc_shift c = (if bit c 0 then drop_bit 1 c XOR 0x82F63B78 else drop_bit 1 c)"

text \<open>The entry of \<^verbatim>\<open>crc32.MakeTable(crc32.Castagnoli)\<close> for one byte.\<close>

definition crc_table :: "nat \<Rightarrow> 32 word" where
  "crc_table b = (crc_shift ^^ 8) (of_nat b)"

definition crc_update :: "32 word \<Rightarrow> nat \<Rightarrow> 32 word" where
  "crc_update c b = crc_table (unat ((c AND 0xFF) XOR of_nat b)) XOR drop_bit 8 c"

definition crc32c :: "nat list \<Rightarrow> 32 word" where
  "crc32c bs = NOT (foldl crc_update (NOT 0) bs)"

section \<open>MD5 and SHA-256\<close>

fun blocks_of :: "nat \<Rightarrow> nat \<Rightarrow> 'a list \<Rightarrow> 'a list list" where
  "blocks_of 0 n xs = []"
| "blocks_of (Suc k) n xs = (if xs = [] then [] else take n xs # blocks_of k n (drop n xs))"

definition pad_zeros :: "nat \<Rightarrow> nat" where
  "pad_zeros n = (119 - n mod 64) mod 64"

definition le_word :: "nat list \<Rightarrow> 32 word" where
  "le_word bs = foldr (\<lambda>b w. of_nat b + 256 * w) bs 0"

definition be_word :: "nat list \<Rightarrow> 32 word" where
  "be_word bs = foldl (\<lambda>w b. 256 * w + of_nat b) 0 bs"

definition length_bytes :: "nat \<Rightarrow> nat list" where
  "length_bytes n = map (\<lambda>k. (8 * n) div 256 ^ k mod 256) [0, 1, 2, 3, 4, 5, 6, 7]"

definition md5_pad :: "nat list \<Rightarrow> nat list" where
  "md5_pad bs = bs @ [0x80] @ replicate (pad_zeros (length bs)) 0 @ length_bytes (length bs)"

definition sha256_pad :: "nat list \<Rightarrow> nat list" where
  "sha256_pad bs =
     bs @ [0x80] @ replicate (pad_zeros (length bs)) 0 @ rev (length_bytes (length bs))"

definition md5_K :: "32 word list" where
  "md5_K =
     [0xD76AA478, 0xE8C7B756, 0x242070DB, 0xC1BDCEEE, 0xF57C0FAF, 0x4787C62A,
      0xA8304613, 0xFD469501, 0x698098D8, 0x8B44F7AF, 0xFFFF5BB1, 0x895CD7BE,
      0x6B901122, 0xFD987193, 0xA679438E, 0x49B40821, 0xF61E2562, 0xC040B340,
      0x265E5A51, 0xE9B6C7AA, 0xD62F105D, 0x2441453, 0xD8A1E681, 0xE7D3FBC8,
      0x21E1CDE6, 0xC33707D6, 0xF4D50D87, 0x455A14ED, 0xA9E3E905, 0xFCEFA3F8,
      0x676F02D9, 0x8D2A4C8A, 0xFFFA3942, 0x8771F681, 0x6D9D6122, 0xFDE5380C,
      0xA4BEEA44, 0x4BDECFA9, 0xF6BB4B60, 0xBEBFBC70, 0x289B7EC6, 0xEAA127FA,
      0xD4EF3085, 0x4881D05, 0xD9D4D039, 0xE6DB99E5, 0x1FA27CF8, 0xC4AC5665,
      0xF4292244, 0x432AFF97, 0xAB9423A7, 0xFC93A039, 0x655B59C3, 0x8F0CCC92,
      0xFFEFF47D, 0x85845DD1, 0x6FA87E4F, 0xFE2CE6E0, 0xA3014314, 0x4E0811A1,
      0xF7537E82, 0xBD3AF235, 0x2AD7D2BB, 0xEB86D391]"

definition md5_S :: "nat list" where
  "md5_S = concat (map (\<lambda>r. concat (replicate 4 r))
     [[7, 12, 17, 22], [5, 9, 14, 20], [4, 11, 16, 23], [6, 10, 15, 21]])"

type_synonym md5_state = "32 word \<times> 32 word \<times> 32 word \<times> 32 word"

definition md5_round :: "32 word list \<Rightarrow> md5_state \<Rightarrow> nat \<Rightarrow> md5_state" where
  "md5_round m s i =
     (case s of (a, b, c, d) \<Rightarrow>
       let fg =
         (if i < 16 then ((b AND c) OR (NOT b AND d), i)
          else if i < 32 then ((d AND b) OR (NOT d AND c), (5 * i + 1) mod 16)
          else if i < 48 then (b XOR c XOR d, (3 * i + 5) mod 16)
          else (c XOR (b OR NOT d), 7 * i mod 16));
         f = fst fg + a + md5_K ! i + m ! snd fg
       in (d, b + word_rotl (md5_S ! i) f, b, c))"

definition md5_block :: "md5_state \<Rightarrow> nat list \<Rightarrow> md5_state" where
  "md5_block s block =
     (let m = map le_word (blocks_of 16 4 block)
      in case (s, foldl (md5_round m) s [0..<64]) of
        ((a, b, c, d), (a', b', c', d')) \<Rightarrow> (a + a', b + b', c + c', d + d'))"

definition md5_Sum :: "nat list \<Rightarrow> nat list" where
  "md5_Sum bs =
     (let p = md5_pad bs
      in case foldl md5_block (0x67452301, 0xEFCDAB89, 0x98BADCFE, 0x10325476)
           (blocks_of (length p) 64 p) of
        (a, b, c, d) \<Rightarrow> concat (map le_bytes32 [a, b, c, d]))"

definition sha256_K :: "32 word list" where
  "sha256_K =
     [0x428A2F98, 0x71374491, 0xB5C0FBCF, 0xE9B5DBA5, 0x3956C25B, 0x59F111F1,
      0x923F82A4, 0xAB1C5ED5, 0xD807AA98, 0x12835B01, 0x243185BE, 0x550C7DC3,
      0x72BE5D74, 0x80DEB1FE, 0x9BDC06A7, 0xC19BF174, 0xE49B69C1, 0xEFBE4786,
      0xFC19DC6, 0x240CA1CC, 0x2DE92C6F, 0x4A7484AA, 0x5CB0A9DC, 0x76F988DA,
      0x983E5152, 0xA831C66D, 0xB00327C8, 0xBF597FC7, 0xC6E00BF3, 0xD5A79147,
      0x6CA6351, 0x14292967, 0x27B70A85, 0x2E1B2138, 0x4D2C6DFC, 0x53380D13,
      0x650A7354, 0x766A0ABB, 0x81C2C92E, 0x92722C85, 0xA2BFE8A1, 0xA81A664B,
      0xC24B8B70, 0xC76C51A3, 0xD192E819, 0xD6990624, 0xF40E3585, 0x106AA070,
      0x19A4C116, 0x1E376C08, 0x2748774C, 0x34B0BCB5, 0x391C0CB3, 0x4ED8AA4A,
      0x5B9CCA4F, 0x682E6FF3, 0x748F82EE, 0x78A5636F, 0x84C87814, 0x8CC70208,
      0x90BEFFFA, 0xA4506CEB, 0xBEF9A3F7, 0xC67178F2]"

fun sha256_schedule :: "nat \<Rightarrow> 32 word list \<Rightarrow> 32 word list" where
  "sha256_schedule 0 w = w"
| "sha256_schedule (Suc k) w =
     (let t = length w; x = w ! (t - 15); y = w ! (t - 2);
          s0 = word_rotr 7 x XOR word_rotr 18 x XOR drop_bit 3 x;
          s1 = word_rotr 17 y XOR word_rotr 19 y XOR drop_bit 10 y
      in sha256_schedule k (w @ [w ! (t - 16) + s0 + w ! (t - 7) + s1]))"

definition sha256_round :: "32 word list \<Rightarrow> 32 word list \<Rightarrow> nat \<Rightarrow> 32 word list" where
  "sha256_round w s i =
     (case s of
        [a, b, c, d, e, f, g, h] \<Rightarrow>
          let s1 = word_rotr 6 e XOR word_rotr 11 e XOR word_rotr 25 e;
              ch = (e AND f) XOR (NOT e AND g);
              t1 = h + s1 + ch + sha256_K ! i + w ! i;
              s0 = word_rotr 2 a XOR word_rotr 13 a XOR word_rotr 22 a;
              maj = (a AND b) XOR (a AND c) XOR (b AND c)
          in [t1 + s0 + maj, a, b, c, d + t1, e, f, g]
      | _ \<Rightarrow> s)"

definition sha256_block :: "32 word list \<Rightarrow> nat list \<Rightarrow> 32 word list" where
  "sha256_block s block =
     (let w = sha256_schedule 48 (map be_word (blocks_of 16 4 block))
      in map2 (+) s (foldl (sha256_round w) s [0..<64]))"

definition sha256_Sum :: "nat list \<Rightarrow> nat list" where
  "sha256_Sum bs =
     (let p = sha256_pad bs
      in concat (map be_bytes32 (foldl sha256_block
           [0x6A09E667, 0xBB67AE85, 0x3C6EF372, 0xA54FF53A, 0x510E527F, 0x9B05688C,
      0x1F83D9AB, 0x5BE0CD19]
           (blocks_of (length p) 64 p))))"

section \<open>Lemmas\<close>

lemma mod_256_nibbles:
  fixes x :: nat
  shows "x mod 256 div 16 = x div 16 mod 16" and "x mod 256 mod 16 = x mod 16"
proof -
  show "x mod 256 div 16 = x div 16 mod 16"
    using mod_mult2_eq [of x 16 16] by simp
  show "x mod 256 mod 16 = x mod 16"
    using mod_mod_cancel [of 16 256 x] by simp
qed

lemma hex_of_be_bytes32: "hex_EncodeToString (be_bytes32 w) = sprintf_08x w"
  by (simp add: hex_EncodeToString_def be_bytes32_def byte_at_def sprintf_08x_def mod_256_nibbles
      flip: div_mult2_eq)

end
