(* ===== verification/Decorator.thy ===== *)
theory Decorator
  imports Store_Contract Digest
begin

text \<open>
  The policy wrapper: \<^verbatim>\<open>src/decorator/decorator.go\<close>.

  A decorator is a record of its backend and its policies. Its state is the state of the
  backend with the log of the events its observer received and the answers of \<^verbatim>\<open>time.Now\<close>.
  The callbacks \<^verbatim>\<open>Retryable\<close> and \<^verbatim>\<open>Backoff\<close> are functions of their argument. Where Go
  returns a value beside an error, the model returns the error alone.
\<close>

section \<open>Configuration\<close>

record RetryPolicy =
  rp_Attempts :: int64
  rp_Retryable :: "(err \<Rightarrow> bool) option" \<comment> \<open>\<open>None\<close> for a nil function\<close>
  rp_Backoff :: "(int64 \<Rightarrow> int) option"

record configuration =
  cf_prefix :: path
  cf_readOnly :: bool
  cf_checksums :: bool
  cf_retry :: "RetryPolicy option"
  cf_observer :: bool \<comment> \<open>whether an observer is set\<close>

type_synonym decorator_option = "configuration \<Rightarrow> configuration res"

definition WithPrefix :: "string \<Rightarrow> decorator_option" where
  "WithPrefix pre configuration =
     (case ParsePath pre of
        Err e \<Rightarrow> Err (Errorf ''decorator: invalid prefix: %w'' [] [e])
      | Panic e \<Rightarrow> Panic e
      | Ok parsed \<Rightarrow> Ok (configuration\<lparr>cf_prefix := parsed\<rparr>))"

definition ReadOnly :: decorator_option where
  "ReadOnly configuration = Ok (configuration\<lparr>cf_readOnly := True\<rparr>)"

definition WithChecksums :: decorator_option where
  "WithChecksums configuration = Ok (configuration\<lparr>cf_checksums := True\<rparr>)"

definition WithRetry :: "RetryPolicy \<Rightarrow> decorator_option" where
  "WithRetry policy configuration =
     (if sint (rp_Attempts policy) \<le> 0
      then Err (New ''decorator: retry attempts must be positive'')
      else if rp_Retryable policy = None
      then Err (New ''decorator: retry classifier is required'')
      else Ok (configuration\<lparr>cf_retry := Some policy\<rparr>))"

text \<open>The argument says whether the observer is a non-nil function.\<close>

definition WithObserver :: "bool \<Rightarrow> decorator_option" where
  "WithObserver observer configuration =
     (if \<not> observer then Err (New ''decorator: observer is required'')
      else Ok (configuration\<lparr>cf_observer := True\<rparr>))"

type_synonym 's signer = "path \<Rightarrow> int \<Rightarrow> TemporaryURLOptions \<Rightarrow> ('s, string) action"

text \<open>\<open>dc_signer\<close> is the backend's \<^verbatim>\<open>TemporaryURL\<close>, where its type has that method.\<close>

record ('s, 'i, 'w) decorator =
  dc_backend :: "('s, 'i, 'w) backend"
  dc_signer :: "'s signer option"
  dc_config :: configuration

definition zero_configuration :: configuration where
  "zero_configuration =
     \<lparr>cf_prefix = \<lparr>pvalue = []\<rparr>, cf_readOnly = False, cf_checksums = False, cf_retry = None,
      cf_observer = False\<rparr>"

fun apply_options :: "configuration \<Rightarrow> decorator_option list \<Rightarrow> configuration res" where
  "apply_options configuration [] = Ok configuration"
| "apply_options configuration (option # options) =
     bind_res (option configuration) (\<lambda>configuration'. apply_options configuration' options)"

definition decorator_New ::
  "('s, 'i, 'w) backend option \<Rightarrow> 's signer option \<Rightarrow> decorator_option list \<Rightarrow>
    ('s, 'i, 'w) decorator res" where
  "decorator_New backend signer options =
     (case backend of
        None \<Rightarrow> Err (New ''decorator: backend is required'')
      | Some be \<Rightarrow> bind_res (apply_options zero_configuration options)
          (\<lambda>configuration. Ok \<lparr>dc_backend = be, dc_signer = signer, dc_config = configuration\<rparr>))"

section \<open>Capabilities\<close>

definition mutating_capability :: "capability \<Rightarrow> bool" where
  "mutating_capability capability =
     (capability \<in> {CapabilityWrite, CapabilityStreamingWrite, CapabilityDelete, CapabilityCopy,
        CapabilityMove, CapabilityMetadata, CapabilityVisibility, CapabilityMultipart})"

definition dec_Capabilities :: "('s, 'i, 'w) decorator \<Rightarrow> CapabilitySet res" where
  "dec_Capabilities a =
     (let capabilities = CapabilitySet_List (be_Capabilities (dc_backend a));
          filtered = (if cf_readOnly (dc_config a)
            then filter (\<lambda>capability. \<not> mutating_capability capability) capabilities
            else capabilities);
          extended = (if cf_checksums (dc_config a)
            then filtered @ [CapabilityChecksum] else filtered)
      in NewCapabilitySet extended)"

section \<open>Paths\<close>

definition internal :: "path \<Rightarrow> path \<Rightarrow> path res" where
  "internal pre p =
     (if IsRoot pre then Ok p
      else if IsRoot p then Ok pre
      else MustParsePath (Path_String pre @ ''/'' @ Path_String p))"

definition externalPath :: "path \<Rightarrow> path \<Rightarrow> path res" where
  "externalPath pre p =
     (if IsRoot pre then Ok p
      else if p = pre then Ok Root
      else case CutPrefix (Path_String p) (Path_String pre @ ''/'') of
        None \<Rightarrow> Err (Errorf ''%w: backend listing escaped decorator prefix'' [] [Sentinel ErrInvalidPath])
      | Some relative \<Rightarrow> ParsePath relative)"

section \<open>Retries\<close>

text \<open>
  The loop of \<^verbatim>\<open>retryCall\<close>. \<^verbatim>\<open>attempt\<close> is a machine integer. The wait between two attempts
  ends with the timer, or with the error of the context when that is done first.
\<close>

function retry_loop ::
  "RetryPolicy \<Rightarrow> ('s, 'a) action \<Rightarrow> int64 \<Rightarrow> ('s, 'a) action" where
  "retry_loop policy call attempt s c =
     (case ctx_Err c of
        (Some e, c1) \<Rightarrow> (Err e, s, c1)
      | (None, c1) \<Rightarrow>
          (case call s c1 of
             (Err e, s1, c2) \<Rightarrow>
               if attempt = rp_Attempts policy \<or> errors_is e ContextCanceled \<or>
                  errors_is e ContextDeadlineExceeded
               then (Err e, s1, c2)
               else (case rp_Retryable policy of
                 None \<Rightarrow> (Panic (New ''nil function call''), s1, c2)
               | Some retryable \<Rightarrow>
                   if \<not> retryable e then (Err e, s1, c2)
                   else (case rp_Backoff policy of
                     None \<Rightarrow> retry_loop policy call (attempt + 1) s1 c2
                   | Some backoff \<Rightarrow>
                       (case ctx_Err c2 of
                          (Some e', c3) \<Rightarrow> (Err e', s1, c3)
                        | (None, c3) \<Rightarrow> retry_loop policy call (attempt + 1) s1 c3)))
           | result \<Rightarrow> result))"
  by pat_completeness auto

text \<open>Each round moves the counter one step closer to \<^verbatim>\<open>Attempts\<close>, around the word if need be.\<close>

lemma attempts_step:
  assumes "attempt \<noteq> (limit :: int64)"
  shows "unat (limit - attempt) = Suc (unat (limit - (attempt + 1)))"
proof -
  have d: "limit - attempt \<noteq> 0" using assms by simp
  then have "unat (limit - attempt) \<noteq> 0" using unat_eq_zero by blast
  with unat_minus_one [OF d] show ?thesis by (simp add: diff_diff_eq)
qed

termination retry_loop
  by (relation "measure (\<lambda>(policy, call, attempt, s, c). unat (rp_Attempts policy - attempt))")
    (auto simp: attempts_step)

declare retry_loop.simps [simp del]

definition retryCall :: "RetryPolicy option \<Rightarrow> ('s, 'a) action \<Rightarrow> ('s, 'a) action" where
  "retryCall policy call =
     (case policy of None \<Rightarrow> call | Some pol \<Rightarrow> retry_loop pol call 1)"

section \<open>Observation\<close>

record Event =
  ev_Operation :: operation
  ev_Path :: path
  ev_Destination :: path
  ev_Started :: time
  ev_Duration :: int
  ev_Error :: "err option"

record 's dstate =
  d_inner :: 's
  d_events :: "Event list"
  d_clock :: "nat \<Rightarrow> time"
  d_ticks :: nat

definition time_Now :: "'s dstate \<Rightarrow> time \<times> 's dstate" where
  "time_Now d = (d_clock d (d_ticks d), d\<lparr>d_ticks := Suc (d_ticks d)\<rparr>)"

text \<open>A panic of the call unwinds past the observer.\<close>

definition observeCall ::
  "bool \<Rightarrow> operation \<Rightarrow> path \<Rightarrow> path \<Rightarrow> ('s, 'a) action \<Rightarrow> ('s dstate, 'a) action" where
  "observeCall observer operation p destination call d c =
     (case time_Now d of (started, d1) \<Rightarrow>
       (case call (d_inner d1) c of (r, s', c') \<Rightarrow>
         let d2 = d1\<lparr>d_inner := s'\<rparr> in
         if is_panic r \<or> \<not> observer then (r, d2, c')
         else (case time_Now d2 of (ended, d3) \<Rightarrow>
           (r, d3\<lparr>d_events := d_events d3 @
              [\<lparr>ev_Operation = operation, ev_Path = p, ev_Destination = destination,
                ev_Started = started, ev_Duration = ended - started, ev_Error = err_of r\<rparr>]\<rparr>, c'))))"

section \<open>Operations\<close>

text \<open>The call \<^verbatim>\<open>a.backend.Op(ctx, a.internal(path), ...)\<close>.\<close>

definition with_internal ::
  "('s, 'i, 'w) decorator \<Rightarrow> path \<Rightarrow> (path \<Rightarrow> ('s, 'a) action) \<Rightarrow> ('s, 'a) action" where
  "with_internal a p k s c =
     (case internal (cf_prefix (dc_config a)) p of
        Ok q \<Rightarrow> k q s c
      | Err e \<Rightarrow> (Err e, s, c)
      | Panic e \<Rightarrow> (Panic e, s, c))"

definition read_only_error :: "capability \<Rightarrow> operation \<Rightarrow> err" where
  "read_only_error capability operation = Unsupported ''decorator/read-only'' capability operation"

definition object_path_is_root :: err where
  "object_path_is_root = Errorf ''%w: object path is root'' [] [Sentinel ErrInvalidPath]"

definition set_result_path :: "path \<Rightarrow> Metadata res \<times> 's \<times> ctx \<Rightarrow> Metadata res \<times> 's \<times> ctx" where
  "set_result_path p result =
     (case result of (r, s, c) \<Rightarrow> (bind_res r (\<lambda>md. Ok (md\<lparr>m_Path := p\<rparr>)), s, c))"

abbreviation observed ::
  "('s, 'i, 'w) decorator \<Rightarrow> operation \<Rightarrow> path \<Rightarrow> path \<Rightarrow> ('s, 'a) action \<Rightarrow> ('s dstate, 'a) action" where
  "observed a \<equiv> observeCall (cf_observer (dc_config a))"

abbreviation retried :: "('s, 'i, 'w) decorator \<Rightarrow> ('s, 'a) action \<Rightarrow> ('s, 'a) action" where
  "retried a \<equiv> retryCall (cf_retry (dc_config a))"

abbreviation no_path :: path where
  "no_path \<equiv> \<lparr>pvalue = []\<rparr>"

definition dec_Open :: "('s, 'i, 'w) decorator \<Rightarrow> path \<Rightarrow> ('s dstate, stream) action" where
  "dec_Open a p =
     observed a OperationRead p no_path (retried a (with_internal a p (be_Open (dc_backend a))))"

definition dec_OpenRange ::
  "('s, 'i, 'w) decorator \<Rightarrow> path \<Rightarrow> ByteRange \<Rightarrow> ('s dstate, stream) action" where
  "dec_OpenRange a p r =
     observed a OperationRangeRead p no_path
       (retried a (with_internal a p (\<lambda>q. be_OpenRange (dc_backend a) q r)))"

definition dec_Write ::
  "('s, 'i, 'w) decorator \<Rightarrow> path \<Rightarrow> reads \<Rightarrow> WriteOptions \<Rightarrow> ('s dstate, Metadata) action" where
  "dec_Write a p source opts =
     observed a OperationWrite p no_path
       (\<lambda>s c. if cf_readOnly (dc_config a)
          then (Err (read_only_error CapabilityWrite OperationWrite), s, c)
          else if IsRoot p then (Err object_path_is_root, s, c)
          else set_result_path p
            (with_internal a p (\<lambda>q. be_Write (dc_backend a) q source opts) s c))"

definition dec_OpenWriter ::
  "('s, 'i, 'w) decorator \<Rightarrow> path \<Rightarrow> WriteOptions \<Rightarrow> ('s dstate, 'w) action" where
  "dec_OpenWriter a p opts =
     observed a OperationWrite p no_path
       (\<lambda>s c. if cf_readOnly (dc_config a)
          then (Err (read_only_error CapabilityStreamingWrite OperationWrite), s, c)
          else if IsRoot p then (Err object_path_is_root, s, c)
          else with_internal a p (\<lambda>q. be_OpenWriter (dc_backend a) q opts) s c)"

text \<open>The operations that only check \<^verbatim>\<open>readOnly\<close> before they delegate.\<close>

definition guarded ::
  "('s, 'i, 'w) decorator \<Rightarrow> capability \<Rightarrow> operation \<Rightarrow> ('s, 'a) action \<Rightarrow> ('s, 'a) action" where
  "guarded a capability operation call s c =
     (if cf_readOnly (dc_config a) then (Err (read_only_error capability operation), s, c)
      else call s c)"

definition dec_Delete :: "('s, 'i, 'w) decorator \<Rightarrow> path \<Rightarrow> ('s dstate, unit) action" where
  "dec_Delete a p =
     observed a OperationDelete p no_path
       (guarded a CapabilityDelete OperationDelete (with_internal a p (be_Delete (dc_backend a))))"

definition dec_Stat :: "('s, 'i, 'w) decorator \<Rightarrow> path \<Rightarrow> ('s dstate, Metadata) action" where
  "dec_Stat a p =
     observed a OperationStat p no_path
       (\<lambda>s c. set_result_path p (retried a (with_internal a p (be_Stat (dc_backend a))) s c))"

definition dec_Copy ::
  "('s, 'i, 'w) decorator \<Rightarrow> path \<Rightarrow> path \<Rightarrow> CopyOptions \<Rightarrow> ('s dstate, unit) action" where
  "dec_Copy a source destination opts =
     observed a OperationCopy source destination
       (guarded a CapabilityCopy OperationCopy
         (with_internal a source (\<lambda>q. with_internal a destination
            (\<lambda>r. be_Copy (dc_backend a) q r opts))))"

definition dec_Move ::
  "('s, 'i, 'w) decorator \<Rightarrow> path \<Rightarrow> path \<Rightarrow> MoveOptions \<Rightarrow> ('s dstate, unit) action" where
  "dec_Move a source destination opts =
     observed a OperationMove source destination
       (guarded a CapabilityMove OperationMove
         (with_internal a source (\<lambda>q. with_internal a destination
            (\<lambda>r. be_Move (dc_backend a) q r opts))))"

definition dec_SetMetadata ::
  "('s, 'i, 'w) decorator \<Rightarrow> path \<Rightarrow> usermeta \<Rightarrow> ('s dstate, unit) action" where
  "dec_SetMetadata a p md =
     observed a OperationSetMetadata p no_path
       (guarded a CapabilityMetadata OperationSetMetadata
         (with_internal a p (\<lambda>q. be_SetMetadata (dc_backend a) q md)))"

definition dec_Visibility :: "('s, 'i, 'w) decorator \<Rightarrow> path \<Rightarrow> ('s dstate, Visibility) action" where
  "dec_Visibility a p =
     observed a OperationVisibility p no_path
       (guarded a CapabilityVisibility OperationVisibility
         (retried a (with_internal a p (be_Visibility (dc_backend a)))))"

definition dec_SetVisibility ::
  "('s, 'i, 'w) decorator \<Rightarrow> path \<Rightarrow> Visibility \<Rightarrow> ('s dstate, unit) action" where
  "dec_SetVisibility a p v =
     observed a OperationSetVisibility p no_path
       (guarded a CapabilityVisibility OperationSetVisibility
         (with_internal a p (\<lambda>q. be_SetVisibility (dc_backend a) q v)))"

text \<open>The streaming digest of \<^verbatim>\<open>Checksum\<close>: \<^verbatim>\<open>hash.Hash\<close> values by their \<^verbatim>\<open>Sum\<close>.\<close>

fun digest_for :: "ChecksumAlgorithm \<Rightarrow> (nat list \<Rightarrow> nat list) option" where
  "digest_for ChecksumMD5 = Some md5_Sum"
| "digest_for ChecksumSHA256 = Some sha256_Sum"
| "digest_for ChecksumCRC32C = Some (\<lambda>bs. be_bytes32 (crc32c bs))"
| "digest_for (ChecksumNamed _) = None"

definition checksum_call ::
  "('s, 'i, 'w) decorator \<Rightarrow> path \<Rightarrow> ChecksumAlgorithm \<Rightarrow> ('s, Checksum) action" where
  "checksum_call a p algorithm s c =
     (if \<not> cf_checksums (dc_config a)
      then with_internal a p (\<lambda>q. be_Checksum (dc_backend a) q algorithm) s c
      else (case digest_for algorithm of
        None \<Rightarrow> (Err (Unsupported ''decorator/checksum'' CapabilityChecksum OperationChecksum), s, c)
      | Some digest \<Rightarrow>
          (case with_internal a p (be_Open (dc_backend a)) s c of
             (Err e, s', c') \<Rightarrow> (Err e, s', c')
           | (Panic e, s', c') \<Rightarrow> (Panic e, s', c')
           | (Ok st, s', c') \<Rightarrow>
               (case io_copy (st_reads st) of
                  (content, Some e) \<Rightarrow> (Err e, s', c')
                | (content, None) \<Rightarrow>
                    (case st_close st of
                       Some e \<Rightarrow> (Err e, s', c')
                     | None \<Rightarrow>
                         (Ok \<lparr>ck_Algorithm = algorithm,
                              ck_Value = hex_EncodeToString (digest (bytes_of content))\<rparr>, s', c'))))))"

definition dec_Checksum ::
  "('s, 'i, 'w) decorator \<Rightarrow> path \<Rightarrow> ChecksumAlgorithm \<Rightarrow> ('s dstate, Checksum) action" where
  "dec_Checksum a p algorithm =
     observed a OperationChecksum p no_path (retried a (checksum_call a p algorithm))"

definition dec_TemporaryURL ::
  "('s, 'i, 'w) decorator \<Rightarrow> path \<Rightarrow> int \<Rightarrow> TemporaryURLOptions \<Rightarrow> ('s dstate, string) action" where
  "dec_TemporaryURL a p lifetime opts =
     observed a OperationTemporaryURL p no_path
       (case dc_signer a of
          None \<Rightarrow> (\<lambda>s c. (Err (Unsupported ''decorator'' CapabilityTemporaryURL
             OperationTemporaryURL), s, c))
        | Some sign \<Rightarrow> retried a (with_internal a p (\<lambda>q. sign q lifetime opts)))"

section \<open>The wrapping iterator\<close>

record 'i dec_iterator =
  di_inner :: 'i
  di_prefix :: path
  di_current :: Entry
  di_err :: "err option"

definition dec_Next :: "'i iterator_ops \<Rightarrow> 'i dec_iterator \<Rightarrow> bool \<times> 'i dec_iterator" where
  "dec_Next ops i =
     (if di_err i \<noteq> None then (False, i)
      else (case it_Next ops (di_inner i) of
        (False, inner) \<Rightarrow> (False, i\<lparr>di_inner := inner\<rparr>)
      | (True, inner) \<Rightarrow>
          let i1 = i\<lparr>di_inner := inner\<rparr>; entry = it_Entry ops inner in
          (case externalPath (di_prefix i) (e_Path entry) of
             Ok p \<Rightarrow> (True, i1\<lparr>di_current := entry\<lparr>e_Path := p\<rparr>\<rparr>)
           | Err e \<Rightarrow> (False, i1\<lparr>di_err := Some e\<rparr>)
           | Panic e \<Rightarrow> (False, i1\<lparr>di_err := Some e\<rparr>))))"

definition dec_Entry :: "'i dec_iterator \<Rightarrow> Entry" where
  "dec_Entry i = di_current i"

definition dec_Err :: "'i iterator_ops \<Rightarrow> 'i dec_iterator \<Rightarrow> err option" where
  "dec_Err ops i = (if di_err i \<noteq> None then di_err i else it_Err ops (di_inner i))"

definition dec_Close :: "'i iterator_ops \<Rightarrow> 'i dec_iterator \<Rightarrow> err option \<times> 'i dec_iterator" where
  "dec_Close ops i =
     (case it_Close ops (di_inner i) of (e, inner) \<Rightarrow> (e, i\<lparr>di_inner := inner\<rparr>))"

definition dec_iterator_ops :: "'i iterator_ops \<Rightarrow> 'i dec_iterator iterator_ops" where
  "dec_iterator_ops ops =
     \<lparr>it_Next = dec_Next ops, it_Entry = dec_Entry, it_Err = dec_Err ops, it_Close = dec_Close ops\<rparr>"

definition dec_List ::
  "('s, 'i, 'w) decorator \<Rightarrow> path \<Rightarrow> ListOptions \<Rightarrow> ('s dstate, 'i dec_iterator) action" where
  "dec_List a p opts =
     observed a OperationList p no_path
       (\<lambda>s c. case retried a (with_internal a p (\<lambda>q. be_List (dc_backend a) q opts)) s c of
          (r, s', c') \<Rightarrow>
            (bind_res r (\<lambda>inner. Ok \<lparr>di_inner = inner, di_prefix = cf_prefix (dc_config a),
               di_current = zero_Entry, di_err = None\<rparr>), s', c'))"

text \<open>The decorator is itself a backend, which further decorators can wrap.\<close>

definition decorator_backend ::
  "('s, 'i, 'w) decorator \<Rightarrow> ('s dstate, 'i dec_iterator, 'w) backend" where
  "decorator_backend a =
     \<lparr>be_Capabilities =
        (case dec_Capabilities a of Ok s \<Rightarrow> s | _ \<Rightarrow> \<lparr>cs_values = [], cs_index = {}\<rparr>),
      be_Open = dec_Open a, be_OpenRange = dec_OpenRange a, be_Write = dec_Write a,
      be_OpenWriter = dec_OpenWriter a, be_Delete = dec_Delete a, be_List = dec_List a,
      be_Stat = dec_Stat a, be_Copy = dec_Copy a, be_Move = dec_Move a,
      be_SetMetadata = dec_SetMetadata a, be_Checksum = dec_Checksum a,
      be_Visibility = dec_Visibility a, be_SetVisibility = dec_SetVisibility a,
      be_iterator = dec_iterator_ops (be_iterator (dc_backend a))\<rparr>"

lemma decorator_backend_sel [simp]:
  "be_Open (decorator_backend a) = dec_Open a"
  "be_OpenRange (decorator_backend a) = dec_OpenRange a"
  "be_Write (decorator_backend a) = dec_Write a"
  "be_OpenWriter (decorator_backend a) = dec_OpenWriter a"
  "be_Delete (decorator_backend a) = dec_Delete a"
  "be_List (decorator_backend a) = dec_List a"
  "be_Stat (decorator_backend a) = dec_Stat a"
  "be_Copy (decorator_backend a) = dec_Copy a"
  "be_Move (decorator_backend a) = dec_Move a"
  "be_SetMetadata (decorator_backend a) = dec_SetMetadata a"
  "be_Checksum (decorator_backend a) = dec_Checksum a"
  "be_Visibility (decorator_backend a) = dec_Visibility a"
  "be_SetVisibility (decorator_backend a) = dec_SetVisibility a"
  "be_iterator (decorator_backend a) = dec_iterator_ops (be_iterator (dc_backend a))"
  by (simp_all add: decorator_backend_def)

section \<open>Lemmas on paths\<close>

lemma path_append_Root [simp]: "wf_path p \<Longrightarrow> path_append p Root = p"
  by (simp add: path_append_def Root_def join_segments)

lemma path_append_Root_left [simp]: "path_append Root p = p"
  by (simp add: path_append_def Root_def join_segments)

lemma IsRoot_Root: "IsRoot p \<longleftrightarrow> p = Root"
  by (auto simp: IsRoot_def Root_def intro: path.equality)

lemma internal_eq:
  assumes "wf_path pre" and "wf_path p"
  shows "internal pre p = Ok (path_append pre p)"
proof (cases "IsRoot pre \<or> IsRoot p")
  case True
  with assms show ?thesis by (auto simp: internal_def IsRoot_Root)
next
  case False
  with ParsePath_append [OF assms] show ?thesis by (simp add: internal_def MustParsePath_def)
qed

lemma path_append_inject:
  "wf_path pre \<Longrightarrow> wf_path p \<Longrightarrow> wf_path q \<Longrightarrow> path_append pre p = path_append pre q \<longleftrightarrow> p = q"
  by (metis segments_append segments_eq_iff same_append_eq)

lemma externalPath_internal:
  assumes "wf_path pre" and "wf_path p"
  shows "externalPath pre (path_append pre p) = Ok p"
proof (cases "IsRoot pre \<or> IsRoot p")
  case True
  with assms show ?thesis by (auto simp: externalPath_def IsRoot_Root)
next
  case False
  then have "segments (path_append pre p) \<noteq> segments pre"
    using segments_append [OF assms] by (simp add: IsRoot_segments)
  then have "path_append pre p \<noteq> pre" by auto
  moreover have "CutPrefix (pvalue (path_append pre p)) (pvalue pre @ ''/'') = Some (pvalue p)"
    using False by (simp add: pvalue_append CutPrefix_Some)
  ultimately show ?thesis
    using False ParsePath_String [OF assms(2)] by (simp add: externalPath_def Path_String_def)
qed

end
