(* ===== verification/Memory_Adapter.thy ===== *)
theory Memory_Adapter
  imports Store_Contract Digest "HOL-Library.AList"
begin

text \<open>
  The in-memory adapter: \<^verbatim>\<open>src/memory/memory.go\<close>.

  The Go map of objects is an association list with distinct keys. The order in which
  \<^verbatim>\<open>range\<close> visits a Go map is not specified, so it is a field of the state: \<open>mem_range\<close> is
  any function, used where it permutes the entries. The clock callback is the sequence of
  times its calls return. Every operation holds the mutex from its lookup to its update, so
  an operation is one step on the state; what \<^verbatim>\<open>Write\<close> does before it takes the lock
  touches no shared state.
\<close>

section \<open>State\<close>

record object =
  o_content :: string
  o_metadata :: usermeta
  o_contentType :: string
  o_visibility :: Visibility
  o_modified :: time

record memory =
  mem_objects :: "(string \<times> object) list"
  mem_clock :: "nat \<Rightarrow> time"
  mem_ticks :: nat
  mem_range :: "(string \<times> object) list \<Rightarrow> (string \<times> object) list"

definition clock_now :: "memory \<Rightarrow> time \<times> memory" where
  "clock_now a = (mem_clock a (mem_ticks a), a\<lparr>mem_ticks := Suc (mem_ticks a)\<rparr>)"

definition lookup_object :: "memory \<Rightarrow> path \<Rightarrow> object option" where
  "lookup_object a p = map_of (mem_objects a) (Path_String p)"

definition store_object :: "path \<Rightarrow> object \<Rightarrow> memory \<Rightarrow> memory" where
  "store_object p obj a = a\<lparr>mem_objects := AList.update (Path_String p) obj (mem_objects a)\<rparr>"

definition delete_object :: "path \<Rightarrow> memory \<Rightarrow> memory" where
  "delete_object p a = a\<lparr>mem_objects := AList.delete (Path_String p) (mem_objects a)\<rparr>"

definition range_objects :: "memory \<Rightarrow> (string \<times> object) list" where
  "range_objects a =
     (let xs = mem_objects a; ys = mem_range a xs in if mset ys = mset xs then ys else xs)"

section \<open>Construction\<close>

definition memory_capability_list :: "capability list" where
  "memory_capability_list =
     [CapabilityRead, CapabilityWrite, CapabilityStreamingWrite, CapabilityDelete,
      CapabilityList, CapabilityStat, CapabilityCopy, CapabilityMove, CapabilityRangeRead,
      CapabilityMetadata, CapabilityChecksum, CapabilityVisibility]"

definition memory_Capabilities :: CapabilitySet where
  "memory_Capabilities =
     (case NewCapabilitySet memory_capability_list of
        Ok s \<Rightarrow> s | _ \<Rightarrow> \<lparr>cs_values = [], cs_index = {}\<rparr>)"

definition WithClock :: "(nat \<Rightarrow> time) option \<Rightarrow> memory \<Rightarrow> memory" where
  "WithClock clock adapter =
     (case clock of None \<Rightarrow> adapter | Some f \<Rightarrow> adapter\<lparr>mem_clock := f\<rparr>)"

text \<open>\<open>wall\<close> stands for \<^verbatim>\<open>time.Now().UTC()\<close> and \<open>order\<close> for the runtime's map order.\<close>

definition memory_New ::
  "(nat \<Rightarrow> time) \<Rightarrow> ((string \<times> object) list \<Rightarrow> (string \<times> object) list) \<Rightarrow>
    (memory \<Rightarrow> memory) list \<Rightarrow> memory" where
  "memory_New wall order options =
     foldl (\<lambda>adapter option. option adapter)
       \<lparr>mem_objects = [], mem_clock = wall, mem_ticks = 0, mem_range = order\<rparr> options"

section \<open>Helpers\<close>

definition mem_notFound :: "path \<Rightarrow> err" where
  "mem_notFound p = Errorf ''%w: %s'' [FStr (Path_String p)] [Sentinel ErrNotFound]"

definition normalizeVisibility :: "Visibility \<Rightarrow> Visibility res" where
  "normalizeVisibility v =
     (case v of
        VisibilityUnset \<Rightarrow> Ok VisibilityPrivate
      | VisibilityPrivate \<Rightarrow> Ok VisibilityPrivate
      | VisibilityPublic \<Rightarrow> Ok v
      | VisibilityNamed n \<Rightarrow> Err (Errorf ''filesystem: invalid visibility %q'' [FStr n] []))"

text \<open>Maps are values here, so the copy is equal to its source, nil included.\<close>

definition cloneMap :: "usermeta \<Rightarrow> usermeta" where
  "cloneMap source =
     (case source of None \<Rightarrow> None | Some m \<Rightarrow> Some (map (\<lambda>(key, value). (key, value)) m))"

definition metadataFor :: "path \<Rightarrow> object \<Rightarrow> Metadata" where
  "metadataFor p stored =
     \<lparr>m_Path = p, m_Kind = EntryKindFile, m_Size = go_len (o_content stored),
      m_Modified = o_modified stored, m_ETag = [], m_ContentType = o_contentType stored,
      m_UserMetadata = cloneMap (o_metadata stored), m_Visibility = o_visibility stored\<rparr>"

definition mem_effectiveListLimit :: "int64 \<Rightarrow> int64 \<Rightarrow> int64" where
  "mem_effectiveListLimit requested available =
     (if requested = 0 then available else go_min requested available)"

section \<open>Operations\<close>

definition mem_Open :: "path \<Rightarrow> (memory, stream) action" where
  "mem_Open p a c = check_ctx c a (\<lambda>c.
     case lookup_object a p of
       None \<Rightarrow> (Err (mem_notFound p), a, c)
     | Some stored \<Rightarrow> (Ok (bytes_stream (o_content stored)), a, c))"

definition mem_OpenRange :: "path \<Rightarrow> ByteRange \<Rightarrow> (memory, stream) action" where
  "mem_OpenRange p r a c =
     (if sint (br_Offset r) < 0 \<or> sint (br_Length r) \<le> 0
      then (Err (invalid_range ''%w: offset=%d length=%d'' (br_Offset r) (br_Length r)), a, c)
      else check_ctx c a (\<lambda>c.
        case lookup_object a p of
          None \<Rightarrow> (Err (mem_notFound p), a, c)
        | Some stored \<Rightarrow>
            let content = o_content stored in
            if sint (go_len content) \<le> sint (br_Offset r)
            then (Err (invalid_range ''%w: offset=%d size=%d'' (br_Offset r) (go_len content)), a, c)
            else let available = go_len content - br_Offset r;
                     end = br_Offset r + go_min (br_Length r) available
                 in (case go_slice content (br_Offset r) end of
                       Ok part \<Rightarrow> (Ok (bytes_stream part), a, c)
                     | Err e \<Rightarrow> (Err e, a, c)
                     | Panic e \<Rightarrow> (Panic e, a, c))))"

text \<open>
  \<^verbatim>\<open>Write\<close>: the checks, the copy of the source through the context reader, then the
  publication under the lock.
\<close>

definition mem_publish :: "path \<Rightarrow> string \<Rightarrow> Visibility \<Rightarrow> WriteOptions \<Rightarrow> (memory, Metadata) action" where
  "mem_publish p content v opts a c =
     (case clock_now a of (now, a1) \<Rightarrow>
       let stored = \<lparr>o_content = content, o_metadata = cloneMap (wo_Metadata opts),
                     o_contentType = wo_ContentType opts, o_visibility = v, o_modified = now\<rparr>
       in if wo_IfNoneMatch opts \<and> lookup_object a1 p \<noteq> None
          then (Err (Errorf ''%w: %s'' [FStr (Path_String p)] [Sentinel ErrPreconditionFailed]), a1, c)
          else (Ok (metadataFor p stored), store_object p stored a1, c))"

definition mem_Write :: "path \<Rightarrow> reads \<Rightarrow> WriteOptions \<Rightarrow> (memory, Metadata) action" where
  "mem_Write p source opts a c =
     (if IsRoot p then (Err rootPathError, a, c)
      else case normalizeVisibility (wo_Visibility opts) of
        Err e \<Rightarrow> (Err e, a, c)
      | Panic e \<Rightarrow> (Panic e, a, c)
      | Ok v \<Rightarrow>
          (case context_copy c source of
             ((content, Some e), c1) \<Rightarrow> (Err e, a, c1)
           | ((content, None), c1) \<Rightarrow> check_ctx c1 a (mem_publish p content v opts a)))"

text \<open>
  \<^verbatim>\<open>OpenWriter\<close> returns a stream writer; what it will run on the bytes of its pipe is the
  consumer, here \<^verbatim>\<open>Write\<close> with its metadata dropped.
\<close>

definition mem_OpenWriter :: "path \<Rightarrow> WriteOptions \<Rightarrow> (memory, memory consumer) action" where
  "mem_OpenWriter p opts a c = check_ctx c a (\<lambda>c.
     if IsRoot p then (Err rootPathError, a, c)
     else (Ok (\<lambda>source a' c'. drop_result (mem_Write p source opts a' c')), a, c))"

definition mem_Delete :: "path \<Rightarrow> (memory, unit) action" where
  "mem_Delete p a c = check_ctx c a (\<lambda>c.
     case lookup_object a p of
       None \<Rightarrow> (Err (mem_notFound p), a, c)
     | Some _ \<Rightarrow> (Ok (), delete_object p a, c))"

definition mem_Stat :: "path \<Rightarrow> (memory, Metadata) action" where
  "mem_Stat p a c = check_ctx c a (\<lambda>c.
     case lookup_object a p of
       None \<Rightarrow> (Err (mem_notFound p), a, c)
     | Some stored \<Rightarrow> (Ok (metadataFor p stored), a, c))"

text \<open>\<^verbatim>\<open>List\<close>: one round of the loop over the objects, then the sort and the limit.\<close>

definition put_entry ::
  "string \<Rightarrow> (path \<Rightarrow> Entry) \<Rightarrow> (string \<times> Entry) list \<Rightarrow> (string \<times> Entry) list res" where
  "put_entry name mk acc =
     bind_res (MustParsePath name) (\<lambda>p. Ok (AList.update name (mk p) acc))"

definition list_step ::
  "string \<Rightarrow> bool \<Rightarrow> (string \<times> Entry) list \<Rightarrow> string \<times> object \<Rightarrow> (string \<times> Entry) list res" where
  "list_step pre recursive acc obj =
     (case obj of (name, stored) \<Rightarrow>
       if \<not> HasPrefix name pre then Ok acc
       else let remainder = TrimPrefix name pre in
         (case (if recursive then None else cut_at slash remainder) of
           Some (child, _) \<Rightarrow>
             put_entry (pre @ child)
               (\<lambda>p. \<lparr>e_Path = p, e_Kind = EntryKindDirectory, e_Size = 0, e_Modified = 0\<rparr>) acc
         | None \<Rightarrow>
             put_entry name
               (\<lambda>p. \<lparr>e_Path = p, e_Kind = EntryKindFile, e_Size = go_len (o_content stored),
                     e_Modified = o_modified stored\<rparr>) acc))"

fun list_loop ::
  "string \<Rightarrow> bool \<Rightarrow> (string \<times> Entry) list \<Rightarrow> (string \<times> object) list \<Rightarrow> (string \<times> Entry) list res" where
  "list_loop pre recursive acc [] = Ok acc"
| "list_loop pre recursive acc (obj # objs) =
     bind_res (list_step pre recursive acc obj) (\<lambda>acc'. list_loop pre recursive acc' objs)"

definition limit_entries :: "int64 \<Rightarrow> Entry list \<Rightarrow> Entry list res" where
  "limit_entries limit entries =
     (let n = mem_effectiveListLimit limit (go_len entries)
      in if n \<noteq> go_len entries then go_slice entries 0 n else Ok entries)"

definition list_prefix :: "path \<Rightarrow> string" where
  "list_prefix directory =
     (let pre = Path_String directory in if pre \<noteq> [] then pre @ [slash] else pre)"

definition mem_List :: "path \<Rightarrow> ListOptions \<Rightarrow> (memory, slice_iterator) action" where
  "mem_List directory opts a c = check_ctx c a (\<lambda>c.
     if sint (lo_Limit opts) < 0
     then (Err (New ''filesystem: list limit must not be negative''), a, c)
     else (case bind_res
            (list_loop (list_prefix directory) (lo_Recursive opts) [] (range_objects a))
            (\<lambda>entriesByPath.
               limit_entries (lo_Limit opts) (sort_key entry_key (map snd entriesByPath))) of
        Ok entries \<Rightarrow> (Ok (new_iterator entries), a, c)
      | Err e \<Rightarrow> (Err e, a, c)
      | Panic e \<Rightarrow> (Panic e, a, c)))"

definition alreadyExists :: "path \<Rightarrow> err" where
  "alreadyExists p = Errorf ''%w: %s'' [FStr (Path_String p)] [Sentinel ErrAlreadyExists]"

definition mem_Copy :: "path \<Rightarrow> path \<Rightarrow> CopyOptions \<Rightarrow> (memory, unit) action" where
  "mem_Copy source destination opts a c = check_ctx c a (\<lambda>c.
     case lookup_object a source of
       None \<Rightarrow> (Err (mem_notFound source), a, c)
     | Some stored \<Rightarrow>
         if \<not> co_Overwrite opts \<and> lookup_object a destination \<noteq> None
         then (Err (alreadyExists destination), a, c)
         else (case clock_now a of (now, a1) \<Rightarrow>
           (Ok (), store_object destination
              (stored\<lparr>o_metadata := cloneMap (o_metadata stored), o_modified := now\<rparr>) a1, c)))"

definition mem_Move :: "path \<Rightarrow> path \<Rightarrow> MoveOptions \<Rightarrow> (memory, unit) action" where
  "mem_Move source destination opts a c = check_ctx c a (\<lambda>c.
     case lookup_object a source of
       None \<Rightarrow> (Err (mem_notFound source), a, c)
     | Some stored \<Rightarrow>
         if \<not> mo_Overwrite opts \<and> lookup_object a destination \<noteq> None
         then (Err (alreadyExists destination), a, c)
         else if source = destination then (Ok (), a, c)
         else (case clock_now a of (now, a1) \<Rightarrow>
           (Ok (), delete_object source
              (store_object destination (stored\<lparr>o_modified := now\<rparr>) a1), c)))"

definition mem_SetMetadata :: "path \<Rightarrow> usermeta \<Rightarrow> (memory, unit) action" where
  "mem_SetMetadata p md a c = check_ctx c a (\<lambda>c.
     case lookup_object a p of
       None \<Rightarrow> (Err (mem_notFound p), a, c)
     | Some stored \<Rightarrow>
         (case clock_now a of (now, a1) \<Rightarrow>
           (Ok (), store_object p (stored\<lparr>o_metadata := cloneMap md, o_modified := now\<rparr>) a1, c)))"

definition mem_Checksum :: "path \<Rightarrow> ChecksumAlgorithm \<Rightarrow> (memory, Checksum) action" where
  "mem_Checksum p algorithm a c = check_ctx c a (\<lambda>c.
     case lookup_object a p of
       None \<Rightarrow> (Err (mem_notFound p), a, c)
     | Some stored \<Rightarrow>
         let bs = bytes_of (o_content stored) in
         (case algorithm of
            ChecksumMD5 \<Rightarrow>
              (Ok \<lparr>ck_Algorithm = algorithm, ck_Value = hex_EncodeToString (md5_Sum bs)\<rparr>, a, c)
          | ChecksumSHA256 \<Rightarrow>
              (Ok \<lparr>ck_Algorithm = algorithm, ck_Value = hex_EncodeToString (sha256_Sum bs)\<rparr>, a, c)
          | ChecksumCRC32C \<Rightarrow>
              (Ok \<lparr>ck_Algorithm = algorithm, ck_Value = sprintf_08x (crc32c bs)\<rparr>, a, c)
          | ChecksumNamed _ \<Rightarrow>
              (Err (Unsupported ''memory'' CapabilityChecksum OperationChecksum), a, c)))"

definition mem_Visibility :: "path \<Rightarrow> (memory, Visibility) action" where
  "mem_Visibility p a c =
     (case mem_Stat p a c of (r, a', c') \<Rightarrow> (bind_res r (\<lambda>md. Ok (m_Visibility md)), a', c'))"

definition mem_SetVisibility :: "path \<Rightarrow> Visibility \<Rightarrow> (memory, unit) action" where
  "mem_SetVisibility p visibility a c =
     (case normalizeVisibility visibility of
        Err e \<Rightarrow> (Err e, a, c)
      | Panic e \<Rightarrow> (Panic e, a, c)
      | Ok v \<Rightarrow> check_ctx c a (\<lambda>c.
          case lookup_object a p of
            None \<Rightarrow> (Err (mem_notFound p), a, c)
          | Some stored \<Rightarrow>
              (case clock_now a of (now, a1) \<Rightarrow>
                (Ok (), store_object p (stored\<lparr>o_visibility := v, o_modified := now\<rparr>) a1, c))))"

definition memory_backend :: "(memory, slice_iterator, memory consumer) backend" where
  "memory_backend =
     \<lparr>be_Capabilities = memory_Capabilities, be_Open = mem_Open, be_OpenRange = mem_OpenRange,
      be_Write = mem_Write, be_OpenWriter = mem_OpenWriter, be_Delete = mem_Delete,
      be_List = mem_List, be_Stat = mem_Stat, be_Copy = mem_Copy, be_Move = mem_Move,
      be_SetMetadata = mem_SetMetadata, be_Checksum = mem_Checksum,
      be_Visibility = mem_Visibility, be_SetVisibility = mem_SetVisibility,
      be_iterator = slice_iterator_ops\<rparr>"

section \<open>The invariant\<close>

text \<open>
  Every key of the map is the text of a well-formed path other than the root, no key occurs
  twice, and every stored visibility is one of the two of the vocabulary.
\<close>

definition object_ok :: "object \<Rightarrow> bool" where
  "object_ok obj = (o_visibility obj = VisibilityPrivate \<or> o_visibility obj = VisibilityPublic)"

definition key_ok :: "string \<Rightarrow> bool" where
  "key_ok k = (wf_path \<lparr>pvalue = k\<rparr> \<and> k \<noteq> [])"

definition mem_ok :: "memory \<Rightarrow> bool" where
  "mem_ok a =
     (distinct (map fst (mem_objects a)) \<and>
      (\<forall>(k, obj) \<in> set (mem_objects a). key_ok k \<and> object_ok obj))"

named_theorems memory_defs \<open>the operations of the adapter\<close>

lemmas [memory_defs] =
  mem_Open_def mem_OpenRange_def mem_Write_def mem_publish_def mem_OpenWriter_def
  mem_Delete_def mem_Stat_def mem_List_def mem_Copy_def mem_Move_def mem_SetMetadata_def
  mem_Checksum_def mem_Visibility_def mem_SetVisibility_def clock_now_def

lemma memory_New_ok:
  assumes "\<forall>f \<in> set options. \<exists>clock. f = WithClock clock"
  shows "mem_objects (memory_New wall order options) = []"
proof -
  have "mem_objects (foldl (\<lambda>adapter option. option adapter) a options) = mem_objects a" for a
    using assms
    by (induction options arbitrary: a) (auto simp: WithClock_def split: option.splits)
  then show ?thesis by (simp add: memory_New_def)
qed

lemma lookup_store [simp]:
  "lookup_object (store_object p obj a) q = (if q = p then Some obj else lookup_object a q)"
  by (simp add: lookup_object_def store_object_def update_conv' Path_String_def)

lemma lookup_delete [simp]:
  "lookup_object (delete_object p a) q = (if q = p then None else lookup_object a q)"
  by (simp add: lookup_object_def delete_object_def delete_conv' Path_String_def)

lemma lookup_ticks [simp]: "lookup_object (a\<lparr>mem_ticks := n\<rparr>) q = lookup_object a q"
  by (simp add: lookup_object_def)

lemma mem_ok_ticks [simp]: "mem_ok (a\<lparr>mem_ticks := n\<rparr>) = mem_ok a"
  by (simp add: mem_ok_def)

lemma set_update_subset: "set (AList.update k v xs) \<subseteq> insert (k, v) (set xs)"
  by (induction xs) auto

lemma mem_okD:
  "mem_ok a \<Longrightarrow> (k, obj) \<in> set (mem_objects a) \<Longrightarrow> key_ok k \<and> object_ok obj"
  by (auto simp: mem_ok_def)

lemma mem_ok_store:
  assumes "mem_ok a" and "wf_path p" and "\<not> IsRoot p" and "object_ok obj"
  shows "mem_ok (store_object p obj a)"
proof -
  have "key_ok k \<and> object_ok v" if "(k, v) \<in> set (AList.update (pvalue p) obj (mem_objects a))" for k v
  proof (cases "(k, v) \<in> set (mem_objects a)")
    case True
    with assms(1) show ?thesis by (rule mem_okD)
  next
    case False
    with subsetD [OF set_update_subset that] have "k = pvalue p" "v = obj" by simp_all
    with assms(2-4) show ?thesis by (simp add: key_ok_def IsRoot_def)
  qed
  then show ?thesis
    using assms(1)
    by (auto simp: mem_ok_def store_object_def Path_String_def intro: distinct_update)
qed

lemma set_delete_subset: "set (AList.delete k xs) \<subseteq> set xs"
  by (auto simp: AList.delete_eq)

lemma mem_ok_delete:
  assumes "mem_ok a" shows "mem_ok (delete_object p a)"
proof -
  have "key_ok k \<and> object_ok v" if "(k, v) \<in> set (AList.delete (pvalue p) (mem_objects a))" for k v
    by (rule mem_okD [OF assms subsetD [OF set_delete_subset that]])
  with assms show ?thesis
    by (auto simp: mem_ok_def delete_object_def Path_String_def intro: distinct_delete)
qed

lemma mem_ok_lookup:
  assumes "mem_ok a" and "lookup_object a p = Some obj"
  shows "wf_path p" and "\<not> IsRoot p" and "object_ok obj"
proof -
  from assms(2) have "(pvalue p, obj) \<in> set (mem_objects a)"
    by (simp add: lookup_object_def Path_String_def map_of_SomeD)
  with assms(1) have "key_ok (pvalue p) \<and> object_ok obj" by (rule mem_okD)
  then show "wf_path p" and "\<not> IsRoot p" and "object_ok obj"
    by (simp_all add: key_ok_def IsRoot_def)
qed

lemma object_ok_update [simp]:
  "object_ok (obj\<lparr>o_metadata := m\<rparr>) = object_ok obj"
  "object_ok (obj\<lparr>o_modified := t\<rparr>) = object_ok obj"
  by (simp_all add: object_ok_def)

lemma normalizeVisibility_spec:
  "normalizeVisibility v = Ok w \<longleftrightarrow> spec_visibility v = Some w"
  by (cases v) (auto simp: normalizeVisibility_def spec_visibility_def)

lemma normalizeVisibility_ok:
  "spec_visibility v = Some w \<Longrightarrow> w = VisibilityPrivate \<or> w = VisibilityPublic"
  by (simp add: spec_visibility_def split: if_splits)

lemma cloneMap_id [simp]: "cloneMap m = m"
  by (simp add: cloneMap_def split: option.splits)

end
