(* ===== verification/Memory_Store.thy ===== *)
theory Memory_Store
  imports Memory_Adapter
begin

text \<open>
  The in-memory adapter implements the abstract store: \<open>mem_view\<close> is the abstraction,
  \<open>mem_ok\<close> the invariant, and the interpretation of \<open>object_store\<close> on \<open>memory_backend\<close>
  discharges every law of the contract. The listing is the laborious part: the loop over
  the objects is shown to insert one entry per visible child, whatever the iteration order.
\<close>

section \<open>The abstraction\<close>

definition file_of :: "object \<Rightarrow> stored_file" where
  "file_of obj =
     \<lparr>f_content = o_content obj, f_metadata = o_metadata obj,
      f_contentType = o_contentType obj, f_visibility = o_visibility obj\<rparr>"

definition mem_view :: "memory \<Rightarrow> store" where
  "mem_view a = (\<lambda>p. map_option file_of (lookup_object a p))"

lemma mem_view_store [simp]:
  "mem_view (store_object p obj a) = (mem_view a)(p \<mapsto> file_of obj)"
  by (auto simp: mem_view_def)

lemma mem_view_delete [simp]: "mem_view (delete_object p a) = (mem_view a)(p := None)"
  by (auto simp: mem_view_def)

lemma mem_view_ticks [simp]: "mem_view (a\<lparr>mem_ticks := n\<rparr>) = mem_view a"
  by (simp add: mem_view_def)

lemma dom_mem_view: "dom (mem_view a) = {p. pvalue p \<in> fst ` set (mem_objects a)}"
  by (simp add: mem_view_def lookup_object_def Path_String_def dom_def map_of_eq_None_iff
      del: not_None_eq)

lemma pvalue_vimage: "pvalue ` {p :: path. pvalue p \<in> S} = S"
proof
  show "S \<subseteq> pvalue ` {p :: path. pvalue p \<in> S}"
  proof
    fix k assume "k \<in> S"
    then show "k \<in> pvalue ` {p :: path. pvalue p \<in> S}" by (intro image_eqI [of _ _ "\<lparr>pvalue = k\<rparr>"]) simp_all
  qed
qed auto

lemma pvalue_dom: "pvalue ` dom (mem_view a) = fst ` set (mem_objects a)"
  by (simp only: dom_mem_view pvalue_vimage)

lemma inj_pvalue: "inj_on pvalue (A :: path set)"
  by (auto simp: inj_on_def)

lemma finite_dom_mem_view: "finite (dom (mem_view a))"
  by (rule finite_imageD [OF _ inj_pvalue]) (simp add: pvalue_dom)

section \<open>Listings\<close>

lemma pvalue_inject: "pvalue p = pvalue q \<longleftrightarrow> p = (q :: path)"
  by (auto intro: path.equality)

lemma range_objects_mset: "mset (range_objects a) = mset (mem_objects a)"
  by (simp add: range_objects_def Let_def)

lemmas range_objects_set = mset_eq_setD [OF range_objects_mset]
lemmas range_objects_length = mset_eq_length [OF range_objects_mset]

lemma pvalue_beneath:
  assumes "segments p = segments d @ r" and "r \<noteq> []"
  shows "pvalue p = list_prefix d @ join_with slash r"
proof -
  have "pvalue p = join_with slash (segments d @ r)"
    by (metis join_segments assms(1))
  then show ?thesis
    using assms(2)
    by (cases "segments d = []")
      (simp_all add: join_with_append join_segments list_prefix_def Let_def Path_String_def segments_def
        split: if_splits)
qed

lemma HasPrefix_beneath:
  assumes "\<not> IsRoot p"
  shows "HasPrefix (pvalue p) (list_prefix d) \<longleftrightarrow> beneath d p"
proof
  assume "beneath d p"
  then show "HasPrefix (pvalue p) (list_prefix d)"
    using pvalue_beneath by (auto simp: beneath_iff HasPrefix_append)
next
  assume "HasPrefix (pvalue p) (list_prefix d)"
  then obtain t where t: "pvalue p = list_prefix d @ t" by (auto simp: HasPrefix_append)
  show "beneath d p"
  proof (cases "pvalue d = []")
    case True
    with assms show ?thesis by (simp add: beneath_iff segments_def IsRoot_def)
  next
    case False
    with t have "pvalue p = pvalue d @ slash # t" by (simp add: list_prefix_def Path_String_def)
    with False show ?thesis
      by (simp add: beneath_iff segments_def split_on_sep_append)
  qed
qed

text \<open>The entry that one object contributes to a listing.\<close>

definition child_entry :: "path \<Rightarrow> bool \<Rightarrow> path \<Rightarrow> object \<Rightarrow> Entry" where
  "child_entry d recursive p stored =
     (if child_path d recursive p = p
      then \<lparr>e_Path = p, e_Kind = EntryKindFile, e_Size = go_len (o_content stored),
            e_Modified = o_modified stored\<rparr>
      else \<lparr>e_Path = child_path d recursive p, e_Kind = EntryKindDirectory, e_Size = 0,
            e_Modified = 0\<rparr>)"

lemma put_entry_path:
  "wf_path p \<Longrightarrow> \<not> IsRoot p \<Longrightarrow> put_entry (pvalue p) mk acc = Ok (AList.update (pvalue p) (mk p) acc)"
  using MustParsePath_String [of p] by (simp add: put_entry_def Path_String_def)

lemma list_step_beneath:
  assumes "wf_path p" and "beneath d p"
  shows "list_step (list_prefix d) recursive acc (pvalue p, stored) =
    Ok (AList.update (pvalue (child_path d recursive p)) (child_entry d recursive p stored) acc)"
proof -
  from assms(2) obtain x r where r: "segments p = segments d @ x # r"
    by (auto simp: beneath_iff neq_Nil_conv)
  note facts = child_path_facts [OF assms(1) r]
  have pre: "HasPrefix (pvalue p) (list_prefix d)"
    using assms(2) HasPrefix_beneath [OF beneath_not_root] by blast
  have v: "pvalue p = list_prefix d @ join_with slash (x # r)" using pvalue_beneath [OF r] by simp
  have x: "slash \<notin> set x" using assms(1) r by (simp add: wf_path_def segment_ok_def)
  have p: "\<not> IsRoot p" using assms(2) by (rule beneath_not_root)
  show ?thesis
  proof (cases "recursive \<or> r = []")
    case True
    then have c: "child_path d recursive p = p" using facts(4) by (cases recursive) (simp_all add: child_path_def)
    have "(if recursive then None else cut_at slash (TrimPrefix (pvalue p) (list_prefix d))) = None"
      using True x v by (auto simp: cut_at_None)
    then show ?thesis
      using pre put_entry_path [OF assms(1) p] by (simp add: list_step_def c child_entry_def)
  next
    case False
    then have c: "child_path d recursive p \<noteq> p" and rf: "\<not> recursive" using facts(4) by auto
    from False v have "TrimPrefix (pvalue p) (list_prefix d) = x @ slash # join_with slash r"
      by (simp add: join_with_Cons)
    then have "cut_at slash (TrimPrefix (pvalue p) (list_prefix d)) = Some (x, join_with slash r)"
      using x by (simp add: cut_at_append)
    moreover have "list_prefix d @ x = pvalue (child_path d recursive p)"
      using pvalue_beneath [of "child_path d False p" d "[x]"] facts(3) rf by simp
    ultimately show ?thesis
      using pre rf c put_entry_path [OF facts(1,2)] by (simp add: list_step_def child_entry_def)
  qed
qed

lemma list_step_other:
  assumes "key_ok k" and "\<not> beneath d \<lparr>pvalue = k\<rparr>"
  shows "list_step (list_prefix d) recursive acc (k, stored) = Ok acc"
  using assms HasPrefix_beneath [of "\<lparr>pvalue = k\<rparr>" d]
  by (simp add: list_step_def key_ok_def IsRoot_def)

definition visible :: "path \<Rightarrow> bool \<Rightarrow> (string \<times> object) list \<Rightarrow> (string \<times> Entry) list" where
  "visible d recursive objs =
     map (\<lambda>(k, stored). (pvalue (child_path d recursive \<lparr>pvalue = k\<rparr>),
            child_entry d recursive \<lparr>pvalue = k\<rparr> stored))
       (filter (\<lambda>(k, stored). beneath d \<lparr>pvalue = k\<rparr>) objs)"

abbreviation put_all :: "(string \<times> 'v) list \<Rightarrow> (string \<times> 'v) list \<Rightarrow> (string \<times> 'v) list" where
  "put_all \<equiv> fold (\<lambda>(k, v). AList.update k v)"

lemma list_loop_eq:
  assumes "\<forall>(k, stored) \<in> set objs. key_ok k"
  shows "list_loop (list_prefix d) recursive acc objs = Ok (put_all (visible d recursive objs) acc)"
  using assms
proof (induction objs arbitrary: acc)
  case (Cons obj objs)
  obtain k stored where obj: "obj = (k, stored)" by (cases obj)
  with Cons.prems have k: "key_ok k" by simp
  show ?case
  proof (cases "beneath d \<lparr>pvalue = k\<rparr>")
    case True
    with Cons k list_step_beneath [of "\<lparr>pvalue = k\<rparr>" d recursive acc stored] obj show ?thesis
      by (simp add: visible_def key_ok_def)
  next
    case False
    with Cons k list_step_other obj show ?thesis by (simp add: visible_def)
  qed
qed (simp add: visible_def)

lemma put_all_keys: "fst ` set (put_all xs acc) = fst ` set xs \<union> fst ` set acc"
proof (induction xs arbitrary: acc)
  case (Cons x xs)
  obtain k v where "x = (k, v)" by (cases x)
  moreover have "fst ` set (AList.update k v acc) = insert k (fst ` set acc)" by (simp add: dom_update)
  ultimately show ?case using Cons by simp
qed simp

lemma put_all_subset: "set (put_all xs acc) \<subseteq> set xs \<union> set acc"
proof (induction xs arbitrary: acc)
  case (Cons x xs)
  obtain k v where "x = (k, v)" by (cases x)
  with Cons [of "AList.update k v acc"] set_update_subset [of k v acc] show ?case by auto
qed simp

lemma put_all_distinct: "distinct (map fst acc) \<Longrightarrow> distinct (map fst (put_all xs acc))"
  by (induction xs arbitrary: acc) (auto simp: distinct_update)

lemma put_all_length: "length (put_all xs acc) \<le> length xs + length acc"
proof (induction xs arbitrary: acc)
  case (Cons x xs)
  obtain k v where x: "x = (k, v)" by (cases x)
  have "length (AList.update k v acc) \<le> Suc (length acc)" by (induction acc) auto
  with Cons [of "AList.update k v acc"] x show ?case by simp
qed simp

definition mem_entries :: "memory \<Rightarrow> path \<Rightarrow> bool \<Rightarrow> Entry list" where
  "mem_entries a d recursive =
     sort_key entry_key (map snd (put_all (visible d recursive (range_objects a)) []))"

lemma child_entry_key [simp]:
  "e_Path (child_entry d recursive p stored) = child_path d recursive p"
  "entry_key (child_entry d recursive p stored) = pvalue (child_path d recursive p)"
  by (simp_all add: child_entry_def entry_key_def Path_String_def)

lemma visible_keys: "(k, e) \<in> set (visible d recursive objs) \<Longrightarrow> entry_key e = k"
  by (auto simp: visible_def)

lemma put_all_visible_keys:
  "map entry_key (map snd (put_all (visible d recursive objs) [])) =
     map fst (put_all (visible d recursive objs) [])"
proof -
  have "entry_key e = k" if "(k, e) \<in> set (put_all (visible d recursive objs) [])" for k e
    using subsetD [OF put_all_subset that] by (auto dest: visible_keys)
  then show ?thesis by auto
qed

lemma mem_entries_strict: "sorted_wrt (<) (map entry_key (mem_entries a d recursive))"
proof (rule sorted_distinct_strict)
  show "sorted (map entry_key (mem_entries a d recursive))" by (simp add: mem_entries_def)
  have "distinct (map entry_key (map snd (put_all (visible d recursive (range_objects a)) [])))"
    by (simp only: put_all_visible_keys put_all_distinct distinct.simps list.map)
  moreover have "mset (map entry_key (sort_key entry_key xs)) = mset (map entry_key xs)" for xs
    by simp
  ultimately show "distinct (map entry_key (mem_entries a d recursive))"
    using mset_eq_imp_distinct_iff unfolding mem_entries_def by blast
qed

lemma mem_entries_from_object:
  assumes "mem_ok a" and "e \<in> set (mem_entries a d recursive)"
  obtains p stored where "wf_path p" "beneath d p" "lookup_object a p = Some stored"
    "e = child_entry d recursive p stored"
proof -
  from assms(2) obtain k where "(k, e) \<in> set (put_all (visible d recursive (range_objects a)) [])"
    by (auto simp: mem_entries_def)
  from subsetD [OF put_all_subset this] obtain n stored
    where n: "(n, stored) \<in> set (mem_objects a)" "beneath d \<lparr>pvalue = n\<rparr>"
      "e = child_entry d recursive \<lparr>pvalue = n\<rparr> stored"
    by (auto simp: visible_def range_objects_set)
  moreover have "wf_path \<lparr>pvalue = n\<rparr>" using mem_okD [OF assms(1) n(1)] by (simp add: key_ok_def)
  moreover have "lookup_object a \<lparr>pvalue = n\<rparr> = Some stored"
    using assms(1) n(1) by (simp add: lookup_object_def Path_String_def mem_ok_def)
  ultimately show thesis using that by blast
qed

lemma mem_entries_paths:
  assumes "mem_ok a"
  shows "e_Path ` set (mem_entries a d recursive) =
    child_path d recursive ` {p \<in> dom (mem_view a). beneath d p}" (is "?L = ?R")
proof
  show "?L \<subseteq> ?R"
  proof
    fix q assume "q \<in> ?L"
    then obtain e where "e \<in> set (mem_entries a d recursive)" "q = e_Path e" by auto
    from mem_entries_from_object [OF assms this(1)] this(2) obtain p stored
      where "beneath d p" "lookup_object a p = Some stored" "q = child_path d recursive p"
      by (metis child_entry_key(1))
    then show "q \<in> ?R" by (auto simp: mem_view_def)
  qed
  show "?R \<subseteq> ?L"
  proof
    fix q assume "q \<in> ?R"
    then obtain p where p: "pvalue p \<in> fst ` set (mem_objects a)" "beneath d p"
        "q = child_path d recursive p"
      by (auto simp: dom_mem_view)
    then have "pvalue q \<in> fst ` set (visible d recursive (range_objects a))"
      by (force simp: visible_def range_objects_set)
    then have "pvalue q \<in> fst ` set (put_all (visible d recursive (range_objects a)) [])"
      by (simp add: put_all_keys)
    then have "pvalue q \<in> set (map entry_key (map snd (put_all (visible d recursive (range_objects a)) [])))"
      by (simp only: put_all_visible_keys set_map)
    then have "pvalue q \<in> entry_key ` set (mem_entries a d recursive)"
      by (simp add: mem_entries_def image_image)
    then show "q \<in> ?L" by (auto simp: entry_key_def Path_String_def pvalue_inject)
  qed
qed

lemma beneath_child:
  assumes "wf_path p" and "beneath d p" and "child_path d recursive p \<noteq> p"
  shows "\<not> recursive" and "beneath (child_path d recursive p) p"
proof -
  from assms(3) show r: "\<not> recursive" by (auto simp: child_path_def)
  from assms(2) obtain x r where r: "segments p = segments d @ x # r"
    by (auto simp: beneath_iff neq_Nil_conv)
  with child_path_facts(3,4) [OF assms(1) r] assms(3) \<open>\<not> recursive\<close>
  show "beneath (child_path d recursive p) p" by (simp add: beneath_iff)
qed

lemma mem_entries_true:
  assumes "mem_ok a" and "e \<in> set (mem_entries a d recursive)"
  shows "entry_true (mem_view a) recursive e"
proof -
  from mem_entries_from_object [OF assms] obtain p stored where p: "wf_path p" "beneath d p"
    "lookup_object a p = Some stored" and e: "e = child_entry d recursive p stored" .
  show ?thesis
  proof (cases "child_path d recursive p = p")
    case True
    with p(3) e show ?thesis by (simp add: entry_true_def child_entry_def mem_view_def file_of_def)
  next
    case False
    from beneath_child [OF p(1,2) False] p(3) e False show ?thesis
      by (auto simp: entry_true_def child_entry_def mem_view_def)
  qed
qed

lemma mem_entries_listing:
  "mem_ok a \<Longrightarrow> listing (mem_view a) d recursive (mem_entries a d recursive)"
  by (simp add: listing_def mem_entries_strict mem_entries_paths mem_entries_true)

lemma mem_entries_length: "length (mem_entries a d recursive) \<le> length (mem_objects a)"
proof -
  have "length (visible d recursive (range_objects a)) \<le> length (mem_objects a)"
    by (simp add: visible_def flip: range_objects_length)
  with put_all_length [of "visible d recursive (range_objects a)" "[]"] show ?thesis
    by (simp add: mem_entries_def)
qed

lemma limit_entries_eq:
  assumes "length es < 2 ^ 63" and "0 \<le> sint limit"
  shows "limit_entries limit es = Ok (limited limit es)"
proof -
  note len = sint_go_len [OF assms(1)]
  have eq: "go_min limit (go_len es) = go_len es \<longleftrightarrow> int (length es) \<le> sint limit"
    by (auto simp: go_min_def len)
  show ?thesis
    using assms(2) eq
    by (auto simp: limit_entries_def mem_effectiveListLimit_def limited_def go_slice_def
        sint_go_min len min_def nat_le_iff)
qed

lemma mem_List_eq:
  assumes "mem_ok a" and "length (mem_objects a) < 2 ^ 63" and "0 \<le> sint (lo_Limit opts)"
  shows "mem_List d opts a Background =
    (Ok (new_iterator (limited (lo_Limit opts) (mem_entries a d (lo_Recursive opts)))), a, Background)"
proof -
  have "\<forall>(k, stored) \<in> set (range_objects a). key_ok k"
    using mem_okD [OF assms(1)] by (auto simp: range_objects_set)
  note loop = list_loop_eq [OF this]
  have "length (mem_entries a d (lo_Recursive opts)) < 2 ^ 63"
    using mem_entries_length [of a d "lo_Recursive opts"] assms(2) by linarith
  note limit_entries_eq [OF this assms(3)]
  with assms(3) show ?thesis
    by (simp add: mem_List_def loop flip: mem_entries_def)
qed

section \<open>The contract\<close>

text \<open>The Go map holds at most as many objects as a machine integer counts.\<close>

definition mem_good :: "memory \<Rightarrow> bool" where
  "mem_good a = (mem_ok a \<and> length (mem_objects a) < 2 ^ 63)"

definition mem_room :: "memory \<Rightarrow> bool" where
  "mem_room a = (length (mem_objects a) + 1 < 2 ^ 63)"

lemma mem_Write_implements:
  assumes "mem_ok a" "wf_path p" "\<not> IsRoot p" "io_copy source = (content, None)"
    "spec_visibility (wo_Visibility opts) = Some v"
  shows "implements mem_ok mem_view (mem_view a) (mem_Write p source opts a Background)
    (spec_write (mem_view a) p (written_file opts content v) (wo_IfNoneMatch opts))"
proof -
  have n: "normalizeVisibility (wo_Visibility opts) = Ok v"
    using assms(5) by (simp add: normalizeVisibility_spec)
  have v: "object_ok \<lparr>o_content = content, o_metadata = wo_Metadata opts,
      o_contentType = wo_ContentType opts, o_visibility = v, o_modified = t\<rparr>" for t
    using normalizeVisibility_ok [OF assms(5)] by (simp add: object_ok_def)
  show ?thesis
    using assms(1-4) n
    by (auto simp: mem_Write_def mem_publish_def clock_now_def context_copy_Background Let_def
        spec_write_def implements_def mem_view_def [of a] mem_ok_store v file_of_def written_file_def)
qed

lemma mem_Copy_implements:
  assumes "mem_ok a" "wf_path q" "\<not> IsRoot q"
  shows "implements mem_ok mem_view (mem_view a) (mem_Copy p q opts a Background)
    (spec_copy (mem_view a) p q (co_Overwrite opts))"
proof (cases "lookup_object a p")
  case None
  then show ?thesis
    using assms(1) by (simp add: mem_Copy_def spec_copy_def mem_view_def implements_def mem_notFound_def)
next
  case (Some stored)
  with mem_ok_lookup(3) [OF assms(1) Some] assms show ?thesis
    by (auto simp: mem_Copy_def clock_now_def spec_copy_def mem_view_def [of a] implements_def
        alreadyExists_def mem_ok_store file_of_def)
qed

lemma mem_Move_implements:
  assumes "mem_ok a" "wf_path q" "\<not> IsRoot q"
  shows "implements mem_ok mem_view (mem_view a) (mem_Move p q opts a Background)
    (spec_move (mem_view a) p q (mo_Overwrite opts))"
proof (cases "lookup_object a p")
  case None
  then show ?thesis
    using assms(1) by (simp add: mem_Move_def spec_move_def mem_view_def implements_def mem_notFound_def)
next
  case (Some stored)
  with mem_ok_lookup(3) [OF assms(1) Some] assms show ?thesis
    by (auto simp: mem_Move_def clock_now_def spec_move_def mem_view_def [of a] implements_def
        alreadyExists_def mem_ok_store mem_ok_delete file_of_def)
qed

lemma mem_update_implements:
  assumes "mem_ok a" and "\<And>stored. object_ok stored \<Longrightarrow> object_ok (g stored)"
    and "\<And>stored. file_of (g stored) = h (file_of stored)"
    and "run = (case lookup_object a p of
        None \<Rightarrow> (Err (mem_notFound p), a, Background)
      | Some stored \<Rightarrow> (Ok (), store_object p (g stored) (a\<lparr>mem_ticks := n\<rparr>), Background))"
  shows "implements mem_ok mem_view (mem_view a) run (spec_update (mem_view a) p h)"
proof (cases "lookup_object a p")
  case None
  then show ?thesis
    using assms(1,4) by (simp add: spec_update_def mem_view_def implements_def mem_notFound_def)
next
  case (Some stored)
  with mem_ok_lookup [OF assms(1) Some] assms show ?thesis
    by (auto simp: spec_update_def mem_view_def [of a] implements_def mem_ok_store)
qed

lemma mem_Delete_implements:
  "mem_ok a \<Longrightarrow> implements mem_ok mem_view (mem_view a) (mem_Delete p a Background)
    (spec_delete (mem_view a) p)"
  by (cases "lookup_object a p")
    (auto simp: mem_Delete_def spec_delete_def mem_view_def [of a] implements_def mem_notFound_def
      mem_ok_delete)

lemma mem_SetMetadata_implements:
  "mem_ok a \<Longrightarrow> implements mem_ok mem_view (mem_view a) (mem_SetMetadata p md a Background)
    (spec_update (mem_view a) p (\<lambda>f. f\<lparr>f_metadata := md\<rparr>))"
  by (rule mem_update_implements [where n = "Suc (mem_ticks a)" and
        g = "\<lambda>stored. stored\<lparr>o_metadata := md, o_modified := mem_clock a (mem_ticks a)\<rparr>"])
    (simp_all add: mem_SetMetadata_def clock_now_def file_of_def split: option.split)

lemma mem_SetVisibility_implements:
  assumes "mem_ok a" and "spec_visibility vis = Some v"
  shows "implements mem_ok mem_view (mem_view a) (mem_SetVisibility p vis a Background)
    (spec_update (mem_view a) p (\<lambda>f. f\<lparr>f_visibility := v\<rparr>))"
  using assms(2) normalizeVisibility_ok [OF assms(2)]
  by (intro mem_update_implements [OF assms(1), where n = "Suc (mem_ticks a)" and
        g = "\<lambda>stored. stored\<lparr>o_visibility := v, o_modified := mem_clock a (mem_ticks a)\<rparr>"])
    (simp_all add: mem_SetVisibility_def clock_now_def file_of_def object_ok_def
      normalizeVisibility_spec [THEN iffD2] split: option.split)

lemma mem_Open_observes:
  "mem_good a \<Longrightarrow> observes mem_good mem_view (mem_view a) (mem_Open p a Background)
    (\<lambda>r. case mem_view a p of
       None \<Rightarrow> fails_with r ErrNotFound
     | Some f \<Rightarrow> \<exists>st. r = Ok st \<and> stream_of st (f_content f))"
  by (cases "lookup_object a p")
    (simp_all add: mem_Open_def observes_def mem_view_def [of a] mem_notFound_def stream_of_def
      io_copy_bytes_stream bytes_stream_def file_of_def)

lemma mem_Stat_observes:
  "mem_good a \<Longrightarrow> observes mem_good mem_view (mem_view a) (mem_Stat p a Background)
    (\<lambda>r. case mem_view a p of
       None \<Rightarrow> fails_with r ErrNotFound
     | Some f \<Rightarrow> \<exists>md. r = Ok md \<and> describes md p f)"
  by (cases "lookup_object a p")
    (simp_all add: mem_Stat_def observes_def mem_view_def [of a] mem_notFound_def describes_def
      metadataFor_def file_of_def)

lemma mem_List_observes:
  assumes "mem_good a" "0 \<le> sint (lo_Limit opts)"
  shows "observes mem_good mem_view (mem_view a) (mem_List d opts a Background)
    (\<lambda>r. \<exists>it es. r = Ok it \<and> listing (mem_view a) d (lo_Recursive opts) es \<and>
       si_pending it = limited (lo_Limit opts) es \<and> None = (None :: err option))"
  using mem_List_eq [of a, OF _ _ assms(2)] assms(1) mem_entries_listing [of a]
  by (auto simp: mem_good_def observes_def si_pending_def new_iterator_def)

lemma memory_backend_sel [simp]:
  "be_Capabilities memory_backend = memory_Capabilities" "be_Open memory_backend = mem_Open"
  "be_OpenRange memory_backend = mem_OpenRange" "be_Write memory_backend = mem_Write"
  "be_OpenWriter memory_backend = mem_OpenWriter" "be_Delete memory_backend = mem_Delete"
  "be_List memory_backend = mem_List" "be_Stat memory_backend = mem_Stat"
  "be_Copy memory_backend = mem_Copy" "be_Move memory_backend = mem_Move"
  "be_SetMetadata memory_backend = mem_SetMetadata" "be_Checksum memory_backend = mem_Checksum"
  "be_Visibility memory_backend = mem_Visibility"
  "be_SetVisibility memory_backend = mem_SetVisibility"
  "be_iterator memory_backend = slice_iterator_ops"
  by (simp_all add: memory_backend_def)

lemma mem_view_wf: "mem_good a \<Longrightarrow> p \<in> dom (mem_view a) \<Longrightarrow> wf_path p"
  by (auto simp: mem_view_def mem_good_def dest: mem_ok_lookup(1))

text \<open>An operation adds at most one object.\<close>

lemma implements_good:
  assumes "implements mem_ok mem_view V outcome spec"
    and "length (mem_objects (fst (snd outcome))) < 2 ^ 63"
  shows "implements mem_good mem_view V outcome spec"
  using assms by (auto simp: implements_def mem_good_def)

lemma length_update:
  "length (AList.update k v xs) = (if k \<in> fst ` set xs then length xs else Suc (length xs))"
  by (induction xs) auto

lemma length_store:
  "length (mem_objects (store_object p obj a)) =
    (if lookup_object a p = None then Suc (length (mem_objects a)) else length (mem_objects a))"
  by (simp add: store_object_def length_update lookup_object_def map_of_eq_None_iff)

lemma length_delete: "length (mem_objects (delete_object p a)) \<le> length (mem_objects a)"
  by (simp add: delete_object_def AList.length_delete_le)

lemma mem_Write_length:
  "length (mem_objects (fst (snd (mem_Write p source opts a c)))) \<le> Suc (length (mem_objects a))"
  by (auto simp: mem_Write_def mem_publish_def clock_now_def check_ctx_if Let_def length_store
      split: res.split prod.split option.split)

lemma mem_Copy_length:
  "length (mem_objects (fst (snd (mem_Copy p q copts a c)))) \<le> Suc (length (mem_objects a))"
  by (auto simp: mem_Copy_def clock_now_def check_ctx_if length_store split: option.split)

lemma mem_Move_length:
  "length (mem_objects (fst (snd (mem_Move p q mopts a c)))) \<le> Suc (length (mem_objects a))"
  by (auto simp: mem_Move_def clock_now_def check_ctx_if length_store
      intro: le_trans [OF length_delete] split: option.split)

lemma mem_Delete_length:
  "length (mem_objects (fst (snd (mem_Delete p a c)))) \<le> length (mem_objects a)"
  by (auto simp: mem_Delete_def check_ctx_if length_delete split: option.split)

lemma mem_update_length:
  "length (mem_objects (fst (snd (mem_SetMetadata p md a c)))) = length (mem_objects a)"
  "length (mem_objects (fst (snd (mem_SetVisibility p vis a c)))) = length (mem_objects a)"
  by (auto simp: mem_SetMetadata_def mem_SetVisibility_def clock_now_def check_ctx_if length_store
      split: option.split res.split)

lemmas mem_lengths = mem_Write_length [THEN le_less_trans] mem_Copy_length [THEN le_less_trans]
  mem_Move_length [THEN le_less_trans] mem_Delete_length [THEN le_less_trans] mem_update_length

interpretation mem: object_store memory_backend mem_good mem_view mem_room si_pending "\<lambda>_. None"
proof (rule object_store.intro, unfold memory_backend_sel)
  fix s p q source content opts v vis copts mopts md
  assume good: "mem_good s"
  then have s: "mem_ok s" "length (mem_objects s) < 2 ^ 63" by (simp_all add: mem_good_def)
  show "finite (dom (mem_view s))" by (rule finite_dom_mem_view)
  show "implements mem_good mem_view (mem_view s) (mem_Delete p s Background) (spec_delete (mem_view s) p)"
    by (rule implements_good [OF mem_Delete_implements [OF s(1)]]) (rule mem_lengths(4) [OF s(2)])
  show "implements mem_good mem_view (mem_view s) (mem_SetMetadata p md s Background)
      (spec_update (mem_view s) p (\<lambda>f. f\<lparr>f_metadata := md\<rparr>))"
    by (rule implements_good [OF mem_SetMetadata_implements [OF s(1)]]) (use s(2) in \<open>simp add: mem_update_length\<close>)
  show "implements mem_good mem_view (mem_view s) (mem_SetVisibility p vis s Background)
      (spec_update (mem_view s) p (\<lambda>f. f\<lparr>f_visibility := v\<rparr>))" if "spec_visibility vis = Some v"
    by (rule implements_good [OF mem_SetVisibility_implements [OF s(1) that]]) (use s(2) in \<open>simp add: mem_update_length\<close>)
  assume "mem_room s"
  then have room: "Suc (length (mem_objects s)) < 2 ^ 63" by (simp add: mem_room_def)
  show "implements mem_good mem_view (mem_view s) (mem_Write p source opts s Background)
      (spec_write (mem_view s) p (written_file opts content v) (wo_IfNoneMatch opts))"
    if "wf_path p" "\<not> IsRoot p" "io_copy source = (content, None)"
      "spec_visibility (wo_Visibility opts) = Some v"
    by (rule implements_good [OF mem_Write_implements [OF s(1) that]]) (rule mem_lengths(1) [OF room])
  assume "wf_path q" "\<not> IsRoot q"
  note q = this
  show "implements mem_good mem_view (mem_view s) (mem_Copy p q copts s Background)
      (spec_copy (mem_view s) p q (co_Overwrite copts))"
    by (rule implements_good [OF mem_Copy_implements [OF s(1) q]]) (rule mem_lengths(2) [OF room])
  show "implements mem_good mem_view (mem_view s) (mem_Move p q mopts s Background)
      (spec_move (mem_view s) p q (mo_Overwrite mopts))"
    by (rule implements_good [OF mem_Move_implements [OF s(1) q]]) (rule mem_lengths(3) [OF room])
qed (assumption | rule slice.entry_iterator_axioms mem_view_wf mem_Open_observes mem_Stat_observes mem_List_observes)+

end
