(* ===== verification/Memory_Theorems.thy ===== *)
theory Memory_Theorems
  imports Memory_Store
begin

text \<open>
  What the in-memory adapter guarantees: refinement of the abstract store, atomic writes,
  exact range reads, exact listings, the invariant over every sequence of requests and
  every moment of cancellation, and the two places where the code leaves its contract.
\<close>

section \<open>The invariant under every context\<close>

lemma mem_Write_failed:
  assumes "mem_Write p source opts a c = (r, a', c')" and "\<forall>md. r \<noteq> Ok md"
  shows "\<exists>e. r = Err e" and "a' = a \<or> a' = a\<lparr>mem_ticks := Suc (mem_ticks a)\<rparr>"
  using assms
  by (auto simp: mem_Write_def mem_publish_def clock_now_def check_ctx_if Let_def
      normalizeVisibility_def split: res.splits prod.splits option.splits if_splits Visibility.splits)

lemma mem_Write_Ok:
  assumes "mem_Write p source opts a c = (Ok md, a', c')"
  obtains content v t where "\<not> IsRoot p" "spec_visibility (wo_Visibility opts) = Some v"
    "io_copy source = (content, None)" "wo_IfNoneMatch opts \<Longrightarrow> lookup_object a p = None"
    "a' = store_object p \<lparr>o_content = content, o_metadata = wo_Metadata opts,
       o_contentType = wo_ContentType opts, o_visibility = v, o_modified = t\<rparr>
       (a\<lparr>mem_ticks := Suc (mem_ticks a)\<rparr>)"
proof -
  obtain content e d where copy: "context_copy c source = ((content, e), d)"
    by (metis prod.exhaust)
  from assms copy obtain v where "\<not> IsRoot p" and v: "normalizeVisibility (wo_Visibility opts) = Ok v"
    and e: "e = None"
    by (auto simp: mem_Write_def split: if_splits res.splits option.splits)
  moreover from copy e have "io_copy source = (content, None)" by (simp add: context_copy_complete)
  moreover from v have "spec_visibility (wo_Visibility opts) = Some v"
    by (simp add: normalizeVisibility_spec)
  moreover from assms copy v e have "wo_IfNoneMatch opts \<Longrightarrow> lookup_object a p = None"
    and "a' = store_object p \<lparr>o_content = content, o_metadata = wo_Metadata opts,
       o_contentType = wo_ContentType opts, o_visibility = v, o_modified = mem_clock a (mem_ticks a)\<rparr>
       (a\<lparr>mem_ticks := Suc (mem_ticks a)\<rparr>)"
    by (auto simp: mem_Write_def mem_publish_def clock_now_def check_ctx_if Let_def split: if_splits)
  ultimately show thesis using that by blast
qed

lemma mem_Write_ok:
  assumes "mem_ok a" and "wf_path p"
  shows "mem_ok (fst (snd (mem_Write p source opts a c)))"
proof -
  obtain r a' d where run: "mem_Write p source opts a c = (r, a', d)" by (metis prod.exhaust)
  show ?thesis
  proof (cases r)
    case (Ok md)
    with run obtain content v t where "\<not> IsRoot p" "spec_visibility (wo_Visibility opts) = Some v"
      "a' = store_object p \<lparr>o_content = content, o_metadata = wo_Metadata opts,
         o_contentType = wo_ContentType opts, o_visibility = v, o_modified = t\<rparr>
         (a\<lparr>mem_ticks := Suc (mem_ticks a)\<rparr>)"
      by (metis mem_Write_Ok)
    with assms run show ?thesis
      by (auto intro!: mem_ok_store simp: object_ok_def dest: normalizeVisibility_ok)
  qed (use mem_Write_failed(2) [OF run] run assms(1) in auto)
qed

lemma mem_request_ok:
  assumes "mem_ok a" and "request_ok req"
  shows "mem_ok (fst (snd (run_request memory_backend req a c)))"
proof (cases req)
  case (ReqWrite p rs opts)
  with assms mem_Write_ok [of a p rs opts c] show ?thesis
    by (auto simp: drop_result_def split: prod.splits)
next
  case (ReqCopy p q opts)
  with assms show ?thesis
    by (auto simp: mem_Copy_def check_ctx_if clock_now_def split: option.splits
        intro!: mem_ok_store dest: mem_ok_lookup(3))
next
  case (ReqMove p q opts)
  with assms show ?thesis
    by (auto simp: mem_Move_def check_ctx_if clock_now_def split: option.splits
        intro!: mem_ok_store mem_ok_delete dest: mem_ok_lookup(3))
next
  case (ReqSetMetadata p md)
  with assms show ?thesis
    by (auto simp: mem_SetMetadata_def check_ctx_if clock_now_def split: option.splits
        intro!: mem_ok_store dest: mem_ok_lookup)
next
  case (ReqSetVisibility p v)
  with assms show ?thesis
    by (auto simp: mem_SetVisibility_def check_ctx_if clock_now_def normalizeVisibility_spec object_ok_def
        split: option.splits res.splits
        intro!: mem_ok_store dest: mem_ok_lookup normalizeVisibility_ok)
qed (use assms in \<open>auto simp: drop_result_def memory_defs check_ctx_if Let_def mem_ok_delete
    split: option.splits res.splits if_splits prod.splits ChecksumAlgorithm.splits\<close>)

section \<open>A sample state\<close>

definition sample_path :: "string \<Rightarrow> path" where
  "sample_path v = \<lparr>pvalue = v\<rparr>"

definition sample_object :: "string \<Rightarrow> object" where
  "sample_object content =
     \<lparr>o_content = content, o_metadata = None, o_contentType = [],
      o_visibility = VisibilityPrivate, o_modified = 0\<rparr>"

definition sample_memory :: "string list \<Rightarrow> memory" where
  "sample_memory names =
     \<lparr>mem_objects = map (\<lambda>n. (n, sample_object ''data'')) names, mem_clock = int, mem_ticks = 0,
      mem_range = (\<lambda>objs. objs)\<rparr>"

definition sample_write :: WriteOptions where
  "sample_write = \<lparr>wo_ContentType = [], wo_Metadata = None, wo_Visibility = VisibilityUnset,
     wo_IfNoneMatch = False\<rparr>"

lemma sample_ok: "mem_ok (sample_memory [''a'', ''d/b'', ''d/c''])"
  by code_simp

lemma sample_paths:
  "wf_path (sample_path ''a'')" "wf_path (sample_path ''d'')" "wf_path (sample_path ''e'')"
  "\<not> IsRoot (sample_path ''a'')" "\<not> IsRoot (sample_path ''d'')" "\<not> IsRoot (sample_path ''e'')"
  by code_simp+

section \<open>Refinement\<close>



text \<open>
  (C9) A write to the in-memory adapter is atomic under every source and every moment of
  cancellation: either it succeeds, and then the object holds the complete source with the
  requested metadata, nothing else changed and no existing object was replaced against
  \<^verbatim>\<open>IfNoneMatch\<close>; or it returns an error and no object changed. It never panics.
\<close>

theorem Write_atomic:
  "case mem_Write p source opts a c of (r, a', c') \<Rightarrow>
     (\<exists>md content v. r = Ok md \<and> io_copy source = (content, None) \<and>
        spec_visibility (wo_Visibility opts) = Some v \<and> \<not> IsRoot p \<and>
        \<not> (wo_IfNoneMatch opts \<and> mem_view a p \<noteq> None) \<and>
        mem_view a' = (mem_view a)(p \<mapsto> written_file opts content v)) \<or>
     (\<exists>e. r = Err e \<and> mem_objects a' = mem_objects a)"
proof -
  obtain r a' c' where run: "mem_Write p source opts a c = (r, a', c')" by (metis prod.exhaust)
  show ?thesis
  proof (cases "\<exists>md. r = Ok md")
    case True
    then obtain md where r: "r = Ok md" by blast
    from run [unfolded r] obtain content v t where "\<not> IsRoot p"
      "spec_visibility (wo_Visibility opts) = Some v" "io_copy source = (content, None)"
      "wo_IfNoneMatch opts \<Longrightarrow> lookup_object a p = None"
      "a' = store_object p \<lparr>o_content = content, o_metadata = wo_Metadata opts,
         o_contentType = wo_ContentType opts, o_visibility = v, o_modified = t\<rparr>
         (a\<lparr>mem_ticks := Suc (mem_ticks a)\<rparr>)"
      by (rule mem_Write_Ok) blast
    with run r show ?thesis by (auto simp: file_of_def written_file_def mem_view_def [of a])
  next
    case False
    with mem_Write_failed [OF run] run show ?thesis by auto
  qed
qed

section \<open>Range reads\<close>

lemma range_slice:
  assumes "length content < 2 ^ 63" "0 \<le> sint off" "0 < sint len" "sint off < int (length content)"
  shows "go_slice content off (off + go_min len (go_len content - off)) =
    Ok (take (nat (sint len)) (drop (nat (sint off)) content))"
proof -
  have len: "sint (go_len content) = int (length content)" by (rule sint_go_len [OF assms(1)])
  have b: "int (length content) < 2 ^ 63" using assms(1) by (simp flip: of_nat_power_less_of_nat_cancel_iff)
  have avail: "sint (go_len content - off) = int (length content) - sint off"
    using assms b by (subst sint_sub) (simp_all add: len)
  have "sint (off + go_min len (go_len content - off)) =
      sint off + min (sint len) (int (length content) - sint off)"
    using assms b by (subst sint_add) (auto simp: sint_go_min avail)
  with assms show ?thesis
    by (auto simp: go_slice_def min_def nat_add_distrib)
qed

text \<open>
  (C22) A range read of the in-memory adapter never panics and never reads outside the
  object, for all 64-bit offsets and lengths: an invalid range or one that starts at or after
  the end fails with \<^verbatim>\<open>ErrInvalidRange\<close>, a missing object with \<^verbatim>\<open>ErrNotFound\<close>, and every
  other range yields exactly the bytes from the offset up to the length or the end. The end
  is computed without overflow.
\<close>

theorem OpenRange_exact:
  assumes "\<And>obj. lookup_object a p = Some obj \<Longrightarrow> length (o_content obj) < 2 ^ 63"
  shows "case mem_OpenRange p r a Background of (res, a', c') \<Rightarrow>
    a' = a \<and> c' = Background \<and>
    (if sint (br_Offset r) < 0 \<or> sint (br_Length r) \<le> 0 then fails_with res ErrInvalidRange
     else case lookup_object a p of
       None \<Rightarrow> fails_with res ErrNotFound
     | Some obj \<Rightarrow>
         if int (length (o_content obj)) \<le> sint (br_Offset r) then fails_with res ErrInvalidRange
         else \<exists>st. res = Ok st \<and>
           stream_of st (take (nat (sint (br_Length r)))
             (drop (nat (sint (br_Offset r))) (o_content obj))))"
proof (cases "lookup_object a p")
  case None
  then show ?thesis by (simp add: mem_OpenRange_def invalid_range_def mem_notFound_def)
next
  case (Some obj)
  with assms have "length (o_content obj) < 2 ^ 63" by blast
  with Some range_slice [OF this] sint_go_len [OF this] show ?thesis
    by (simp add: mem_OpenRange_def invalid_range_def Let_def stream_of_def bytes_stream_def)
qed

theorem OpenRange_exact_witness:
  "\<exists>st. mem_OpenRange (sample_path ''a'') \<lparr>br_Offset = 1, br_Length = 2 ^ 63 - 1\<rparr>
      (sample_memory [''a'']) Background = (Ok st, sample_memory [''a''], Background)
    \<and> stream_of st ''ata''"
proof -
  have look: "lookup_object (sample_memory [''a'']) (sample_path ''a'') = Some (sample_object ''data'')"
    by (simp add: sample_memory_def lookup_object_def sample_path_def Path_String_def)
  have "sint (2 ^ 63 - 1 :: int64) = 2 ^ 63 - 1" by code_simp
  with OpenRange_exact [of "sample_memory [''a'']" "sample_path ''a''"
      "\<lparr>br_Offset = 1, br_Length = 2 ^ 63 - 1\<rparr>"] look show ?thesis
    by (auto simp: sample_object_def split: prod.splits)
qed

section \<open>Listings\<close>

text \<open>
  (C14) A listing of the in-memory adapter is exact, whatever order the runtime iterates the
  map in: draining the returned iterator ends and yields the first \<^verbatim>\<open>Limit\<close> entries (all of
  them for zero) of the listing of the directory, which is strictly sorted by path, has one
  entry per visible child and no other, and whose entries describe the stored objects.
\<close>

theorem List_exact:
  assumes "mem_ok a" and "wf_path d" and "length (mem_objects a) < 2 ^ 63" and "0 \<le> sint (lo_Limit opts)"
  shows "\<exists>it it' es. mem_List d opts a Background = (Ok it, a, Background) \<and>
    drain slice_iterator_ops it [] = Some (limited (lo_Limit opts) es, it') \<and>
    iterator_Err it' = None \<and> listing (mem_view a) d (lo_Recursive opts) es"
proof -
  let ?es = "mem_entries a d (lo_Recursive opts)"
  let ?it = "new_iterator (limited (lo_Limit opts) ?es)"
  have "si_pending ?it = limited (lo_Limit opts) ?es" by (simp add: si_pending_def new_iterator_def)
  with slice.drain_total [of ?it "[]"] obtain it' where
    "drain slice_iterator_ops ?it [] = Some (limited (lo_Limit opts) ?es, it')" by auto
  with mem_List_eq [OF assms(1,3,4)] mem_entries_listing [OF assms(1)] show ?thesis
    by (auto simp: iterator_Err_def)
qed

theorem List_exact_witness:
  "\<exists>it it' es. mem_List Root \<lparr>lo_Recursive = False, lo_Limit = 1\<rparr>
      (sample_memory [''a'', ''d/b'', ''d/c'']) Background =
        (Ok it, sample_memory [''a'', ''d/b'', ''d/c''], Background) \<and>
    drain slice_iterator_ops it [] = Some (take 1 es, it') \<and>
    listing (mem_view (sample_memory [''a'', ''d/b'', ''d/c''])) Root False es"
proof -
  have "wf_path Root" by code_simp
  moreover have "length (mem_objects (sample_memory [''a'', ''d/b'', ''d/c''])) < 2 ^ 63"
    by (simp add: sample_memory_def)
  ultimately show ?thesis
    using List_exact [OF sample_ok, of Root "\<lparr>lo_Recursive = False, lo_Limit = 1\<rparr>"]
    by (fastforce simp: limited_def)
qed

text \<open>When no object is also a directory of another one, all objects of a child agree.\<close>

definition conflict_free :: "memory \<Rightarrow> bool" where
  "conflict_free a =
     (\<forall>p\<in>dom (mem_view a). \<forall>q\<in>dom (mem_view a). \<not> beneath p q)"

lemma put_all_functional:
  assumes "\<And>k v w. (k, v) \<in> set xs \<Longrightarrow> (k, w) \<in> set xs \<Longrightarrow> v = w"
  shows "set (put_all xs []) = set xs"
proof
  show "set (put_all xs []) \<subseteq> set xs" using put_all_subset [of xs "[]"] by simp
  show "set xs \<subseteq> set (put_all xs [])"
  proof
    fix x assume "x \<in> set xs"
    moreover obtain k v where "x = (k, v)" by (cases x)
    ultimately have x: "x = (k, v)" "(k, v) \<in> set xs" by simp_all
    then have "k \<in> fst ` set (put_all xs [])" by (force simp: put_all_keys)
    then obtain w where w: "(k, w) \<in> set (put_all xs [])" by auto
    then have "(k, w) \<in> set xs" using put_all_subset [of xs "[]"] by auto
    with assms x w show "x \<in> set (put_all xs [])" by metis
  qed
qed

lemma visible_functional:
  assumes "mem_ok a" and "recursive \<or> conflict_free a"
    and "(k, v) \<in> set (visible d recursive (range_objects a))"
    and "(k, w) \<in> set (visible d recursive (range_objects a))"
  shows "v = w"
proof -
  have source: "\<exists>p stored. wf_path p \<and> beneath d p \<and> lookup_object a p = Some stored \<and>
      child_path d recursive p = \<lparr>pvalue = k\<rparr> \<and> u = child_entry d recursive p stored"
    if u: "(k, u) \<in> set (visible d recursive (range_objects a))" for u
  proof -
    from u obtain n stored where n: "(n, stored) \<in> set (mem_objects a)" "beneath d \<lparr>pvalue = n\<rparr>"
        "child_path d recursive \<lparr>pvalue = n\<rparr> = \<lparr>pvalue = k\<rparr>"
        "u = child_entry d recursive \<lparr>pvalue = n\<rparr> stored"
      by (auto simp: visible_def range_objects_set)
    moreover have "wf_path \<lparr>pvalue = n\<rparr>" using mem_okD [OF assms(1) n(1)] by (simp add: key_ok_def)
    moreover have "lookup_object a \<lparr>pvalue = n\<rparr> = Some stored"
      using assms(1) n(1) by (simp add: lookup_object_def Path_String_def mem_ok_def)
    ultimately show ?thesis by blast
  qed
  from source [OF assms(3)] source [OF assms(4)] obtain p o1 q o2 where
    p: "wf_path p" "beneath d p" "lookup_object a p = Some o1"
      "child_path d recursive p = \<lparr>pvalue = k\<rparr>" "v = child_entry d recursive p o1"
    and q: "wf_path q" "beneath d q" "lookup_object a q = Some o2"
      "child_path d recursive q = \<lparr>pvalue = k\<rparr>" "w = child_entry d recursive q o2"
    by blast
  have clash: False if "wf_path y" "beneath d y" "lookup_object a y = Some oy" "lookup_object a x = Some ox"
      "child_path d recursive y = x" "y \<noteq> x" for x y ox oy
  proof -
    from that(5,6) have "child_path d recursive y \<noteq> y" by simp
    from beneath_child [OF that(1,2) this] that(3-5) assms(2) show False
      by (auto simp: conflict_free_def mem_view_def dom_def)
  qed
  show ?thesis
  proof (cases "child_path d recursive p = p \<or> child_path d recursive q = q")
    case True
    then have "p = q" using clash p q by metis
    with p q show ?thesis by simp
  next
    case False
    with p q show ?thesis by (simp add: child_entry_def)
  qed
qed

lemma range_update [simp]:
  "lookup_object (a\<lparr>mem_range := f\<rparr>) p = lookup_object a p"
  "mem_objects (a\<lparr>mem_range := f\<rparr>) = mem_objects a"
  "mem_view (a\<lparr>mem_range := f\<rparr>) = mem_view a"
  "mem_ok (a\<lparr>mem_range := f\<rparr>) = mem_ok a"
  "conflict_free (a\<lparr>mem_range := f\<rparr>) = conflict_free a"
  by (simp_all add: lookup_object_def mem_view_def mem_ok_def conflict_free_def)

lemma mem_entries_order:
  assumes "mem_ok a" and "recursive \<or> conflict_free a"
  shows "mem_entries (a\<lparr>mem_range := f\<rparr>) d recursive = mem_entries a d recursive"
proof -
  let ?xs = "put_all (visible d recursive (range_objects (a\<lparr>mem_range := f\<rparr>))) []"
  let ?ys = "put_all (visible d recursive (range_objects a)) []"
  have "set (visible d recursive (range_objects (a\<lparr>mem_range := f\<rparr>))) =
      set (visible d recursive (range_objects a))"
    by (simp add: visible_def range_objects_set)
  moreover have "set ?xs = set (visible d recursive (range_objects (a\<lparr>mem_range := f\<rparr>)))"
    using visible_functional [of "a\<lparr>mem_range := f\<rparr>"] assms by (intro put_all_functional) auto
  moreover have "set ?ys = set (visible d recursive (range_objects a))"
    using visible_functional [OF assms] by (intro put_all_functional) blast
  ultimately have "set ?xs = set ?ys" by simp
  moreover have dist: "distinct (map fst (put_all xs ([] :: (string \<times> Entry) list)))" for xs
    by (simp add: put_all_distinct)
  ultimately have "mset ?xs = mset ?ys"
    using dist [unfolded distinct_map] by (simp add: set_eq_iff_mset_eq_distinct)
  then have "mset (map snd ?xs) = mset (map snd ?ys)" by simp
  moreover have "distinct (map entry_key (map snd ?xs))"
    by (simp only: put_all_visible_keys dist)
  ultimately show ?thesis unfolding mem_entries_def by (intro sort_key_perm)
qed

text \<open>
  (C24) The listing does not depend on the map iteration order: for two adapters that differ
  in it only, the result of \<^verbatim>\<open>List\<close> is the same, provided that the listing is recursive or
  no object lies beneath another object.
\<close>

theorem List_deterministic:
  assumes "mem_ok a" and "length (mem_objects a) < 2 ^ 63" and "0 \<le> sint (lo_Limit opts)"
    and "lo_Recursive opts \<or> conflict_free a"
  shows "fst (mem_List d opts (a\<lparr>mem_range := f\<rparr>) Background) = fst (mem_List d opts a Background)"
  using assms mem_entries_order [OF assms(1,4)] by (simp add: mem_List_eq)

theorem List_deterministic_witness:
  "fst (mem_List Root \<lparr>lo_Recursive = True, lo_Limit = 0\<rparr>
      ((sample_memory [''a'', ''d/b'', ''d/c''])\<lparr>mem_range := rev\<rparr>) Background) =
    fst (mem_List Root \<lparr>lo_Recursive = True, lo_Limit = 0\<rparr>
      (sample_memory [''a'', ''d/b'', ''d/c'']) Background)"
  by (rule List_deterministic [OF sample_ok]) (simp_all add: sample_memory_def)

text \<open>
  Without that proviso the listing does depend on the map iteration order. With an
  object \<^verbatim>\<open>d\<close> and an object \<^verbatim>\<open>d/b\<close>, which the adapter accepts, the entry \<^verbatim>\<open>d\<close> of the
  listing of the root is a file for one order and a directory for another, so two equal calls
  on an unchanged adapter may answer differently.
\<close>

theorem List_order_dependent:
  "map e_Kind (mem_entries (sample_memory [''d'', ''d/b'']) Root False) = [EntryKindDirectory] \<and>
   map e_Kind (mem_entries ((sample_memory [''d'', ''d/b''])\<lparr>mem_range := rev\<rparr>) Root False) =
     [EntryKindFile] \<and>
   fst (mem_List Root \<lparr>lo_Recursive = False, lo_Limit = 0\<rparr>
      ((sample_memory [''d'', ''d/b''])\<lparr>mem_range := rev\<rparr>) Background) \<noteq>
   fst (mem_List Root \<lparr>lo_Recursive = False, lo_Limit = 0\<rparr> (sample_memory [''d'', ''d/b'']) Background)"
  by code_simp

section \<open>Sequences of requests\<close>



section \<open>Cancellation\<close>

text \<open>
  With a context that is already cancelled no operation of the in-memory adapter
  changes its state: each returns an error, which is the error of the context unless the
  arguments of the call were rejected before the context was read.
\<close>

theorem memory_cancelled:
  assumes "ctx_done c" and "run_request memory_backend req a c = (r, a', c')"
  shows "a' = a \<and> (\<exists>e. r = Err e \<and>
    (e = ctx_error c \<or> errors_is e ErrInvalidRange \<or> errors_is e ErrInvalidPath \<or>
     (\<exists>n. e = Errorf ''filesystem: invalid visibility %q'' [FStr n] [])))"
  using assms
  by (cases req)
    (auto simp: drop_result_def memory_defs check_ctx_if context_copy_cancelled ctx_Err_None_iff
      invalid_range_def rootPathError_def normalizeVisibility_def
      split: if_splits prod.splits res.splits option.splits Visibility.splits)

theorem memory_cancelled_witness:
  "fst (snd (run_request memory_backend (ReqDelete (sample_path ''a'')) (sample_memory [''a''])
      (CancelAfter 0 ContextCanceled))) = sample_memory [''a'']"
  using memory_cancelled [of "CancelAfter 0 ContextCanceled" "ReqDelete (sample_path ''a'')"
      "sample_memory [''a'']"]
  by (metis ctx_done.simps(1) prod.collapse)

section \<open>The root as a destination\<close>

lemma list_step_not_Err: "list_step pre recursive acc obj \<noteq> Err e"
proof -
  have "put_entry n mk acc \<noteq> Err e" for n mk
    by (cases "ParsePath n") (simp_all add: put_entry_def MustParsePath_def)
  then show ?thesis
    by (simp add: list_step_def Let_def split: prod.split option.split)
qed

lemma list_loop_panics:
  assumes "([], stored) \<in> set objs"
  shows "is_panic (list_loop [] recursive acc objs)"
  using assms
proof (induction objs arbitrary: acc)
  case (Cons obj objs)
  show ?case
  proof (cases "list_step [] recursive acc obj")
    case (Ok acc')
    have "list_step [] recursive acc ([], stored) \<noteq> Ok acc'"
      by (simp add: list_step_def put_entry_def MustParsePath_def ParsePath_def HasPrefix_def
          TrimPrefix_def)
    with Ok Cons.prems have "([], stored) \<in> set objs" by auto
    with Cons.IH Ok show ?thesis by simp
  qed (simp_all add: list_step_not_Err)
qed simp

text \<open>
  \<^verbatim>\<open>Copy\<close> and \<^verbatim>\<open>Move\<close> do not reject the root as a destination, as \<^verbatim>\<open>Write\<close> does. A
  copy to the root succeeds and stores an object under the empty name; from then on every
  listing of the root panics.
\<close>

theorem Copy_to_root_breaks_List:
  assumes "lookup_object a p = Some stored" and "co_Overwrite opts" and "0 \<le> sint (lo_Limit lopts)"
  shows "case mem_Copy p Root opts a Background of (r, a', _) \<Rightarrow>
    r = Ok () \<and> is_panic (fst (mem_List Root lopts a' Background))"
proof -
  have key: "\<exists>obj. (Path_String q, obj) \<in> set (range_objects a)" if "lookup_object a q \<noteq> None" for q a
    using that by (auto simp: lookup_object_def range_objects_set dest: map_of_SomeD)
  let ?a' = "fst (snd (mem_Copy p Root opts a Background))"
  have run: "mem_Copy p Root opts a Background = (Ok (), ?a', Background)"
    and look: "lookup_object ?a' Root \<noteq> None"
    using assms(1,2) by (simp_all add: mem_Copy_def clock_now_def)
  from key [OF look] obtain obj where "([], obj) \<in> set (range_objects ?a')"
    by (auto simp: Root_def Path_String_def)
  then have "is_panic (list_loop [] (lo_Recursive lopts) [] (range_objects ?a'))"
    by (rule list_loop_panics)
  then obtain e where "list_loop (list_prefix Root) (lo_Recursive lopts) [] (range_objects ?a') = Panic e"
    by (auto simp: list_prefix_def Root_def Path_String_def elim: is_panic.elims)
  with assms(3) have "is_panic (fst (mem_List Root lopts ?a' Background))" by (simp add: mem_List_def)
  then show ?thesis by (subst run) simp
qed

theorem Copy_to_root_breaks_List_witness:
  "\<exists>a. mem_Copy (sample_path ''a'') Root \<lparr>co_Overwrite = True\<rparr> (sample_memory [''a'']) Background =
     (Ok (), a, Background) \<and>
     is_panic (fst (mem_List Root \<lparr>lo_Recursive = False, lo_Limit = 0\<rparr> a Background))"
proof -
  have "lookup_object (sample_memory [''a'']) (sample_path ''a'') = Some (sample_object ''data'')"
    by (simp add: sample_memory_def lookup_object_def sample_path_def Path_String_def)
  from Copy_to_root_breaks_List [OF this, of "\<lparr>co_Overwrite = True\<rparr>" "\<lparr>lo_Recursive = False, lo_Limit = 0\<rparr>"] this
  show ?thesis by (simp add: mem_Copy_def clock_now_def)
qed

end
