(* ===== verification/Decorator_Theorems.thy ===== *)
theory Decorator_Theorems
  imports Decorator Memory_Theorems
begin

text \<open>
  What a decorator does with an arbitrary backend: which requests it makes of it and how
  often, which events its observer receives, and which capabilities it reports. Nothing is
  assumed of the backend here, not even that it works.
\<close>

section \<open>Well-formed decorators\<close>

definition config_ok :: "configuration \<Rightarrow> bool" where
  "config_ok cf =
     (wf_path (cf_prefix cf) \<and>
      (case cf_retry cf of
         None \<Rightarrow> True
       | Some pol \<Rightarrow> 0 < sint (rp_Attempts pol) \<and> rp_Retryable pol \<noteq> None))"

definition dec_ok :: "('s, 'i, 'w) decorator \<Rightarrow> bool" where
  "dec_ok a = config_ok (dc_config a)"

text \<open>How many calls of the backend an operation may make.\<close>

definition call_limit :: "('s, 'i, 'w) decorator \<Rightarrow> nat" where
  "call_limit a =
     (case cf_retry (dc_config a) of None \<Rightarrow> 1 | Some pol \<Rightarrow> nat (sint (rp_Attempts pol)))"

inductive_set exported_options :: "decorator_option set" where
  "WithPrefix v \<in> exported_options"
| "ReadOnly \<in> exported_options"
| "WithChecksums \<in> exported_options"
| "WithRetry pol \<in> exported_options"
| "WithObserver b \<in> exported_options"

lemma option_config_ok:
  assumes "f \<in> exported_options" and "config_ok cf" and "f cf = Ok cf'"
  shows "config_ok cf'"
  using assms
  by (cases rule: exported_options.cases)
    (auto simp: WithPrefix_def ReadOnly_def WithChecksums_def WithRetry_def WithObserver_def
      config_ok_def ParsePath_wf split: res.splits if_splits option.splits)

lemma apply_options_ok:
  "set opts \<subseteq> exported_options \<Longrightarrow> config_ok cf \<Longrightarrow> apply_options cf opts = Ok cf' \<Longrightarrow> config_ok cf'"
proof (induction opts arbitrary: cf)
  case (Cons f opts)
  from Cons.prems(3) obtain cf1 where "f cf = Ok cf1" "apply_options cf1 opts = Ok cf'"
    by (auto simp: bind_res_Ok_iff)
  with Cons option_config_ok [of f cf cf1] show ?case by auto
qed simp

text \<open>
  Construction validates: a decorator that \<^verbatim>\<open>New\<close> returns for options built by the
  exported constructors has a well-formed prefix, and its retry policy has a positive number
  of attempts and a classifier; a nil backend is refused.
\<close>

theorem decorator_New_ok:
  assumes "set opts \<subseteq> exported_options" and "decorator_New be signer opts = Ok a"
  shows "be \<noteq> None \<and> dec_ok a \<and> dc_backend a = the be"
proof -
  from assms(2) obtain b cf where be: "be = Some b" and cf: "apply_options zero_configuration opts = Ok cf"
    and a: "a = \<lparr>dc_backend = b, dc_signer = signer, dc_config = cf\<rparr>"
    by (auto simp: decorator_New_def bind_res_Ok_iff split: option.splits)
  have "config_ok zero_configuration" by (simp add: config_ok_def zero_configuration_def wf_path_def)
  from apply_options_ok [OF assms(1) this cf] be a show ?thesis by (simp add: dec_ok_def)
qed

theorem decorator_New_ok_witness:
  "\<exists>a. decorator_New (Some memory_backend) None
      [WithPrefix ''tenant/a'', ReadOnly,
       WithRetry \<lparr>rp_Attempts = 3, rp_Retryable = Some (\<lambda>_. True), rp_Backoff = None\<rparr>] = Ok a \<and> dec_ok a"
proof -
  let ?opts = "[WithPrefix ''tenant/a'', ReadOnly,
       WithRetry \<lparr>rp_Attempts = 3, rp_Retryable = Some (\<lambda>_. True), rp_Backoff = None\<rparr>]"
  have "ParsePath ''tenant/a'' = Ok \<lparr>pvalue = ''tenant/a''\<rparr>" by code_simp
  then obtain a where a: "decorator_New (Some memory_backend) None ?opts = Ok a"
    by (simp add: decorator_New_def WithPrefix_def ReadOnly_def WithRetry_def)
  have "set ?opts \<subseteq> exported_options" by (auto intro: exported_options.intros)
  from decorator_New_ok [OF this a] a show ?thesis by blast
qed

section \<open>The requests a decorator makes\<close>

definition within :: "path \<Rightarrow> path \<Rightarrow> bool" where
  "within pre p = prefix (segments pre) (segments p)"

lemma within_append: "wf_path pre \<Longrightarrow> wf_path p \<Longrightarrow> within pre (path_append pre p)"
  by (simp add: within_def segments_append)

text \<open>Every run of \<open>call\<close> is at most \<open>n\<close> requests of the backend, all of them allowed.\<close>

definition traces ::
  "('s, 'i, 'w) backend \<Rightarrow> (request \<Rightarrow> bool) \<Rightarrow> nat \<Rightarrow> ('s, 'a) action \<Rightarrow> bool" where
  "traces be allowed n call =
     (\<forall>s c. \<exists>reqs. executes be reqs s (fst (snd (call s c))) \<and> list_all allowed reqs \<and>
        length reqs \<le> n)"

lemma traces_skip: "(\<And>s c. fst (snd (call s c)) = s) \<Longrightarrow> traces be allowed n call"
  unfolding traces_def by (metis executes_Nil le0 list.pred_inject(1) list.size(3))

lemma traces_request:
  assumes "\<And>s c. fst (snd (call s c)) = fst (snd (run_request be req s c))" and "allowed req" and "0 < n"
  shows "traces be allowed n call"
proof -
  have "executes be [req] s (fst (snd (call s c)))" for s c
    by (simp add: assms(1) executes_one)
  with assms(2,3) show ?thesis
    unfolding traces_def by (metis One_nat_def Suc_leI length_Cons list.pred_inject list.size(3))
qed

lemma fst_snd_drop_result [simp]: "fst (snd (drop_result x)) = fst (snd x)"
  by (simp add: drop_result_def split: prod.split)

lemma fst_snd_set_result_path [simp]: "fst (snd (set_result_path p x)) = fst (snd x)"
  by (simp add: set_result_path_def split: prod.split)

text \<open>One round of the retry loop.\<close>

lemma retry_loop_round:
  obtains
    (cancelled) "retry_loop pol call attempt s c = (Err (ctx_error c), s, c)"
  | (stopped) r s1 c2 r' c3 where "call s (snd (ctx_Err c)) = (r, s1, c2)"
      "retry_loop pol call attempt s c = (r', s1, c3)"
  | (again) e s1 c2 c3 where "call s (snd (ctx_Err c)) = (Err e, s1, c2)"
      "attempt \<noteq> rp_Attempts pol"
      "retry_loop pol call attempt s c = retry_loop pol call (attempt + 1) s1 c3"
proof (cases "ctx_done c")
  case True
  then show thesis
    by (intro cancelled) (subst retry_loop.simps, cases c rule: ctx_Err.cases, simp_all)
next
  case False
  then obtain c1 where live: "ctx_Err c = (None, c1)" by (metis ctx_Err_None_iff prod.collapse)
  obtain r s1 c2 where call: "call s c1 = (r, s1, c2)" by (metis prod.exhaust)
  note step = retry_loop.simps [of pol call attempt s c]
  show thesis
  proof (cases "\<exists>r' c3. retry_loop pol call attempt s c = (r', s1, c3)")
    case True
    with call live stopped show thesis by auto
  next
    case False
    with step live call obtain e where e: "r = Err e" "attempt \<noteq> rp_Attempts pol"
      by (cases r) (simp_all split: if_splits)
    with step live call False obtain c3 where
      "retry_loop pol call attempt s c = retry_loop pol call (attempt + 1) s1 c3"
      by (simp split: if_splits option.splits prod.splits)
    with e call live again show thesis by auto
  qed
qed

lemma retry_loop_traces:
  assumes "traces be allowed 1 call"
  shows "\<exists>reqs. executes be reqs s (fst (snd (retry_loop pol call attempt s c))) \<and>
    list_all allowed reqs \<and> length reqs \<le> Suc (unat (rp_Attempts pol - attempt))"
proof (induction "unat (rp_Attempts pol - attempt)" arbitrary: attempt s c rule: less_induct)
  case less
  from assms obtain reqs where call: "executes be reqs s (fst (snd (call s (snd (ctx_Err c)))))"
    "list_all allowed reqs" "length reqs \<le> 1"
    unfolding traces_def by blast
  show ?case
  proof (cases rule: retry_loop_round [of pol call attempt s c])
    case cancelled
    then show ?thesis by (intro exI [of _ "[]"]) simp
  next
    case (stopped r s1 c2 r' c3)
    with call show ?thesis by (intro exI [of _ reqs]) simp
  next
    case (again e s1 c2 c3)
    note step = attempts_step [OF again(2)]
    from less [of "attempt + 1" s1 c3] step again(3) obtain reqs' where
      "executes be reqs' s1 (fst (snd (retry_loop pol call attempt s c)))"
      "list_all allowed reqs'" "length reqs' \<le> Suc (unat (rp_Attempts pol - (attempt + 1)))"
      by auto
    with call again(1) step executes_append show ?thesis
      by (intro exI [of _ "reqs @ reqs'"]) auto
  qed
qed

lemma traces_retry:
  assumes "dec_ok a" and "traces be allowed 1 call"
  shows "traces be allowed (call_limit a) (retried a call)"
proof (cases "cf_retry (dc_config a)")
  case None
  with assms(2) show ?thesis by (simp add: retryCall_def call_limit_def)
next
  case (Some pol)
  with assms(1) have pos: "0 < sint (rp_Attempts pol)" by (simp add: dec_ok_def config_ok_def)
  then have "rp_Attempts pol \<noteq> 0" by auto
  then have "Suc (unat (rp_Attempts pol - 1)) = nat (sint (rp_Attempts pol))"
    using unat_nonnegative [of "rp_Attempts pol"] pos attempts_step [of 0 "rp_Attempts pol"] by simp
  with Some retry_loop_traces [OF assms(2), of _ pol 1] show ?thesis
    by (simp add: traces_def retryCall_def call_limit_def)
qed

lemma observeCall_inner:
  "d_inner (fst (snd (observeCall obs op p q call d c))) = fst (snd (call (d_inner d) c))"
  by (simp add: observeCall_def time_Now_def Let_def split: prod.split)

lemma with_internal_eq:
  "dec_ok a \<Longrightarrow> wf_path p \<Longrightarrow> with_internal a p k = k (path_append (cf_prefix (dc_config a)) p)"
  by (rule ext)+ (simp add: with_internal_def internal_eq dec_ok_def config_ok_def)

text \<open>The requests that the policies of a decorator allow it to make.\<close>

definition permitted :: "('s, 'i, 'w) decorator \<Rightarrow> request \<Rightarrow> bool" where
  "permitted a req =
     (list_all (within (cf_prefix (dc_config a))) (request_paths req) \<and>
      (cf_readOnly (dc_config a) \<longrightarrow> \<not> mutates req))"

lemma call_limit_positive: "dec_ok a \<Longrightarrow> 0 < call_limit a"
  by (simp add: call_limit_def dec_ok_def config_ok_def split: option.splits)

lemma permitted_internal:
  "dec_ok a \<Longrightarrow> wf_path p \<Longrightarrow> within (cf_prefix (dc_config a)) (path_append (cf_prefix (dc_config a)) p)"
  by (simp add: within_append dec_ok_def config_ok_def)

lemma traces_read:
  assumes "dec_ok a" and "permitted a req"
    and "\<And>s c. fst (snd (call s c)) = fst (snd (run_request (dc_backend a) req s c))"
  shows "traces (dc_backend a) (permitted a) (call_limit a) (retried a call)"
  using assms by (intro traces_retry traces_request) auto

lemma traces_mutation:
  assumes "permitted a req \<or> cf_readOnly (dc_config a)"
    and "\<And>s c. \<not> cf_readOnly (dc_config a) \<Longrightarrow>
      fst (snd (call s c)) = fst (snd (run_request (dc_backend a) req s c))"
  shows "traces (dc_backend a) (permitted a) 1 (guarded a capability operation call)"
proof (cases "cf_readOnly (dc_config a)")
  case True
  then show ?thesis by (intro traces_skip) (simp add: guarded_def)
next
  case False
  with assms show ?thesis by (intro traces_request [of _ _ req]) (simp_all add: guarded_def)
qed

lemma traces_mono: "traces be A m call \<Longrightarrow> m \<le> n \<Longrightarrow> traces be A n call"
  unfolding traces_def by (meson le_trans)

lemma traces_state:
  "traces be A n call \<Longrightarrow> (\<And>s c. fst (snd (call' s c)) = fst (snd (call s c))) \<Longrightarrow> traces be A n call'"
  by (simp add: traces_def)

lemma checksum_call_traces:
  assumes "dec_ok a" and "wf_path p"
  shows "traces (dc_backend a) (permitted a) 1 (checksum_call a p alg)"
proof -
  let ?q = "path_append (cf_prefix (dc_config a)) p"
  note w = with_internal_eq [OF assms] permitted_internal [OF assms]
  have st: "fst (snd (case (x :: stream res \<times> _) of
      (Err e, s', c') \<Rightarrow> (Err e, s', c') | (Panic e, s', c') \<Rightarrow> (Panic e, s', c')
    | (Ok st, s', c') \<Rightarrow> (case io_copy (st_reads st) of
        (content, Some e) \<Rightarrow> (Err e, s', c')
      | (content, None) \<Rightarrow> (case st_close st of
          Some e \<Rightarrow> (Err e, s', c') | None \<Rightarrow> (Ok (f content), s', c'))))) = fst (snd x)" for x f
    by (simp split: prod.split res.split option.split)
  show ?thesis
  proof (cases "cf_checksums (dc_config a)")
    case False
    then show ?thesis
      by (intro traces_request [of _ _ "ReqChecksum ?q alg"])
        (simp_all add: checksum_call_def permitted_def w)
  next
    case cs: True
    show ?thesis
    proof (cases "digest_for alg")
      case None
      with cs show ?thesis by (intro traces_skip) (simp add: checksum_call_def)
    next
      case (Some digest)
      with cs show ?thesis
        by (intro traces_request [of _ _ "ReqOpen ?q"])
          (simp_all add: checksum_call_def permitted_def w st)
    qed
  qed
qed

lemma read_traces:
  assumes "dec_ok a" and "wf_path p"
  shows "traces (dc_backend a) (permitted a) (call_limit a)
      (retried a (with_internal a p (be_Open (dc_backend a))))"
    and "traces (dc_backend a) (permitted a) (call_limit a)
      (retried a (with_internal a p (\<lambda>q. be_OpenRange (dc_backend a) q r)))"
    and "traces (dc_backend a) (permitted a) (call_limit a)
      (retried a (with_internal a p (be_Stat (dc_backend a))))"
    and "traces (dc_backend a) (permitted a) (call_limit a)
      (retried a (with_internal a p (\<lambda>q. be_List (dc_backend a) q lopts)))"
    and "traces (dc_backend a) (permitted a) (call_limit a)
      (guarded a cap op (retried a (with_internal a p (be_Visibility (dc_backend a)))))"
    and "traces (dc_backend a) (permitted a) (call_limit a) (retried a (checksum_call a p alg))"
proof -
  let ?q = "path_append (cf_prefix (dc_config a)) p"
  note w = with_internal_eq [OF assms] permitted_internal [OF assms]
  note read = traces_read [OF assms(1)]
  show "traces (dc_backend a) (permitted a) (call_limit a)
      (retried a (with_internal a p (be_Open (dc_backend a))))"
    by (intro read [of "ReqOpen ?q"]) (simp_all add: permitted_def w)
  show "traces (dc_backend a) (permitted a) (call_limit a)
      (retried a (with_internal a p (\<lambda>q. be_OpenRange (dc_backend a) q r)))"
    by (intro read [of "ReqOpenRange ?q r"]) (simp_all add: permitted_def w)
  show "traces (dc_backend a) (permitted a) (call_limit a)
      (retried a (with_internal a p (be_Stat (dc_backend a))))"
    by (intro read [of "ReqStat ?q"]) (simp_all add: permitted_def w)
  show "traces (dc_backend a) (permitted a) (call_limit a)
      (retried a (with_internal a p (\<lambda>q. be_List (dc_backend a) q lopts)))"
    by (intro read [of "ReqList ?q lopts"]) (simp_all add: permitted_def w)
  have vis: "traces (dc_backend a) (permitted a) (call_limit a)
      (retried a (with_internal a p (be_Visibility (dc_backend a))))"
    by (intro read [of "ReqVisibility ?q"]) (simp_all add: permitted_def w)
  show "traces (dc_backend a) (permitted a) (call_limit a)
      (guarded a cap op (retried a (with_internal a p (be_Visibility (dc_backend a)))))"
  proof (cases "cf_readOnly (dc_config a)")
    case True
    then show ?thesis by (intro traces_skip) (simp add: guarded_def)
  next
    case False
    then show ?thesis by (intro traces_state [OF vis]) (simp add: guarded_def)
  qed
  show "traces (dc_backend a) (permitted a) (call_limit a) (retried a (checksum_call a p alg))"
    by (rule traces_retry [OF assms(1) checksum_call_traces [OF assms]])
qed

lemma mutation_traces:
  assumes "dec_ok a" and "wf_path p" and "wf_path q"
  shows "traces (dc_backend a) (permitted a) 1
      (guarded a cap op (with_internal a p (be_Delete (dc_backend a))))"
    and "traces (dc_backend a) (permitted a) 1
      (guarded a cap op (with_internal a p (\<lambda>x. with_internal a q (\<lambda>y. be_Copy (dc_backend a) x y copts))))"
    and "traces (dc_backend a) (permitted a) 1
      (guarded a cap op (with_internal a p (\<lambda>x. with_internal a q (\<lambda>y. be_Move (dc_backend a) x y mopts))))"
    and "traces (dc_backend a) (permitted a) 1
      (guarded a cap op (with_internal a p (\<lambda>x. be_SetMetadata (dc_backend a) x md)))"
    and "traces (dc_backend a) (permitted a) 1
      (guarded a cap op (with_internal a p (\<lambda>x. be_SetVisibility (dc_backend a) x v)))"
    and "traces (dc_backend a) (permitted a) 1
      (guarded a cap op (with_internal a p (\<lambda>x. be_Write (dc_backend a) x rs opts)))"
    and "traces (dc_backend a) (permitted a) 1
      (guarded a cap op (with_internal a p (\<lambda>x. be_OpenWriter (dc_backend a) x opts)))"
proof -
  let ?p = "path_append (cf_prefix (dc_config a)) p"
  let ?q = "path_append (cf_prefix (dc_config a)) q"
  note w = with_internal_eq [OF assms(1,2)] permitted_internal [OF assms(1,2)]
    with_internal_eq [OF assms(1,3)] permitted_internal [OF assms(1,3)]
  show "traces (dc_backend a) (permitted a) 1
      (guarded a cap op (with_internal a p (be_Delete (dc_backend a))))"
    by (intro traces_mutation [of _ "ReqDelete ?p"]) (simp_all add: permitted_def w)
  show "traces (dc_backend a) (permitted a) 1
      (guarded a cap op (with_internal a p (\<lambda>x. with_internal a q (\<lambda>y. be_Copy (dc_backend a) x y copts))))"
    by (intro traces_mutation [of _ "ReqCopy ?p ?q copts"]) (simp_all add: permitted_def w)
  show "traces (dc_backend a) (permitted a) 1
      (guarded a cap op (with_internal a p (\<lambda>x. with_internal a q (\<lambda>y. be_Move (dc_backend a) x y mopts))))"
    by (intro traces_mutation [of _ "ReqMove ?p ?q mopts"]) (simp_all add: permitted_def w)
  show "traces (dc_backend a) (permitted a) 1
      (guarded a cap op (with_internal a p (\<lambda>x. be_SetMetadata (dc_backend a) x md)))"
    by (intro traces_mutation [of _ "ReqSetMetadata ?p md"]) (simp_all add: permitted_def w)
  show "traces (dc_backend a) (permitted a) 1
      (guarded a cap op (with_internal a p (\<lambda>x. be_SetVisibility (dc_backend a) x v)))"
    by (intro traces_mutation [of _ "ReqSetVisibility ?p v"]) (simp_all add: permitted_def w)
  show "traces (dc_backend a) (permitted a) 1
      (guarded a cap op (with_internal a p (\<lambda>x. be_Write (dc_backend a) x rs opts)))"
    by (intro traces_mutation [of _ "ReqWrite ?p rs opts"]) (simp_all add: permitted_def w)
  show "traces (dc_backend a) (permitted a) 1
      (guarded a cap op (with_internal a p (\<lambda>x. be_OpenWriter (dc_backend a) x opts)))"
    by (intro traces_mutation [of _ "ReqOpenWriter ?p opts"]) (simp_all add: permitted_def w)
qed

lemma traces_if_skip:
  assumes "traces be A n call"
    and "\<And>s c. fst (snd (call' s c)) = s \<or> fst (snd (call' s c)) = fst (snd (call s c))"
  shows "traces be A n call'"
  unfolding traces_def
proof (intro allI)
  fix s c
  from assms(1) obtain reqs where "executes be reqs s (fst (snd (call s c)))" "list_all A reqs"
    "length reqs \<le> n" unfolding traces_def by blast
  with assms(2) [of s c] show "\<exists>reqs. executes be reqs s (fst (snd (call' s c))) \<and> list_all A reqs \<and>
      length reqs \<le> n"
    by (metis executes_Nil le0 list.pred_inject(1) list.size(3))
qed

lemma observed_traces:
  assumes "traces be A n call" and "d' = fst (snd (observeCall obs op p q call d c))" and "n \<le> m"
  shows "\<exists>reqs. executes be reqs (d_inner d) (d_inner d') \<and> list_all A reqs \<and> length reqs \<le> m"
  using assms unfolding traces_def by (metis le_trans observeCall_inner)

lemma decorator_traces:
  assumes "dec_ok a" and "list_all wf_path (request_paths req)"
  shows "\<exists>reqs. executes (dc_backend a) reqs (d_inner d)
      (d_inner (fst (snd (run_request (decorator_backend a) req d c)))) \<and>
    list_all (permitted a) reqs \<and> length reqs \<le> (if mutates req then 1 else call_limit a)"
proof (cases req)
  case (ReqWrite p rs opts)
  then show ?thesis
    using assms
    by (intro observed_traces [OF traces_if_skip [OF mutation_traces(6) [where rs = rs and opts = opts]], of a p p])
      (auto simp: dec_Write_def guarded_def set_result_path_def split: prod.split)
next
  case (ReqOpenWriter p opts)
  then show ?thesis
    using assms
    by (intro observed_traces [OF traces_if_skip [OF mutation_traces(7) [where opts = opts]], of a p p])
      (auto simp: dec_OpenWriter_def guarded_def)
next
  case (ReqStat p)
  then show ?thesis
    using assms
    by (intro observed_traces [OF traces_state [OF read_traces(3)], of a p]) (auto simp: dec_Stat_def)
next
  case (ReqList p opts)
  then show ?thesis
    using assms
    by (intro observed_traces [OF traces_state [OF read_traces(4) [where lopts = opts]], of a p])
      (auto simp: dec_List_def split: prod.split)
next
  case (ReqOpen p)
  with assms show ?thesis
    by (intro observed_traces [OF read_traces(1), of a p]) (simp_all add: dec_Open_def)
next
  case (ReqOpenRange p r)
  with assms show ?thesis
    by (intro observed_traces [OF read_traces(2) [where r = r], of a p]) (simp_all add: dec_OpenRange_def)
next
  case (ReqVisibility p)
  with assms show ?thesis
    by (intro observed_traces [OF read_traces(5), of a p]) (simp_all add: dec_Visibility_def)
next
  case (ReqChecksum p alg)
  with assms show ?thesis
    by (intro observed_traces [OF read_traces(6), of a p]) (simp_all add: dec_Checksum_def)
next
  case (ReqDelete p)
  with assms show ?thesis
    by (intro observed_traces [OF mutation_traces(1), of a p p]) (simp_all add: dec_Delete_def)
next
  case (ReqCopy p q opts)
  with assms show ?thesis
    by (intro observed_traces [OF mutation_traces(2), of a p q]) (simp_all add: dec_Copy_def)
next
  case (ReqMove p q opts)
  with assms show ?thesis
    by (intro observed_traces [OF mutation_traces(3), of a p q]) (simp_all add: dec_Move_def)
next
  case (ReqSetMetadata p md)
  with assms show ?thesis
    by (intro observed_traces [OF mutation_traces(4), of a p p]) (simp_all add: dec_SetMetadata_def)
next
  case (ReqSetVisibility p v)
  with assms show ?thesis
    by (intro observed_traces [OF mutation_traces(5), of a p p]) (simp_all add: dec_SetVisibility_def)
qed

text \<open>
  (C26) Confinement, for any backend whatsoever: every operation of a decorator is carried out
  by requests on paths at or beneath its prefix only; a read-only decorator makes no mutating
  request at all; a mutating operation makes at most one request, so it is never replayed, and
  every other operation at most as many as the retry policy allows.
\<close>

theorem decorator_confined:
  assumes "dec_ok a" and "list_all wf_path (request_paths req)"
    and "run_request (decorator_backend a) req d c = (r, d', c')"
  shows "\<exists>reqs. executes (dc_backend a) reqs (d_inner d) (d_inner d') \<and>
    list_all (\<lambda>q. list_all (within (cf_prefix (dc_config a))) (request_paths q)) reqs \<and>
    (cf_readOnly (dc_config a) \<longrightarrow> list_all (\<lambda>q. \<not> mutates q) reqs) \<and>
    length reqs \<le> (if mutates req then 1 else call_limit a)"
  using decorator_traces [OF assms(1,2), of d c] assms(3)
  by (auto simp: permitted_def list_all_iff)

definition sample_config :: "string \<Rightarrow> bool \<Rightarrow> configuration" where
  "sample_config pre readOnly =
     \<lparr>cf_prefix = sample_path pre, cf_readOnly = readOnly, cf_checksums = True,
      cf_retry = Some \<lparr>rp_Attempts = 3, rp_Retryable = Some (\<lambda>e. errors_is e ErrNotFound),
        rp_Backoff = None\<rparr>,
      cf_observer = True\<rparr>"

definition sample_decorator ::
  "string \<Rightarrow> bool \<Rightarrow> (memory, slice_iterator, memory consumer) decorator" where
  "sample_decorator pre readOnly =
     \<lparr>dc_backend = memory_backend, dc_signer = None, dc_config = sample_config pre readOnly\<rparr>"

definition sample_dstate :: "'s \<Rightarrow> 's dstate" where
  "sample_dstate s = \<lparr>d_inner = s, d_events = [], d_clock = int, d_ticks = 0\<rparr>"

lemma sample_decorator_ok: "dec_ok (sample_decorator ''d'' ro)"
proof -
  have "wf_path (sample_path ''d'')" by code_simp
  then show ?thesis by (simp add: dec_ok_def config_ok_def sample_decorator_def sample_config_def)
qed

theorem decorator_confined_witness:
  "\<exists>reqs d'. executes memory_backend reqs (sample_memory [''d/b'']) d' \<and> length reqs \<le> 1 \<and>
     list_all (\<lambda>q. list_all (within (sample_path ''d'')) (request_paths q)) reqs"
proof -
  let ?a = "sample_decorator ''d'' False"
  obtain r d' c' where run: "run_request (decorator_backend ?a) (ReqDelete (sample_path ''a''))
      (sample_dstate (sample_memory [''d/b''])) Background = (r, d', c')"
    by (metis prod.exhaust)
  have "list_all wf_path (request_paths (ReqDelete (sample_path ''a'')))" by code_simp
  from decorator_confined [OF sample_decorator_ok this run] show ?thesis
    by (auto simp: sample_decorator_def sample_config_def sample_dstate_def)
qed

section \<open>Observation\<close>

fun request_operation :: "request \<Rightarrow> operation" where
  "request_operation (ReqOpen _) = OperationRead"
| "request_operation (ReqOpenRange _ _) = OperationRangeRead"
| "request_operation (ReqWrite _ _ _) = OperationWrite"
| "request_operation (ReqOpenWriter _ _) = OperationWrite"
| "request_operation (ReqDelete _) = OperationDelete"
| "request_operation (ReqList _ _) = OperationList"
| "request_operation (ReqStat _) = OperationStat"
| "request_operation (ReqCopy _ _ _) = OperationCopy"
| "request_operation (ReqMove _ _ _) = OperationMove"
| "request_operation (ReqSetMetadata _ _) = OperationSetMetadata"
| "request_operation (ReqChecksum _ _) = OperationChecksum"
| "request_operation (ReqVisibility _) = OperationVisibility"
| "request_operation (ReqSetVisibility _ _) = OperationSetVisibility"

lemma observeCall_events:
  assumes "observeCall obs op p q call d c = (r, d', c')"
  shows "d_events d' = d_events d @
    (if obs \<and> \<not> is_panic r
     then [\<lparr>ev_Operation = op, ev_Path = p, ev_Destination = q, ev_Started = d_clock d (d_ticks d),
            ev_Duration = d_clock d (Suc (d_ticks d)) - d_clock d (d_ticks d), ev_Error = err_of r\<rparr>]
     else [])"
  using assms by (auto simp: observeCall_def time_Now_def Let_def split: prod.splits if_splits)

lemma err_of_bind_Ok [simp]: "err_of (bind_res r (\<lambda>x. Ok (f x))) = err_of r"
  by (cases r) simp_all

lemma is_panic_bind_Ok [simp]: "is_panic (bind_res r (\<lambda>x. Ok (f x))) = is_panic r"
  by (cases r) simp_all

lemmas dec_defs = dec_Open_def dec_OpenRange_def dec_Write_def dec_OpenWriter_def dec_Delete_def
  dec_List_def dec_Stat_def dec_Copy_def dec_Move_def dec_SetMetadata_def dec_Checksum_def
  dec_Visibility_def dec_SetVisibility_def

text \<open>
  (C27) The observer sees every call once: an operation that returns adds exactly one event
  with its operation, the caller's path (and destination, for copies and moves) and the error
  it returned; without an observer, or when the backend panics, no event is added.
\<close>

theorem observer_sees_every_call:
  assumes "run_request (decorator_backend a) req d c = (r, d', c')"
  shows "if cf_observer (dc_config a) \<and> \<not> is_panic r
    then \<exists>ev. d_events d' = d_events d @ [ev] \<and> ev_Operation ev = request_operation req \<and>
      ev_Path ev = hd (request_paths req) \<and>
      ev_Destination ev = (if length (request_paths req) = 2 then last (request_paths req) else Root) \<and>
      ev_Error ev = err_of r
    else d_events d' = d_events d"
  using assms
  by (cases req)
    (auto simp: dec_defs drop_result_def Root_def split: prod.splits dest!: observeCall_events)

theorem observer_sees_every_call_witness:
  "\<exists>ev. d_events (fst (snd (run_request (decorator_backend (sample_decorator ''d'' False))
        (ReqDelete (sample_path ''a'')) (sample_dstate (sample_memory [''d/b''])) Background))) = [ev]
     \<and> ev_Operation ev = OperationDelete \<and> ev_Path ev = sample_path ''a''"
proof -
  let ?run = "run_request (decorator_backend (sample_decorator ''d'' False))
        (ReqDelete (sample_path ''a'')) (sample_dstate (sample_memory [''d/b''])) Background"
  have "\<not> is_panic (fst ?run)" by code_simp
  with observer_sees_every_call [of "sample_decorator ''d'' False" "ReqDelete (sample_path ''a'')"
      "sample_dstate (sample_memory [''d/b''])" Background "fst ?run" "fst (snd ?run)" "snd (snd ?run)"]
  show ?thesis by (auto simp: sample_decorator_def sample_config_def sample_dstate_def)
qed

section \<open>Retries\<close>

text \<open>The errors after which the policy calls again.\<close>

definition again :: "RetryPolicy \<Rightarrow> 'a res \<Rightarrow> bool" where
  "again pol r =
     (case r of
        Err e \<Rightarrow> \<not> errors_is e ContextCanceled \<and> \<not> errors_is e ContextDeadlineExceeded \<and>
          (case rp_Retryable pol of None \<Rightarrow> False | Some f \<Rightarrow> f e)
      | _ \<Rightarrow> False)"

text \<open>The state after \<open>n\<close> calls.\<close>

fun after :: "('s, 'a) action \<Rightarrow> nat \<Rightarrow> 's \<Rightarrow> 's" where
  "after call 0 s = s"
| "after call (Suc n) s = after call n (fst (snd (call s Background)))"

text \<open>A call under the background context, which is never cancelled, returns it as it was.\<close>

definition keeps_live :: "('s, 'a) action \<Rightarrow> bool" where
  "keeps_live call = (\<forall>s. snd (snd (call s Background)) = Background)"

lemma retry_loop_live:
  assumes "snd (snd (call s Background)) = Background" and "rp_Retryable pol \<noteq> None"
  shows "retry_loop pol call attempt s Background =
    (if again pol (fst (call s Background)) \<and> attempt \<noteq> rp_Attempts pol
     then retry_loop pol call (attempt + 1) (fst (snd (call s Background))) Background
     else call s Background)"
proof -
  obtain r t c where call: "call s Background = (r, t, c)" by (metis prod.exhaust)
  with assms(1) have "c = Background" by simp
  with call assms(2) show ?thesis
    by (subst retry_loop.simps) (auto simp: again_def split: res.splits option.splits)
qed

lemma retry_loop_keeps:
  assumes "keeps_live call" and "rp_Retryable pol \<noteq> None"
  shows "retry_loop pol call attempt s Background =
    (if again pol (fst (call s Background)) \<and> attempt \<noteq> rp_Attempts pol
     then retry_loop pol call (attempt + 1) (fst (snd (call s Background))) Background
     else call s Background)"
  by (rule retry_loop_live) (use assms in \<open>simp_all add: keeps_live_def\<close>)

lemma retry_loop_exact:
  assumes "keeps_live call" and "rp_Retryable pol \<noteq> None"
  shows "\<exists>k \<le> unat (rp_Attempts pol - attempt).
    retry_loop pol call attempt s Background = call (after call k s) Background \<and>
    (\<forall>i<k. again pol (fst (call (after call i s) Background))) \<and>
    (k = unat (rp_Attempts pol - attempt) \<or> \<not> again pol (fst (call (after call k s) Background)))"
proof (induction "unat (rp_Attempts pol - attempt)" arbitrary: attempt s)
  case 0
  then have "attempt = rp_Attempts pol" by (simp add: unat_eq_0)
  with 0 show ?case using retry_loop_keeps [OF assms, of attempt s] by (intro exI [of _ 0]) simp
next
  case (Suc n)
  then have ne: "attempt \<noteq> rp_Attempts pol" by auto
  show ?case
  proof (cases "again pol (fst (call s Background))")
    case False
    with retry_loop_keeps [OF assms, of attempt s] show ?thesis by (intro exI [of _ 0]) simp
  next
    case True
    let ?t = "fst (snd (call s Background))"
    from attempts_step [OF ne] Suc(2) have n: "n = unat (rp_Attempts pol - (attempt + 1))" by simp
    from Suc(1) [OF n, of ?t] obtain k where k: "k \<le> n"
      "retry_loop pol call (attempt + 1) ?t Background = call (after call k ?t) Background"
      "\<forall>i<k. again pol (fst (call (after call i ?t) Background))"
      "k = n \<or> \<not> again pol (fst (call (after call k ?t) Background))"
      using n by auto
    have "\<forall>i<Suc k. again pol (fst (call (after call i s) Background))"
      using k(3) True by (auto simp: less_Suc_eq_0_disj)
    with k True ne Suc(2) retry_loop_keeps [OF assms, of attempt s] show ?thesis
      by (intro exI [of _ "Suc k"]) (auto simp flip: n)
  qed
qed

text \<open>
  (C28) Retries are exact: under a live context a retried call is the last of at most
  \<^verbatim>\<open>Attempts\<close> consecutive calls. Each call before it failed with an error that the policy
  classifies as retryable and that is no context error, and the last one is returned because
  it did not, or because the attempts are used up. In particular the loop ends.
\<close>

theorem retryCall_exact:
  assumes "keeps_live call"
    and "0 < sint (rp_Attempts pol)" and "rp_Retryable pol \<noteq> None"
  shows "\<exists>k < nat (sint (rp_Attempts pol)).
    retryCall (Some pol) call s Background = call (after call k s) Background \<and>
    (\<forall>i<k. again pol (fst (call (after call i s) Background))) \<and>
    (Suc k = nat (sint (rp_Attempts pol)) \<or> \<not> again pol (fst (call (after call k s) Background)))"
proof -
  have "rp_Attempts pol \<noteq> 0" using assms(2) by auto
  then have "nat (sint (rp_Attempts pol)) = Suc (unat (rp_Attempts pol - 1))"
    using unat_nonnegative [of "rp_Attempts pol"] assms(2) attempts_step [of 0 "rp_Attempts pol"] by simp
  then show ?thesis
    using retry_loop_exact [OF assms(1,3), of 1 s] by (auto simp: retryCall_def less_Suc_eq_le)
qed

theorem retryCall_exact_witness:
  "retryCall (Some \<lparr>rp_Attempts = 3, rp_Retryable = Some (\<lambda>_. True), rp_Backoff = None\<rparr>)
     (\<lambda>n c. (if n = (1 :: nat) then Ok n else Err (New ''busy''), Suc n, c)) 0 Background =
   (Ok 1, 2, Background)"
proof -
  let ?pol = "\<lparr>rp_Attempts = 3, rp_Retryable = Some (\<lambda>_ :: err. True), rp_Backoff = None\<rparr>"
  let ?call = "\<lambda>n c. (if n = (1 :: nat) then Ok n else Err (New ''busy''), Suc n, c :: ctx)"
  obtain k where k: "k < nat (sint (rp_Attempts ?pol))"
    "retryCall (Some ?pol) ?call 0 Background = ?call (after ?call k 0) Background"
    "\<forall>i<k. again ?pol (fst (?call (after ?call i 0) Background))"
    "Suc k = nat (sint (rp_Attempts ?pol)) \<or> \<not> again ?pol (fst (?call (after ?call k 0) Background))"
    using retryCall_exact [of ?call ?pol 0] by (auto simp: keeps_live_def)
  have "k = 0 \<or> k = 1 \<or> k = 2" using k(1) by auto
  with k(2-4) show ?thesis by (auto simp: again_def numeral_2_eq_2)
qed

section \<open>Capabilities\<close>

text \<open>
  Capability honesty: for a backend whose set was built by \<^verbatim>\<open>NewCapabilitySet\<close> the
  decorator reports its capabilities without panicking; it supports what the backend does,
  without the mutating ones when it is read-only and with checksums when those are enabled,
  and nothing else.
\<close>

theorem decorator_capabilities:
  assumes "NewCapabilitySet cs = Ok (be_Capabilities (dc_backend a))"
  shows "\<exists>s. dec_Capabilities a = Ok s \<and>
    (\<forall>c. Supports s c \<longleftrightarrow>
      (Supports (be_Capabilities (dc_backend a)) c \<and>
         \<not> (cf_readOnly (dc_config a) \<and> mutating_capability c))
      \<or> (cf_checksums (dc_config a) \<and> c = CapabilityChecksum))"
proof -
  from assms have known: "set cs \<subseteq> knownCapabilities"
    and be: "be_Capabilities (dc_backend a) = \<lparr>cs_values = first_occurrences cs, cs_index = set cs\<rparr>"
    by (auto simp: NewCapabilitySet_eq split: if_splits)
  have "CapabilityChecksum \<in> knownCapabilities" by (simp add: knownCapabilities_def)
  with known show ?thesis
    by (auto simp: dec_Capabilities_def Let_def be CapabilitySet_List_def NewCapabilitySet_eq Supports_def)
qed

theorem decorator_capabilities_witness:
  "\<exists>s. dec_Capabilities (sample_decorator ''d'' True) = Ok s \<and> Supports s CapabilityRead \<and>
     \<not> Supports s CapabilityWrite"
proof -
  let ?a = "sample_decorator ''d'' True"
  have "NewCapabilitySet memory_capability_list = Ok (be_Capabilities (dc_backend ?a))"
    by (simp add: sample_decorator_def memory_Capabilities_def NewCapabilitySet_eq
        memory_capability_list_def knownCapabilities_def)
  from decorator_capabilities [OF this] show ?thesis
    by (auto simp: sample_decorator_def sample_config_def mutating_capability_def memory_Capabilities_def
        NewCapabilitySet_eq memory_capability_list_def knownCapabilities_def Supports_def)
qed

text \<open>
  A read-only decorator refuses: each mutating operation fails with an error that
  matches \<^verbatim>\<open>ErrUnsupportedCapability\<close>, before the backend is called, whatever its arguments.
\<close>

theorem read_only_refuses:
  assumes "cf_readOnly (dc_config a)" and "mutates req"
    and "run_request (decorator_backend a) req d c = (r, d', c')"
  shows "fails_with r ErrUnsupportedCapability \<and> d_inner d' = d_inner d \<and> c' = c"
  using assms
  by (cases req)
    (auto simp: dec_defs drop_result_def observeCall_def guarded_def time_Now_def Let_def
      read_only_error_def Unsupported_def split: prod.splits if_splits)

theorem read_only_refuses_witness:
  "fails_with (fst (run_request (decorator_backend (sample_decorator ''d'' True))
     (ReqDelete (sample_path ''b'')) (sample_dstate (sample_memory [''d/b''])) Background)) ErrUnsupportedCapability"
  using read_only_refuses [of "sample_decorator ''d'' True" "ReqDelete (sample_path ''b'')"]
  by (metis (no_types, lifting) configuration.select_convs(2) decorator.select_convs(3) mutates.simps(3)
      prod.collapse sample_config_def sample_decorator_def)

end
