(* ===== verification/Decorated_Store.thy ===== *)
theory Decorated_Store
  imports Decorator_Theorems
begin

text \<open>
  Decoration preserves the contract: a decorator over a backend that keeps \<open>object_store\<close>
  keeps it too, over the part of the store that lies under its prefix. The proof is done once
  for an arbitrary backend and then used for the in-memory adapter.
\<close>

section \<open>The wrapping iterator\<close>

text \<open>The entries a wrapping iterator yields of those of its inner one, and its own error.\<close>

fun strip_entries :: "path \<Rightarrow> Entry list \<Rightarrow> Entry list \<times> err option" where
  "strip_entries pre [] = ([], None)"
| "strip_entries pre (e # es) =
     (case externalPath pre (e_Path e) of
        Ok p \<Rightarrow> (case strip_entries pre es of (xs, f) \<Rightarrow> (e\<lparr>e_Path := p\<rparr> # xs, f))
      | Err x \<Rightarrow> ([], Some x)
      | Panic x \<Rightarrow> ([], Some x))"

definition dec_pending :: "('i \<Rightarrow> Entry list) \<Rightarrow> 'i dec_iterator \<Rightarrow> Entry list" where
  "dec_pending pending i =
     (if di_err i \<noteq> None then [] else fst (strip_entries (di_prefix i) (pending (di_inner i))))"

definition dec_fault ::
  "('i \<Rightarrow> Entry list) \<Rightarrow> ('i \<Rightarrow> err option) \<Rightarrow> 'i dec_iterator \<Rightarrow> err option" where
  "dec_fault pending fault i =
     (if di_err i \<noteq> None then di_err i
      else case snd (strip_entries (di_prefix i) (pending (di_inner i))) of
        Some e \<Rightarrow> Some e | None \<Rightarrow> fault (di_inner i))"

lemma externalPath_not_Panic: "externalPath pre p \<noteq> Panic e"
  by (simp add: externalPath_def ParsePath_never_panics split: option.split)

lemma dec_iterator_ops_sel [simp]:
  "it_Next (dec_iterator_ops ops) = dec_Next ops" "it_Entry (dec_iterator_ops ops) = dec_Entry"
  "it_Err (dec_iterator_ops ops) = dec_Err ops" "it_Close (dec_iterator_ops ops) = dec_Close ops"
  by (simp_all add: dec_iterator_ops_def)

context entry_iterator begin

lemma dec_next_exhausted:
  assumes "dec_pending pending i = []"
  shows "\<exists>i'. dec_Next ops i = (False, i') \<and> dec_pending pending i' = [] \<and>
    dec_Err ops i' = dec_fault pending fault i \<and> dec_fault pending fault i' = dec_fault pending fault i"
proof (cases "di_err i")
  case (Some e)
  then show ?thesis by (simp add: dec_Next_def dec_pending_def dec_Err_def dec_fault_def)
next
  case None
  show ?thesis
  proof (cases "pending (di_inner i)")
    case Nil
    with next_Nil obtain j where "it_Next ops (di_inner i) = (False, j)" "pending j = []"
      "it_Err ops j = fault (di_inner i)" "fault j = fault (di_inner i)" by blast
    with None Nil show ?thesis by (simp add: dec_Next_def dec_pending_def dec_Err_def dec_fault_def)
  next
    case (Cons e es)
    with next_Cons obtain j where j: "it_Next ops (di_inner i) = (True, j)" "it_Entry ops j = e" by blast
    from assms None Cons obtain x where x: "externalPath (di_prefix i) (e_Path e) = Err x"
      by (cases "externalPath (di_prefix i) (e_Path e)")
        (auto simp: dec_pending_def externalPath_not_Panic split: prod.splits)
    with None Cons j show ?thesis by (simp add: dec_Next_def dec_pending_def dec_Err_def dec_fault_def)
  qed
qed

lemma dec_next_entry:
  assumes "dec_pending pending i = x # xs"
  shows "\<exists>i'. dec_Next ops i = (True, i') \<and> dec_Entry i' = x \<and> dec_pending pending i' = xs \<and>
    dec_fault pending fault i' = dec_fault pending fault i \<and> dec_Err ops i' = None"
proof -
  from assms have err: "di_err i = None" by (simp add: dec_pending_def split: if_splits)
  with assms obtain e es where p: "pending (di_inner i) = e # es"
    by (cases "pending (di_inner i)") (simp_all add: dec_pending_def)
  with next_Cons obtain j where j: "it_Next ops (di_inner i) = (True, j)" "it_Entry ops j = e"
    "pending j = es" "fault j = fault (di_inner i)" "it_Err ops j = None" by blast
  from assms err p obtain q where "externalPath (di_prefix i) (e_Path e) = Ok q"
    by (cases "externalPath (di_prefix i) (e_Path e)") (simp_all add: dec_pending_def)
  with assms err p j show ?thesis
    by (auto simp: dec_Next_def dec_pending_def dec_Entry_def dec_fault_def dec_Err_def
        split: prod.splits option.splits)
qed

lemma dec_entry_iterator:
  "entry_iterator (dec_iterator_ops ops) (dec_pending pending) (dec_fault pending fault)"
proof
  show "dec_pending pending (snd (it_Close (dec_iterator_ops ops) i)) = []" for i
  proof -
    obtain e j where "it_Close ops (di_inner i) = (e, j)" by (metis prod.exhaust)
    with close_stops [of "di_inner i"] show ?thesis by (simp add: dec_Close_def dec_pending_def)
  qed
  show "fst (it_Close (dec_iterator_ops ops) i) = None" if "dec_fault pending fault i = None" for i
  proof -
    from that have "fault (di_inner i) = None" by (auto simp: dec_fault_def split: if_splits option.splits)
    then have "fst (it_Close ops (di_inner i)) = None" by (rule close_clean)
    then show ?thesis by (auto simp: dec_Close_def split: prod.splits)
  qed
qed (simp_all add: dec_next_exhausted dec_next_entry)

end

section \<open>The store under a prefix\<close>

definition sub_view :: "path \<Rightarrow> store \<Rightarrow> store" where
  "sub_view pre V = (\<lambda>p. if wf_path p then V (path_append pre p) else None)"

lemma sub_view_wf: "wf_path p \<Longrightarrow> sub_view pre V p = V (path_append pre p)"
  by (simp add: sub_view_def)

lemma sub_view_dom: "p \<in> dom (sub_view pre V) \<Longrightarrow> wf_path p"
  by (auto simp: sub_view_def split: if_splits)

lemma sub_view_update:
  "wf_path pre \<Longrightarrow> wf_path p \<Longrightarrow> sub_view pre (V(path_append pre p := x)) = (sub_view pre V)(p := x)"
  by (auto simp: sub_view_def path_append_inject)

lemma sub_view_finite:
  assumes "wf_path pre" and "finite (dom V)"
  shows "finite (dom (sub_view pre V))"
proof -
  have "path_append pre ` dom (sub_view pre V) \<subseteq> dom V"
    by (auto simp: sub_view_def split: if_splits)
  moreover have "inj_on (path_append pre) (dom (sub_view pre V))"
    using assms(1) by (auto simp: inj_on_def sub_view_def path_append_inject split: if_splits)
  ultimately show ?thesis using assms(2) by (metis finite_imageD finite_subset)
qed

text \<open>The specifications commute with the restriction to the prefix.\<close>

definition sub_spec :: "path \<Rightarrow> sentinel + store \<Rightarrow> sentinel + store" where
  "sub_spec pre x = map_sum id (sub_view pre) x"

lemma sub_spec_simps:
  assumes "wf_path pre" and "wf_path p"
  shows "sub_spec pre (spec_write V (path_append pre p) f x) = spec_write (sub_view pre V) p f x"
    and "sub_spec pre (spec_delete V (path_append pre p)) = spec_delete (sub_view pre V) p"
    and "wf_path q \<Longrightarrow> sub_spec pre (spec_copy V (path_append pre p) (path_append pre q) x) =
      spec_copy (sub_view pre V) p q x"
    and "wf_path q \<Longrightarrow> sub_spec pre (spec_move V (path_append pre p) (path_append pre q) x) =
      spec_move (sub_view pre V) p q x"
    and "sub_spec pre (spec_update V (path_append pre p) g) = spec_update (sub_view pre V) p g"
  using assms
  by (simp_all add: sub_spec_def spec_write_def spec_delete_def spec_copy_def spec_move_def
      spec_update_def sub_view_wf sub_view_update path_append_inject split: option.split)

section \<open>Listings under a prefix\<close>

lemma append_less_cancel: "(xs @ ys < xs @ zs) = (ys < (zs :: 'a :: linorder list))"
  by (induction xs) simp_all

lemma beneath_append:
  assumes "wf_path pre" "wf_path d" "wf_path p"
  shows "beneath (path_append pre d) (path_append pre p) \<longleftrightarrow> beneath d p"
  using assms by (simp add: beneath_def segments_append strict_prefix_def)

lemma child_path_append:
  assumes "wf_path pre" "wf_path d" "wf_path p" "beneath d p"
  shows "child_path (path_append pre d) recursive (path_append pre p) =
    path_append pre (child_path d recursive p)"
proof (cases recursive)
  case False
  from assms(4) obtain x r where r: "segments p = segments d @ x # r"
    by (auto simp: beneath_iff neq_Nil_conv)
  note seg = child_path_facts(1,3) [OF assms(3) r]
  have pp: "segments (path_append pre p) = segments (path_append pre d) @ x # r"
    using assms r by (simp add: segments_append)
  have "segments (child_path (path_append pre d) False (path_append pre p)) =
      segments (path_append pre (child_path d False p))"
    using child_path_facts(3) [OF wf_path_append [OF assms(1,3)] pp] seg assms
    by (simp add: segments_append)
  with False show ?thesis by (simp add: segments_eq_iff)
qed (simp add: child_path_def)

text \<open>
  The objects under the prefix are ones that the decorator could have written: the rest of
  their path is a path of its own.
\<close>

definition presentable :: "path \<Rightarrow> store \<Rightarrow> bool" where
  "presentable pre V =
     (\<forall>q \<in> dom V. within pre q \<longrightarrow> (\<exists>p. wf_path p \<and> q = path_append pre p))"

lemma presentable_update:
  assumes "presentable pre V" "wf_path pre" "wf_path p"
  shows "presentable pre (V(path_append pre p := x))"
  using assms by (auto simp: presentable_def split: if_splits)

lemma beneath_within: "wf_path pre \<Longrightarrow> wf_path d \<Longrightarrow> beneath (path_append pre d) q \<Longrightarrow> within pre q"
  by (auto simp: beneath_iff within_def segments_append)

lemma dom_beneath_append:
  assumes "wf_path pre" "wf_path d" "presentable pre V"
  shows "{q \<in> dom V. beneath (path_append pre d) q} =
    path_append pre ` {p \<in> dom (sub_view pre V). beneath d p}"
proof (intro equalityI subsetI)
  fix q assume q: "q \<in> {q \<in> dom V. beneath (path_append pre d) q}"
  with assms obtain p where "wf_path p" "q = path_append pre p"
    by (auto simp: presentable_def dest: beneath_within)
  with q assms show "q \<in> path_append pre ` {p \<in> dom (sub_view pre V). beneath d p}"
    by (auto simp: sub_view_def beneath_append)
next
  fix q assume "q \<in> path_append pre ` {p \<in> dom (sub_view pre V). beneath d p}"
  then obtain p where "q = path_append pre p" "p \<in> dom (sub_view pre V)" "beneath d p"
    by auto
  with assms sub_view_dom [of p pre V] show "q \<in> {q \<in> dom V. beneath (path_append pre d) q}"
    by (auto simp: sub_view_def beneath_append)
qed

definition unprefix :: "path \<Rightarrow> path \<Rightarrow> path" where
  "unprefix pre q = \<lparr>pvalue = join_with slash (drop (length (segments pre)) (segments q))\<rparr>"

lemma unprefix_append: "wf_path pre \<Longrightarrow> wf_path p \<Longrightarrow> unprefix pre (path_append pre p) = p"
  by (simp add: unprefix_def segments_append join_segments)

definition add_prefix :: "path \<Rightarrow> Entry \<Rightarrow> Entry" where
  "add_prefix pre e = e\<lparr>e_Path := path_append pre (e_Path e)\<rparr>"

lemma strip_add_prefix:
  "wf_path pre \<Longrightarrow> \<forall>e \<in> set es. wf_path (e_Path e) \<Longrightarrow>
    strip_entries pre (map (add_prefix pre) es) = (es, None)"
  by (induction es) (simp_all add: add_prefix_def externalPath_internal)

lemma key_less_append:
  assumes "wf_path pre" "\<not> IsRoot p" "\<not> IsRoot q"
  shows "pvalue (path_append pre p) < pvalue (path_append pre q) \<longleftrightarrow> pvalue p < pvalue q"
  using assms by (simp add: pvalue_append append_less_cancel)

lemma listing_sub_view:
  assumes wf: "wf_path pre" "wf_path d" and clean: "presentable pre V"
    and es: "listing V (path_append pre d) recursive es"
  obtains xs where "es = map (add_prefix pre) xs" "\<forall>e \<in> set xs. wf_path (e_Path e)"
    "listing (sub_view pre V) d recursive xs"
proof -
  define xs where "xs = map (\<lambda>e. e\<lparr>e_Path := unprefix pre (e_Path e)\<rparr>) es"
  let ?P = "{p \<in> dom (sub_view pre V). beneath d p}"
  have wfP: "wf_path p" if "p \<in> ?P" for p using that sub_view_dom by blast
  have childP: "wf_path (child_path d recursive p) \<and> \<not> IsRoot (child_path d recursive p) \<and>
      child_path (path_append pre d) recursive (path_append pre p) =
        path_append pre (child_path d recursive p)" if "p \<in> ?P" for p
  proof -
    from that obtain x r where "segments p = segments d @ x # r" by (auto simp: beneath_iff neq_Nil_conv)
    with child_path_facts(1,2) [OF wfP [OF that]] child_path_append [OF wf wfP [OF that]] that
    show ?thesis by simp
  qed
  have paths: "e_Path ` set es = path_append pre ` child_path d recursive ` ?P"
    using es dom_beneath_append [OF wf clean] childP
    by (auto simp: listing_def image_image intro!: image_cong)
  have each: "\<exists>p \<in> ?P. e_Path e = path_append pre (child_path d recursive p)" if "e \<in> set es" for e
    using that paths by (metis (no_types, lifting) image_iff)
  have undo: "path_append pre (unprefix pre (e_Path e)) = e_Path e \<and> wf_path (unprefix pre (e_Path e)) \<and>
      \<not> IsRoot (unprefix pre (e_Path e))"
    if "e \<in> set es" for e
    using each [OF that] childP unprefix_append [OF wf(1)] by fastforce
  have map_es: "es = map (add_prefix pre) xs"
    using undo by (simp add: xs_def add_prefix_def map_idI)
  have wf_xs: "\<forall>e \<in> set xs. wf_path (e_Path e) \<and> \<not> IsRoot (e_Path e)"
    using undo by (auto simp: xs_def)
  have "sorted_wrt (<) (map entry_key xs)"
  proof -
    have "sorted_wrt (\<lambda>x y. entry_key (add_prefix pre x) < entry_key (add_prefix pre y)) xs"
      using es by (simp add: listing_def map_es sorted_wrt_map)
    then have "sorted_wrt (\<lambda>x y. entry_key x < entry_key y) xs"
      by (rule sorted_wrt_mono_rel [rotated])
        (use wf_xs key_less_append [OF wf(1)] in \<open>simp add: entry_key_def add_prefix_def Path_String_def\<close>)
    then show ?thesis by (simp add: sorted_wrt_map)
  qed
  moreover have "e_Path ` set xs = child_path d recursive ` ?P"
  proof -
    have "e_Path ` set xs = unprefix pre ` e_Path ` set es" by (simp add: xs_def image_image)
    also have "\<dots> = child_path d recursive ` ?P"
      using childP unprefix_append [OF wf(1)] by (simp add: paths image_image)
    finally show ?thesis .
  qed
  moreover have "entry_true (sub_view pre V) recursive x" if "x \<in> set xs" for x
  proof -
    have x: "wf_path (e_Path x)" using wf_xs that by blast
    have "entry_true V recursive (add_prefix pre x)" using es that by (auto simp: listing_def map_es)
    moreover have "\<exists>p \<in> dom (sub_view pre V). beneath (e_Path x) p"
      if "q \<in> dom V" "beneath (path_append pre (e_Path x)) q" for q
      using dom_beneath_append [OF wf(1) x clean] that by blast
    ultimately show ?thesis
      using x by (auto simp: entry_true_def add_prefix_def sub_view_wf)
  qed
  ultimately have "listing (sub_view pre V) d recursive xs" by (simp add: listing_def)
  with that map_es wf_xs show thesis by blast
qed

section \<open>The transfer\<close>

lemma observeCall_result:
  "fst (observeCall obs op p q call d c) = fst (call (d_inner d) c)"
  "snd (snd (observeCall obs op p q call d c)) = snd (snd (call (d_inner d) c))"
  by (simp_all add: observeCall_def time_Now_def Let_def split: prod.split)

text \<open>The invariant and the abstraction of the decorated backend.\<close>

definition dec_good :: "('s \<Rightarrow> bool) \<Rightarrow> ('s \<Rightarrow> store) \<Rightarrow> path \<Rightarrow> 's dstate \<Rightarrow> bool" where
  "dec_good good view pre d = (good (d_inner d) \<and> presentable pre (view (d_inner d)))"

definition dec_view :: "('s \<Rightarrow> store) \<Rightarrow> path \<Rightarrow> 's dstate \<Rightarrow> store" where
  "dec_view view pre d = sub_view pre (view (d_inner d))"

context object_store begin

lemma implements_observed:
  assumes "dec_good good view pre d"
    and "implements good view (view (d_inner d)) (call (d_inner d) Background) spec"
    and "\<And>V. spec = Inr V \<Longrightarrow> presentable pre V" and "sub_spec pre spec = spec'"
  shows "implements (dec_good good view pre) (dec_view view pre) (dec_view view pre d)
    (observeCall obs op p q call d Background) spec'"
proof -
  obtain r s c where call: "call (d_inner d) Background = (r, s, c)" by (metis prod.exhaust)
  obtain r' d' c' where run: "observeCall obs op p q call d Background = (r', d', c')"
    by (metis prod.exhaust)
  with call observeCall_result [of obs op p q call d Background]
    observeCall_inner [of obs op p q call d Background]
  have "r' = r" "c' = c" "d_inner d' = s" by simp_all
  with assms call run show ?thesis
    by (cases spec) (auto simp: implements_def dec_good_def dec_view_def sub_spec_def)
qed

lemma observes_observed:
  assumes "observes good view (view (d_inner d)) (call (d_inner d) Background) P"
    and "presentable pre (view (d_inner d))"
  shows "observes (dec_good good view pre) (dec_view view pre) (dec_view view pre d)
    (observeCall obs op p q call d Background) P"
proof -
  obtain r s c where call: "call (d_inner d) Background = (r, s, c)" by (metis prod.exhaust)
  obtain r' d' c' where run: "observeCall obs op p q call d Background = (r', d', c')"
    by (metis prod.exhaust)
  with call observeCall_result [of obs op p q call d Background]
    observeCall_inner [of obs op p q call d Background]
  have "r' = r" "c' = c" "d_inner d' = s" by simp_all
  with assms call run show ?thesis
    by (simp add: observes_def dec_good_def dec_view_def)
qed

lemma retry_observes:
  assumes pol: "dec_ok a"
    and call: "\<And>s. good s \<Longrightarrow> view s = V \<Longrightarrow> observes good view V (call s Background) P"
    and s: "good s" "view s = V"
  shows "observes good view V (retried a call s Background) P"
proof (cases "cf_retry (dc_config a)")
  case None
  with call [OF s] show ?thesis by (simp add: retryCall_def)
next
  case (Some pol)
  with assms(1) have nn: "rp_Retryable pol \<noteq> None" by (simp add: dec_ok_def config_ok_def)
  have "observes good view V (retry_loop pol call attempt s Background) P"
    if "good s" "view s = V" for attempt s
    using that
  proof (induction "unat (rp_Attempts pol - attempt)" arbitrary: attempt s rule: less_induct)
    case less
    note obs = call [OF less.prems]
    then have "snd (snd (call s Background)) = Background" by (auto simp: observes_def)
    note live = retry_loop_live [of call s pol attempt, OF this nn]
    show ?case
    proof (cases "again pol (fst (call s Background)) \<and> attempt \<noteq> rp_Attempts pol")
      case True
      have "good (fst (snd (call s Background)))" "view (fst (snd (call s Background))) = V"
        using obs by (auto simp: observes_def)
      with less(1) [of "attempt + 1"] attempts_step [of attempt] True live show ?thesis by simp
    next
      case False
      with live obs show ?thesis by (simp only: if_False)
    qed
  qed
  with s Some show ?thesis by (simp add: retryCall_def)
qed

lemma retried_Ok:
  "call s Background = (Ok x, t, Background) \<Longrightarrow> retried a call s Background = (Ok x, t, Background)"
  by (cases "cf_retry (dc_config a)") (simp_all add: retryCall_def retry_loop.simps [of _ call])

lemma good_presentable:
  "dec_good good view pre d \<Longrightarrow> good (d_inner d) \<and> presentable pre (view (d_inner d))"
  by (simp add: dec_good_def)

end

lemma presentable_specs:
  assumes "presentable pre V" "wf_path pre" "wf_path p" "wf_path q"
  shows "spec_write V (path_append pre p) f x = Inr V' \<Longrightarrow> presentable pre V'"
    and "spec_delete V (path_append pre p) = Inr V' \<Longrightarrow> presentable pre V'"
    and "spec_copy V (path_append pre p) (path_append pre q) x = Inr V' \<Longrightarrow> presentable pre V'"
    and "spec_move V (path_append pre p) (path_append pre q) x = Inr V' \<Longrightarrow> presentable pre V'"
    and "spec_update V (path_append pre p) g = Inr V' \<Longrightarrow> presentable pre V'"
  using assms
  by (auto simp: spec_write_def spec_delete_def spec_copy_def spec_move_def spec_update_def
      presentable_update split: if_splits option.splits)

text \<open>A decorator over a backend that keeps the contract.\<close>

locale decorated_store =
  object_store be good view room pending fault
  for be :: "('s, 'i, 'w) backend" and good view room pending fault +
  fixes a :: "('s, 'i, 'w) decorator" and pre :: path
  assumes backend: "dc_backend a = be" and config: "dec_ok a"
    and writable: "\<not> cf_readOnly (dc_config a)" and prefix: "cf_prefix (dc_config a) = pre"
begin

lemma wf_pre: "wf_path pre"
  using config prefix by (simp add: dec_ok_def config_ok_def)

lemmas into = with_internal_eq [OF config, unfolded prefix]

lemma guarded_writable [simp]: "guarded a cap op call = call"
  using writable by (simp add: guarded_def fun_eq_iff)

lemma dec_Open_law:
  assumes "dec_good good view pre d" "wf_path p"
  shows "observes (dec_good good view pre) (dec_view view pre) (dec_view view pre d)
    (dec_Open a p d Background)
    (\<lambda>r. case dec_view view pre d p of
       None \<Rightarrow> fails_with r ErrNotFound
     | Some f \<Rightarrow> \<exists>st. r = Ok st \<and> stream_of st (f_content f))"
proof -
  note g = good_presentable [OF assms(1)]
  have "observes good view (view (d_inner d)) (be_Open be (path_append pre p) s Background)
      (\<lambda>r. case dec_view view pre d p of
         None \<Rightarrow> fails_with r ErrNotFound
       | Some f \<Rightarrow> \<exists>st. r = Ok st \<and> stream_of st (f_content f))"
    if "good s" "view s = view (d_inner d)" for s
    using Open_law [OF that(1) wf_path_append [OF wf_pre assms(2)]] that(2) assms(2)
    by (simp add: dec_view_def sub_view_wf)
  then show ?thesis
    unfolding dec_Open_def into [OF assms(2)] backend
    using g by (intro observes_observed retry_observes [OF config]) simp_all
qed

lemma set_result_path_observes:
  assumes "observes good view V x (\<lambda>r. case found of
      None \<Rightarrow> fails_with r ErrNotFound | Some f \<Rightarrow> \<exists>md. r = Ok md \<and> describes md q f)"
  shows "observes good view V (set_result_path p x) (\<lambda>r. case found of
      None \<Rightarrow> fails_with r ErrNotFound | Some f \<Rightarrow> \<exists>md. r = Ok md \<and> describes md p f)"
  using assms
  by (cases "fst x")
    (auto simp: observes_def set_result_path_def describes_def split: prod.splits option.splits)

lemma dec_Stat_law:
  assumes "dec_good good view pre d" "wf_path p"
  shows "observes (dec_good good view pre) (dec_view view pre) (dec_view view pre d)
    (dec_Stat a p d Background)
    (\<lambda>r. case dec_view view pre d p of
       None \<Rightarrow> fails_with r ErrNotFound
     | Some f \<Rightarrow> \<exists>md. r = Ok md \<and> describes md p f)"
proof -
  note g = good_presentable [OF assms(1)]
  have "observes good view (view (d_inner d)) (be_Stat be (path_append pre p) s Background)
      (\<lambda>r. case dec_view view pre d p of
         None \<Rightarrow> fails_with r ErrNotFound
       | Some f \<Rightarrow> \<exists>md. r = Ok md \<and> describes md (path_append pre p) f)"
    if "good s" "view s = view (d_inner d)" for s
    using Stat_law [OF that(1) wf_path_append [OF wf_pre assms(2)]] that(2) assms(2)
    by (simp add: dec_view_def sub_view_wf)
  then show ?thesis
    unfolding dec_Stat_def into [OF assms(2)] backend
    using g by (intro observes_observed set_result_path_observes retry_observes [OF config]) simp_all
qed

lemma set_result_path_implements:
  "implements good view V x spec \<Longrightarrow> implements good view V (set_result_path p x) spec"
  by (cases "fst x")
    (auto simp: implements_def set_result_path_def split: prod.splits sum.splits)

lemma dec_Write_law:
  assumes "dec_good good view pre d" "room (d_inner d)" "wf_path p" "\<not> IsRoot p" "io_copy source = (content, None)"
    "spec_visibility (wo_Visibility opts) = Some v"
  shows "implements (dec_good good view pre) (dec_view view pre) (dec_view view pre d)
    (dec_Write a p source opts d Background)
    (spec_write (dec_view view pre d) p (written_file opts content v) (wo_IfNoneMatch opts))"
proof -
  note g = good_presentable [OF assms(1)]
  have "\<not> IsRoot (path_append pre p)" using assms(4) by (simp add: IsRoot_def pvalue_append)
  note law = Write_law [OF conjunct1 [OF g] assms(2) wf_path_append [OF wf_pre assms(3)] this assms(5,6)]
  show ?thesis
    unfolding dec_Write_def into [OF assms(3)] backend
    by (rule implements_observed [OF assms(1) _
          presentable_specs(1) [OF conjunct2 [OF g] wf_pre assms(3,3)]])
      (use assms(4) writable in
        \<open>auto intro!: set_result_path_implements law simp: sub_spec_simps wf_pre assms(3) dec_view_def\<close>)
qed

lemma dec_Delete_law:
  assumes "dec_good good view pre d" "wf_path p"
  shows "implements (dec_good good view pre) (dec_view view pre) (dec_view view pre d)
    (dec_Delete a p d Background) (spec_delete (dec_view view pre d) p)"
proof -
  note g = good_presentable [OF assms(1)]
  note law = Delete_law [OF conjunct1 [OF g] wf_path_append [OF wf_pre assms(2)]]
  show ?thesis
    unfolding dec_Delete_def into [OF assms(2)] backend guarded_writable
    by (rule implements_observed [OF assms(1)], rule law,
        rule presentable_specs(2) [OF conjunct2 [OF g] wf_pre assms(2,2)], assumption)
      (simp add: sub_spec_simps wf_pre assms dec_view_def)
qed

lemma dec_Copy_law:
  assumes "dec_good good view pre d" "room (d_inner d)" "wf_path p" "wf_path q" "\<not> IsRoot q"
  shows "implements (dec_good good view pre) (dec_view view pre) (dec_view view pre d)
    (dec_Copy a p q opts d Background) (spec_copy (dec_view view pre d) p q (co_Overwrite opts))"
proof -
  note g = good_presentable [OF assms(1)]
  have "\<not> IsRoot (path_append pre q)" using assms(5) by (simp add: IsRoot_def pvalue_append)
  note law = Copy_law [OF conjunct1 [OF g] assms(2) wf_path_append [OF wf_pre assms(3)]
      wf_path_append [OF wf_pre assms(4)] this]
  show ?thesis
    unfolding dec_Copy_def into [OF assms(3)] into [OF assms(4)] backend guarded_writable
    by (rule implements_observed [OF assms(1)], rule law,
        rule presentable_specs(3) [OF conjunct2 [OF g] wf_pre assms(3,4)], assumption)
      (simp add: sub_spec_simps wf_pre assms dec_view_def)
qed

lemma dec_Move_law:
  assumes "dec_good good view pre d" "room (d_inner d)" "wf_path p" "wf_path q" "\<not> IsRoot q"
  shows "implements (dec_good good view pre) (dec_view view pre) (dec_view view pre d)
    (dec_Move a p q opts d Background) (spec_move (dec_view view pre d) p q (mo_Overwrite opts))"
proof -
  note g = good_presentable [OF assms(1)]
  have "\<not> IsRoot (path_append pre q)" using assms(5) by (simp add: IsRoot_def pvalue_append)
  note law = Move_law [OF conjunct1 [OF g] assms(2) wf_path_append [OF wf_pre assms(3)]
      wf_path_append [OF wf_pre assms(4)] this]
  show ?thesis
    unfolding dec_Move_def into [OF assms(3)] into [OF assms(4)] backend guarded_writable
    by (rule implements_observed [OF assms(1)], rule law,
        rule presentable_specs(4) [OF conjunct2 [OF g] wf_pre assms(3,4)], assumption)
      (simp add: sub_spec_simps wf_pre assms dec_view_def)
qed

lemma dec_SetMetadata_law:
  assumes "dec_good good view pre d" "wf_path p"
  shows "implements (dec_good good view pre) (dec_view view pre) (dec_view view pre d)
    (dec_SetMetadata a p md d Background)
    (spec_update (dec_view view pre d) p (\<lambda>f. f\<lparr>f_metadata := md\<rparr>))"
proof -
  note g = good_presentable [OF assms(1)]
  note law = SetMetadata_law [OF conjunct1 [OF g] wf_path_append [OF wf_pre assms(2)]]
  show ?thesis
    unfolding dec_SetMetadata_def into [OF assms(2)] backend guarded_writable
    by (rule implements_observed [OF assms(1)], rule law,
        rule presentable_specs(5) [OF conjunct2 [OF g] wf_pre assms(2,2)], assumption)
      (simp add: sub_spec_simps wf_pre assms dec_view_def)
qed

lemma dec_SetVisibility_law:
  assumes "dec_good good view pre d" "wf_path p" "spec_visibility vis = Some v"
  shows "implements (dec_good good view pre) (dec_view view pre) (dec_view view pre d)
    (dec_SetVisibility a p vis d Background)
    (spec_update (dec_view view pre d) p (\<lambda>f. f\<lparr>f_visibility := v\<rparr>))"
proof -
  note g = good_presentable [OF assms(1)]
  note law = SetVisibility_law [OF conjunct1 [OF g] wf_path_append [OF wf_pre assms(2)] assms(3)]
  show ?thesis
    unfolding dec_SetVisibility_def into [OF assms(2)] backend guarded_writable
    by (rule implements_observed [OF assms(1)], rule law,
        rule presentable_specs(5) [OF conjunct2 [OF g] wf_pre assms(2,2)], assumption)
      (simp add: sub_spec_simps wf_pre assms dec_view_def)
qed

lemma dec_List_law:
  assumes "dec_good good view pre d" "wf_path p" "0 \<le> sint (lo_Limit opts)"
  shows "observes (dec_good good view pre) (dec_view view pre) (dec_view view pre d)
    (dec_List a p opts d Background)
    (\<lambda>r. \<exists>it es. r = Ok it \<and> listing (dec_view view pre d) p (lo_Recursive opts) es \<and>
       dec_pending pending it = limited (lo_Limit opts) es \<and> dec_fault pending fault it = None)"
proof -
  note g = good_presentable [OF assms(1)]
  let ?call = "\<lambda>s c. be_List be (path_append pre p) opts s c"
  from List_law [OF conjunct1 [OF g] wf_path_append [OF wf_pre assms(2)] assms(3)]
  obtain it es t where run: "?call (d_inner d) Background = (Ok it, t, Background)"
    and t: "good t" "view t = view (d_inner d)"
    and es: "listing (view (d_inner d)) (path_append pre p) (lo_Recursive opts) es"
    and it: "pending it = limited (lo_Limit opts) es" "fault it = None"
    by (auto simp: observes_def split: prod.splits)
  from listing_sub_view [OF wf_pre assms(2) conjunct2 [OF g] es] obtain xs
    where xs: "es = map (add_prefix pre) xs" "\<forall>e \<in> set xs. wf_path (e_Path e)"
      "listing (sub_view pre (view (d_inner d))) p (lo_Recursive opts) xs" .
  have "limited (lo_Limit opts) es = map (add_prefix pre) (limited (lo_Limit opts) xs)"
    by (simp add: limited_def xs(1) take_map)
  moreover have "\<forall>e \<in> set (limited (lo_Limit opts) xs). wf_path (e_Path e)"
    using xs(2) by (auto simp: limited_def dest: in_set_takeD)
  ultimately have strip: "strip_entries pre (pending it) = (limited (lo_Limit opts) xs, None)"
    using strip_add_prefix [OF wf_pre] it(1) by simp
  let ?it = "\<lparr>di_inner = it, di_prefix = pre, di_current = zero_Entry, di_err = None\<rparr>"
  have "dec_pending pending ?it = limited (lo_Limit opts) xs" "dec_fault pending fault ?it = None"
    using strip it(2) by (simp_all add: dec_pending_def dec_fault_def)
  then have "observes good view (view (d_inner d)) (Ok ?it, t, Background)
    (\<lambda>r. \<exists>it es. r = Ok it \<and> listing (dec_view view pre d) p (lo_Recursive opts) es \<and>
       dec_pending pending it = limited (lo_Limit opts) es \<and> dec_fault pending fault it = None)"
    using t xs(3) unfolding observes_def dec_view_def by auto
  then show ?thesis
    unfolding dec_List_def into [OF assms(2)] backend prefix
    by (intro observes_observed) (use g retried_Ok [of ?call, OF run, of a] in simp_all)
qed

text \<open>The decorated backend keeps the contract.\<close>

lemma decorated:
  "object_store (decorator_backend a) (dec_good good view pre) (dec_view view pre)
     (\<lambda>d. room (d_inner d)) (dec_pending pending) (dec_fault pending fault)"
proof (rule object_store.intro, unfold decorator_backend_sel backend)
  show "entry_iterator (dec_iterator_ops (be_iterator be)) (dec_pending pending) (dec_fault pending fault)"
    by (rule entry_iterator.dec_entry_iterator [OF iterators])
  show "finite (dom (dec_view view pre d))" if "dec_good good view pre d" for d
    using that by (simp add: dec_view_def dec_good_def sub_view_finite wf_pre view_finite)
  show "wf_path p" if "p \<in> dom (dec_view view pre d)" for p d
    using that sub_view_dom unfolding dec_view_def by blast
qed (fact dec_Open_law dec_Stat_law dec_Write_law dec_Delete_law dec_Copy_law dec_Move_law
  dec_SetMetadata_law dec_SetVisibility_law dec_List_law)+

end

sublocale decorated_store \<subseteq> dec: object_store "decorator_backend a" "dec_good good view pre"
  "dec_view view pre" "\<lambda>d. room (d_inner d)" "dec_pending pending" "dec_fault pending fault"
  by (rule decorated)

text \<open>
  (C4) Decoration preserves the contract: over any backend that keeps the contract of an object
  store, a decorator that is not read-only keeps the whole contract again, retries, observer
  and checksums included, for the store of the objects under its prefix, named without the
  prefix. So decorators can be stacked.
\<close>

theorem decoration_preserves_contract:
  assumes "object_store be good view room pending fault" and "dc_backend a = be" and "dec_ok a"
    and "\<not> cf_readOnly (dc_config a)"
  shows "object_store (decorator_backend a) (dec_good good view (cf_prefix (dc_config a)))
    (dec_view view (cf_prefix (dc_config a))) (\<lambda>d. room (d_inner d))
    (dec_pending pending) (dec_fault pending fault)"
  by (rule decorated_store.decorated, rule decorated_store.intro [OF assms(1)], unfold_locales)
    (simp_all add: assms)

theorem decoration_preserves_contract_witness:
  "object_store (decorator_backend (sample_decorator ''d'' False))
     (dec_good mem_good mem_view (sample_path ''d'')) (dec_view mem_view (sample_path ''d''))
     (\<lambda>d. mem_room (d_inner d)) (dec_pending si_pending) (dec_fault si_pending (\<lambda>_. None))"
  using decoration_preserves_contract [OF mem.object_store_axioms _ sample_decorator_ok, of False]
  by (simp add: sample_decorator_def sample_config_def)

section \<open>Decorated memory\<close>

text \<open>A tenant: the in-memory adapter behind a prefix and no other policy.\<close>

definition tenant_decorator :: "path \<Rightarrow> (memory, slice_iterator, memory consumer) decorator" where
  "tenant_decorator t =
     \<lparr>dc_backend = memory_backend, dc_signer = None,
      dc_config = zero_configuration\<lparr>cf_prefix := (if wf_path t then t else Root)\<rparr>\<rparr>"

lemma wf_Root [simp]: "wf_path Root"
  by (simp add: wf_path_def Root_def)

interpretation tenant: decorated_store memory_backend mem_good mem_view mem_room si_pending "\<lambda>_. None"
  "tenant_decorator t" "cf_prefix (dc_config (tenant_decorator t))" for t
  by unfold_locales
    (simp_all add: tenant_decorator_def dec_ok_def config_ok_def zero_configuration_def)

text \<open>
  What a tenant writes it reads back, through the real prefix mapping and the real
  in-memory adapter, and its other objects keep their content.
\<close>

theorem tenant_read_after_write:
  assumes "dec_good mem_good mem_view t d" and "mem_room (d_inner d)" and "wf_path t" and "wf_path p" and "\<not> IsRoot p" and "wf_path q"
    and "io_copy source = (content, None)" and "spec_visibility (wo_Visibility opts) = Some v"
    and "\<not> (wo_IfNoneMatch opts \<and> dec_view mem_view t d p \<noteq> None)"
    and "dec_Write (tenant_decorator t) p source opts d Background = (r, d', c)"
  shows "observes (dec_good mem_good mem_view t) (dec_view mem_view t) (dec_view mem_view t d')
    (dec_Open (tenant_decorator t) q d' Background)
    (\<lambda>r. if q = p then \<exists>st. r = Ok st \<and> stream_of st content
         else case dec_view mem_view t d q of
           None \<Rightarrow> fails_with r ErrNotFound
         | Some f \<Rightarrow> \<exists>st. r = Ok st \<and> stream_of st (f_content f))"
proof -
  have t: "cf_prefix (dc_config (tenant_decorator t)) = t" using assms(3) by (simp add: tenant_decorator_def)
  from tenant.dec.read_after_write [of t d p q source content opts v r d' c, unfolded t] assms
  show ?thesis by simp
qed

lemma sample_tenant: "dec_good mem_good mem_view (sample_path ''d'') (sample_dstate (sample_memory [''d/b'']))"
proof -
  let ?a = "sample_memory [''d/b'']"
  have ok: "mem_ok ?a" and b: "wf_path (sample_path ''b'')"
    "path_append (sample_path ''d'') (sample_path ''b'') = sample_path ''d/b''"
    by code_simp+
  have "q = sample_path ''d/b''" if "q \<in> dom (mem_view ?a)" for q
    using that by (auto simp: dom_mem_view sample_memory_def sample_path_def intro: path.equality)
  with b have "presentable (sample_path ''d'') (mem_view ?a)" unfolding presentable_def by metis
  with ok show ?thesis by (simp add: dec_good_def mem_good_def sample_dstate_def sample_memory_def)
qed

lemma sample_room: "mem_room (d_inner (sample_dstate (sample_memory [''d/b''])))"
  by (simp add: mem_room_def sample_dstate_def sample_memory_def)

theorem tenant_read_after_write_witness:
  "\<exists>r d' c st. dec_Write (tenant_decorator (sample_path ''d'')) (sample_path ''a'') [(''hello'', None)]
      sample_write (sample_dstate (sample_memory [''d/b''])) Background = (r, d', c) \<and>
    fst (dec_Open (tenant_decorator (sample_path ''d'')) (sample_path ''a'') d' Background) = Ok st \<and>
    stream_of st ''hello''"
proof -
  obtain r d' c where run: "dec_Write (tenant_decorator (sample_path ''d'')) (sample_path ''a'')
      [(''hello'', None)] sample_write (sample_dstate (sample_memory [''d/b''])) Background = (r, d', c)"
    by (metis prod.exhaust)
  have opts: "spec_visibility (wo_Visibility sample_write) = Some VisibilityPrivate"
    "\<not> wo_IfNoneMatch sample_write" by (simp_all add: sample_write_def spec_visibility_def)
  from tenant_read_after_write [OF sample_tenant _ sample_paths(2,1,4,1) _ opts(1) _ run] opts(2) run
    sample_room
  show ?thesis by (fastforce simp: observes_def split: prod.splits)
qed

section \<open>Isolation\<close>

lemma memory_frame:
  assumes "q \<notin> set (request_paths req)"
  shows "lookup_object (fst (snd (run_request memory_backend req a c))) q = lookup_object a q"
proof (cases req)
  case (ReqWrite p rs opts)
  obtain r a' c' where run: "mem_Write p rs opts a c = (r, a', c')" by (metis prod.exhaust)
  show ?thesis
  proof (cases "\<exists>md. r = Ok md")
    case True
    then obtain md where "mem_Write p rs opts a c = (Ok md, a', c')" using run by blast
    then show ?thesis using assms ReqWrite run by (auto elim!: mem_Write_Ok)
  next
    case False
    with mem_Write_failed(2) [OF run] run ReqWrite show ?thesis by auto
  qed
qed (use assms in \<open>auto simp: memory_defs check_ctx_if drop_result_def Let_def
    split: option.splits res.splits prod.splits if_splits ChecksumAlgorithm.splits\<close>)

lemma memory_reads_keep:
  assumes "\<not> mutates req"
  shows "fst (snd (run_request memory_backend req a c)) = a"
  using assms
  by (cases req) (auto simp: memory_defs check_ctx_if drop_result_def Let_def
    split: option.splits res.splits prod.splits if_splits ChecksumAlgorithm.splits)



section \<open>Checksums\<close>

text \<open>
  The streaming checksum of a decorator agrees with the one the in-memory adapter computes
  itself, for every object and every algorithm of the vocabulary: same hexadecimal text, CRC-32C
  included, where one formats a 32-bit word and the other its big-endian bytes.
\<close>

theorem streaming_checksum_agrees:
  assumes "dec_ok a" and "dc_backend a = memory_backend" and "cf_checksums (dc_config a)"
    and "wf_path p" and "mem_Checksum (path_append (cf_prefix (dc_config a)) p) alg (d_inner d) Background =
      (Ok ck, s', c')"
  shows "fst (dec_Checksum a p alg d Background) = Ok ck"
proof -
  let ?q = "path_append (cf_prefix (dc_config a)) p"
  from assms(5) obtain stored where look: "lookup_object (d_inner d) ?q = Some stored"
    by (auto simp: mem_Checksum_def split: option.splits)
  have "checksum_call a p alg (d_inner d) Background = (Ok ck, d_inner d, Background)"
    using assms(3,5) look
    by (cases alg)
      (simp_all add: checksum_call_def with_internal_eq [OF assms(1,4)] assms(2) mem_Open_def
        mem_Checksum_def bytes_stream_def hex_of_be_bytes32 Let_def)
  then show ?thesis
    unfolding dec_Checksum_def observeCall_result
    by (subst mem.retried_Ok) simp_all
qed

theorem streaming_checksum_agrees_witness:
  "fst (dec_Checksum (sample_decorator ''d'' True) (sample_path ''a'') ChecksumCRC32C
      (sample_dstate (sample_memory [''d/a''])) Background) =
    Ok \<lparr>ck_Algorithm = ChecksumCRC32C, ck_Value = sprintf_08x (crc32c (bytes_of ''data''))\<rparr>"
proof -
  let ?m = "sample_memory [''d/a'']"
  have q: "path_append (sample_path ''d'') (sample_path ''a'') = sample_path ''d/a''" by code_simp
  have "mem_Checksum (sample_path ''d/a'') ChecksumCRC32C ?m Background =
      (Ok \<lparr>ck_Algorithm = ChecksumCRC32C, ck_Value = sprintf_08x (crc32c (bytes_of ''data''))\<rparr>,
        ?m, Background)"
    by (simp add: mem_Checksum_def sample_memory_def lookup_object_def sample_path_def Path_String_def
        sample_object_def Let_def)
  with streaming_checksum_agrees [OF sample_decorator_ok, of True "sample_path ''a''" ChecksumCRC32C
      "sample_dstate ?m"] q sample_paths(1)
  show ?thesis by (simp add: sample_decorator_def sample_config_def sample_dstate_def)
qed

section \<open>Names that the prefix hides\<close>

text \<open>
  An object such as \<^verbatim>\<open>d/c:x\<close>, whose path is valid, makes every listing through the
  prefix \<^verbatim>\<open>d\<close> fail: what is left of its path after the prefix looks like a Windows volume, so
  the wrapping iterator stops with \<^verbatim>\<open>ErrInvalidPath\<close> and hides the entries after it. The
  invariant of the transfer excludes such objects, which a decorator never creates.
\<close>

theorem drive_like_name_breaks_listing:
  "wf_path (sample_path ''d/c:x'') \<and>
   strip_entries (sample_path ''d'')
     (mem_entries (sample_memory [''d/a'', ''d/c:x'', ''d/e'']) (sample_path ''d'') False) =
   ([\<lparr>e_Path = sample_path ''a'', e_Kind = EntryKindFile, e_Size = 4, e_Modified = 0\<rparr>],
    Some (invalidPath ''c:x'' ''platform-specific path''))"
  by code_simp

end
