(* ===== verification/IO_FS.thy ===== *)
theory IO_FS
  imports Decorated_Store
begin

text \<open>
  The bridge to Go's \<^verbatim>\<open>io/fs\<close>: \<^verbatim>\<open>src/iofs.go\<close>.

  The bridge borrows a reader, a statter and a lister over a common state. The loop over an
  iterator need not end for an arbitrary lister, so the operations that drain one have an
  optional outcome: \<open>None\<close> when the loop does not end. All calls use the background context.
\<close>

section \<open>Names\<close>

fun utf8_valid :: "nat list \<Rightarrow> bool" where
  "utf8_valid [] = True"
| "utf8_valid (b # bs) =
     (if b < 0x80 then utf8_valid bs
      else 0 < snd (decode_rune b bs) \<and> utf8_valid (drop (snd (decode_rune b bs)) bs))"

text \<open>\<^verbatim>\<open>fs.ValidPath\<close>.\<close>

definition ValidPath :: "string \<Rightarrow> bool" where
  "ValidPath name =
     (utf8_valid (bytes_of name) \<and>
      (name = ''.'' \<or>
       list_all (\<lambda>elem. elem \<noteq> [] \<and> elem \<noteq> ''.'' \<and> elem \<noteq> ''..'') (split_on slash name)))"

definition ioFSPath :: "string \<Rightarrow> path res" where
  "ioFSPath name =
     (if \<not> ValidPath name \<or> backslash \<in> set name then Err (Sentinel FsErrInvalid)
      else if name = ''.'' then Ok Root
      else (case ParsePath name of
        Err e \<Rightarrow> Err (Sentinel FsErrInvalid)
      | r \<Rightarrow> r))"

definition ioFSBase :: "string \<Rightarrow> string res" where
  "ioFSBase name =
     (if name = ''.'' then Ok ''.'' else bind_res (MustParsePath name) (\<lambda>p. Ok (Path_Base p)))"

definition pathError :: "string \<Rightarrow> string \<Rightarrow> err \<Rightarrow> err" where
  "pathError operation name e =
     PathError operation name
       (if errors_is e ErrNotFound then Sentinel FsErrNotExist
        else if errors_is e ErrInvalidPath then Sentinel FsErrInvalid
        else e)"

section \<open>Infos and handles\<close>

record ioFSInfo =
  inf_metadata :: Metadata
  inf_name :: string

definition info_Size :: "ioFSInfo \<Rightarrow> int64" where
  "info_Size i = m_Size (inf_metadata i)"

definition info_ModTime :: "ioFSInfo \<Rightarrow> time" where
  "info_ModTime i = m_Modified (inf_metadata i)"

definition info_IsDir :: "ioFSInfo \<Rightarrow> bool" where
  "info_IsDir i = (m_Kind (inf_metadata i) = EntryKindDirectory)"

text \<open>\<^verbatim>\<open>fs.FileMode\<close>: the directory bit is bit 31, the permissions are the low nine bits.\<close>

definition ModeDir :: "32 word" where
  "ModeDir = push_bit 31 1"

definition ModeType :: "32 word" where
  "ModeType = 0x8F280000"

definition info_Mode :: "ioFSInfo \<Rightarrow> 32 word" where
  "info_Mode i = (if info_IsDir i then or ModeDir 0x16D else 0x124)"

definition direntry_Type :: "ioFSInfo \<Rightarrow> 32 word" where
  "direntry_Type i = and (info_Mode i) ModeType"

record ioFSDirectory =
  dir_name :: string
  dir_info :: ioFSInfo
  dir_entries :: "ioFSInfo list"
  dir_offset :: int64
  dir_closed :: bool

datatype fs_file = ioFSFile stream ioFSInfo | DirectoryFile ioFSDirectory

definition dir_Read :: "ioFSDirectory \<Rightarrow> err" where
  "dir_Read d = pathError ''read'' (dir_name d) (Sentinel (Errno EISDIR))"

definition dir_Close :: "ioFSDirectory \<Rightarrow> ioFSDirectory" where
  "dir_Close d = d\<lparr>dir_closed := True\<rparr>"

definition dir_Stat :: "ioFSDirectory \<Rightarrow> ioFSInfo res" where
  "dir_Stat d =
     (if dir_closed d then Err (pathError ''stat'' (dir_name d) (Sentinel FsErrClosed))
      else Ok (dir_info d))"

definition dir_ReadDir :: "int64 \<Rightarrow> ioFSDirectory \<Rightarrow> ioFSInfo list res \<times> ioFSDirectory" where
  "dir_ReadDir n d =
     (if dir_closed d then (Err (pathError ''readdir'' (dir_name d) (Sentinel FsErrClosed)), d)
      else if sint n \<le> 0
      then (case go_slice (dir_entries d) (dir_offset d) (go_len (dir_entries d)) of
          Ok result \<Rightarrow> (Ok result, d\<lparr>dir_offset := go_len (dir_entries d)\<rparr>)
        | r \<Rightarrow> (r, d))
      else if sint (go_len (dir_entries d)) \<le> sint (dir_offset d)
      then (Err (Sentinel IoEOF), d)
      else (let end = go_min (dir_offset d + n) (go_len (dir_entries d)) in
        (case go_slice (dir_entries d) (dir_offset d) end of
           Ok result \<Rightarrow> (Ok result, d\<lparr>dir_offset := end\<rparr>)
         | r \<Rightarrow> (r, d))))"

section \<open>The bridge\<close>

record ('s, 'i) IOFS =
  fs_reader :: "path \<Rightarrow> ('s, stream) action"
  fs_statter :: "path \<Rightarrow> ('s, Metadata) action"
  fs_lister :: "path \<Rightarrow> ListOptions \<Rightarrow> ('s, 'i) action"
  fs_iterator :: "'i iterator_ops" \<comment> \<open>the methods of what the lister returns\<close>

definition NewIOFS ::
  "(path \<Rightarrow> ('s, stream) action) option \<Rightarrow> (path \<Rightarrow> ('s, Metadata) action) option \<Rightarrow>
    (path \<Rightarrow> ListOptions \<Rightarrow> ('s, 'i) action) option \<Rightarrow> 'i iterator_ops \<Rightarrow> ('s, 'i) IOFS res" where
  "NewIOFS reader statter lister ops =
     (case (reader, statter, lister) of
        (Some r, Some s, Some l) \<Rightarrow>
          Ok \<lparr>fs_reader = r, fs_statter = s, fs_lister = l, fs_iterator = ops\<rparr>
      | _ \<Rightarrow> Panic (New ''filesystem: NewIOFS requires reader, statter, and lister''))"

definition directory_metadata :: "path \<Rightarrow> Metadata" where
  "directory_metadata p =
     \<lparr>m_Path = p, m_Kind = EntryKindDirectory, m_Size = 0, m_Modified = 0, m_ETag = [],
      m_ContentType = [], m_UserMetadata = None, m_Visibility = VisibilityUnset\<rparr>"

definition iofs_metadata :: "('s, 'i) IOFS \<Rightarrow> path \<Rightarrow> ('s, Metadata) action" where
  "iofs_metadata f p s c =
     (if IsRoot p then (Ok (directory_metadata Root), s, c)
      else (case fs_statter f p s c of
        (Ok md, s1, c1) \<Rightarrow> (Ok md, s1, c1)
      | (Panic e, s1, c1) \<Rightarrow> (Panic e, s1, c1)
      | (Err e, s1, c1) \<Rightarrow>
          if \<not> errors_is e ErrNotFound then (Err e, s1, c1)
          else (case fs_lister f p \<lparr>lo_Recursive = False, lo_Limit = 1\<rparr> s1 c1 of
            (Err e', s2, c2) \<Rightarrow> (Err e', s2, c2)
          | (Panic e', s2, c2) \<Rightarrow> (Panic e', s2, c2)
          | (Ok it, s2, c2) \<Rightarrow>
              (let (hasEntry, it1) = it_Next (fs_iterator f) it;
                   iteratorErr = it_Err (fs_iterator f) it1;
                   closeErr = fst (it_Close (fs_iterator f) it1)
               in (case errors_Join [iteratorErr, closeErr] of
                     Some e' \<Rightarrow> (Err e', s2, c2)
                   | None \<Rightarrow>
                       if hasEntry then (Ok (directory_metadata p), s2, c2)
                       else (Err e, s2, c2))))))"

definition dir_entry :: "Entry \<Rightarrow> ioFSInfo" where
  "dir_entry e =
     \<lparr>inf_metadata =
        \<lparr>m_Path = e_Path e, m_Kind = e_Kind e, m_Size = e_Size e, m_Modified = e_Modified e,
         m_ETag = [], m_ContentType = [], m_UserMetadata = None, m_Visibility = VisibilityUnset\<rparr>,
      inf_name = Path_Base (e_Path e)\<rparr>"

type_synonym ('s, 'a) looping = "'s \<Rightarrow> ctx \<Rightarrow> ('a res \<times> 's \<times> ctx) option"

definition directoryEntries :: "('s, 'i) IOFS \<Rightarrow> path \<Rightarrow> ('s, ioFSInfo list) looping" where
  "directoryEntries f p s c =
     (case fs_lister f p \<lparr>lo_Recursive = False, lo_Limit = 0\<rparr> s c of
        (Err e, s1, c1) \<Rightarrow> Some (Err e, s1, c1)
      | (Panic e, s1, c1) \<Rightarrow> Some (Panic e, s1, c1)
      | (Ok it, s1, c1) \<Rightarrow>
          (case drain (fs_iterator f) it [] of
             None \<Rightarrow> None
           | Some (es, it1) \<Rightarrow>
               (let iteratorErr = it_Err (fs_iterator f) it1;
                    closeErr = fst (it_Close (fs_iterator f) it1)
                in (case errors_Join [iteratorErr, closeErr] of
                      Some e \<Rightarrow> Some (Err e, s1, c1)
                    | None \<Rightarrow> Some (Ok (sort_key inf_name (map dir_entry es)), s1, c1)))))"

definition iofs_Open :: "('s, 'i) IOFS \<Rightarrow> string \<Rightarrow> ('s, fs_file) looping" where
  "iofs_Open f name s c =
     (case ioFSPath name of
        Err e \<Rightarrow> Some (Err (pathError ''open'' name e), s, c)
      | Panic e \<Rightarrow> Some (Panic e, s, c)
      | Ok p \<Rightarrow>
          (case iofs_metadata f p s c of
             (Err e, s1, c1) \<Rightarrow> Some (Err (pathError ''open'' name e), s1, c1)
           | (Panic e, s1, c1) \<Rightarrow> Some (Panic e, s1, c1)
           | (Ok md, s1, c1) \<Rightarrow>
               if m_Kind md = EntryKindDirectory
               then (case directoryEntries f p s1 c1 of
                 None \<Rightarrow> None
               | Some (Err e, s2, c2) \<Rightarrow> Some (Err (pathError ''open'' name e), s2, c2)
               | Some (Panic e, s2, c2) \<Rightarrow> Some (Panic e, s2, c2)
               | Some (Ok entries, s2, c2) \<Rightarrow>
                   Some (bind_res (ioFSBase name)
                     (\<lambda>base. Ok (DirectoryFile
                        \<lparr>dir_name = name, dir_info = \<lparr>inf_metadata = md, inf_name = base\<rparr>,
                         dir_entries = entries, dir_offset = 0, dir_closed = False\<rparr>)), s2, c2))
               else (case fs_reader f p s1 c1 of
                 (Err e, s2, c2) \<Rightarrow> Some (Err (pathError ''open'' name e), s2, c2)
               | (Panic e, s2, c2) \<Rightarrow> Some (Panic e, s2, c2)
               | (Ok st, s2, c2) \<Rightarrow>
                   Some (bind_res (ioFSBase name)
                     (\<lambda>base. Ok (ioFSFile st \<lparr>inf_metadata = md, inf_name = base\<rparr>)), s2, c2))))"

definition iofs_Stat :: "('s, 'i) IOFS \<Rightarrow> string \<Rightarrow> ('s, ioFSInfo) action" where
  "iofs_Stat f name s c =
     (case ioFSPath name of
        Err e \<Rightarrow> (Err (pathError ''stat'' name e), s, c)
      | Panic e \<Rightarrow> (Panic e, s, c)
      | Ok p \<Rightarrow>
          (case iofs_metadata f p s c of
             (Err e, s1, c1) \<Rightarrow> (Err (pathError ''stat'' name e), s1, c1)
           | (Panic e, s1, c1) \<Rightarrow> (Panic e, s1, c1)
           | (Ok md, s1, c1) \<Rightarrow>
               (bind_res (ioFSBase name) (\<lambda>base. Ok \<lparr>inf_metadata = md, inf_name = base\<rparr>), s1, c1)))"

definition iofs_ReadDir :: "('s, 'i) IOFS \<Rightarrow> string \<Rightarrow> ('s, ioFSInfo list) looping" where
  "iofs_ReadDir f name s c =
     (case ioFSPath name of
        Err e \<Rightarrow> Some (Err (pathError ''readdir'' name e), s, c)
      | Panic e \<Rightarrow> Some (Panic e, s, c)
      | Ok p \<Rightarrow>
          (case iofs_metadata f p s c of
             (Err e, s1, c1) \<Rightarrow> Some (Err (pathError ''readdir'' name e), s1, c1)
           | (Panic e, s1, c1) \<Rightarrow> Some (Panic e, s1, c1)
           | (Ok md, s1, c1) \<Rightarrow>
               if m_Kind md \<noteq> EntryKindDirectory
               then Some (Err (pathError ''readdir'' name (Sentinel (Errno ENOTDIR))), s1, c1)
               else (case directoryEntries f p s1 c1 of
                 None \<Rightarrow> None
               | Some (Err e, s2, c2) \<Rightarrow> Some (Err (pathError ''readdir'' name e), s2, c2)
               | Some (r, s2, c2) \<Rightarrow> Some (r, s2, c2))))"

text \<open>The bridge over one adapter that provides all three.\<close>

definition bridge :: "('s, 'i, 'w) backend \<Rightarrow> ('s, 'i) IOFS" where
  "bridge be =
     \<lparr>fs_reader = be_Open be, fs_statter = be_Stat be, fs_lister = be_List be,
      fs_iterator = be_iterator be\<rparr>"

section \<open>Names\<close>

lemma replace_plain: "c \<notin> set s \<Longrightarrow> replace_char c d s = s"
  by (rule replace_char_idem)

lemma ioFSPath_Ok:
  assumes "ioFSPath name = Ok p" and "name \<noteq> ''.''"
  shows "pvalue p = name" and "wf_path p" and "\<not> IsRoot p"
proof -
  from assms have v: "ValidPath name" and b: "backslash \<notin> set name" and parse: "ParsePath name = Ok p"
    by (auto simp: ioFSPath_def split: if_splits res.splits)
  from v assms(2) have "kept_segments name = split_on slash name"
    using b by (auto simp: ValidPath_def replace_plain list_all_iff intro!: filter_True)
  with parse show "pvalue p = name" by (simp add: ParsePath_Ok_iff)
  from parse show "wf_path p" and "\<not> IsRoot p" by (rule ParsePath_wf)+
qed

lemma ioFSPath_spec:
  "case ioFSPath name of
     Ok p \<Rightarrow> wf_path p \<and> (if name = ''.'' then p = Root else pvalue p = name \<and> \<not> IsRoot p) \<and>
       ioFSBase name = Ok (if name = ''.'' then ''.'' else Path_Base p)
   | Err e \<Rightarrow> e = Sentinel FsErrInvalid
   | Panic e \<Rightarrow> False"
proof (cases "ioFSPath name")
  case (Ok p)
  show ?thesis
  proof (cases "name = ''.''")
    case True
    with Ok show ?thesis by (auto simp: ioFSPath_def ioFSBase_def split: if_splits)
  next
    case False
    note facts = ioFSPath_Ok [OF Ok False]
    from facts MustParsePath_String [of p] have "MustParsePath name = Ok p" by (simp add: Path_String_def)
    with Ok False facts show ?thesis by (simp add: ioFSBase_def)
  qed
next
  case (Err e)
  then show ?thesis by (auto simp: ioFSPath_def ParsePath_never_panics split: if_splits res.splits)
next
  case (Panic e)
  then show ?thesis by (auto simp: ioFSPath_def ParsePath_never_panics split: if_splits res.splits)
qed

text \<open>
  Names are not normalized: two names that the bridge accepts and that denote the same
  path are equal, and the path has exactly the text of the name unless the name is the dot.
\<close>

theorem ioFSPath_injective:
  assumes "ioFSPath name = Ok p" and "ioFSPath name' = Ok p"
  shows "name = name' \<and> (name \<noteq> ''.'' \<longrightarrow> Path_String p = name)"
  using ioFSPath_spec [of name] ioFSPath_spec [of name'] assms
  by (auto simp: IsRoot_Root Path_String_def split: if_splits)

theorem ioFSPath_injective_witness:
  "Path_String \<lparr>pvalue = ''a/b''\<rparr> = ''a/b''"
proof -
  have "ioFSPath ''a/b'' = Ok \<lparr>pvalue = ''a/b''\<rparr>" by code_simp
  from ioFSPath_injective [OF this this] show ?thesis by simp
qed

section \<open>The tree behind the bridge\<close>

datatype node = FileNode stored_file | DirectoryNode | NoNode

definition node_at :: "store \<Rightarrow> path \<Rightarrow> node" where
  "node_at V p =
     (if IsRoot p then DirectoryNode
      else case V p of
        Some f \<Rightarrow> FileNode f
      | None \<Rightarrow> if \<exists>q \<in> dom V. beneath p q then DirectoryNode else NoNode)"

lemma listing_paths:
  "listing V p recursive es \<Longrightarrow> e_Path ` set es = child_path p recursive ` {q \<in> dom V. beneath p q}"
  by (simp add: listing_def)

lemma listing_Nil_iff:
  assumes "listing V p recursive es"
  shows "es = [] \<longleftrightarrow> \<not> (\<exists>q \<in> dom V. beneath p q)"
proof -
  have "es = [] \<longleftrightarrow> e_Path ` set es = {}" by simp
  also have "\<dots> \<longleftrightarrow> {q \<in> dom V. beneath p q} = {}"
    by (simp only: listing_paths [OF assms] image_is_empty)
  finally show ?thesis by blast
qed

lemma listing_child:
  assumes "listing V p False es" and "\<And>q. q \<in> dom V \<Longrightarrow> wf_path q" and "e \<in> set es"
  obtains x where "segments (e_Path e) = segments p @ [x]" "wf_path (e_Path e)"
    "Path_Base (e_Path e) = x"
proof -
  have "e_Path e \<in> child_path p False ` {q \<in> dom V. beneath p q}"
    using listing_paths [OF assms(1)] assms(3) by blast
  then obtain q where q: "q \<in> dom V" "beneath p q" "e_Path e = child_path p False q" by blast
  then obtain x r where r: "segments q = segments p @ x # r" by (auto simp: beneath_iff neq_Nil_conv)
  note facts = child_path_facts [OF assms(2) [OF q(1)] r]
  have "Path_Base (e_Path e) = x"
    using facts(1-3) q(3) by (simp add: Path_Base_segments)
  with that facts(1,3) q(3) show thesis by simp
qed

lemma listing_names_sorted:
  assumes "listing V p False es" and "\<And>q. q \<in> dom V \<Longrightarrow> wf_path q"
  shows "sorted_wrt (<) (map (\<lambda>e. Path_Base (e_Path e)) es)"
proof -
  let ?pre = "if segments p = [] then [] else pvalue p @ [slash]"
  have key: "entry_key e = ?pre @ Path_Base (e_Path e)" if "e \<in> set es" for e
  proof -
    from listing_child [OF assms that] obtain x where x: "segments (e_Path e) = segments p @ [x]"
      "Path_Base (e_Path e) = x" by metis
    have "pvalue (e_Path e) = join_with slash (segments p @ [x])" by (metis x(1) join_segments)
    then show ?thesis
      by (simp add: entry_key_def Path_String_def x(2) join_with_snoc join_segments)
  qed
  from assms(1) have "sorted_wrt (\<lambda>e f. entry_key e < entry_key f) es"
    by (simp add: listing_def sorted_wrt_map)
  then have "sorted_wrt (\<lambda>e f. Path_Base (e_Path e) < Path_Base (e_Path f)) es"
    by (rule sorted_wrt_mono_rel [rotated]) (simp only: key append_less_cancel)
  then show ?thesis by (simp add: sorted_wrt_map)
qed

lemma sort_names_id:
  assumes "listing V p False es" and "\<And>q. q \<in> dom V \<Longrightarrow> wf_path q"
  shows "sort_key inf_name (map dir_entry es) = map dir_entry es"
proof -
  have "map inf_name (map dir_entry es) = map (\<lambda>e. Path_Base (e_Path e)) es"
    by (simp add: dir_entry_def)
  then have "sorted_wrt (<) (map inf_name (map dir_entry es))"
    using listing_names_sorted [OF assms] by (simp only:)
  then show ?thesis unfolding strict_sorted_iff by (intro sort_key_unique) simp_all
qed

lemma bridge_sel [simp]:
  "fs_reader (bridge be) = be_Open be" "fs_statter (bridge be) = be_Stat be"
  "fs_lister (bridge be) = be_List be" "fs_iterator (bridge be) = be_iterator be"
  by (simp_all add: bridge_def)

context object_store begin

lemma bridge_metadata:
  assumes "good s" "wf_path p"
  shows "observes good view (view s) (iofs_metadata (bridge be) p s Background)
    (\<lambda>r. case node_at (view s) p of
       FileNode f \<Rightarrow> \<exists>md. r = Ok md \<and> describes md p f
     | DirectoryNode \<Rightarrow> r = Ok (directory_metadata p)
     | NoNode \<Rightarrow> fails_with r ErrNotFound)"
proof (cases "IsRoot p")
  case True
  with assms(1) show ?thesis
    by (simp add: iofs_metadata_def node_at_def observes_def IsRoot_Root)
next
  case False
  obtain r t c where run: "be_Stat be p s Background = (r, t, c)" by (metis prod.exhaust)
  with Stat_law [OF assms] have t: "good t" "view t = view s" "c = Background"
    and r: "case view s p of None \<Rightarrow> fails_with r ErrNotFound | Some f \<Rightarrow> \<exists>md. r = Ok md \<and> describes md p f"
    by (auto simp: observes_def)
  show ?thesis
  proof (cases "view s p")
    case (Some f)
    with False run t r show ?thesis
      by (auto simp: iofs_metadata_def node_at_def observes_def)
  next
    case None
    with r obtain e where e: "r = Err e" "errors_is e ErrNotFound" by (cases r) auto
    obtain it es u where list: "be_List be p \<lparr>lo_Recursive = False, lo_Limit = 1\<rparr> t Background =
        (Ok it, u, Background)" and u: "good u" "view u = view s"
      and es: "listing (view s) p False es" and it: "pending it = take 1 es" "fault it = None"
      using List_law [OF t(1) assms(2), of "\<lparr>lo_Recursive = False, lo_Limit = 1\<rparr>"] t(2)
      by (auto simp: observes_def limited_def split: prod.splits)
    have close: "fst (it_Close (be_iterator be) j) = None" if "fault j = None" for j
      using it.close_clean that by simp
    show ?thesis
    proof (cases es)
      case Nil
      with it.next_Nil [of it] it obtain j where "it_Next (be_iterator be) it = (False, j)"
        "it_Err (be_iterator be) j = None" "fault j = None" by auto
      moreover have "\<not> (\<exists>q \<in> dom (view s). beneath p q)" using listing_Nil_iff [OF es] Nil by simp
      ultimately show ?thesis
        using False None e list u run t close
        by (simp add: iofs_metadata_def observes_def node_at_def errors_Join_def List.map_filter_def)
    next
      case (Cons x xs)
      with it.next_Cons [of it x "[]"] it obtain j where "it_Next (be_iterator be) it = (True, j)"
        "it_Err (be_iterator be) j = None" "fault j = None" by auto
      moreover have "\<exists>q \<in> dom (view s). beneath p q" using listing_Nil_iff [OF es] Cons by simp
      ultimately show ?thesis
        using False None e list u run t close
        by (simp add: iofs_metadata_def observes_def node_at_def errors_Join_def List.map_filter_def)
    qed
  qed
qed

lemma bridge_directoryEntries:
  assumes "good s" "wf_path p"
  obtains es t where "directoryEntries (bridge be) p s Background =
      Some (Ok (map dir_entry es), t, Background)"
    "good t" "view t = view s" "listing (view s) p False es"
proof -
  obtain it es t where list: "be_List be p \<lparr>lo_Recursive = False, lo_Limit = 0\<rparr> s Background =
      (Ok it, t, Background)" and t: "good t" "view t = view s"
    and es: "listing (view s) p False es" and it: "pending it = es" "fault it = None"
    using List_law [OF assms, of "\<lparr>lo_Recursive = False, lo_Limit = 0\<rparr>"]
    by (auto simp: observes_def limited_def split: prod.splits)
  from it.drain_total [of it "[]"] it obtain j where
    "drain (be_iterator be) it [] = Some (es, j)" "it_Err (be_iterator be) j = None" "fault j = None"
    by auto
  moreover from this(3) have "fst (it_Close (be_iterator be) j) = None" by (rule it.close_clean)
  moreover have "sort_key inf_name (map dir_entry es) = map dir_entry es"
    using sort_names_id [OF es] view_wf [OF assms(1)] by blast
  ultimately have "directoryEntries (bridge be) p s Background =
      Some (Ok (map dir_entry es), t, Background)"
    using list by (simp add: directoryEntries_def errors_Join_def List.map_filter_def)
  with that t es show thesis by blast
qed

end

section \<open>The operations over any conforming adapter\<close>

lemma pathError_is:
  "errors_is e ErrNotFound \<Longrightarrow> errors_is (pathError op name e) FsErrNotExist"
  "errors_is (pathError op name (Sentinel FsErrInvalid)) FsErrInvalid"
  by (simp_all add: pathError_def)

lemma ioFSPath_cases:
  obtains (refused) "ioFSPath name = Err (Sentinel FsErrInvalid)"
  | (path) p base where "ioFSPath name = Ok p" "wf_path p" "ioFSBase name = Ok base"
  using ioFSPath_spec [of name] by (cases "ioFSPath name") auto

text \<open>What the bridge promises of each kind of node.\<close>

definition stat_promise :: "store \<Rightarrow> string \<Rightarrow> ioFSInfo res \<Rightarrow> bool" where
  "stat_promise V name r =
     (case ioFSPath name of
        Ok p \<Rightarrow>
          (case node_at V p of
             FileNode f \<Rightarrow> \<exists>i. r = Ok i \<and> \<not> info_IsDir i \<and> info_Size i = go_len (f_content f) \<and>
               ioFSBase name = Ok (inf_name i)
           | DirectoryNode \<Rightarrow> \<exists>i. r = Ok i \<and> info_IsDir i \<and> ioFSBase name = Ok (inf_name i)
           | NoNode \<Rightarrow> fails_with r FsErrNotExist)
      | _ \<Rightarrow> fails_with r FsErrInvalid)"

definition readdir_promise :: "store \<Rightarrow> string \<Rightarrow> ioFSInfo list res \<Rightarrow> bool" where
  "readdir_promise V name r =
     (case ioFSPath name of
        Ok p \<Rightarrow>
          (case node_at V p of
             FileNode f \<Rightarrow> fails_with r (Errno ENOTDIR)
           | DirectoryNode \<Rightarrow> \<exists>es. r = Ok (map dir_entry es) \<and> listing V p False es \<and>
               sorted_wrt (<) (map (inf_name \<circ> dir_entry) es)
           | NoNode \<Rightarrow> fails_with r FsErrNotExist)
      | _ \<Rightarrow> fails_with r FsErrInvalid)"

definition open_promise :: "store \<Rightarrow> string \<Rightarrow> fs_file res \<Rightarrow> bool" where
  "open_promise V name r =
     (case ioFSPath name of
        Ok p \<Rightarrow>
          (case node_at V p of
             FileNode f \<Rightarrow> \<exists>st i. r = Ok (ioFSFile st i) \<and> stream_of st (f_content f) \<and>
               info_Size i = go_len (f_content f)
           | DirectoryNode \<Rightarrow> \<exists>d es. r = Ok (DirectoryFile d) \<and> dir_offset d = 0 \<and> \<not> dir_closed d \<and>
               dir_entries d = map dir_entry es \<and> listing V p False es
           | NoNode \<Rightarrow> fails_with r FsErrNotExist)
      | _ \<Rightarrow> fails_with r FsErrInvalid)"

lemma describes_info:
  "describes md p f \<Longrightarrow> m_Kind md = EntryKindFile \<and> m_Size md = go_len (f_content f)"
  by (simp add: describes_def)

context object_store begin

lemma metadata_cases:
  assumes "good s" "wf_path p"
  obtains
    (a_file) f md t where "node_at (view s) p = FileNode f" "view s p = Some f" "describes md p f"
      "iofs_metadata (bridge be) p s Background = (Ok md, t, Background)" "good t" "view t = view s"
  | (a_directory) t where "node_at (view s) p = DirectoryNode"
      "iofs_metadata (bridge be) p s Background = (Ok (directory_metadata p), t, Background)"
      "good t" "view t = view s"
  | (missing) e t where "node_at (view s) p = NoNode" "errors_is e ErrNotFound"
      "iofs_metadata (bridge be) p s Background = (Err e, t, Background)" "good t" "view t = view s"
proof -
  obtain r t c where run: "iofs_metadata (bridge be) p s Background = (r, t, c)" by (metis prod.exhaust)
  note law = bridge_metadata [OF assms] run
  show thesis
  proof (cases "node_at (view s) p")
    case (FileNode f)
    then have "view s p = Some f" by (auto simp: node_at_def split: if_splits option.splits)
    with FileNode law show thesis by (auto simp: observes_def intro: a_file)
  next
    case DirectoryNode
    with law show thesis by (auto simp: observes_def intro: a_directory)
  next
    case NoNode
    with law obtain e where "r = Err e" "errors_is e ErrNotFound" by (cases r) (auto simp: observes_def)
    moreover from law have "good t" "view t = view s" "c = Background" by (auto simp: observes_def)
    ultimately show thesis using NoNode run by (intro missing [of e t]) simp_all
  qed
qed

lemma bridge_Stat:
  assumes "good s"
  shows "observes good view (view s) (iofs_Stat (bridge be) name s Background)
    (stat_promise (view s) name)"
proof (cases rule: ioFSPath_cases [of name])
  case refused
  with assms show ?thesis by (simp add: iofs_Stat_def stat_promise_def observes_def pathError_is)
next
  case (path p base)
  show ?thesis
  proof (cases rule: metadata_cases [OF assms path(2), case_names a_file a_directory missing])
    case (a_file f md t)
    with path describes_info show ?thesis
      by (auto simp: iofs_Stat_def stat_promise_def observes_def info_IsDir_def info_Size_def)
  next
    case (a_directory t)
    with path show ?thesis
      by (simp add: iofs_Stat_def stat_promise_def observes_def info_IsDir_def directory_metadata_def)
  next
    case (missing e t)
    with path show ?thesis by (simp add: iofs_Stat_def stat_promise_def observes_def pathError_is)
  qed
qed

lemma bridge_ReadDir:
  assumes "good s"
  shows "\<exists>out. iofs_ReadDir (bridge be) name s Background = Some out \<and>
    observes good view (view s) out (readdir_promise (view s) name)"
proof (cases rule: ioFSPath_cases [of name])
  case refused
  with assms show ?thesis by (simp add: iofs_ReadDir_def readdir_promise_def observes_def pathError_is)
next
  case (path p base)
  show ?thesis
  proof (cases rule: metadata_cases [OF assms path(2), case_names a_file a_directory missing])
    case (a_file f md t)
    with path describes_info [OF a_file(3)] show ?thesis
      by (simp add: iofs_ReadDir_def readdir_promise_def observes_def pathError_def)
  next
    case (a_directory t)
    from bridge_directoryEntries [OF a_directory(3) path(2)] obtain es u where
      "directoryEntries (bridge be) p t Background = Some (Ok (map dir_entry es), u, Background)"
      "good u" "view u = view t" and es: "listing (view s) p False es" using a_directory(4) by metis
    moreover have "sorted_wrt (<) (map (inf_name \<circ> dir_entry) es)"
      using listing_names_sorted [OF es view_wf [OF assms]] by (simp add: dir_entry_def comp_def)
    ultimately show ?thesis
      using path a_directory
      by (auto simp: iofs_ReadDir_def readdir_promise_def observes_def directory_metadata_def)
  next
    case (missing e t)
    with path show ?thesis by (simp add: iofs_ReadDir_def readdir_promise_def observes_def pathError_is)
  qed
qed

lemma bridge_Open:
  assumes "good s"
  shows "\<exists>out. iofs_Open (bridge be) name s Background = Some out \<and>
    observes good view (view s) out (open_promise (view s) name)"
proof (cases rule: ioFSPath_cases [of name])
  case refused
  with assms show ?thesis by (simp add: iofs_Open_def open_promise_def observes_def pathError_is)
next
  case (path p base)
  show ?thesis
  proof (cases rule: metadata_cases [OF assms path(2), case_names a_file a_directory missing])
    case (a_file f md t)
    from Open_law [OF a_file(5) path(2)] a_file(2,6) obtain st u where
      "be_Open be p t Background = (Ok st, u, Background)" "good u" "view u = view s"
      "stream_of st (f_content f)"
      by (auto simp: observes_def split: prod.splits)
    with path a_file describes_info [OF a_file(3)] show ?thesis
      by (simp add: iofs_Open_def open_promise_def observes_def info_Size_def)
  next
    case (a_directory t)
    from bridge_directoryEntries [OF a_directory(3) path(2)] obtain es u where
      "directoryEntries (bridge be) p t Background = Some (Ok (map dir_entry es), u, Background)"
      "good u" "view u = view t" "listing (view s) p False es" using a_directory(4) by metis
    with path a_directory show ?thesis
      by (auto simp: iofs_Open_def open_promise_def observes_def directory_metadata_def)
  next
    case (missing e t)
    with path show ?thesis by (simp add: iofs_Open_def open_promise_def observes_def pathError_is)
  qed
qed

end

text \<open>
  \<^verbatim>\<open>Stat\<close> through the bridge, over any adapter that keeps the contract: a file reports its
  size, a path with objects beneath it (and the root) is a directory, every other path fails
  with \<^verbatim>\<open>fs.ErrNotExist\<close>, and an invalid name with \<^verbatim>\<open>fs.ErrInvalid\<close>; nothing changes.
\<close>

theorem iofs_Stat_correct:
  assumes "object_store be good view room pending fault" and "good s"
  shows "observes good view (view s) (iofs_Stat (bridge be) name s Background)
    (stat_promise (view s) name)"
  by (rule object_store.bridge_Stat [OF assms])

lemma sample_good: "mem_good (sample_memory [''a'', ''d/b'', ''d/c''])"
  using sample_ok by (simp add: mem_good_def sample_memory_def)

theorem iofs_Stat_correct_witness:
  "observes mem_good mem_view (mem_view (sample_memory [''a'', ''d/b'', ''d/c'']))
     (iofs_Stat (bridge memory_backend) ''d'' (sample_memory [''a'', ''d/b'', ''d/c'']) Background)
     (stat_promise (mem_view (sample_memory [''a'', ''d/b'', ''d/c''])) ''d'')"
  by (rule iofs_Stat_correct [OF mem.object_store_axioms, OF sample_good])

text \<open>
  \<^verbatim>\<open>ReadDir\<close> through the bridge returns for every name: a directory yields exactly the
  children of its listing in strictly increasing order of their names, a file fails with
  \<^verbatim>\<open>ENOTDIR\<close>, a missing path with \<^verbatim>\<open>fs.ErrNotExist\<close>.
\<close>

theorem iofs_ReadDir_correct:
  assumes "object_store be good view room pending fault" and "good s"
  shows "\<exists>out. iofs_ReadDir (bridge be) name s Background = Some out \<and>
    observes good view (view s) out (readdir_promise (view s) name)"
  by (rule object_store.bridge_ReadDir [OF assms])

theorem iofs_ReadDir_correct_witness:
  "\<exists>out. iofs_ReadDir (bridge memory_backend) ''d'' (sample_memory [''a'', ''d/b'', ''d/c'']) Background =
      Some out \<and>
    observes mem_good mem_view (mem_view (sample_memory [''a'', ''d/b'', ''d/c''])) out
      (readdir_promise (mem_view (sample_memory [''a'', ''d/b'', ''d/c''])) ''d'')"
  by (rule iofs_ReadDir_correct [OF mem.object_store_axioms, OF sample_good])

text \<open>
  (C29) \<^verbatim>\<open>Open\<close> through the bridge returns for every name: a file yields its content and size, a
  directory a cursor at its start over the complete listing, and a missing or invalid name the
  error \<^verbatim>\<open>io/fs\<close> documents.
\<close>

theorem iofs_Open_correct:
  assumes "object_store be good view room pending fault" and "good s"
  shows "\<exists>out. iofs_Open (bridge be) name s Background = Some out \<and>
    observes good view (view s) out (open_promise (view s) name)"
  by (rule object_store.bridge_Open [OF assms])

theorem iofs_Open_correct_witness:
  "\<exists>out. iofs_Open (bridge memory_backend) ''d/b'' (sample_memory [''a'', ''d/b'', ''d/c'']) Background =
      Some out \<and>
    observes mem_good mem_view (mem_view (sample_memory [''a'', ''d/b'', ''d/c''])) out
      (open_promise (mem_view (sample_memory [''a'', ''d/b'', ''d/c''])) ''d/b'')"
  by (rule iofs_Open_correct [OF mem.object_store_axioms, OF sample_good])

section \<open>The directory cursor\<close>

definition cursor_ok :: "ioFSDirectory \<Rightarrow> bool" where
  "cursor_ok d =
     (length (dir_entries d) < 2 ^ 63 \<and> 0 \<le> sint (dir_offset d) \<and>
      sint (dir_offset d) \<le> int (length (dir_entries d)))"

definition dir_left :: "ioFSDirectory \<Rightarrow> ioFSInfo list" where
  "dir_left d = drop (nat (sint (dir_offset d))) (dir_entries d)"

lemma dir_ReadDir_page:
  assumes "cursor_ok d" "\<not> dir_closed d" "0 < sint n" "dir_left d \<noteq> []"
    and "sint (dir_offset d) + sint n < 2 ^ 63"
  obtains d' where "dir_ReadDir n d = (Ok (take (nat (sint n)) (dir_left d)), d')"
    "cursor_ok d'" "\<not> dir_closed d'" "dir_left d' = drop (nat (sint n)) (dir_left d)"
    "dir_entries d' = dir_entries d" "sint (dir_offset d) < sint (dir_offset d')"
proof -
  let ?e = "go_min (dir_offset d + n) (go_len (dir_entries d))"
  have len: "sint (go_len (dir_entries d)) = int (length (dir_entries d))"
    using assms(1) by (simp add: cursor_ok_def sint_go_len)
  have add: "sint (dir_offset d + n) = sint (dir_offset d) + sint n"
    using assms by (intro sint_add) (simp_all add: cursor_ok_def)
  have e: "sint ?e = min (sint (dir_offset d) + sint n) (int (length (dir_entries d)))"
    by (simp add: sint_go_min add len)
  have left: "sint (dir_offset d) < int (length (dir_entries d))"
    using assms(1,4) by (auto simp: dir_left_def cursor_ok_def not_le)
  have slice: "go_slice (dir_entries d) (dir_offset d) ?e = Ok (take (nat (sint n)) (dir_left d))"
    using assms(1,3) left by (auto simp: go_slice_def e cursor_ok_def dir_left_def min_def nat_add_distrib)
  have "dir_ReadDir n d = (Ok (take (nat (sint n)) (dir_left d)), d\<lparr>dir_offset := ?e\<rparr>)"
    using assms(2,3) left slice by (simp add: dir_ReadDir_def len Let_def)
  moreover have "cursor_ok (d\<lparr>dir_offset := ?e\<rparr>)"
    using assms(1,3) by (simp add: cursor_ok_def e)
  moreover have "dir_left (d\<lparr>dir_offset := ?e\<rparr>) = drop (nat (sint n)) (dir_left d)"
    using assms(1,3) by (auto simp: dir_left_def e cursor_ok_def min_def nat_add_distrib add.commute [of "nat (sint n)"])
  moreover have "sint (dir_offset d) < sint ?e" using assms(3) left by (simp add: e)
  ultimately show thesis using that assms(2) by simp
qed

text \<open>
  (C30) Reading a directory page by page makes progress and loses nothing: as long as entries are
  left, \<^verbatim>\<open>ReadDir(n)\<close> for positive \<^verbatim>\<open>n\<close> returns the next entries, at most \<^verbatim>\<open>n\<close> and at least
  one, the rest is left for the next call, and at the end it reports \<^verbatim>\<open>io.EOF\<close>; this holds
  while the cursor plus \<^verbatim>\<open>n\<close> fits a machine integer.
\<close>

theorem ReadDir_pages:
  assumes "cursor_ok d" and "\<not> dir_closed d" and "0 < sint n"
    and "sint (dir_offset d) + sint n < 2 ^ 63"
  shows "if dir_left d = [] then dir_ReadDir n d = (Err (Sentinel IoEOF), d)
    else \<exists>page d'. dir_ReadDir n d = (Ok page, d') \<and> cursor_ok d' \<and> \<not> dir_closed d' \<and>
      page @ dir_left d' = dir_left d \<and> page \<noteq> [] \<and> length page \<le> nat (sint n)"
proof (cases "dir_left d = []")
  case True
  then have "int (length (dir_entries d)) \<le> sint (dir_offset d)"
    using assms(1) by (auto simp: dir_left_def cursor_ok_def nat_le_iff le_nat_iff)
  with True assms show ?thesis
    by (simp add: dir_ReadDir_def sint_go_len cursor_ok_def)
next
  case False
  from dir_ReadDir_page [OF assms(1-3) False assms(4)] obtain d' where
    "dir_ReadDir n d = (Ok (take (nat (sint n)) (dir_left d)), d')" "cursor_ok d'" "\<not> dir_closed d'"
    "dir_left d' = drop (nat (sint n)) (dir_left d)" by metis
  with False assms(3) show ?thesis by simp
qed

definition sample_cursor :: "int64 \<Rightarrow> ioFSDirectory" where
  "sample_cursor off =
     \<lparr>dir_name = ''d'', dir_info = \<lparr>inf_metadata = directory_metadata Root, inf_name = ''d''\<rparr>,
      dir_entries = replicate 3 \<lparr>inf_metadata = directory_metadata Root, inf_name = ''x''\<rparr>,
      dir_offset = off, dir_closed = False\<rparr>"

theorem ReadDir_pages_witness:
  "\<exists>page d'. dir_ReadDir 2 (sample_cursor 1) = (Ok page, d') \<and> page @ dir_left d' = dir_left (sample_cursor 1)
     \<and> page \<noteq> []"
proof -
  have "cursor_ok (sample_cursor 1)" "\<not> dir_closed (sample_cursor 1)" "dir_left (sample_cursor 1) \<noteq> []"
    by (simp_all add: cursor_ok_def sample_cursor_def dir_left_def)
  with ReadDir_pages [of "sample_cursor 1" 2] show ?thesis by (auto simp: sample_cursor_def)
qed

text \<open>
  The end of a page is computed with a machine addition: a cursor that is past its first
  entry panics for a count so large that the sum overflows, such as the largest integer, where
  \<^verbatim>\<open>io/fs\<close> asks for the remaining entries.
\<close>

theorem ReadDir_overflow_panics:
  assumes "cursor_ok d" and "\<not> dir_closed d" and "0 < sint n" and "dir_left d \<noteq> []"
    and "2 ^ 63 \<le> sint (dir_offset d) + sint n"
  shows "is_panic (fst (dir_ReadDir n d))"
proof -
  have len: "sint (go_len (dir_entries d)) = int (length (dir_entries d))"
    using assms(1) by (simp add: cursor_ok_def sint_go_len)
  have left: "sint (dir_offset d) < int (length (dir_entries d))"
    using assms(1,4) by (auto simp: dir_left_def cursor_ok_def not_le)
  have "sint (dir_offset d + n) = sint (dir_offset d) + sint n - 2 ^ 64"
    by (rule sint_add_wraps [OF assms(5)])
  then have "sint (go_min (dir_offset d + n) (go_len (dir_entries d))) < 0"
    using sint_bounds(2) [of "dir_offset d"] sint_bounds(2) [of n] by (simp add: sint_go_min)
  with assms(1-3) left show ?thesis
    by (simp add: dir_ReadDir_def len Let_def go_slice_def cursor_ok_def)
qed

theorem ReadDir_overflow_panics_witness:
  "is_panic (fst (dir_ReadDir (2 ^ 63 - 1) (sample_cursor 1)))"
proof -
  have n: "sint (2 ^ 63 - 1 :: int64) = 2 ^ 63 - 1" by code_simp
  have "cursor_ok (sample_cursor 1)" "\<not> dir_closed (sample_cursor 1)" "dir_left (sample_cursor 1) \<noteq> []"
    by (simp_all add: cursor_ok_def sample_cursor_def dir_left_def)
  then show ?thesis
    by (intro ReadDir_overflow_panics) (simp_all add: sample_cursor_def n)
qed

end
