(* ===== verification/Redact.thy ===== *)
theory Redact
  imports Contracts
begin

text \<open>
  Redaction of error messages: \<^verbatim>\<open>src/internal/redact/redact.go\<close>.

  A case-insensitive literal pattern of package \<^verbatim>\<open>regexp\<close> folds by Unicode's simple folding,
  under which the long s also matches the letter s and the Kelvin sign the letter k. The
  parser and the printer of \<^verbatim>\<open>net/url\<close>, and the text of an error (the \<^verbatim>\<open>Error\<close> method of a
  value of any package), are parameters. The loop of \<^verbatim>\<open>redactHeaders\<close> ends for the header
  names the source passes to it, which are the values of \<open>auth_header\<close>.
\<close>

section \<open>Searching a message\<close>

text \<open>The first position from which the rest of the message matches.\<close>

fun first_index :: "(string \<Rightarrow> bool) \<Rightarrow> string \<Rightarrow> nat option" where
  "first_index P [] = (if P [] then Some 0 else None)"
| "first_index P (x # xs) =
     (if P (x # xs) then Some 0 else map_option Suc (first_index P xs))"

text \<open>One letter of a folded pattern: what is left of the text after it.\<close>

definition fold_char :: "char \<Rightarrow> string \<Rightarrow> string option" where
  "fold_char c s =
     (case s of
        [] \<Rightarrow> None
      | x # xs \<Rightarrow>
          if to_lower x = to_lower c then Some xs
          else if to_lower c = CHR ''s'' \<and> prefix [CHR 0xC5, CHR 0xBF] s then Some (drop 2 s)
          else if to_lower c = CHR ''k'' \<and> prefix [CHR 0xE2, CHR 0x84, CHR 0xAA] s
          then Some (drop 3 s)
          else None)"

fun fold_match :: "string \<Rightarrow> string \<Rightarrow> string option" where
  "fold_match [] s = Some s"
| "fold_match (c # cs) s =
     (case fold_char c s of None \<Rightarrow> None | Some r \<Rightarrow> fold_match cs r)"

definition indexFold :: "string \<Rightarrow> string \<Rightarrow> nat option" where
  "indexFold v substring = first_index (\<lambda>s. fold_match substring s \<noteq> None) v"

definition url_at :: "string \<Rightarrow> bool" where
  "url_at s = (fold_match ''http://'' s \<noteq> None \<or> fold_match ''https://'' s \<noteq> None)"

definition firstURLIndex :: "string \<Rightarrow> nat option" where
  "firstURLIndex message = first_index url_at message"

section \<open>URLs\<close>

record URL =
  url_Scheme :: string
  url_Opaque :: string
  url_User :: "string option" \<comment> \<open>the encoded userinfo\<close>
  url_Host :: string
  url_Path :: string
  url_RawPath :: string
  url_OmitHost :: bool
  url_ForceQuery :: bool
  url_RawQuery :: string
  url_Fragment :: string
  url_RawFragment :: string

record net_url =
  url_Parse :: "string \<Rightarrow> URL option"
  url_String :: "URL \<Rightarrow> string"
  url_Hostname :: "URL \<Rightarrow> string" \<comment> \<open>the host without port and brackets\<close>

text \<open>The offset of the first space of a message, \<^verbatim>\<open>len(message)\<close> if there is none.\<close>

fun space_offset :: "nat list \<Rightarrow> nat" where
  "space_offset [] = 0"
| "space_offset (b # bs) =
     (case decode_rune b bs of
        (r, w) \<Rightarrow> if IsSpace r then 0 else Suc (w + space_offset (drop w bs)))"

definition sanitize_url :: "net_url \<Rightarrow> string \<Rightarrow> string" where
  "sanitize_url lib raw =
     (case url_Parse lib raw of
        None \<Rightarrow> ''[REDACTED URL]''
      | Some parsed \<Rightarrow>
          url_String lib (parsed\<lparr>url_User := None,
            url_RawQuery := (if url_RawQuery parsed \<noteq> [] then ''REDACTED'' else url_RawQuery parsed)\<rparr>))"

lemma first_index_Some:
  "first_index P s = Some i \<Longrightarrow> i \<le> length s \<and> P (drop i s) \<and> (\<forall>j<i. \<not> P (drop j s))"
proof (induction s arbitrary: i)
  case (Cons x xs)
  show ?case
  proof (cases "P (x # xs)")
    case True
    with Cons.prems show ?thesis by simp
  next
    case False
    with Cons.prems obtain k where k: "i = Suc k" "first_index P xs = Some k" by auto
    from Cons.IH [OF k(2)] False k(1) show ?thesis by (auto simp: less_Suc_eq_0_disj)
  qed
qed (simp split: if_splits)

lemma first_index_None: "first_index P s = None \<longleftrightarrow> (\<forall>j\<le>length s. \<not> P (drop j s))"
proof (induction s)
  case (Cons x xs)
  then show ?case by (auto simp: all_conj_distrib less_Suc_eq_le split: if_splits)
      (metis Suc_le_mono drop0 drop_Suc_Cons not0_implies_Suc)
qed simp

lemma fold_match_hd: "fold_match (c # cs) s \<noteq> None \<Longrightarrow> fold_char c s \<noteq> None"
  by (auto split: option.splits)

lemma url_at_Cons:
  assumes "url_at s"
  obtains x xs where "s = x # xs" "(of_char x :: nat) = 72 \<or> (of_char x :: nat) = 104"
proof (cases s)
  case (Cons x xs)
  have "fold_char CHR ''h'' s \<noteq> None"
    using assms fold_match_hd [of "CHR ''h''"] unfolding url_at_def by blast
  then have "to_lower x = to_lower CHR ''h''"
    by (simp add: Cons fold_char_def to_lower_def [of "CHR ''h''"] split: if_splits)
  then have "(of_char (to_lower x) :: nat) = 104" by (simp add: of_char_to_lower)
  then have "(of_char x :: nat) = 72 \<or> (of_char x :: nat) = 104"
    by (simp add: of_char_to_lower split: if_splits)
  with Cons that show thesis by blast
qed (use assms in \<open>simp add: url_at_def fold_char_def\<close>)

lemma space_offset_le: "space_offset bs \<le> length bs"
proof (induction bs rule: space_offset.induct)
  case (2 b bs)
  obtain r w where d: "decode_rune b bs = (r, w)" by fastforce
  with decode_rune_width [of b bs] have "w \<le> length bs" by simp
  with 2 [OF d [symmetric]] d show ?case by (cases "IsSpace r") simp_all
qed simp

text \<open>A URL is not empty, so the rest of the message after it is shorter.\<close>

lemma url_progress:
  assumes "firstURLIndex message = Some i"
  shows "0 < space_offset (bytes_of (drop i message))" and "i < length message"
proof -
  from first_index_Some [of url_at message i] assms
  have "url_at (drop i message)" by (simp add: firstURLIndex_def)
  then obtain x xs where x: "drop i message = x # xs" "(of_char x :: nat) = 72 \<or> (of_char x :: nat) = 104"
    by (rule url_at_Cons)
  then show "0 < space_offset (bytes_of (drop i message))" by (auto simp: IsSpace_def)
  from x(1) show "i < length message" by (metis drop_eq_Nil2 list.distinct(1) not_le)
qed

text \<open>The loop of \<^verbatim>\<open>redactURLs\<close>, with what it writes to its builder as its result.\<close>

function redactURLs :: "net_url \<Rightarrow> string \<Rightarrow> string" where
  "redactURLs lib message =
     (case firstURLIndex message of
        None \<Rightarrow> message
      | Some index \<Rightarrow>
          let rest = drop index message; end = space_offset (bytes_of rest)
          in take index message @ sanitize_url lib (take end rest) @ redactURLs lib (drop end rest))"
  by pat_completeness auto

termination redactURLs
proof (relation "measure (length \<circ> snd)", goal_cases)
  case (2 lib message index rest "end")
  from url_progress [OF 2(1)] 2(2,3) show ?case by simp
qed simp

declare redactURLs.simps [simp del]

section \<open>Headers\<close>

datatype auth_header =
    Authorization | ProxyAuthorization | AmzSecurityToken | AmzCredential | AmzSignature

fun header_name :: "auth_header \<Rightarrow> string" where
  "header_name Authorization = ''authorization:''"
| "header_name ProxyAuthorization = ''proxy-authorization:''"
| "header_name AmzSecurityToken = ''x-amz-security-token:''"
| "header_name AmzCredential = ''x-amz-credential:''"
| "header_name AmzSignature = ''x-amz-signature:''"

text \<open>One round of the loop of \<^verbatim>\<open>redactHeaders\<close>; nothing when the header does not occur.\<close>

definition newline :: char where
  "newline = CHR 0x0A"

definition redact_step :: "string \<Rightarrow> string \<Rightarrow> string option" where
  "redact_step header message =
     (case indexFold message header of
        None \<Rightarrow> None
      | Some index \<Rightarrow>
          Some (take index message @ ''[REDACTED HEADER]'' @
            (case cut_at newline (drop index message) of
               None \<Rightarrow> [] | Some (_, rest) \<Rightarrow> newline # rest)))"

section \<open>Patterns and barriers\<close>

text \<open>
  What the searches have in common: a match depends only on the bytes it covers and covers at
  least one, and it cannot extend over a byte that is a barrier for it.
\<close>

locale pattern =
  fixes matches :: "string \<Rightarrow> bool"
    and barrier :: "char \<Rightarrow> bool"
  assumes covers: "\<not> matches []"
    and extend: "matches u \<Longrightarrow> matches (u @ v)"
    and stops: "barrier b \<Longrightarrow> matches (u @ b # v) \<Longrightarrow> matches u"
begin

definition occurs :: "string \<Rightarrow> bool" where
  "occurs m = (\<exists>u v. m = u @ v \<and> matches v)"

lemma occurs_Nil [simp]: "\<not> occurs []"
  by (simp add: occurs_def covers)

lemma occurs_append: "occurs u \<or> occurs v \<Longrightarrow> occurs (u @ v)"
  unfolding occurs_def by (metis append.assoc extend)

lemma occurs_barrier:
  assumes "barrier b"
  shows "occurs (u @ b # v) \<longleftrightarrow> occurs u \<or> occurs v"
proof
  assume "occurs (u @ b # v)"
  then obtain x y where m: "u @ b # v = x @ y" and y: "matches y" by (auto simp: occurs_def)
  from m consider z where "x @ z = u" "z @ b # v = y" | z where "x = u @ z" "b # v = z @ y"
    by (auto simp: append_eq_append_conv2)
  then show "occurs u \<or> occurs v"
  proof cases
    case (1 z)
    with y stops [OF assms, of z v] show ?thesis by (auto simp: occurs_def)
  next
    case (2 z)
    show ?thesis
    proof (cases z)
      case Nil
      with 2 y stops [OF assms, of "[]" v] covers show ?thesis by auto
    next
      case (Cons w ws)
      with 2 y show ?thesis by (auto simp: occurs_def)
    qed
  qed
next
  assume "occurs u \<or> occurs v"
  then show "occurs (u @ b # v)"
  proof
    assume "occurs v"
    with occurs_append [of "[b]" v] have "occurs (b # v)" by simp
    then show ?thesis using occurs_append [of u "b # v"] by blast
  qed (use occurs_append [of u "b # v"] in blast)
qed

lemma first_index_occurs: "first_index matches m = None \<longleftrightarrow> \<not> occurs m"
  unfolding first_index_None occurs_def
  by (metis append_eq_conv_conj append_take_drop_id le_add1 length_append)

lemma before_first:
  assumes "first_index matches m = Some i"
  shows "\<not> occurs (take i m)" and "matches (drop i m)" and "i < length m"
proof -
  note f = first_index_Some [OF assms]
  then show "matches (drop i m)" by simp
  then have ne: "drop i m \<noteq> []" using covers by auto
  then show "i < length m" by (simp add: not_le)
  show "\<not> occurs (take i m)"
  proof
    assume "occurs (take i m)"
    then obtain u v where t: "take i m = u @ v" and v: "matches v" by (auto simp: occurs_def)
    from v covers have "v \<noteq> []" by auto
    moreover from t f have "length u + length v = i" by (metis length_append length_take min.absorb2)
    ultimately have "length u < i" by (cases v) auto
    moreover have "drop (length u) m = v @ drop i m"
      by (metis append.assoc append_eq_conv_conj append_take_drop_id t)
    with v extend have "matches (drop (length u) m)" by metis
    ultimately show False using f by blast
  qed
qed

end

text \<open>A header name is stopped by every byte below 0x80 that no letter of it folds to.\<close>

definition header_at :: "auth_header \<Rightarrow> string \<Rightarrow> bool" where
  "header_at h s = (fold_match (header_name h) s \<noteq> None)"

definition header_barrier :: "char \<Rightarrow> bool" where
  "header_barrier b = (b \<in> {CHR ''['', CHR '']'', newline})"

lemma fold_char_append: "fold_char c s = Some r \<Longrightarrow> fold_char c (s @ t) = Some (r @ t)"
  by (cases s) (auto simp: fold_char_def prefix_def split: if_splits)

lemma fold_match_append: "fold_match p s = Some r \<Longrightarrow> fold_match p (s @ t) = Some (r @ t)"
  by (induction p s arbitrary: r rule: fold_match.induct)
    (auto simp: fold_char_append split: option.splits)

lemma fold_char_barrier:
  assumes "to_lower b \<noteq> to_lower c" and "(of_char b :: nat) < 0x80" and "fold_char c (u @ b # v) = Some r"
  shows "\<exists>w. fold_char c u = Some w \<and> r = w @ b # v"
proof -
  from assms(2) have b: "b \<noteq> CHR 0xC5" "b \<noteq> CHR 0xBF" "b \<noteq> CHR 0xE2" "b \<noteq> CHR 0x84" "b \<noteq> CHR 0xAA"
    by auto
  show ?thesis
  proof (cases u)
    case Nil
    with assms b show ?thesis by (auto simp: fold_char_def split: if_splits)
  next
    case (Cons x xs)
    with assms b show ?thesis
      by (cases xs; cases "tl xs")
        (auto simp: fold_char_def prefix_def Cons_eq_append_conv split: if_splits)
  qed
qed

lemma fold_match_barrier:
  assumes "\<forall>c\<in>set p. to_lower b \<noteq> to_lower c" and "(of_char b :: nat) < 0x80"
    and "fold_match p (u @ b # v) = Some r"
  shows "\<exists>w. fold_match p u = Some w \<and> r = w @ b # v"
  using assms
proof (induction p arbitrary: u)
  case (Cons c cs)
  from Cons.prems(3) obtain q where q: "fold_char c (u @ b # v) = Some q" "fold_match cs q = Some r"
    by (auto split: option.splits)
  from fold_char_barrier [OF _ Cons.prems(2) q(1)] Cons.prems(1) obtain w where
    "fold_char c u = Some w" "q = w @ b # v" by auto
  with Cons q(2) show ?case by simp
qed simp

interpretation header: pattern "header_at h" header_barrier for h
proof (unfold_locales, goal_cases)
  case 1
  show ?case by (cases h) (simp_all add: header_at_def fold_char_def)
next
  case (2 u v)
  then show ?case by (auto simp: header_at_def fold_match_append)
next
  case (3 b u v)
  have "\<forall>c\<in>set (header_name h). to_lower b \<noteq> to_lower c"
    using 3(1) by (cases h) (auto simp: header_barrier_def newline_def to_lower_def)
  moreover have "(of_char b :: nat) < 0x80" using 3(1) by (auto simp: header_barrier_def newline_def)
  ultimately show ?case using 3(2) fold_match_barrier [of "header_name h" b u v]
    by (auto simp: header_at_def)
qed

lemma header_barriers [simp]:
  "header_barrier CHR ''[''" "header_barrier CHR '']''" "header_barrier newline"
  by (simp_all add: header_barrier_def)

lemma header_not_in_marker: "\<not> header.occurs h ''REDACTED HEADER''" "\<not> header.occurs h ''REDACTED''"
proof -
  have "first_index (header_at h) ''REDACTED HEADER'' = None" by (cases h; hypsubst; code_simp)
  moreover have "first_index (header_at h) ''REDACTED'' = None" by (cases h; hypsubst; code_simp)
  ultimately show "\<not> header.occurs h ''REDACTED HEADER''" "\<not> header.occurs h ''REDACTED''"
    by (simp_all only: header.first_index_occurs not_False_eq_True)
qed

lemma header_in_marked:
  "header.occurs h (u @ ''[REDACTED HEADER]'' @ v) \<longleftrightarrow> header.occurs h u \<or> header.occurs h v"
proof -
  have "u @ ''[REDACTED HEADER]'' @ v = u @ CHR ''['' # ''REDACTED HEADER'' @ CHR '']'' # v" by simp
  then show ?thesis by (simp only: header.occurs_barrier header_barriers header_not_in_marker) simp
qed

lemma indexFold_header: "indexFold m (header_name h) = first_index (header_at h) m"
  unfolding indexFold_def header_at_def [abs_def] ..

text \<open>What a round leaves behind the marker, and where the next occurrence can start.\<close>

lemma redact_step_cases:
  obtains "\<not> header.occurs h m" "redact_step (header_name h) m = None"
  | i rest where "first_index (header_at h) m = Some i" "\<not> header.occurs h (take i m)"
      "redact_step (header_name h) m = Some (take i m @ ''[REDACTED HEADER]'' @ rest)"
      "rest = [] \<or> (\<exists>r. rest = newline # r)" "suffix rest m" "length rest < length m - i"
proof (cases "first_index (header_at h) m")
  case None
  then have "redact_step (header_name h) m = None" "\<not> header.occurs h m"
    by (simp_all add: redact_step_def indexFold_header flip: header.first_index_occurs)
  then show thesis using that(1) by blast
next
  case (Some i)
  note f = header.before_first [OF Some]
  let ?rest = "case cut_at newline (drop i m) of None \<Rightarrow> [] | Some (_, rest) \<Rightarrow> newline # rest"
  have step: "redact_step (header_name h) m = Some (take i m @ ''[REDACTED HEADER]'' @ ?rest)"
    using Some by (simp add: redact_step_def indexFold_header)
  show thesis
  proof (cases "cut_at newline (drop i m)")
    case None
    with f step show thesis by (intro that(2) [OF Some, of "[]"]) simp_all
  next
    case (Some lr)
    then obtain l r where lr: "cut_at newline (drop i m) = Some (l, r)" by (cases lr) simp
    from cut_at_Some [OF this] have d: "drop i m = l @ newline # r" by simp
    with f(2) header.stops [of newline h l r] header.covers [of h] have "l \<noteq> []" by auto
    with d have "length (newline # r) < length (drop i m)" by simp
    moreover have "suffix (newline # r) m"
      by (metis d suffix_appendI suffix_def append_take_drop_id)
    ultimately show thesis
      using f step lr
      by (intro that(2) [OF \<open>first_index (header_at h) m = Some i\<close>, of "newline # r"]) simp_all
  qed
qed

lemma next_occurrence:
  assumes "\<not> header.occurs h w" and "rest = [] \<or> (\<exists>r. rest = newline # r)"
    and "first_index (header_at h) (w @ rest) = Some j"
  shows "length w \<le> j"
proof (rule ccontr)
  assume "\<not> length w \<le> j"
  then have d: "drop j (w @ rest) = drop j w @ rest" and w: "w = take j w @ drop j w" by simp_all
  from header.before_first(2) [OF assms(3)] d assms(2) header.stops [of newline h "drop j w"]
  have "header_at h (drop j w)" by auto
  with w have "header.occurs h w" unfolding header.occurs_def by blast
  with assms(1) show False by blast
qed

function redactHeaders :: "auth_header \<Rightarrow> string \<Rightarrow> string" where
  "redactHeaders header message =
     (case redact_step (header_name header) message of
        None \<Rightarrow> message
      | Some message' \<Rightarrow> redactHeaders header message')"
  by pat_completeness auto

termination redactHeaders
proof (relation "measure (\<lambda>(h, m). case first_index (header_at h) m of None \<Rightarrow> 0 | Some i \<Rightarrow> length m - i)",
    goal_cases)
  case (2 h m m')
  show ?case
  proof (cases rule: redact_step_cases [of h m])
    case 1
    with 2 show ?thesis by simp
  next
    case (2 i rest)
    let ?w = "take i m @ ''[REDACTED HEADER]''"
    have m': "m' = ?w @ rest" using 2(3) \<open>redact_step (header_name h) m = Some m'\<close> by simp
    have "\<not> header.occurs h ?w" using header_in_marked [of h "take i m" "[]"] 2(2) by simp
    note next_occurrence [OF this 2(4)]
    then have "(case first_index (header_at h) m' of None \<Rightarrow> 0 | Some j \<Rightarrow> length m' - j) \<le> length rest"
      unfolding m' by (auto split: option.split)
    with 2(1,6) show ?thesis by simp
  qed
qed simp

declare redactHeaders.simps [simp del]

section \<open>The sanitized error\<close>

text \<open>\<^verbatim>\<open>strings.ReplaceAll\<close> for a non-empty \<open>old\<close>.\<close>

fun replace_all :: "string \<Rightarrow> string \<Rightarrow> string \<Rightarrow> string" where
  "replace_all old new [] = []"
| "replace_all old new (x # xs) =
     (if prefix old (x # xs) then new @ replace_all old new (drop (length old - 1) xs)
      else x # replace_all old new xs)"

definition auth_headers :: "auth_header list" where
  "auth_headers = [Authorization, ProxyAuthorization, AmzSecurityToken, AmzCredential, AmzSignature]"

definition hide_secret :: "string \<Rightarrow> string \<Rightarrow> string" where
  "hide_secret message secret =
     (if secret \<noteq> [] then replace_all secret ''[REDACTED]'' message else message)"

definition sanitized_message :: "net_url \<Rightarrow> string \<Rightarrow> string list \<Rightarrow> string" where
  "sanitized_message lib text secrets =
     foldl hide_secret
       (foldl (\<lambda>message header. redactHeaders header message) (redactURLs lib text) auth_headers)
       secrets"

definition sanitize_error :: "net_url \<Rightarrow> (err \<Rightarrow> string) \<Rightarrow> string list \<Rightarrow> err \<Rightarrow> err" where
  "sanitize_error lib text secrets cause =
     Sanitized cause (sanitized_message lib (text cause) secrets)"

text \<open>A nil error stays nil.\<close>

definition redact_Error :: "net_url \<Rightarrow> (err \<Rightarrow> string) \<Rightarrow> err option \<Rightarrow> string list \<Rightarrow> err option" where
  "redact_Error lib text e secrets = map_option (sanitize_error lib text secrets) e"

section \<open>Lemmas on the passes\<close>

lemma header_occurs_suffix: "suffix v m \<Longrightarrow> header.occurs h v \<Longrightarrow> header.occurs h m"
  by (auto simp: suffix_def header.occurs_append)

lemma redactHeaders_removes: "\<not> header.occurs h (redactHeaders h m)"
proof (induction h m rule: redactHeaders.induct)
  case (1 h m)
  show ?case
  proof (cases rule: redact_step_cases [of h m])
    case (2 i rest)
    with 1 [OF 2(3)] show ?thesis by (simp add: redactHeaders.simps [of h m])
  qed (simp add: redactHeaders.simps [of h m])
qed

lemma redactHeaders_adds_none: "header.occurs k (redactHeaders h m) \<Longrightarrow> header.occurs k m"
proof (induction h m rule: redactHeaders.induct)
  case (1 h m)
  show ?case
  proof (cases rule: redact_step_cases [of h m])
    case 1
    with "1.prems" show ?thesis by (simp add: redactHeaders.simps [of h m])
  next
    case (2 i rest)
    from "1.prems" 2(3) have "header.occurs k (redactHeaders h (take i m @ ''[REDACTED HEADER]'' @ rest))"
      by (simp add: redactHeaders.simps [of h m])
    from "1.IH" [OF 2(3) this] have "header.occurs k (take i m) \<or> header.occurs k rest"
      by (simp only: header_in_marked)
    then show ?thesis
    proof
      assume "header.occurs k (take i m)"
      then show ?thesis by (metis append_take_drop_id header.occurs_append)
    qed (rule header_occurs_suffix [OF 2(5)])
  qed
qed

lemma replace_all_cases:
  assumes "old \<noteq> []"
  obtains "first_index (prefix old) m = None" "replace_all old new m = m"
  | i where "first_index (prefix old) m = Some i" "i + length old \<le> length m"
      "replace_all old new m = take i m @ new @ replace_all old new (drop (i + length old) m)"
proof -
  have "(first_index (prefix old) m = None \<and> replace_all old new m = m) \<or>
    (\<exists>i. first_index (prefix old) m = Some i \<and> i + length old \<le> length m \<and>
       replace_all old new m = take i m @ new @ replace_all old new (drop (i + length old) m))"
  proof (induction m)
    case (Cons x xs)
    show ?case
    proof (cases "prefix old (x # xs)")
      case True
      moreover from this have "length old \<le> length (x # xs)" by (rule prefix_length_le)
      moreover have "drop (length old) (x # xs) = drop (length old - 1) xs"
        using assms by (cases old) simp_all
      ultimately show ?thesis by simp
    qed (use Cons in auto)
  qed (use assms in simp)
  then show thesis by (elim disjE exE conjE) (rule that, assumption+)+
qed

context pattern begin

lemma occurs_marked:
  assumes "barrier CHR ''[''" and "barrier CHR '']''" and "\<not> occurs ''REDACTED''"
  shows "occurs (u @ ''[REDACTED]'' @ v) \<longleftrightarrow> occurs u \<or> occurs v"
proof -
  have "u @ ''[REDACTED]'' @ v = u @ CHR ''['' # ''REDACTED'' @ CHR '']'' # v" by simp
  with assms show ?thesis by (simp only: occurs_barrier) simp
qed

lemma replace_adds_none:
  assumes "barrier CHR ''[''" and "barrier CHR '']''" and "\<not> occurs ''REDACTED''" and old: "old \<noteq> []"
  shows "occurs (replace_all old ''[REDACTED]'' m) \<Longrightarrow> occurs m"
proof (induction "length m" arbitrary: m rule: less_induct)
  case less
  show ?case
  proof (cases rule: replace_all_cases [OF old, of m "''[REDACTED]''"])
    case 1
    with less.prems show ?thesis by simp
  next
    case (2 i)
    from less.prems have "occurs (take i m) \<or>
        occurs (replace_all old ''[REDACTED]'' (drop (i + length old) m))"
      unfolding 2(3) occurs_marked [OF assms(1-3)] .
    moreover have "length (drop (i + length old) m) < length m" using 2(2) old by (cases old) auto
    ultimately have "occurs (take i m) \<or> occurs (drop (i + length old) m)"
      using less.hyps by blast
    then show ?thesis by (metis append_take_drop_id occurs_append)
  qed
qed

end

text \<open>A secret that cannot reappear inside or across the marker.\<close>

definition hidable :: "string \<Rightarrow> bool" where
  "hidable secret =
     (secret \<noteq> [] \<and> CHR ''['' \<notin> set secret \<and> CHR '']'' \<notin> set secret \<and> \<not> sublist secret ''REDACTED'')"

lemma prefix_before_barrier:
  assumes "b \<notin> set s" and "prefix s (u @ b # v)" shows "prefix s u"
proof -
  from assms(2) obtain t where t: "u @ b # v = s @ t" by (auto simp: prefix_def)
  then show ?thesis using assms(1) by (auto simp: append_eq_append_conv2 Cons_eq_append_conv)
qed

lemma secret_pattern: "s \<noteq> [] \<Longrightarrow> pattern (prefix s) (\<lambda>b. b \<notin> set s)"
  by unfold_locales (auto intro: prefix_before_barrier)

lemma secret_occurs: "s \<noteq> [] \<Longrightarrow> pattern.occurs (prefix s) m \<longleftrightarrow> sublist s m"
  by (subst pattern.occurs_def [OF secret_pattern]) (auto simp: sublist_def prefix_def)

lemma hide_secret_removes:
  assumes "hidable s" shows "\<not> sublist s (hide_secret m s)"
proof -
  from assms have s: "s \<noteq> []" "CHR ''['' \<notin> set s" "CHR '']'' \<notin> set s" "\<not> sublist s ''REDACTED''"
    by (auto simp: hidable_def)
  note pat = secret_pattern [OF s(1)]
  have no: "\<not> pattern.occurs (prefix s) ''REDACTED''" using s by (simp add: secret_occurs)
  have "\<not> pattern.occurs (prefix s) (replace_all s ''[REDACTED]'' m)"
  proof (induction "length m" arbitrary: m rule: less_induct)
    case less
    show ?case
    proof (cases rule: replace_all_cases [OF s(1), of m "''[REDACTED]''"])
      case 1
      with pattern.first_index_occurs [OF pat] show ?thesis by simp
    next
      case (2 i)
      have "length (drop (i + length s) m) < length m" using 2(2) s(1) by (cases s) auto
      from less [OF this] pattern.before_first(1) [OF pat 2(1)] show ?thesis
        unfolding 2(3) pattern.occurs_marked [OF pat s(2,3) no] by blast
    qed
  qed
  with s show ?thesis by (simp add: secret_occurs hide_secret_def)
qed

lemma hide_secret_adds_none:
  assumes "hidable s" and "sublist s (hide_secret m t)" shows "sublist s m"
proof (cases "t = []")
  case False
  from assms(1) have s: "s \<noteq> []" "CHR ''['' \<notin> set s" "CHR '']'' \<notin> set s" "\<not> sublist s ''REDACTED''"
    by (auto simp: hidable_def)
  with assms(2) False pattern.replace_adds_none [OF secret_pattern [OF s(1)], of t m]
  show ?thesis by (simp add: secret_occurs hide_secret_def)
qed (use assms(2) in \<open>simp add: hide_secret_def\<close>)

lemma hide_secret_headers: "header.occurs h (hide_secret m t) \<Longrightarrow> header.occurs h m"
  using header.replace_adds_none [of h t m] header_not_in_marker(2)
  by (simp add: hide_secret_def split: if_splits)

lemma hide_all_secrets:
  assumes "hidable s" and "s \<in> set secrets" shows "\<not> sublist s (foldl hide_secret m secrets)"
proof -
  have keep: "sublist s (foldl hide_secret m ts) \<Longrightarrow> sublist s m" for m ts
    by (induction ts arbitrary: m) (auto dest: hide_secret_adds_none [OF assms(1)])
  from assms(2) obtain us vs where "secrets = us @ s # vs" by (auto dest: split_list)
  with keep hide_secret_removes [OF assms(1)] show ?thesis by auto
qed

lemma hide_all_headers: "header.occurs h (foldl hide_secret m ts) \<Longrightarrow> header.occurs h m"
  by (induction ts arbitrary: m) (auto dest: hide_secret_headers)

lemma headers_pass: "\<not> header.occurs h (foldl (\<lambda>m k. redactHeaders k m) m auth_headers)"
proof -
  have keep: "header.occurs h (foldl (\<lambda>m k. redactHeaders k m) m ks) \<Longrightarrow> header.occurs h m" for m ks
    by (induction ks arbitrary: m) (auto dest: redactHeaders_adds_none)
  have "h \<in> set auth_headers" by (cases h) (simp_all add: auth_headers_def)
  then obtain us vs where split: "auth_headers = us @ h # vs" by (auto dest: split_list)
  show ?thesis unfolding split foldl_append foldl_Cons using keep redactHeaders_removes by blast
qed

section \<open>Properties\<close>


definition sample_lib :: net_url where
  "sample_lib =
     \<lparr>url_Parse = (\<lambda>raw. Some \<lparr>url_Scheme = ''http'', url_Opaque = [],
        url_User = (if raw = ''http://u:p@h/x?k=1'' then Some ''u:p'' else Some ''v''),
        url_Host = ''h'', url_Path = ''/x'', url_RawPath = [], url_OmitHost = False,
        url_ForceQuery = False,
        url_RawQuery = (if raw = ''http://u:p@h/x?k=1'' then ''k=1'' else ''t''),
        url_Fragment = [], url_RawFragment = []\<rparr>),
      url_String = (\<lambda>u. url_Scheme u @ ''://'' @ url_Host u @ url_Path u @ ''?'' @ url_RawQuery u),
      url_Hostname = url_Host\<rparr>"


lemma space_offset_append:
  assumes "space_offset bs = length bs" and "sp < 0x80" and "IsSpace sp"
  shows "space_offset (bs @ sp # cs) = length bs"
  using assms(1)
proof (induction bs rule: space_offset.induct)
  case (2 b bs)
  obtain r w where d: "decode_rune b bs = (r, w)" by fastforce
  with decode_rune_width [of b bs] have w: "w \<le> length bs" by simp
  with 2(2) d have r: "\<not> IsSpace r" and off: "space_offset (drop w bs) = length (drop w bs)"
    by (auto split: if_splits)
  from 2(1) [OF d [symmetric] r off] d w r show ?case
    by (simp add: decode_rune_before_ascii [OF assms(2)])
qed (use assms in simp)

text \<open>Two URLs that differ only in their userinfo and in the text of their query.\<close>

definition same_but_secret :: "URL \<Rightarrow> URL \<Rightarrow> bool" where
  "same_but_secret u v =
     (u\<lparr>url_User := None, url_RawQuery := []\<rparr> = v\<lparr>url_User := None, url_RawQuery := []\<rparr> \<and>
      (url_RawQuery u = [] \<longleftrightarrow> url_RawQuery v = []))"

lemma sanitize_same:
  assumes "url_Parse lib raw = Some u" and "url_Parse lib raw' = Some v" and "same_but_secret u v"
  shows "sanitize_url lib raw = sanitize_url lib raw'"
  using assms
  by (cases "url_RawQuery v = []"; cases u; cases v) (simp_all add: same_but_secret_def sanitize_url_def)

definition space_or_end :: "string \<Rightarrow> bool" where
  "space_or_end s = (case s of [] \<Rightarrow> True | c # _ \<Rightarrow> (of_char c :: nat) < 0x80 \<and> IsSpace (of_char c))"

lemma redactURLs_url:
  assumes "firstURLIndex (pre @ raw @ post) = Some (length pre)"
    and "space_offset (bytes_of raw) = length raw" and "space_or_end post"
  shows "redactURLs lib (pre @ raw @ post) = pre @ sanitize_url lib raw @ redactURLs lib post"
proof -
  have "space_offset (bytes_of (raw @ post)) = length raw"
    using assms(2,3) by (cases post) (simp_all add: space_or_end_def space_offset_append)
  with assms(1) show ?thesis by (simp add: redactURLs.simps [of lib "pre @ raw @ post"])
qed



end
