(* ===== verification/S3_Adapter.thy ===== *)
theory S3_Adapter
  imports Store_Contract Redact
begin

text \<open>
  The Amazon S3 adapter: \<^verbatim>\<open>src/s3/s3.go\<close>.

  The AWS SDK is not part of the sources: the interfaces \<^verbatim>\<open>objectClient\<close>, \<^verbatim>\<open>uploadClient\<close>
  and \<^verbatim>\<open>presignClient\<close> are records of operations over the state \<open>'s\<close> of the service, and what
  a theorem needs of the service is a named hypothesis of that theorem. A transfer option is
  opaque to the adapter, so its type is the parameter \<open>'o\<close>. An absent SDK string (a nil
  pointer) is \<open>None\<close>. The pagination loop of \<open>s3_List\<close> ends when the service stops, so it is a
  partial function whose result is \<open>None\<close> where it does not return.
\<close>

section \<open>The interfaces of the SDK\<close>

record GetObjectInput =
  gi_Bucket :: string
  gi_Key :: string
  gi_Range :: "string option"
  gi_ResponseContentDisposition :: "string option"
  gi_ResponseContentType :: "string option"

record HeadObjectOutput =
  ho_ContentLength :: "int64 option"
  ho_LastModified :: "time option"
  ho_ETag :: "string option"
  ho_ContentType :: "string option"
  ho_Metadata :: usermeta

record CopyObjectInput =
  ci_Bucket :: string
  ci_Key :: string
  ci_CopySource :: string
  ci_Metadata :: usermeta
  ci_Replace :: bool \<comment> \<open>\<^verbatim>\<open>MetadataDirectiveReplace\<close>\<close>
  ci_ContentType :: "string option"

record ListObjectsV2Input =
  li_Bucket :: string
  li_Prefix :: "string option"
  li_MaxKeys :: "32 word"
  li_Delimiter :: "string option"
  li_ContinuationToken :: "string option"

record s3_object =
  so_Key :: "string option"
  so_Size :: "int64 option"
  so_LastModified :: "time option"

record ListObjectsV2Output =
  lv_Contents :: "s3_object list"
  lv_CommonPrefixes :: "string option list"
  lv_IsTruncated :: "bool option"
  lv_NextContinuationToken :: "string option"

record UploadObjectInput =
  ui_Bucket :: string
  ui_Key :: string
  ui_Body :: reads
  ui_ContentType :: "string option"
  ui_Metadata :: usermeta
  ui_IfNoneMatch :: "string option"

record 's objectClient =
  oc_GetObject :: "GetObjectInput \<Rightarrow> ('s, stream) action"
  oc_HeadObject :: "string \<Rightarrow> string \<Rightarrow> ('s, HeadObjectOutput) action"
  oc_DeleteObject :: "string \<Rightarrow> string \<Rightarrow> ('s, unit) action"
  oc_CopyObject :: "CopyObjectInput \<Rightarrow> ('s, unit) action"
  oc_ListObjectsV2 :: "ListObjectsV2Input \<Rightarrow> ('s, ListObjectsV2Output) action"

record ('s, 'o) uploadClient =
  uc_UploadObject :: "UploadObjectInput \<Rightarrow> 'o list \<Rightarrow> ('s, unit) action"

record 's presignClient =
  pc_PresignGetObject :: "GetObjectInput \<Rightarrow> int \<Rightarrow> ('s, string) action"

text \<open>The constructors of the SDK's transfer manager and presign client.\<close>

record ('s, 'o) aws_sdk =
  sdk_NewTransferManager :: "'s objectClient \<Rightarrow> 'o list \<Rightarrow> ('s, 'o) uploadClient option"
  sdk_NewPresignClient :: "'s objectClient \<Rightarrow> 's presignClient option"

text \<open>The libraries behind the redaction of errors.\<close>

record redact_env =
  re_url :: net_url
  re_text :: "err \<Rightarrow> string"

section \<open>Configuration\<close>

definition maximumTemporaryURLLifetime :: int where
  "maximumTemporaryURLLifetime = 7 * 24 * 3600 * 1000000000"

definition defaultMaxMetadataEntries :: int64 where
  "defaultMaxMetadataEntries = 128"

definition defaultMaxMetadataBytes :: int64 where
  "defaultMaxMetadataBytes = 64 * 1024"

record 'o s3_config =
  sc_adapterName :: string
  sc_bucket :: string
  sc_prefix :: string
  sc_maxList :: int64
  sc_maxMetadataEntries :: int64
  sc_maxMetadataBytes :: int64
  sc_uploadOptions :: "'o list"

type_synonym 'o s3_option = "'o s3_config \<Rightarrow> 'o s3_config res"

definition validateMetadataLimits :: "int64 \<Rightarrow> int64 \<Rightarrow> unit res" where
  "validateMetadataLimits maxEntries maxBytes =
     (if sint maxEntries \<le> 0 then Err (New ''s3: maximum metadata entries must be positive'')
      else if sint maxBytes \<le> 0 then Err (New ''s3: maximum metadata bytes must be positive'')
      else Ok ())"

definition positiveListLimit :: "int64 \<Rightarrow> bool" where
  "positiveListLimit limit = (sint limit > 0)"

definition s3_WithMetadataLimits :: "int64 \<Rightarrow> int64 \<Rightarrow> 'o s3_option" where
  "s3_WithMetadataLimits maxEntries maxBytes configuration =
     bind_res (validateMetadataLimits maxEntries maxBytes)
       (\<lambda>_. Ok (configuration\<lparr>sc_maxMetadataEntries := maxEntries, sc_maxMetadataBytes := maxBytes\<rparr>))"

definition s3_WithPrefix :: "string \<Rightarrow> 'o s3_option" where
  "s3_WithPrefix pre configuration = Ok (configuration\<lparr>sc_prefix := pre\<rparr>)"

definition s3_WithMaxListEntries :: "int64 \<Rightarrow> 'o s3_option" where
  "s3_WithMaxListEntries limit configuration =
     (if \<not> positiveListLimit limit then Err (New ''s3: maximum list entries must be positive'')
      else Ok (configuration\<lparr>sc_maxList := limit\<rparr>))"

definition s3_WithTransferOptions :: "'o list \<Rightarrow> 'o s3_option" where
  "s3_WithTransferOptions options configuration =
     Ok (configuration\<lparr>sc_uploadOptions := sc_uploadOptions configuration @ options\<rparr>)"

record ('s, 'o) s3_adapter =
  s3_client :: "'s objectClient"
  s3_uploader :: "('s, 'o) uploadClient"
  s3_presigner :: "'s presignClient"
  s3_adapterName :: string
  s3_bucket :: string
  s3_prefix :: string
  s3_maxList :: int64
  s3_maxMetadataEntries :: int64
  s3_maxMetadataBytes :: int64
  s3_uploadOptions :: "'o list"
  s3_capabilities :: CapabilitySet

definition s3_capability_list :: "capability list" where
  "s3_capability_list =
     [CapabilityRead, CapabilityWrite, CapabilityStreamingWrite, CapabilityDelete, CapabilityList,
      CapabilityStat, CapabilityCopy, CapabilityRangeRead, CapabilityMetadata,
      CapabilityTemporaryURL, CapabilityMultipart]"

text \<open>The metadata limits \<^verbatim>\<open>newAdapter\<close> works with, and the prefix it normalizes.\<close>

definition default_limits :: "'o s3_config \<Rightarrow> 'o s3_config" where
  "default_limits configuration =
     (if sc_maxMetadataEntries configuration = 0 \<and> sc_maxMetadataBytes configuration = 0
      then configuration\<lparr>sc_maxMetadataEntries := defaultMaxMetadataEntries,
             sc_maxMetadataBytes := defaultMaxMetadataBytes\<rparr>
      else configuration)"

definition normalized_prefix :: "string \<Rightarrow> string res" where
  "normalized_prefix pre =
     (if pre = [] then Ok pre
      else (case ParsePath pre of
        Ok p \<Rightarrow> Ok (Path_String p)
      | Err e \<Rightarrow> Err (Errorf ''s3: invalid prefix: %w'' [] [e])
      | Panic e \<Rightarrow> Panic e))"

definition s3_newAdapter ::
  "'s objectClient option \<Rightarrow> ('s, 'o) uploadClient option \<Rightarrow> 's presignClient option \<Rightarrow>
    'o s3_config \<Rightarrow> ('s, 'o) s3_adapter res" where
  "s3_newAdapter client uploader presigner configuration =
     (if client = None \<or> uploader = None \<or> presigner = None
      then Err (New ''s3: object, upload, and presign clients are required'')
      else if blank (sc_bucket configuration) then Err (New ''s3: bucket is required'')
      else if sint (sc_maxList configuration) \<le> 0
      then Err (New ''s3: maximum list entries must be positive'')
      else let configuration = default_limits configuration in
        bind_res (validateMetadataLimits (sc_maxMetadataEntries configuration)
            (sc_maxMetadataBytes configuration))
          (\<lambda>_. if sc_adapterName configuration \<notin> {''s3'', ''r2''}
            then Err (Errorf ''s3: invalid adapter profile %q'' [FStr (sc_adapterName configuration)] [])
            else bind_res (normalized_prefix (sc_prefix configuration))
              (\<lambda>pre. bind_res (NewCapabilitySet s3_capability_list)
                (\<lambda>capabilities. Ok
                   \<lparr>s3_client = the client, s3_uploader = the uploader, s3_presigner = the presigner,
                    s3_adapterName = sc_adapterName configuration, s3_bucket = sc_bucket configuration,
                    s3_prefix = pre, s3_maxList = sc_maxList configuration,
                    s3_maxMetadataEntries = sc_maxMetadataEntries configuration,
                    s3_maxMetadataBytes = sc_maxMetadataBytes configuration,
                    s3_uploadOptions = sc_uploadOptions configuration,
                    s3_capabilities = capabilities\<rparr>))))"

fun s3_apply :: "'o s3_config \<Rightarrow> 'o s3_option list \<Rightarrow> 'o s3_config res" where
  "s3_apply configuration [] = Ok configuration"
| "s3_apply configuration (option # options) =
     bind_res (option configuration) (\<lambda>configuration'. s3_apply configuration' options)"

definition initial_config :: "string \<Rightarrow> string \<Rightarrow> 'o s3_config" where
  "initial_config name bucket =
     \<lparr>sc_adapterName = name, sc_bucket = bucket, sc_prefix = [], sc_maxList = 10000,
      sc_maxMetadataEntries = defaultMaxMetadataEntries, sc_maxMetadataBytes = defaultMaxMetadataBytes,
      sc_uploadOptions = []\<rparr>"

definition s3_New ::
  "('s, 'o) aws_sdk \<Rightarrow> 's objectClient option \<Rightarrow> string \<Rightarrow> 'o s3_option list \<Rightarrow>
    ('s, 'o) s3_adapter res" where
  "s3_New sdk client bucket options =
     (case client of
        None \<Rightarrow> Err (New ''s3: client is required'')
      | Some oc \<Rightarrow>
          bind_res (s3_apply (initial_config ''s3'' bucket) options)
            (\<lambda>configuration. s3_newAdapter client
               (sdk_NewTransferManager sdk oc (sc_uploadOptions configuration))
               (sdk_NewPresignClient sdk oc) configuration))"

definition NewR2Transport ::
  "('s, 'o) aws_sdk \<Rightarrow> 's objectClient option \<Rightarrow> string \<Rightarrow> 'o s3_option list \<Rightarrow>
    ('s, 'o) s3_adapter res" where
  "NewR2Transport sdk client bucket options =
     (case client of
        None \<Rightarrow> Err (New ''r2: client is required'')
      | Some oc \<Rightarrow>
          bind_res (s3_apply (initial_config ''r2'' bucket) options)
            (\<lambda>configuration. s3_newAdapter client
               (sdk_NewTransferManager sdk oc (sc_uploadOptions configuration))
               (sdk_NewPresignClient sdk oc) configuration))"

section \<open>Helpers\<close>

definition s3_key :: "('s, 'o) s3_adapter \<Rightarrow> path \<Rightarrow> string" where
  "s3_key a p =
     (if s3_prefix a = [] then Path_String p else s3_prefix a @ ''/'' @ Path_String p)"

definition s3_logicalPath :: "('s, 'o) s3_adapter \<Rightarrow> string \<Rightarrow> bool \<Rightarrow> path option" where
  "s3_logicalPath a key directory =
     (let key = (if directory then TrimSuffix key ''/'' else key);
          parse = (\<lambda>k. case ParsePath k of Ok p \<Rightarrow> Some p | _ \<Rightarrow> None)
      in if s3_prefix a = [] then parse key
         else let pre = s3_prefix a @ ''/'' in
           if \<not> HasPrefix key pre then None else parse (TrimPrefix key pre))"

definition optionalString :: "string \<Rightarrow> string option" where
  "optionalString v = (if v = [] then None else Some v)"

definition aws_ToString :: "string option \<Rightarrow> string" where
  "aws_ToString v = (case v of None \<Rightarrow> [] | Some s \<Rightarrow> s)"

definition aws_ToInt64 :: "int64 option \<Rightarrow> int64" where
  "aws_ToInt64 v = (case v of None \<Rightarrow> 0 | Some i \<Rightarrow> i)"

definition aws_ToTime :: "time option \<Rightarrow> time" where
  "aws_ToTime v = (case v of None \<Rightarrow> 0 | Some t \<Rightarrow> t)"

definition at_path :: "sentinel \<Rightarrow> path \<Rightarrow> err" where
  "at_path t p = Errorf ''%w: %s'' [FStr (Path_String p)] [Sentinel t]"

text \<open>\<^verbatim>\<open>mapError\<close> of an error that is not nil.\<close>

definition s3_mapError :: "redact_env \<Rightarrow> path \<Rightarrow> err \<Rightarrow> err" where
  "s3_mapError env p e =
     (if errors_is e ContextCanceled then e
      else if errors_is e ContextDeadlineExceeded then e
      else (case error_code e of
        Some code \<Rightarrow>
          if code \<in> {''NoSuchKey'', ''NotFound'', ''NoSuchBucket''} then at_path ErrNotFound p
          else if code = ''PreconditionFailed'' then at_path ErrPreconditionFailed p
          else if code \<in> {''InvalidRange'', ''RequestedRangeNotSatisfiable''}
          then at_path ErrInvalidRange p
          else sanitize_error (re_url env) (re_text env) [] e
      | None \<Rightarrow> sanitize_error (re_url env) (re_text env) [] e))"

definition mapping_error :: "(err \<Rightarrow> err) \<Rightarrow> 'a res \<times> 's \<times> ctx \<Rightarrow> 'a res \<times> 's \<times> ctx" where
  "mapping_error f outcome =
     (case outcome of (r, s, c) \<Rightarrow> ((case r of Err e \<Rightarrow> Err (f e) | _ \<Rightarrow> r), s, c))"

definition metadataSize :: "(string \<times> string) list \<Rightarrow> int64" where
  "metadataSize metadata =
     foldl (\<lambda>size (key, value). size + (go_len key + go_len value)) 0 metadata"

definition s3_cloneMetadata :: "('s, 'o) s3_adapter \<Rightarrow> usermeta \<Rightarrow> usermeta res" where
  "s3_cloneMetadata a source =
     (case source of
        None \<Rightarrow> Ok None
      | Some m \<Rightarrow>
          if sint (go_len m) > sint (s3_maxMetadataEntries a)
          then Err (Errorf ''%w: %s metadata has %d entries, maximum %d''
            [FStr (s3_adapterName a), FInt (sint (go_len m)), FInt (sint (s3_maxMetadataEntries a))]
            [Sentinel ErrResourceLimit])
          else if sint (metadataSize m) > sint (s3_maxMetadataBytes a)
          then Err (Errorf ''%w: %s metadata exceeds %d bytes''
            [FStr (s3_adapterName a), FInt (sint (s3_maxMetadataBytes a))] [Sentinel ErrResourceLimit])
          else Ok (Some (map (\<lambda>(key, value). (key, value)) m)))"

definition containsControl :: "string \<Rightarrow> bool" where
  "containsControl v = list_ex IsControl (runes (bytes_of v))"

text \<open>\<^verbatim>\<open>int64(^uint64(0) >> 1)\<close> is the largest \<^verbatim>\<open>int64\<close>.\<close>

definition max_int64 :: int64 where
  "max_int64 = drop_bit 1 (- 1)"

definition inclusiveRangeEnd :: "ByteRange \<Rightarrow> int64 option" where
  "inclusiveRangeEnd r =
     (if sint (br_Offset r) < 0 \<or> sint (br_Length r) \<le> 0 then None
      else if sint (br_Length r - 1) > sint (max_int64 - br_Offset r) then None
      else Some (br_Offset r + br_Length r - 1))"

definition s3_effectiveListLimit :: "int64 \<Rightarrow> int64 \<Rightarrow> int64" where
  "s3_effectiveListLimit requested maximum =
     (if requested = 0 then maximum else go_min requested maximum)"

definition paginationComplete :: "ListObjectsV2Output \<Rightarrow> bool" where
  "paginationComplete output =
     (if \<not> (case lv_IsTruncated output of None \<Rightarrow> False | Some b \<Rightarrow> b) then True
      else lv_NextContinuationToken output = None)"

definition pageSize :: "int64 \<Rightarrow> int64 \<Rightarrow> 32 word" where
  "pageSize limit collected = ucast (go_min (limit - collected) 1000)"

definition validTemporaryURLLifetime :: "int \<Rightarrow> bool" where
  "validTemporaryURLLifetime lifetime = (lifetime > 0 \<and> lifetime \<le> maximumTemporaryURLLifetime)"

text \<open>\<^verbatim>\<open>url.PathEscape\<close>.\<close>

definition hex_upper :: "nat \<Rightarrow> char" where
  "hex_upper n = char_of (if n < 10 then 48 + n else 55 + n)"

definition percent :: "char \<Rightarrow> string" where
  "percent c = [CHR ''%'', hex_upper (of_char c div 16), hex_upper (of_char c mod 16)]"

definition alnum :: "char \<Rightarrow> bool" where
  "alnum c =
     ((CHR ''a'' \<le> c \<and> c \<le> CHR ''z'') \<or> (CHR ''A'' \<le> c \<and> c \<le> CHR ''Z'') \<or>
      (CHR ''0'' \<le> c \<and> c \<le> CHR ''9''))"

definition path_unescaped :: "char \<Rightarrow> bool" where
  "path_unescaped c = (alnum c \<or> c \<in> set ''-_.~$&+:=@'')"

definition url_PathEscape :: "string \<Rightarrow> string" where
  "url_PathEscape s = concat (map (\<lambda>c. if path_unescaped c then [c] else percent c) s)"

text \<open>\<^verbatim>\<open>mime.FormatMediaType("attachment", {"filename": name})\<close>.\<close>

definition isTSpecial :: "char \<Rightarrow> bool" where
  "isTSpecial c = (c \<in> set ''()<>@,;:/[]?='' \<or> c = CHR 0x22 \<or> c = backslash)"

definition isToken :: "string \<Rightarrow> bool" where
  "isToken s =
     (s \<noteq> [] \<and> list_all (\<lambda>c. CHR 0x20 < c \<and> c < CHR 0x7F \<and> \<not> isTSpecial c) s)"

definition needsEncoding :: "string \<Rightarrow> bool" where
  "needsEncoding s = list_ex (\<lambda>r. (r < 0x20 \<or> r > 0x7E) \<and> r \<noteq> 9) (runes (bytes_of s))"

definition attribute_char :: "char \<Rightarrow> bool" where
  "attribute_char c =
     (\<not> (c \<le> CHR 0x20 \<or> CHR 0x7F \<le> c \<or> c = CHR ''*'' \<or> c = CHR 0x27 \<or> c = CHR ''%'' \<or> isTSpecial c))"

definition format_attachment :: "string \<Rightarrow> string" where
  "format_attachment name =
     (if needsEncoding name
      then ''attachment; filename*=utf-8'' @ [CHR 0x27, CHR 0x27] @
        concat (map (\<lambda>c. if attribute_char c then [c] else percent c) name)
      else if isToken name then ''attachment; filename='' @ name
      else ''attachment; filename='' @ [CHR 0x22] @
        concat (map (\<lambda>c. if c = CHR 0x22 \<or> c = backslash then [backslash, c] else [c]) name) @
        [CHR 0x22])"

section \<open>Operations\<close>

definition get_object :: "('s, 'o) s3_adapter \<Rightarrow> path \<Rightarrow> string option \<Rightarrow> GetObjectInput" where
  "get_object a p byteRange =
     \<lparr>gi_Bucket = s3_bucket a, gi_Key = s3_key a p, gi_Range = byteRange,
      gi_ResponseContentDisposition = None, gi_ResponseContentType = None\<rparr>"

definition s3_Open :: "redact_env \<Rightarrow> ('s, 'o) s3_adapter \<Rightarrow> path \<Rightarrow> ('s, stream) action" where
  "s3_Open env a p s c =
     mapping_error (s3_mapError env p) (oc_GetObject (s3_client a) (get_object a p None) s c)"

definition s3_OpenRange ::
  "redact_env \<Rightarrow> ('s, 'o) s3_adapter \<Rightarrow> path \<Rightarrow> ByteRange \<Rightarrow> ('s, stream) action" where
  "s3_OpenRange env a p r s c =
     (case inclusiveRangeEnd r of
        None \<Rightarrow> (Err (invalid_range ''%w: offset=%d length=%d'' (br_Offset r) (br_Length r)), s, c)
      | Some end \<Rightarrow>
          mapping_error (s3_mapError env p)
            (oc_GetObject (s3_client a)
               (get_object a p (Some (''bytes='' @ sprintf_d (sint (br_Offset r)) @ ''-'' @ sprintf_d (sint end))))
               s c))"

definition trim_quotes :: "string \<Rightarrow> string" where
  "trim_quotes s =
     rev (dropWhile (\<lambda>c. c = CHR 0x22) (rev (dropWhile (\<lambda>c. c = CHR 0x22) s)))"

definition s3_Stat :: "redact_env \<Rightarrow> ('s, 'o) s3_adapter \<Rightarrow> path \<Rightarrow> ('s, Metadata) action" where
  "s3_Stat env a p s c =
     (case oc_HeadObject (s3_client a) (s3_bucket a) (s3_key a p) s c of
        (Err e, s', c') \<Rightarrow> (Err (s3_mapError env p e), s', c')
      | (Panic e, s', c') \<Rightarrow> (Panic e, s', c')
      | (Ok output, s', c') \<Rightarrow>
          (bind_res (s3_cloneMetadata a (ho_Metadata output))
             (\<lambda>metadata. Ok
                \<lparr>m_Path = p, m_Kind = EntryKindFile, m_Size = aws_ToInt64 (ho_ContentLength output),
                 m_Modified = aws_ToTime (ho_LastModified output),
                 m_ETag = trim_quotes (aws_ToString (ho_ETag output)),
                 m_ContentType = aws_ToString (ho_ContentType output),
                 m_UserMetadata = metadata, m_Visibility = VisibilityUnset\<rparr>), s', c'))"

definition s3_Write ::
  "redact_env \<Rightarrow> ('s, 'o) s3_adapter \<Rightarrow> path \<Rightarrow> reads \<Rightarrow> WriteOptions \<Rightarrow> ('s, Metadata) action" where
  "s3_Write env a p source opts s c =
     (if IsRoot p then (Err rootPathError, s, c)
      else case s3_cloneMetadata a (wo_Metadata opts) of
        Err e \<Rightarrow> (Err e, s, c)
      | Panic e \<Rightarrow> (Panic e, s, c)
      | Ok metadata \<Rightarrow>
          (case uc_UploadObject (s3_uploader a)
              \<lparr>ui_Bucket = s3_bucket a, ui_Key = s3_key a p, ui_Body = source,
               ui_ContentType = optionalString (wo_ContentType opts), ui_Metadata = metadata,
               ui_IfNoneMatch = (if wo_IfNoneMatch opts then Some ''*'' else None)\<rparr>
              (s3_uploadOptions a) s c of
             (Err e, s', c') \<Rightarrow> (Err (s3_mapError env p e), s', c')
           | (Panic e, s', c') \<Rightarrow> (Panic e, s', c')
           | (Ok _, s', c') \<Rightarrow> check_ctx c' s' (s3_Stat env a p s')))"

definition s3_OpenWriter ::
  "redact_env \<Rightarrow> ('s, 'o) s3_adapter \<Rightarrow> path \<Rightarrow> WriteOptions \<Rightarrow> ('s, 's consumer) action" where
  "s3_OpenWriter env a p opts s c = check_ctx c s (\<lambda>c.
     if IsRoot p then (Err rootPathError, s, c)
     else (Ok (\<lambda>source s' c'. drop_result (s3_Write env a p source opts s' c')), s, c))"

definition s3_Delete :: "redact_env \<Rightarrow> ('s, 'o) s3_adapter \<Rightarrow> path \<Rightarrow> ('s, unit) action" where
  "s3_Delete env a p s c =
     mapping_error (s3_mapError env p) (oc_DeleteObject (s3_client a) (s3_bucket a) (s3_key a p) s c)"

definition s3_Copy ::
  "redact_env \<Rightarrow> ('s, 'o) s3_adapter \<Rightarrow> path \<Rightarrow> path \<Rightarrow> CopyOptions \<Rightarrow> ('s, unit) action" where
  "s3_Copy env a source destination opts s c =
     (if \<not> co_Overwrite opts
      then (Err (Unsupported (s3_adapterName a) CapabilityCopy OperationCopy), s, c)
      else mapping_error (s3_mapError env source)
        (oc_CopyObject (s3_client a)
           \<lparr>ci_Bucket = s3_bucket a, ci_Key = s3_key a destination,
            ci_CopySource = url_PathEscape (s3_bucket a @ ''/'' @ s3_key a source),
            ci_Metadata = None, ci_Replace = False, ci_ContentType = None\<rparr> s c))"

definition s3_Move ::
  "('s, 'o) s3_adapter \<Rightarrow> path \<Rightarrow> path \<Rightarrow> MoveOptions \<Rightarrow> ('s, unit) action" where
  "s3_Move a source destination opts s c =
     (Err (Unsupported (s3_adapterName a) CapabilityMove OperationMove), s, c)"

definition s3_SetMetadata ::
  "redact_env \<Rightarrow> ('s, 'o) s3_adapter \<Rightarrow> path \<Rightarrow> usermeta \<Rightarrow> ('s, unit) action" where
  "s3_SetMetadata env a p md s c =
     (case s3_cloneMetadata a md of
        Err e \<Rightarrow> (Err e, s, c)
      | Panic e \<Rightarrow> (Panic e, s, c)
      | Ok bounded \<Rightarrow>
          (case s3_Stat env a p s c of
             (Err e, s', c') \<Rightarrow> (Err e, s', c')
           | (Panic e, s', c') \<Rightarrow> (Panic e, s', c')
           | (Ok current, s', c') \<Rightarrow>
               let key = s3_key a p in
               mapping_error (s3_mapError env p)
                 (oc_CopyObject (s3_client a)
                    \<lparr>ci_Bucket = s3_bucket a, ci_Key = key,
                     ci_CopySource = url_PathEscape (s3_bucket a @ ''/'' @ key),
                     ci_Metadata = bounded, ci_Replace = True,
                     ci_ContentType = optionalString (m_ContentType current)\<rparr> s' c')))"

definition s3_Checksum ::
  "('s, 'o) s3_adapter \<Rightarrow> path \<Rightarrow> ChecksumAlgorithm \<Rightarrow> ('s, Checksum) action" where
  "s3_Checksum a p algorithm s c =
     (Err (Unsupported (s3_adapterName a) CapabilityChecksum OperationChecksum), s, c)"

definition s3_TemporaryURL ::
  "redact_env \<Rightarrow> ('s, 'o) s3_adapter \<Rightarrow> path \<Rightarrow> int \<Rightarrow> TemporaryURLOptions \<Rightarrow> ('s, string) action" where
  "s3_TemporaryURL env a p lifetime opts s c =
     (if \<not> validTemporaryURLLifetime lifetime
      then (Err (Errorf ''s3: temporary URL lifetime must be between 1ns and %s''
        [FInt maximumTemporaryURLLifetime] []), s, c)
      else if tu_DownloadName opts \<noteq> [] \<and> containsControl (tu_DownloadName opts)
      then (Err (New ''s3: download name contains a control character''), s, c)
      else let input = (get_object a p None)
             \<lparr>gi_ResponseContentDisposition :=
                (if tu_DownloadName opts \<noteq> [] then Some (format_attachment (tu_DownloadName opts)) else None),
              gi_ResponseContentType := optionalString (tu_ContentType opts)\<rparr>
           in mapping_error (s3_mapError env p)
                (pc_PresignGetObject (s3_presigner a) input lifetime s c))"

definition s3_Visibility :: "('s, 'o) s3_adapter \<Rightarrow> path \<Rightarrow> ('s, Visibility) action" where
  "s3_Visibility a p s c =
     (Err (Unsupported (s3_adapterName a) CapabilityVisibility OperationVisibility), s, c)"

definition s3_SetVisibility ::
  "('s, 'o) s3_adapter \<Rightarrow> path \<Rightarrow> Visibility \<Rightarrow> ('s, unit) action" where
  "s3_SetVisibility a p v s c =
     (Err (Unsupported (s3_adapterName a) CapabilityVisibility OperationSetVisibility), s, c)"

section \<open>Listing\<close>

text \<open>The loops over one page; \<open>True\<close> when the limit is reached, where \<^verbatim>\<open>List\<close> returns.\<close>

fun list_contents ::
  "('s, 'o) s3_adapter \<Rightarrow> int64 \<Rightarrow> Entry list \<Rightarrow> s3_object list \<Rightarrow> Entry list \<times> bool" where
  "list_contents a limit entries [] = (entries, False)"
| "list_contents a limit entries (object # objects) =
     (case s3_logicalPath a (aws_ToString (so_Key object)) False of
        None \<Rightarrow> list_contents a limit entries objects
      | Some p \<Rightarrow>
          let entries' = entries @ [\<lparr>e_Path = p, e_Kind = EntryKindFile,
                 e_Size = aws_ToInt64 (so_Size object), e_Modified = aws_ToTime (so_LastModified object)\<rparr>]
          in if sint (go_len entries') \<ge> sint limit then (entries', True)
             else list_contents a limit entries' objects)"

fun list_prefixes ::
  "('s, 'o) s3_adapter \<Rightarrow> int64 \<Rightarrow> Entry list \<Rightarrow> string option list \<Rightarrow> Entry list \<times> bool" where
  "list_prefixes a limit entries [] = (entries, False)"
| "list_prefixes a limit entries (commonPrefix # commonPrefixes) =
     (case s3_logicalPath a (aws_ToString commonPrefix) True of
        None \<Rightarrow> list_prefixes a limit entries commonPrefixes
      | Some p \<Rightarrow>
          let entries' = entries @ [\<lparr>e_Path = p, e_Kind = EntryKindDirectory, e_Size = 0, e_Modified = 0\<rparr>]
          in if sint (go_len entries') \<ge> sint limit then (entries', True)
             else list_prefixes a limit entries' commonPrefixes)"

definition s3_newIterator :: "Entry list \<Rightarrow> slice_iterator" where
  "s3_newIterator entries = new_iterator (sort_key entry_key entries)"

partial_function (option) s3_list_loop ::
  "redact_env \<Rightarrow> ('s, 'o) s3_adapter \<Rightarrow> path \<Rightarrow> int64 \<Rightarrow> ListObjectsV2Input \<Rightarrow> Entry list \<Rightarrow> 's \<Rightarrow> ctx \<Rightarrow>
    (slice_iterator res \<times> 's \<times> ctx) option" where
  "s3_list_loop env a directory limit input entries s c =
     (case oc_ListObjectsV2 (s3_client a) input s c of
        (r, s', c') \<Rightarrow>
          (case r of
             Err e \<Rightarrow> Some (Err (s3_mapError env directory e), s', c')
           | Panic e \<Rightarrow> Some (Panic e, s', c')
           | Ok output \<Rightarrow>
               (case list_contents a limit entries (lv_Contents output) of
                  (entries1, full) \<Rightarrow>
                    if full then Some (Ok (s3_newIterator entries1), s', c')
                    else (case list_prefixes a limit entries1 (lv_CommonPrefixes output) of
                      (entries2, full) \<Rightarrow>
                        if full \<or> paginationComplete output
                        then Some (Ok (s3_newIterator entries2), s', c')
                        else s3_list_loop env a directory limit
                          (input\<lparr>li_ContinuationToken := lv_NextContinuationToken output,
                             li_MaxKeys := pageSize limit (go_len entries2)\<rparr>) entries2 s' c'))))"

definition s3_list_input :: "('s, 'o) s3_adapter \<Rightarrow> path \<Rightarrow> bool \<Rightarrow> int64 \<Rightarrow> ListObjectsV2Input" where
  "s3_list_input a directory recursive limit =
     (let pre = (if \<not> IsRoot directory then s3_key a directory else s3_prefix a);
          pre = (if pre = [] then pre else pre @ ''/'')
      in \<lparr>li_Bucket = s3_bucket a, li_Prefix = optionalString pre,
          li_MaxKeys = ucast (go_min limit 1000),
          li_Delimiter = (if \<not> recursive then Some ''/'' else None), li_ContinuationToken = None\<rparr>)"

definition s3_List ::
  "redact_env \<Rightarrow> ('s, 'o) s3_adapter \<Rightarrow> path \<Rightarrow> ListOptions \<Rightarrow> 's \<Rightarrow> ctx \<Rightarrow>
    (slice_iterator res \<times> 's \<times> ctx) option" where
  "s3_List env a directory opts s c =
     (if sint (lo_Limit opts) < 0
      then Some (Err (New ''s3: list limit must not be negative''), s, c)
      else let limit = s3_effectiveListLimit (lo_Limit opts) (s3_maxList a) in
        s3_list_loop env a directory limit
          (s3_list_input a directory (lo_Recursive opts) limit) [] s c)"

end
