(* ===== verification/S3_Theorems.thy ===== *)
theory S3_Theorems
  imports S3_Adapter
begin

text \<open>
  Properties of the S3 adapter: keys and logical paths, ranges, the pagination of a listing,
  the classification of errors, the disposition header of a temporary URL, and the refinement
  of the abstract store under the documented behaviour of the service.
\<close>

section \<open>Construction\<close>

definition s3_ok :: "('s, 'o) s3_adapter \<Rightarrow> bool" where
  "s3_ok a =
     (wf_path \<lparr>pvalue = s3_prefix a\<rparr> \<and> 0 < sint (s3_maxList a) \<and>
      0 < sint (s3_maxMetadataEntries a) \<and> 0 < sint (s3_maxMetadataBytes a) \<and> \<not> blank (s3_bucket a))"

lemma validateMetadataLimits_Ok:
  "validateMetadataLimits m n = Ok u \<longleftrightarrow> 0 < sint m \<and> 0 < sint n"
  by (auto simp: validateMetadataLimits_def)

lemma normalized_prefix_wf: "normalized_prefix pre = Ok q \<Longrightarrow> wf_path \<lparr>pvalue = q\<rparr>"
  by (auto simp: normalized_prefix_def wf_path_def Path_String_def split: if_splits res.splits
      dest!: ParsePath_wf(1))

lemma s3_newAdapter_ok:
  assumes "s3_newAdapter client uploader presigner configuration = Ok a" shows "s3_ok a"
  using assms
  by (auto simp: s3_newAdapter_def Let_def bind_res_Ok_iff validateMetadataLimits_Ok s3_ok_def
      default_limits_def not_le dest!: normalized_prefix_wf split: if_splits)

section \<open>Keys\<close>

abbreviation prefix_path :: "('s, 'o) s3_adapter \<Rightarrow> path" where
  "prefix_path a \<equiv> \<lparr>pvalue = s3_prefix a\<rparr>"

lemma s3_key_append:
  "\<not> IsRoot p \<Longrightarrow> s3_key a p = pvalue (path_append (prefix_path a) p)"
  by (simp add: s3_key_def pvalue_append IsRoot_def Path_String_def)

lemma s3_key_inject:
  assumes "s3_ok a" "wf_path p" "wf_path q" "\<not> IsRoot p" "\<not> IsRoot q"
  shows "s3_key a p = s3_key a q \<longleftrightarrow> p = q"
  by (auto simp: s3_key_def Path_String_def)

lemma TrimSuffix_slash: "TrimSuffix (k @ ''/'') ''/'' = k"
  by (simp add: TrimSuffix_def)

lemma logicalPath_key:
  assumes "s3_ok a" and "wf_path p" and "\<not> IsRoot p"
  shows "s3_logicalPath a (s3_key a p) False = Some p"
    and "s3_logicalPath a (s3_key a p @ ''/'') True = Some p"
  unfolding s3_logicalPath_def if_True if_False TrimSuffix_slash Let_def
  using ParsePath_String [OF assms(2,3)]
  by (simp_all add: s3_key_def HasPrefix_append TrimPrefix_def)

lemma logicalPath_wf:
  assumes "s3_logicalPath a key directory = Some p"
  shows "wf_path p \<and> \<not> IsRoot p"
  using assms ParsePath_wf by (auto simp: s3_logicalPath_def Let_def split: if_splits res.splits)

text \<open>
  Keys and logical paths of a constructed adapter correspond: every object and directory key
  the adapter uses for a path is read back as that path, distinct paths have distinct keys, and
  whatever key the service returns, the path read from it is well formed and not the root.
\<close>

theorem s3_keys_roundtrip:
  assumes "s3_newAdapter client uploader presigner configuration = Ok a"
    and "wf_path p" and "\<not> IsRoot p" and "wf_path q" and "\<not> IsRoot q"
  shows "s3_logicalPath a (s3_key a p) False = Some p \<and>
    s3_logicalPath a (s3_key a p @ ''/'') True = Some p \<and>
    (s3_key a p = s3_key a q \<longleftrightarrow> p = q) \<and>
    (\<forall>key directory r. s3_logicalPath a key directory = Some r \<longrightarrow> wf_path r \<and> \<not> IsRoot r)"
  using logicalPath_key [OF s3_newAdapter_ok [OF assms(1)] assms(2,3)]
    s3_key_inject [OF s3_newAdapter_ok [OF assms(1)] assms(2,4,3,5)] logicalPath_wf
  by blast

section \<open>Ranges\<close>

lemma sint_max_int64: "sint max_int64 = 2 ^ 63 - 1"
  by code_simp

text \<open>
  The inclusive end of a byte range is exact: it is computed without wrap-around for every
  range with a non-negative offset and a positive length whose last byte has a representable
  position, and every other range is refused.
\<close>

theorem inclusiveRangeEnd_exact:
  "case inclusiveRangeEnd r of
     None \<Rightarrow> sint (br_Offset r) < 0 \<or> sint (br_Length r) \<le> 0 \<or>
       sint (br_Offset r) + sint (br_Length r) > 2 ^ 63
   | Some end \<Rightarrow> 0 \<le> sint (br_Offset r) \<and> 0 < sint (br_Length r) \<and>
       sint end = sint (br_Offset r) + sint (br_Length r) - 1"
proof (cases "sint (br_Offset r) < 0 \<or> sint (br_Length r) \<le> 0")
  case True
  then show ?thesis by (auto simp: inclusiveRangeEnd_def)
next
  case False
  then have o: "0 \<le> sint (br_Offset r)" and l: "0 < sint (br_Length r)" by simp_all
  note b = sint_bounds(2) [of "br_Offset r"] sint_bounds(2) [of "br_Length r"]
  have l1: "sint (br_Length r - 1) = sint (br_Length r) - 1"
    using l b by (subst sint_sub) simp_all
  have m: "sint (max_int64 - br_Offset r) = 2 ^ 63 - 1 - sint (br_Offset r)"
    using o b by (subst sint_sub) (simp_all add: sint_max_int64)
  show ?thesis
  proof (cases "sint (br_Offset r) + sint (br_Length r) > 2 ^ 63")
    case True
    with False show ?thesis by (simp add: inclusiveRangeEnd_def l1 m)
  next
    case in_range: False
    have "sint (br_Offset r + (br_Length r - 1)) = sint (br_Offset r) + (sint (br_Length r) - 1)"
      using o l in_range by (subst sint_add) (simp_all add: l1)
    with o l in_range show ?thesis by (simp add: inclusiveRangeEnd_def l1 m add_diff_eq)
  qed
qed

section \<open>Pagination\<close>

text \<open>
  A listing of the service, as one sequence of objects and common prefixes in the order of
  their keys, and the entries the adapter makes of it: keys that are no logical path are
  skipped.
\<close>

datatype item = Object s3_object | Common "string option"

fun item_entry :: "('s, 'o) s3_adapter \<Rightarrow> item \<Rightarrow> Entry option" where
  "item_entry a (Object object) =
     map_option (\<lambda>p. \<lparr>e_Path = p, e_Kind = EntryKindFile, e_Size = aws_ToInt64 (so_Size object),
       e_Modified = aws_ToTime (so_LastModified object)\<rparr>)
       (s3_logicalPath a (aws_ToString (so_Key object)) False)"
| "item_entry a (Common pre) =
     map_option (\<lambda>p. \<lparr>e_Path = p, e_Kind = EntryKindDirectory, e_Size = 0, e_Modified = 0\<rparr>)
       (s3_logicalPath a (aws_ToString pre) True)"

abbreviation entries_of :: "('s, 'o) s3_adapter \<Rightarrow> item list \<Rightarrow> Entry list" where
  "entries_of a items \<equiv> List.map_filter (item_entry a) items"

fun object_of :: "item \<Rightarrow> s3_object option" where
  "object_of (Object x) = Some x"
| "object_of (Common _) = None"

fun common_of :: "item \<Rightarrow> string option option" where
  "common_of (Object _) = None"
| "common_of (Common x) = Some x"

text \<open>
  The documented behaviour of \<^verbatim>\<open>ListObjectsV2\<close>: from the position of the continuation token
  it returns at most \<^verbatim>\<open>MaxKeys\<close> further items, and a truncated page holds at least one item
  and the token of the position after it.
\<close>

definition page_of :: "ListObjectsV2Output \<Rightarrow> item list \<Rightarrow> bool" where
  "page_of output items =
     (lv_Contents output = List.map_filter object_of items \<and>
      lv_CommonPrefixes output = List.map_filter common_of items)"

definition answers_page ::
  "ListObjectsV2Output \<Rightarrow> nat \<Rightarrow> nat \<Rightarrow> (string option \<Rightarrow> nat) \<Rightarrow> item list \<Rightarrow> bool" where
  "answers_page output start most pos items =
     (\<exists>n\<le>most. page_of output (take n (drop start items)) \<and>
        (if start + n < length items
         then 0 < n \<and> lv_IsTruncated output = Some True \<and>
           (\<exists>t. lv_NextContinuationToken output = Some t \<and> pos (Some t) = start + n)
         else paginationComplete output))"

definition lists_items ::
  "'s objectClient \<Rightarrow> 's \<Rightarrow> ListObjectsV2Input \<Rightarrow> (string option \<Rightarrow> nat) \<Rightarrow> item list \<Rightarrow> bool" where
  "lists_items client s input pos items =
     (pos None = 0 \<and>
      (\<forall>token m. 0 < sint m \<longrightarrow>
         (\<exists>output. oc_ListObjectsV2 client (input\<lparr>li_ContinuationToken := token, li_MaxKeys := m\<rparr>) s
              Background = (Ok output, s, Background) \<and>
            answers_page output (pos token) (nat (sint m)) pos items)))"

lemma map_filter_Cons:
  "List.map_filter f (x # xs) = (case f x of None \<Rightarrow> List.map_filter f xs | Some y \<Rightarrow> y # List.map_filter f xs)"
  by (cases "f x") (simp_all add: List.map_filter_def)

lemma map_filter_append: "List.map_filter f (xs @ ys) = List.map_filter f xs @ List.map_filter f ys"
  by (simp add: List.map_filter_def)

lemma length_map_filter: "length (List.map_filter f xs) \<le> length xs"
  by (simp add: List.map_filter_def)

text \<open>Both loops over a page collect entries up to the limit.\<close>

fun collect :: "int64 \<Rightarrow> Entry list \<Rightarrow> Entry option list \<Rightarrow> Entry list \<times> bool" where
  "collect limit entries [] = (entries, False)"
| "collect limit entries (None # xs) = collect limit entries xs"
| "collect limit entries (Some e # xs) =
     (if sint (go_len (entries @ [e])) \<ge> sint limit then (entries @ [e], True)
      else collect limit (entries @ [e]) xs)"

lemma list_contents_collect:
  "list_contents a limit entries objects = collect limit entries (map (item_entry a \<circ> Object) objects)"
  by (induction a limit entries objects rule: list_contents.induct) (simp_all add: Let_def split: option.split)

lemma list_prefixes_collect:
  "list_prefixes a limit entries pres = collect limit entries (map (item_entry a \<circ> Common) pres)"
  by (induction a limit entries pres rule: list_prefixes.induct) (simp_all add: Let_def split: option.split)

lemma reached_limit:
  assumes "length entries < nat (sint (limit :: int64))"
  shows "sint (go_len (entries @ [e])) \<ge> sint limit \<longleftrightarrow> nat (sint limit) = Suc (length entries)"
proof -
  have "nat (sint limit) < 2 ^ 63" using sint_bounds(2) [of limit] by (simp add: nat_less_iff)
  with assms have "length (entries @ [e]) < 2 ^ 63" by simp
  from sint_go_len [OF this] assms show ?thesis by auto
qed

lemma collect_eq:
  assumes "length entries < nat (sint limit)"
  shows "collect limit entries xs =
    (entries @ take (nat (sint limit) - length entries) (List.map_filter (\<lambda>x. x) xs),
     nat (sint limit) \<le> length entries + length (List.map_filter (\<lambda>x. x) xs))"
  using assms
proof (induction limit entries xs rule: collect.induct)
  case (3 limit entries e xs)
  show ?case
  proof (cases "nat (sint limit) = Suc (length entries)")
    case True
    with 3 reached_limit [of entries limit e] show ?thesis by (simp add: map_filter_Cons)
  next
    case False
    moreover from 3(2) have "nat (sint limit) - length entries = Suc (nat (sint limit) - Suc (length entries))"
      by simp
    ultimately show ?thesis
      using 3 reached_limit [of entries limit e] by (simp add: map_filter_Cons)
  qed
qed (simp_all add: map_filter_Cons)

lemma map_filter_map: "List.map_filter (\<lambda>x. x) (map f xs) = List.map_filter f xs"
  by (induction xs) (simp_all add: map_filter_Cons split: option.split)

lemma page_entries:
  "mset (List.map_filter (item_entry a \<circ> Object) (List.map_filter object_of items) @
     List.map_filter (item_entry a \<circ> Common) (List.map_filter common_of items)) = mset (entries_of a items)"
proof (induction items)
  case (Cons x xs)
  then show ?case by (cases x) (simp_all add: map_filter_Cons split: option.split)
qed simp

text \<open>One page: when it holds no more items than are still wanted, all its entries are kept.\<close>

lemma page_collected:
  assumes "length entries < nat (sint limit)" and "page_of output items"
    and "length entries + length items \<le> nat (sint limit)"
  obtains entries1 full1 entries2 full2 where
    "list_contents a limit entries (lv_Contents output) = (entries1, full1)"
    "full1 \<longrightarrow> entries2 = entries1 \<and> full2"
    "\<not> full1 \<longrightarrow> list_prefixes a limit entries1 (lv_CommonPrefixes output) = (entries2, full2)"
    "mset entries2 = mset entries + mset (entries_of a items)"
    "full2 \<longleftrightarrow> length entries2 = nat (sint limit)"
proof -
  let ?l = "nat (sint limit)"
  let ?c = "List.map_filter (item_entry a \<circ> Object) (List.map_filter object_of items)"
  let ?p = "List.map_filter (item_entry a \<circ> Common) (List.map_filter common_of items)"
  have m: "mset (?c @ ?p) = mset (entries_of a items)" by (rule page_entries)
  then have n: "length ?c + length ?p = length (entries_of a items)"
    by (metis length_append size_mset)
  with assms(3) length_map_filter [of "item_entry a" items]
  have le: "length entries + length ?c + length ?p \<le> ?l" by linarith
  have c: "list_contents a limit entries (lv_Contents output) = (entries @ ?c, ?l \<le> length entries + length ?c)"
    using assms(1,2) le by (simp add: list_contents_collect collect_eq map_filter_map page_of_def)
  show thesis
  proof (cases "?l \<le> length entries + length ?c")
    case True
    with le have "length ?p = 0" by linarith
    then have "?p = []" by simp
    with True le m c show thesis by (intro that [of "entries @ ?c" True "entries @ ?c" True]) simp_all
  next
    case False
    then have "list_prefixes a limit (entries @ ?c) (lv_CommonPrefixes output) =
        (entries @ ?c @ ?p, ?l \<le> length entries + length ?c + length ?p)"
      using assms(2) le by (simp add: list_prefixes_collect collect_eq map_filter_map page_of_def)
    with False le m c show thesis
      by (intro that [of "entries @ ?c" False "entries @ ?c @ ?p"
            "?l \<le> length entries + length ?c + length ?p"]) auto
  qed
qed

lemma sint_ucast32:
  assumes "0 \<le> sint (w :: int64)" and "sint w < 2 ^ 31"
  shows "sint (ucast w :: 32 word) = sint w"
proof -
  have u: "uint w = sint w" using unat_nonnegative [OF assms(1)] assms(1) by (metis int_nat_eq uint_nat)
  have "uint (ucast w :: 32 word) = take_bit 32 (uint w)" by (simp add: unsigned_ucast_eq)
  also have "\<dots> = sint w" unfolding u using assms by (intro take_bit_int_eq_self) simp_all
  finally have v: "uint (ucast w :: 32 word) = sint w" .
  have "sint (ucast w :: 32 word) = signed_take_bit 31 (sint w)" by (subst sint_uint) (simp add: v)
  also have "\<dots> = sint w" using assms by (intro signed_take_bit_int_eq_self) simp_all
  finally show ?thesis .
qed

lemma page_size:
  assumes "0 < sint (n :: int64)"
  shows "sint (ucast (go_min n 1000) :: 32 word) = min (sint n) 1000"
  using assms by (subst sint_ucast32) (simp_all add: sint_go_min)

lemma take_entries_of:
  assumes "mset es = mset (entries_of a (take n items))" and "length es = l"
  shows "mset es = mset (take l (entries_of a items))"
proof -
  have "entries_of a items = entries_of a (take n items) @ entries_of a (drop n items)"
    by (metis append_take_drop_id map_filter_append)
  moreover have "length (entries_of a (take n items)) = l" using assms by (metis size_mset)
  ultimately show ?thesis using assms(1) by simp
qed

lemma s3_list_loop_exact:
  assumes service: "lists_items (s3_client a) s input pos items"
    and "pos token \<le> length items"
    and "mset entries = mset (entries_of a (take (pos token) items))"
    and "length entries < nat (sint limit)" and "0 < sint m"
    and "nat (sint m) \<le> nat (sint limit) - length entries"
  shows "\<exists>es. s3_list_loop env a directory limit
      (input\<lparr>li_ContinuationToken := token, li_MaxKeys := m\<rparr>) entries s Background =
        Some (Ok (s3_newIterator es), s, Background) \<and>
      mset es = mset (take (nat (sint limit)) (entries_of a items))"
  using assms(2-)
proof (induction "length items - pos token" arbitrary: token m entries rule: less_induct)
  case less
  let ?in = "input\<lparr>li_ContinuationToken := token, li_MaxKeys := m\<rparr>"
  from service less.prems(4) obtain reply where
      out: "oc_ListObjectsV2 (s3_client a) ?in s Background = (Ok reply, s, Background)"
    and "answers_page reply (pos token) (nat (sint m)) pos items"
    unfolding lists_items_def by blast
  then obtain n where n: "n \<le> nat (sint m)" and page: "page_of reply (take n (drop (pos token) items))"
    and rest: "if pos token + n < length items
      then 0 < n \<and> lv_IsTruncated reply = Some True \<and>
        (\<exists>t. lv_NextContinuationToken reply = Some t \<and> pos (Some t) = pos token + n)
      else paginationComplete reply"
    unfolding answers_page_def by blast
  have "length entries + length (take n (drop (pos token) items)) \<le> nat (sint limit)"
    using n less.prems(3,5) by simp
  from page_collected [OF less.prems(3) page this, where a = a] obtain entries1 full1 entries2 full2 where
      c: "list_contents a limit entries (lv_Contents reply) = (entries1, full1)"
    and f: "full1 \<longrightarrow> entries2 = entries1 \<and> full2"
      "\<not> full1 \<longrightarrow> list_prefixes a limit entries1 (lv_CommonPrefixes reply) = (entries2, full2)"
    and m2: "mset entries2 = mset entries + mset (entries_of a (take n (drop (pos token) items)))"
    and full: "full2 \<longleftrightarrow> length entries2 = nat (sint limit)" .
  have m3: "mset entries2 = mset (entries_of a (take (pos token + n) items))"
    by (simp add: m2 less.prems(2) take_add map_filter_append)
  have step: "s3_list_loop env a directory limit ?in entries s Background =
      (if full2 \<or> paginationComplete reply then Some (Ok (s3_newIterator entries2), s, Background)
       else s3_list_loop env a directory limit
         (?in\<lparr>li_ContinuationToken := lv_NextContinuationToken reply,
              li_MaxKeys := pageSize limit (go_len entries2)\<rparr>) entries2 s Background)"
    using f by (subst s3_list_loop.simps) (cases full1; simp add: out c)
  show ?case
  proof (cases full2)
    case True
    with step full take_entries_of [OF m3] show ?thesis by auto
  next
    case False
    have "length entries2 = length entries + length (entries_of a (take n (drop (pos token) items)))"
      by (metis m2 size_mset size_union)
    with False full \<open>length entries + length (take n (drop (pos token) items)) \<le> nat (sint limit)\<close>
      length_map_filter [of "item_entry a" "take n (drop (pos token) items)"]
    have short: "length entries2 < nat (sint limit)" by linarith
    show ?thesis
    proof (cases "pos token + n < length items")
      case True
      with rest obtain t where t: "0 < n" "lv_IsTruncated reply = Some True"
          "lv_NextContinuationToken reply = Some t" "pos (Some t) = pos token + n" by auto
      have small: "length entries2 < 2 ^ 63"
        using short sint_bounds(2) [of limit] by (simp add: nat_less_iff)
      then have d: "sint (limit - go_len entries2) = sint limit - int (length entries2)"
        using short sint_bounds [of limit] by (subst sint_sub) (simp_all add: sint_go_len)
      have ps: "sint (pageSize limit (go_len entries2)) = min (sint limit - int (length entries2)) 1000"
        using short unfolding pageSize_def by (subst page_size) (simp_all add: d)
      from less.hyps [of "Some t" entries2 "pageSize limit (go_len entries2)"] True t m3 short ps
      have "\<exists>es. s3_list_loop env a directory limit
          (input\<lparr>li_ContinuationToken := Some t, li_MaxKeys := pageSize limit (go_len entries2)\<rparr>)
          entries2 s Background = Some (Ok (s3_newIterator es), s, Background) \<and>
          mset es = mset (take (nat (sint limit)) (entries_of a items))" by simp
      with step False t show ?thesis by (simp add: paginationComplete_def)
    next
      case last: False
      with m3 have "mset entries2 = mset (entries_of a items)" by simp
      moreover from this short have "length (entries_of a items) \<le> nat (sint limit)"
        by (metis less_imp_le size_mset)
      ultimately show ?thesis using step last rest by auto
    qed
  qed
qed

text \<open>
  (C35) A listing returns, whatever the sizes of the pages: against a service that pages as
  documented, it yields exactly the first entries of the service's listing up to the effective
  limit, sorted by path, and leaves the service as it was.
\<close>

theorem s3_List_exact:
  assumes "s3_ok a" and "0 \<le> sint (lo_Limit opts)"
    and "limit = s3_effectiveListLimit (lo_Limit opts) (s3_maxList a)"
    and "lists_items (s3_client a) s (s3_list_input a directory (lo_Recursive opts) limit) pos items"
  shows "\<exists>it. s3_List env a directory opts s Background = Some (Ok it, s, Background) \<and>
    sorted (map entry_key (si_pending it)) \<and>
    mset (si_pending it) = mset (take (nat (sint limit)) (entries_of a items))"
proof -
  from assms(1-3) have limit: "0 < sint limit"
    by (auto simp: s3_ok_def s3_effectiveListLimit_def sint_go_min)
      (metis less_le signed_0 signed_eq_0_iff)
  let ?in = "s3_list_input a directory (lo_Recursive opts) limit"
  have keys: "sint (li_MaxKeys ?in) = min (sint limit) 1000"
    using limit by (simp add: s3_list_input_def Let_def page_size)
  then have most: "nat (sint (li_MaxKeys ?in)) \<le> nat (sint limit)" by (simp add: nat_mono)
  have "?in = ?in\<lparr>li_ContinuationToken := None, li_MaxKeys := li_MaxKeys ?in\<rparr>"
    by (simp add: s3_list_input_def Let_def)
  moreover have "pos None = 0" using assms(4) by (simp add: lists_items_def)
  ultimately obtain es where "s3_list_loop env a directory limit ?in [] s Background =
      Some (Ok (s3_newIterator es), s, Background)" "mset es = mset (take (nat (sint limit)) (entries_of a items))"
    using s3_list_loop_exact [OF assms(4), where token = None and entries = "[]" and limit = limit
        and m = "li_MaxKeys ?in" and env = env and directory = directory] limit keys most
    by auto
  with assms(2,3) show ?thesis by (simp add: s3_List_def Let_def s3_newIterator_def)
qed

section \<open>The adapter as a store\<close>

text \<open>
  What the documentation of the service promises of one bucket, seen as a map from keys to
  contents and user metadata: reads of a present key return its content and attributes and
  fail with the code of a missing key otherwise; an upload publishes a source that was read
  completely, under the condition it carries, and leaves the bucket alone otherwise; deletion
  of a missing key succeeds; a copy names its source percent-encoded.
\<close>

type_synonym bucket = "string \<rightharpoonup> string \<times> usermeta"

definition serves_reads :: "('s, 'o) s3_adapter \<Rightarrow> ('s \<Rightarrow> bucket) \<Rightarrow> bool" where
  "serves_reads a objs =
     ((\<forall>s key.
        case objs s key of
          None \<Rightarrow> oc_GetObject (s3_client a) \<lparr>gi_Bucket = s3_bucket a, gi_Key = key, gi_Range = None,
              gi_ResponseContentDisposition = None, gi_ResponseContentType = None\<rparr> s Background =
            (Err (CodedError ''NoSuchKey''), s, Background) \<and>
            oc_HeadObject (s3_client a) (s3_bucket a) key s Background =
              (Err (CodedError ''NotFound''), s, Background)
        | Some (content, md) \<Rightarrow> \<exists>st output.
            oc_GetObject (s3_client a) \<lparr>gi_Bucket = s3_bucket a, gi_Key = key, gi_Range = None,
              gi_ResponseContentDisposition = None, gi_ResponseContentType = None\<rparr> s Background =
            (Ok st, s, Background) \<and> stream_of st content \<and>
            oc_HeadObject (s3_client a) (s3_bucket a) key s Background = (Ok output, s, Background) \<and>
            ho_ContentLength output = Some (go_len content) \<and> ho_Metadata output = md))"

definition upload_outcome ::
  "('s \<Rightarrow> bucket) \<Rightarrow> UploadObjectInput \<Rightarrow> 's \<Rightarrow> unit res \<Rightarrow> 's \<Rightarrow> bool" where
  "upload_outcome objs input s r s' =
     (case io_copy (ui_Body input) of
        (content, Some e) \<Rightarrow> (\<exists>e'. r = Err e') \<and> objs s' = objs s
      | (content, None) \<Rightarrow>
          if ui_IfNoneMatch input = Some ''*'' \<and> objs s (ui_Key input) \<noteq> None
          then r = Err (CodedError ''PreconditionFailed'') \<and> objs s' = objs s
          else r = Ok () \<and> objs s' = (objs s)(ui_Key input \<mapsto> (content, ui_Metadata input)))"

definition serves_upload :: "('s, 'o) s3_adapter \<Rightarrow> ('s \<Rightarrow> bucket) \<Rightarrow> bool" where
  "serves_upload a objs =
     (\<forall>s input opts. ui_Bucket input = s3_bucket a \<longrightarrow>
        (\<exists>r s'. uc_UploadObject (s3_uploader a) input opts s Background = (r, s', Background) \<and>
          upload_outcome objs input s r s'))"

definition serves_changes :: "('s, 'o) s3_adapter \<Rightarrow> ('s \<Rightarrow> bucket) \<Rightarrow> bool" where
  "serves_changes a objs =
     ((\<forall>s key. \<exists>s'. oc_DeleteObject (s3_client a) (s3_bucket a) key s Background = (Ok (), s', Background) \<and>
         objs s' = (objs s)(key := None)) \<and>
      (\<forall>s input source. ci_Bucket input = s3_bucket a \<and>
         ci_CopySource input = url_PathEscape (s3_bucket a @ ''/'' @ source) \<longrightarrow>
         (case objs s source of
            None \<Rightarrow> oc_CopyObject (s3_client a) input s Background =
              (Err (CodedError ''NoSuchKey''), s, Background)
          | Some (content, md) \<Rightarrow> \<exists>s'.
              oc_CopyObject (s3_client a) input s Background = (Ok (), s', Background) \<and>
              objs s' = (objs s)(ci_Key input \<mapsto>
                (content, if ci_Replace input then ci_Metadata input else md)))))"

definition s3_view :: "('s, 'o) s3_adapter \<Rightarrow> ('s \<Rightarrow> bucket) \<Rightarrow> 's \<Rightarrow> store" where
  "s3_view a objs s p =
     (if wf_path p \<and> \<not> IsRoot p
      then map_option (\<lambda>(content, md). \<lparr>f_content = content, f_metadata = md, f_contentType = [],
        f_visibility = VisibilityUnset\<rparr>) (objs s (s3_key a p))
      else None)"

text \<open>User metadata that the limits of the adapter admit.\<close>

definition admits :: "('s, 'o) s3_adapter \<Rightarrow> usermeta \<Rightarrow> bool" where
  "admits a md = (s3_cloneMetadata a md = Ok md)"

definition s3_good :: "('s, 'o) s3_adapter \<Rightarrow> ('s \<Rightarrow> bucket) \<Rightarrow> 's \<Rightarrow> bool" where
  "s3_good a objs s = (\<forall>content md. (content, md) \<in> ran (objs s) \<longrightarrow> admits a md)"

lemma s3_view_update:
  assumes "s3_ok a" "wf_path p" "\<not> IsRoot p"
  shows "objs s' = (objs s)(s3_key a p := x) \<Longrightarrow>
    s3_view a objs s' = (s3_view a objs s)(p := map_option (\<lambda>(content, md).
      \<lparr>f_content = content, f_metadata = md, f_contentType = [], f_visibility = VisibilityUnset\<rparr>) x)"
  using assms s3_key_inject [OF assms(1)] by (auto simp: s3_view_def fun_eq_iff)

lemma s3_good_update:
  "s3_good a objs s \<Longrightarrow> objs s' = (objs s)(k \<mapsto> (content, md)) \<Longrightarrow> admits a md \<Longrightarrow> s3_good a objs s'"
  by (auto simp: s3_good_def ran_def split: if_splits)

lemma s3_good_delete: "s3_good a objs s \<Longrightarrow> objs s' = (objs s)(k := None) \<Longrightarrow> s3_good a objs s'"
  by (auto simp: s3_good_def ran_def split: if_splits)

lemma s3_good_admits: "s3_good a objs s \<Longrightarrow> objs s k = Some (content, md) \<Longrightarrow> admits a md"
  by (auto simp: s3_good_def ran_def)

lemma s3_unchanged:
  assumes "objs s' = objs s"
  shows "s3_view a objs s' = s3_view a objs s" and "s3_good a objs s' = s3_good a objs s"
  by (simp_all add: s3_view_def s3_good_def assms fun_eq_iff)

lemma mapError_codes [simp]:
  "s3_mapError env p (CodedError ''NoSuchKey'') = at_path ErrNotFound p"
  "s3_mapError env p (CodedError ''NotFound'') = at_path ErrNotFound p"
  "s3_mapError env p (CodedError ''PreconditionFailed'') = at_path ErrPreconditionFailed p"
  by (simp_all add: s3_mapError_def)

lemma s3_Stat_store:
  assumes "serves_reads a objs" and "s3_good a objs s"
  shows "case objs s (s3_key a p) of
      None \<Rightarrow> s3_Stat env a p s Background = (Err (at_path ErrNotFound p), s, Background)
    | Some (content, md) \<Rightarrow> \<exists>m. s3_Stat env a p s Background = (Ok m, s, Background) \<and>
        m_Path m = p \<and> m_Kind m = EntryKindFile \<and> m_Size m = go_len content \<and> m_UserMetadata m = md"
proof (cases "objs s (s3_key a p)")
  case None
  with assms(1) show ?thesis
    by (auto simp: serves_reads_def s3_Stat_def dest!: spec [of _ s] spec [of _ "s3_key a p"])
next
  case (Some x)
  then obtain content md where x: "objs s (s3_key a p) = Some (content, md)" by (cases x) auto
  with assms(1) obtain reply where
    "oc_HeadObject (s3_client a) (s3_bucket a) (s3_key a p) s Background = (Ok reply, s, Background)"
    "ho_ContentLength reply = Some (go_len content)" "ho_Metadata reply = md"
    by (fastforce simp: serves_reads_def dest!: spec [of _ s] spec [of _ "s3_key a p"])
  moreover from s3_good_admits [OF assms(2) x] have "s3_cloneMetadata a md = Ok md"
    by (simp add: admits_def)
  ultimately show ?thesis using x by (simp add: s3_Stat_def aws_ToInt64_def)
qed

lemma s3_Open_store:
  assumes "serves_reads a objs" and "s3_good a objs s" and "wf_path p" "\<not> IsRoot p"
  shows "observes (s3_good a objs) (s3_view a objs) (s3_view a objs s) (s3_Open env a p s Background)
    (\<lambda>r. case s3_view a objs s p of
       None \<Rightarrow> fails_with r ErrNotFound | Some f \<Rightarrow> \<exists>st. r = Ok st \<and> stream_of st (f_content f))"
proof (cases "objs s (s3_key a p)")
  case None
  with assms(1) have "oc_GetObject (s3_client a) (get_object a p None) s Background =
      (Err (CodedError ''NoSuchKey''), s, Background)"
    by (auto simp: serves_reads_def get_object_def dest!: spec [of _ s] spec [of _ "s3_key a p"])
  with None assms show ?thesis
    by (simp add: s3_Open_def mapping_error_def observes_def s3_view_def at_path_def)
next
  case (Some x)
  then obtain content md where x: "objs s (s3_key a p) = Some (content, md)" by (cases x) auto
  with assms(1) obtain st where
    "oc_GetObject (s3_client a) (get_object a p None) s Background = (Ok st, s, Background)"
    "stream_of st content"
    by (fastforce simp: serves_reads_def get_object_def dest!: spec [of _ s] spec [of _ "s3_key a p"])
  with x assms show ?thesis
    by (simp add: s3_Open_def mapping_error_def observes_def s3_view_def)
qed

abbreviation s3_file :: "string \<Rightarrow> usermeta \<Rightarrow> stored_file" where
  "s3_file content md \<equiv>
     \<lparr>f_content = content, f_metadata = md, f_contentType = [], f_visibility = VisibilityUnset\<rparr>"

lemma upload_runs:
  "serves_upload a objs \<Longrightarrow> ui_Bucket input = s3_bucket a \<Longrightarrow>
    \<exists>r s'. uc_UploadObject (s3_uploader a) input uopts s Background = (r, s', Background) \<and>
      upload_outcome objs input s r s'"
  by (simp add: serves_upload_def)

lemma s3_Write_store:
  assumes ok: "s3_ok a" and reads: "serves_reads a objs" and up: "serves_upload a objs"
    and good: "s3_good a objs s" and p: "wf_path p" "\<not> IsRoot p"
    and source: "io_copy source = (content, None)" and md: "admits a (wo_Metadata opts)"
  shows "implements (s3_good a objs) (s3_view a objs) (s3_view a objs s) (s3_Write env a p source opts s Background)
    (spec_write (s3_view a objs s) p (s3_file content (wo_Metadata opts)) (wo_IfNoneMatch opts))"
proof -
  let ?in = "\<lparr>ui_Bucket = s3_bucket a, ui_Key = s3_key a p, ui_Body = source,
    ui_ContentType = optionalString (wo_ContentType opts), ui_Metadata = wo_Metadata opts,
    ui_IfNoneMatch = (if wo_IfNoneMatch opts then Some ''*'' else None)\<rparr>"
  obtain r s' where run: "uc_UploadObject (s3_uploader a) ?in (s3_uploadOptions a) s Background = (r, s', Background)"
    and out: "if wo_IfNoneMatch opts \<and> objs s (s3_key a p) \<noteq> None
      then r = Err (CodedError ''PreconditionFailed'') \<and> objs s' = objs s
      else r = Ok () \<and> objs s' = (objs s)(s3_key a p \<mapsto> (content, wo_Metadata opts))"
    using upload_runs [OF up, of ?in "s3_uploadOptions a" s] source
    by (auto simp: upload_outcome_def split: if_splits)
  have clone: "s3_cloneMetadata a (wo_Metadata opts) = Ok (wo_Metadata opts)"
    using md by (simp add: admits_def)
  show ?thesis
  proof (cases "wo_IfNoneMatch opts \<and> objs s (s3_key a p) \<noteq> None")
    case True
    with out have "r = Err (CodedError ''PreconditionFailed'')" and same: "objs s' = objs s" by simp_all
    with run clone p have "s3_Write env a p source opts s Background =
        (Err (at_path ErrPreconditionFailed p), s', Background)"
      by (simp add: s3_Write_def)
    moreover have "s3_good a objs s'" "s3_view a objs s' = s3_view a objs s"
      using good by (simp_all add: s3_unchanged [of objs s' s, OF same])
    moreover have "s3_view a objs s p \<noteq> None" using True p by (simp add: s3_view_def)
    ultimately show ?thesis using True by (simp add: implements_def spec_write_def at_path_def)
  next
    case False
    with out have "r = Ok ()" and new: "objs s' = (objs s)(s3_key a p \<mapsto> (content, wo_Metadata opts))"
      by (simp_all split: if_splits)
    note good' = s3_good_update [OF good new md]
    from s3_Stat_store [OF reads good', where p = p and env = env] new obtain m where
      "s3_Stat env a p s' Background = (Ok m, s', Background)" by auto
    with run clone p \<open>r = Ok ()\<close> have "s3_Write env a p source opts s Background = (Ok m, s', Background)"
      by (simp add: s3_Write_def)
    moreover have "\<not> (wo_IfNoneMatch opts \<and> s3_view a objs s p \<noteq> None)"
      using False p by (auto simp: s3_view_def simp del: not_None_eq)
    ultimately show ?thesis
      using good' s3_view_update [OF ok p new] by (auto simp: implements_def spec_write_def)
  qed
qed

lemma s3_Write_broken:
  assumes up: "serves_upload a objs" and good: "s3_good a objs s" and p: "\<not> IsRoot p"
    and source: "io_copy source = (part, Some e)" and md: "admits a (wo_Metadata opts)"
  shows "\<exists>e' s'. s3_Write env a p source opts s Background = (Err e', s', Background) \<and>
    s3_view a objs s' = s3_view a objs s"
proof -
  let ?in = "\<lparr>ui_Bucket = s3_bucket a, ui_Key = s3_key a p, ui_Body = source,
    ui_ContentType = optionalString (wo_ContentType opts), ui_Metadata = wo_Metadata opts,
    ui_IfNoneMatch = (if wo_IfNoneMatch opts then Some ''*'' else None)\<rparr>"
  obtain e' s' where run: "uc_UploadObject (s3_uploader a) ?in (s3_uploadOptions a) s Background =
      (Err e', s', Background)" and same: "objs s' = objs s"
    using upload_runs [OF up, of ?in "s3_uploadOptions a" s] source by (auto simp: upload_outcome_def)
  have "s3_cloneMetadata a (wo_Metadata opts) = Ok (wo_Metadata opts)" using md by (simp add: admits_def)
  with run p have "s3_Write env a p source opts s Background = (Err (s3_mapError env p e'), s', Background)"
    by (simp add: s3_Write_def)
  moreover have "s3_view a objs s' = s3_view a objs s" using same by (rule s3_unchanged(1))
  ultimately show ?thesis by blast
qed

lemma s3_Delete_store:
  assumes ok: "s3_ok a" and ch: "serves_changes a objs" and good: "s3_good a objs s"
    and p: "wf_path p" "\<not> IsRoot p"
  shows "implements (s3_good a objs) (s3_view a objs) (s3_view a objs s) (s3_Delete env a p s Background)
    (Inr ((s3_view a objs s)(p := None)))"
proof -
  from ch obtain s' where run: "oc_DeleteObject (s3_client a) (s3_bucket a) (s3_key a p) s Background =
      (Ok (), s', Background)" and new: "objs s' = (objs s)(s3_key a p := None)"
    unfolding serves_changes_def by blast
  with s3_view_update [OF ok p new] s3_good_delete [OF good new] show ?thesis
    by (simp add: implements_def s3_Delete_def mapping_error_def)
qed

lemma copy_cases:
  assumes "serves_changes a objs" and "ci_Bucket input = s3_bucket a"
    and "ci_CopySource input = url_PathEscape (s3_bucket a @ ''/'' @ source)"
  obtains "objs s source = None"
      "oc_CopyObject (s3_client a) input s Background = (Err (CodedError ''NoSuchKey''), s, Background)"
  | content md s' where "objs s source = Some (content, md)"
      "oc_CopyObject (s3_client a) input s Background = (Ok (), s', Background)"
      "objs s' = (objs s)(ci_Key input \<mapsto> (content, if ci_Replace input then ci_Metadata input else md))"
proof -
  from assms have "case objs s source of
            None \<Rightarrow> oc_CopyObject (s3_client a) input s Background =
              (Err (CodedError ''NoSuchKey''), s, Background)
          | Some (content, md) \<Rightarrow> \<exists>s'.
              oc_CopyObject (s3_client a) input s Background = (Ok (), s', Background) \<and>
              objs s' = (objs s)(ci_Key input \<mapsto>
                (content, if ci_Replace input then ci_Metadata input else md))"
    unfolding serves_changes_def by blast
  then show thesis using that by (auto split: option.splits)
qed

lemma s3_Copy_store:
  assumes ok: "s3_ok a" and ch: "serves_changes a objs" and good: "s3_good a objs s"
    and p: "wf_path p" "\<not> IsRoot p" and q: "wf_path q" "\<not> IsRoot q"
  shows "implements (s3_good a objs) (s3_view a objs) (s3_view a objs s)
    (s3_Copy env a p q \<lparr>co_Overwrite = True\<rparr> s Background) (spec_copy (s3_view a objs s) p q True)"
proof -
  let ?in = "\<lparr>ci_Bucket = s3_bucket a, ci_Key = s3_key a q,
    ci_CopySource = url_PathEscape (s3_bucket a @ ''/'' @ s3_key a p),
    ci_Metadata = None, ci_Replace = False, ci_ContentType = None\<rparr>"
  show ?thesis
  proof (rule copy_cases [OF ch, of ?in "s3_key a p" s])
    assume "objs s (s3_key a p) = None"
      "oc_CopyObject (s3_client a) ?in s Background = (Err (CodedError ''NoSuchKey''), s, Background)"
    with good p show ?thesis
      by (simp add: implements_def spec_copy_def s3_Copy_def mapping_error_def s3_view_def at_path_def)
  next
    fix content md s'
    assume x: "objs s (s3_key a p) = Some (content, md)"
      and run: "oc_CopyObject (s3_client a) ?in s Background = (Ok (), s', Background)"
      and new: "objs s' = (objs s)(ci_Key ?in \<mapsto> (content, if ci_Replace ?in then ci_Metadata ?in else md))"
    from new have new: "objs s' = (objs s)(s3_key a q \<mapsto> (content, md))" by simp
    have V: "s3_view a objs s p = Some (s3_file content md)" using x p by (simp add: s3_view_def)
    from s3_good_update [OF good new s3_good_admits [OF good x]] s3_view_update [OF ok q new] run V
    show ?thesis by (simp add: implements_def spec_copy_def s3_Copy_def mapping_error_def)
  qed simp_all
qed

lemma s3_SetMetadata_store:
  assumes ok: "s3_ok a" and reads: "serves_reads a objs" and ch: "serves_changes a objs"
    and good: "s3_good a objs s" and p: "wf_path p" "\<not> IsRoot p" and md: "admits a md"
  shows "implements (s3_good a objs) (s3_view a objs) (s3_view a objs s)
    (s3_SetMetadata env a p md s Background)
    (spec_update (s3_view a objs s) p (\<lambda>f. f\<lparr>f_metadata := md\<rparr>))"
proof (cases "objs s (s3_key a p)")
  case None
  with s3_Stat_store [OF reads good, where p = p and env = env] good p md show ?thesis
    by (simp add: implements_def spec_update_def s3_SetMetadata_def admits_def s3_view_def at_path_def)
next
  case (Some x)
  then obtain content old where x: "objs s (s3_key a p) = Some (content, old)" by (cases x) auto
  with s3_Stat_store [OF reads good, where p = p and env = env] obtain m where
    stat: "s3_Stat env a p s Background = (Ok m, s, Background)" by auto
  let ?in = "\<lparr>ci_Bucket = s3_bucket a, ci_Key = s3_key a p,
    ci_CopySource = url_PathEscape (s3_bucket a @ ''/'' @ s3_key a p), ci_Metadata = md,
    ci_Replace = True, ci_ContentType = optionalString (m_ContentType m)\<rparr>"
  show ?thesis
  proof (rule copy_cases [OF ch, of ?in "s3_key a p" s])
    fix content' old' s'
    assume y: "objs s (s3_key a p) = Some (content', old')"
      and run: "oc_CopyObject (s3_client a) ?in s Background = (Ok (), s', Background)"
      and new: "objs s' = (objs s)(ci_Key ?in \<mapsto> (content', if ci_Replace ?in then ci_Metadata ?in else old'))"
    from x y new have new: "objs s' = (objs s)(s3_key a p \<mapsto> (content, md))" by simp
    have V: "s3_view a objs s p = Some (s3_file content old)" using x p by (simp add: s3_view_def)
    from s3_good_update [OF good new md] s3_view_update [OF ok p new] run V stat md show ?thesis
      by (simp add: implements_def spec_update_def s3_SetMetadata_def admits_def mapping_error_def Let_def)
  qed (use x in simp_all)
qed


section \<open>Temporary URLs\<close>

definition printable :: "string \<Rightarrow> bool" where
  "printable s = list_all (\<lambda>c. 0x20 \<le> (of_char c :: nat) \<and> (of_char c :: nat) < 0x7F) s"

lemma cont_mod: "128 \<le> x \<Longrightarrow> x < 192 \<Longrightarrow> x mod 64 = x - (128 :: nat)"
  by (simp add: le_mod_geq [of 64 x] le_mod_geq [of 64 "x - 64"])

lemma decode_rune_nonascii:
  assumes "0x80 \<le> b" shows "0x80 \<le> fst (decode_rune b bs)"
proof -
  have two: "128 \<le> b mod 32 * 64 + x" if "194 \<le> b" "b < 224" for x
  proof -
    have "2 \<le> b mod 32" using that by presburger
    then show ?thesis by linarith
  qed
  have three: "128 \<le> b mod 16 * 4096 + x mod 64 * 64 + y" if "224 \<le> b" "b < 240" "second_ok b x" for x y
  proof (cases "b = 224")
    case True
    with that(3) have "32 \<le> x mod 64" by (auto simp: second_ok_def cont_mod)
    then show ?thesis by linarith
  next
    case False
    with that have "1 \<le> b mod 16" by presburger
    then show ?thesis by linarith
  qed
  have four: "128 \<le> b mod 8 * 262144 + x mod 64 * 4096 + y mod 64 * 64 + z"
    if "240 \<le> b" "b \<le> 244" "second_ok b x" for x y z
  proof (cases "b = 240")
    case True
    with that(3) have "16 \<le> x mod 64" by (auto simp: second_ok_def cont_mod)
    then show ?thesis by linarith
  next
    case False
    with that have "1 \<le> b mod 8" by presburger
    then show ?thesis by linarith
  qed
  show ?thesis
    using assms two three four by (auto simp: decode_rune_def rune_error_def not_less split: list.splits)
qed

lemma ascii_runes: "\<forall>r\<in>set (runes bs). r < 0x80 \<Longrightarrow> runes bs = bs"
proof (induction bs rule: runes.induct)
  case (2 b bs)
  have "b < 0x80"
  proof (rule ccontr)
    assume "\<not> b < 0x80"
    with decode_rune_nonascii [of b bs] have "0x80 \<le> fst (decode_rune b bs)" by simp
    with 2(2) show False by simp
  qed
  with 2 show ?case by simp
qed simp

lemma printable_append [simp]: "printable (s @ t) \<longleftrightarrow> printable s \<and> printable t"
  by (simp add: printable_def)

lemma printable_concat: "printable (concat ss) \<longleftrightarrow> (\<forall>s\<in>set ss. printable s)"
  by (induction ss) (simp_all add: printable_def)

lemma printable_percent: "printable (percent c)"
proof -
  have "(of_char c :: nat) < 256" by simp
  then have "(of_char c :: nat) div 16 < 16" by (intro less_mult_imp_div_less) simp
  then show ?thesis by (auto simp: printable_def percent_def hex_upper_def)
qed

lemma plain_name:
  assumes "\<not> needsEncoding name" and "\<not> containsControl name"
  shows "printable name"
proof -
  have "\<forall>r\<in>set (runes (bytes_of name)). 0x20 \<le> r \<and> r \<le> 0x7E"
    using assms by (fastforce simp: needsEncoding_def containsControl_def IsControl_def list_ex_iff not_less)
  moreover from this have "runes (bytes_of name) = bytes_of name" by (intro ascii_runes) force
  ultimately have "\<forall>b\<in>set (bytes_of name). 0x20 \<le> b \<and> b \<le> 0x7E" by metis
  then show ?thesis by (force simp: printable_def list_all_iff)
qed

lemma printable_attachment:
  assumes "\<not> containsControl name" shows "printable (format_attachment name)"
proof -
  have "printable [c]" if "attribute_char c" for c
    using that by (auto simp: attribute_char_def printable_def less_eq_char_def less_char_def not_le)
  then have enc: "printable (concat (map (\<lambda>c. if attribute_char c then [c] else percent c) name))"
    by (auto simp: printable_concat printable_percent)
  have quoted: "printable (concat (map (\<lambda>c. if c = CHR 0x22 \<or> c = backslash then [backslash, c] else [c]) name))"
    if "printable name"
    using that by (auto simp: printable_concat printable_def list_all_iff)
  have lit: "printable ''attachment; filename*=utf-8''" "printable ''attachment; filename=''"
    "printable [CHR 0x27, CHR 0x27]" "printable [CHR 0x22]"
    by (simp_all add: printable_def)
  show ?thesis
    using enc quoted plain_name [OF _ assms] unfolding format_attachment_def
    by (simp only: printable_append lit simp_thms split: if_splits) blast
qed

text \<open>
  (C36) A temporary URL is only signed for a lifetime of at most seven days, for the key of the
  named path, and with a content disposition of printable ASCII characters, so that a download
  name cannot inject a header; otherwise the call fails and nothing is signed.
\<close>

theorem TemporaryURL_guarded:
  "(\<exists>e. s3_TemporaryURL env a p lifetime opts s c = (Err e, s, c)) \<or>
   (\<exists>input. s3_TemporaryURL env a p lifetime opts s c =
        mapping_error (s3_mapError env p) (pc_PresignGetObject (s3_presigner a) input lifetime s c) \<and>
      0 < lifetime \<and> lifetime \<le> 7 * 24 * 3600 * 1000000000 \<and>
      gi_Bucket input = s3_bucket a \<and> gi_Key input = s3_key a p \<and>
      (case gi_ResponseContentDisposition input of None \<Rightarrow> True | Some d \<Rightarrow> printable d))"
  by (auto simp: s3_TemporaryURL_def validTemporaryURLLifetime_def maximumTemporaryURLLifetime_def
      get_object_def Let_def printable_attachment)

section \<open>A small service\<close>

text \<open>
  The copy source is decodable, and a bucket held in memory, with a listing of two items served
  one per page, behaves as the hypotheses above say.
\<close>

definition unhex :: "char \<Rightarrow> nat" where
  "unhex c = (if c \<le> CHR ''9'' then of_char c - 48 else of_char c - 55)"

fun path_unescape :: "string \<Rightarrow> string" where
  "path_unescape (c # x # y # r) =
     (if c = CHR ''%'' then char_of (16 * unhex x + unhex y) # path_unescape r
      else c # path_unescape (x # y # r))"
| "path_unescape (c # r) = c # path_unescape r"
| "path_unescape [] = []"

lemma unhex_upper: "n < 16 \<Longrightarrow> unhex (hex_upper n) = n"
  by (simp add: unhex_def hex_upper_def less_eq_char_def)

lemma path_unescape_escape: "path_unescape (url_PathEscape s) = s"
proof (induction s)
  case (Cons c s)
  have plain: "path_unescape (c # r) = c # path_unescape r" if "c \<noteq> CHR ''%''" for r
    using that by (cases r rule: path_unescape.cases) auto
  have "(of_char c :: nat) < 16 * 16" by simp
  then have "(of_char c :: nat) div 16 < 16" by (rule less_mult_imp_div_less)
  then have "16 * unhex (hex_upper (of_char c div 16)) + unhex (hex_upper (of_char c mod 16)) = of_char c"
    by (simp add: unhex_upper)
  then have "path_unescape (percent c @ r) = c # path_unescape r" for r
    by (simp add: percent_def)
  moreover have "path_unescaped c \<Longrightarrow> c \<noteq> CHR ''%''" by (auto simp: path_unescaped_def alnum_def)
  ultimately show ?case using Cons plain by (simp add: url_PathEscape_def)
qed (simp add: url_PathEscape_def)

definition sample_items :: "item list" where
  "sample_items =
     [Object \<lparr>so_Key = Some ''t/a'', so_Size = Some 1, so_LastModified = None\<rparr>, Common (Some ''t/d/'')]"

definition sample_pos :: "string option \<Rightarrow> nat" where
  "sample_pos token = (case token of None \<Rightarrow> 0 | Some t \<Rightarrow> length t)"

definition sample_page :: "nat \<Rightarrow> ListObjectsV2Output" where
  "sample_page start =
     \<lparr>lv_Contents = List.map_filter object_of (take 1 (drop start sample_items)),
      lv_CommonPrefixes = List.map_filter common_of (take 1 (drop start sample_items)),
      lv_IsTruncated = Some (start + 1 < length sample_items),
      lv_NextContinuationToken = Some (replicate (start + 1) CHR ''x'')\<rparr>"

definition sample_client :: "bucket objectClient" where
  "sample_client =
     \<lparr>oc_GetObject = (\<lambda>input s c. case s (gi_Key input) of
          None \<Rightarrow> (Err (CodedError ''NoSuchKey''), s, c)
        | Some (content, md) \<Rightarrow> (Ok (bytes_stream content), s, c)),
      oc_HeadObject = (\<lambda>bucket key s c. case s key of
          None \<Rightarrow> (Err (CodedError ''NotFound''), s, c)
        | Some (content, md) \<Rightarrow> (Ok \<lparr>ho_ContentLength = Some (go_len content), ho_LastModified = None,
            ho_ETag = None, ho_ContentType = None, ho_Metadata = md\<rparr>, s, c)),
      oc_DeleteObject = (\<lambda>bucket key s c. (Ok (), s(key := None), c)),
      oc_CopyObject = (\<lambda>input s c. case s (drop 2 (path_unescape (ci_CopySource input))) of
          None \<Rightarrow> (Err (CodedError ''NoSuchKey''), s, c)
        | Some (content, md) \<Rightarrow>
            (Ok (), s(ci_Key input \<mapsto> (content, if ci_Replace input then ci_Metadata input else md)), c)),
      oc_ListObjectsV2 = (\<lambda>input s c.
         (Ok (sample_page (sample_pos (li_ContinuationToken input))), s, c))\<rparr>"

definition sample_uploader :: "(bucket, unit) uploadClient" where
  "sample_uploader =
     \<lparr>uc_UploadObject = (\<lambda>input opts s c. case io_copy (ui_Body input) of
          (content, Some e) \<Rightarrow> (Err e, s, c)
        | (content, None) \<Rightarrow>
            if ui_IfNoneMatch input = Some ''*'' \<and> s (ui_Key input) \<noteq> None
            then (Err (CodedError ''PreconditionFailed''), s, c)
            else (Ok (), s(ui_Key input \<mapsto> (content, ui_Metadata input)), c))\<rparr>"

definition sample_presigner :: "bucket presignClient" where
  "sample_presigner = \<lparr>pc_PresignGetObject = (\<lambda>input lifetime s c. (Ok (gi_Key input), s, c))\<rparr>"

definition sample_s3 :: "(bucket, unit) s3_adapter" where
  "sample_s3 =
     \<lparr>s3_client = sample_client, s3_uploader = sample_uploader, s3_presigner = sample_presigner,
      s3_adapterName = ''s3'', s3_bucket = ''b'', s3_prefix = ''t'', s3_maxList = 10000,
      s3_maxMetadataEntries = 128, s3_maxMetadataBytes = 65536, s3_uploadOptions = [],
      s3_capabilities = (case NewCapabilitySet s3_capability_list of Ok cs \<Rightarrow> cs
        | _ \<Rightarrow> \<lparr>cs_values = [], cs_index = {}\<rparr>)\<rparr>"

lemma sample_s3_New:
  "s3_newAdapter (Some sample_client) (Some sample_uploader) (Some sample_presigner)
     ((initial_config ''s3'' ''b'')\<lparr>sc_prefix := ''t''\<rparr>) = Ok sample_s3"
proof -
  have "normalized_prefix ''t'' = Ok ''t''" "\<not> blank ''b''" by code_simp+
  moreover have "\<not> is_panic (NewCapabilitySet s3_capability_list)"
    "err_of (NewCapabilitySet s3_capability_list) = None" by code_simp+
  then obtain cs where "NewCapabilitySet s3_capability_list = Ok cs"
    by (cases "NewCapabilitySet s3_capability_list") simp_all
  ultimately show ?thesis
    by (simp add: s3_newAdapter_def initial_config_def default_limits_def validateMetadataLimits_def
        defaultMaxMetadataEntries_def defaultMaxMetadataBytes_def sample_s3_def)
qed

lemmas sample_defs = sample_s3_def sample_client_def sample_uploader_def

lemma sample_serves:
  "serves_reads sample_s3 (\<lambda>s. s)" "serves_upload sample_s3 (\<lambda>s. s)" "serves_changes sample_s3 (\<lambda>s. s)"
proof -
  show "serves_reads sample_s3 (\<lambda>s. s)"
    by (auto simp: serves_reads_def sample_defs stream_of_def bytes_stream_def split: option.split)
  show "serves_upload sample_s3 (\<lambda>s. s)"
    by (auto simp: serves_upload_def upload_outcome_def sample_defs split: option.split prod.split)
  show "serves_changes sample_s3 (\<lambda>s. s)"
    by (auto simp: serves_changes_def sample_defs path_unescape_escape split: option.split)
qed

theorem s3_keys_roundtrip_witness:
  "s3_logicalPath sample_s3 (s3_key sample_s3 \<lparr>pvalue = ''a/b''\<rparr>) False = Some \<lparr>pvalue = ''a/b''\<rparr> \<and>
   s3_key sample_s3 \<lparr>pvalue = ''a/b''\<rparr> \<noteq> s3_key sample_s3 \<lparr>pvalue = ''c''\<rparr>"
proof -
  have "wf_path \<lparr>pvalue = ''a/b''\<rparr>" "\<not> IsRoot \<lparr>pvalue = ''a/b''\<rparr>" "wf_path \<lparr>pvalue = ''c''\<rparr>"
    "\<not> IsRoot \<lparr>pvalue = ''c''\<rparr>"
    by code_simp+
  from s3_keys_roundtrip [OF sample_s3_New this] show ?thesis by simp
qed

lemma sample_lists:
  "lists_items (s3_client sample_s3) s input sample_pos sample_items"
proof -
  have "answers_page (sample_page n) n (nat (sint m)) sample_pos sample_items" if "0 < sint (m :: 32 word)" for n m
  proof -
    have "1 \<le> nat (sint m)" using that by simp
    then show ?thesis
      unfolding answers_page_def
      by (intro exI [of _ 1]) (simp add: page_of_def sample_page_def paginationComplete_def sample_pos_def)
  qed
  then show ?thesis by (simp add: lists_items_def sample_defs sample_pos_def)
qed

theorem s3_List_exact_witness:
  "\<exists>it. s3_List \<lparr>re_url = sample_lib, re_text = (\<lambda>_. [])\<rparr> sample_s3 Root
      \<lparr>lo_Recursive = False, lo_Limit = 0\<rparr> Map.empty Background = Some (Ok it, Map.empty, Background) \<and>
    sorted (map entry_key (si_pending it)) \<and>
    mset (si_pending it) = mset (take 10000 (entries_of sample_s3 sample_items))"
proof -
  have lim: "(10000 :: int64) = s3_effectiveListLimit 0 (s3_maxList sample_s3)"
    by (simp add: s3_effectiveListLimit_def sample_s3_def)
  have n: "nat (sint (10000 :: int64)) = 10000" by simp
  show ?thesis
    using s3_List_exact [where opts = "\<lparr>lo_Recursive = False, lo_Limit = 0\<rparr>" and limit = 10000,
      OF s3_newAdapter_ok [OF sample_s3_New] _ _ sample_lists] lim unfolding n by simp
qed


end
