(* ===== verification/R2_Adapter.thy ===== *)
theory R2_Adapter
  imports S3_Theorems
begin

text \<open>
  The Cloudflare R2 profile over the S3 transport: \<^verbatim>\<open>src/r2/r2.go\<close>.

  The AWS configuration loader, the client constructor and the predicate of \<^verbatim>\<open>net\<close> that
  recognizes a loopback address are parameters (\<open>r2_libs\<close>); an HTTP client is an opaque value
  of type \<open>'h\<close>, a loaded configuration one of type \<open>'c\<close>. A nil option, transfer option or
  client is \<open>None\<close>.
\<close>

section \<open>Configuration\<close>

record r2_Config =
  rc_AccountID :: string
  rc_Bucket :: string
  rc_AccessKeyID :: string
  rc_SecretAccessKey :: string
  rc_Prefix :: string

record r2_Profile =
  rp_Endpoint :: string
  rp_Region :: string
  rp_PathStyle :: bool
  rp_SupportsACL :: bool
  rp_SupportsCopyChecksums :: bool
  rp_MultipartRequiresUniformPartSize :: bool

record ('o, 'h) r2_settings =
  rs_endpoint :: string
  rs_developmentEndpoint :: bool
  rs_maxListEntries :: int64
  rs_maxMetadataEntries :: int64
  rs_maxMetadataBytes :: int64
  rs_transferOptions :: "'o option list"
  rs_httpClient :: "'h option"
  rs_httpClientSet :: bool

type_synonym ('o, 'h) r2_option = "('o, 'h) r2_settings \<Rightarrow> ('o, 'h) r2_settings"

definition WithEndpoint :: "string \<Rightarrow> ('o, 'h) r2_option" where
  "WithEndpoint endpoint configuration =
     configuration\<lparr>rs_endpoint := endpoint, rs_developmentEndpoint := False\<rparr>"

definition WithDevelopmentEndpoint :: "string \<Rightarrow> ('o, 'h) r2_option" where
  "WithDevelopmentEndpoint endpoint configuration =
     configuration\<lparr>rs_endpoint := endpoint, rs_developmentEndpoint := True\<rparr>"

definition r2_WithMaxListEntries :: "int64 \<Rightarrow> ('o, 'h) r2_option" where
  "r2_WithMaxListEntries limit configuration = configuration\<lparr>rs_maxListEntries := limit\<rparr>"

definition r2_WithMetadataLimits :: "int64 \<Rightarrow> int64 \<Rightarrow> ('o, 'h) r2_option" where
  "r2_WithMetadataLimits maxEntries maxBytes configuration =
     configuration\<lparr>rs_maxMetadataEntries := maxEntries, rs_maxMetadataBytes := maxBytes\<rparr>"

definition r2_WithTransferOptions :: "'o option list \<Rightarrow> ('o, 'h) r2_option" where
  "r2_WithTransferOptions options configuration =
     configuration\<lparr>rs_transferOptions := rs_transferOptions configuration @ options\<rparr>"

definition WithHTTPClient :: "'h option \<Rightarrow> ('o, 'h) r2_option" where
  "WithHTTPClient client configuration =
     configuration\<lparr>rs_httpClient := client, rs_httpClientSet := True\<rparr>"

section \<open>Validation\<close>

definition hex_char :: "char \<Rightarrow> bool" where
  "hex_char c =
     ((CHR ''0'' \<le> c \<and> c \<le> CHR ''9'') \<or> (CHR ''a'' \<le> c \<and> c \<le> CHR ''f'') \<or>
      (CHR ''A'' \<le> c \<and> c \<le> CHR ''F''))"

text \<open>The pattern \<^verbatim>\<open>^[0-9a-fA-F]{32}$\<close>.\<close>

definition account_id :: "string \<Rightarrow> bool" where
  "account_id s = (length s = 32 \<and> list_all hex_char s)"

definition r2_validateLimits :: "('o, 'h) r2_settings \<Rightarrow> unit res" where
  "r2_validateLimits configuration =
     (if sint (rs_maxListEntries configuration) \<le> 0
      then Err (New ''r2: maximum list entries must be positive'')
      else if sint (rs_maxMetadataEntries configuration) \<le> 0
      then Err (New ''r2: maximum metadata entries must be positive'')
      else if sint (rs_maxMetadataBytes configuration) \<le> 0
      then Err (New ''r2: maximum metadata bytes must be positive'')
      else Ok ())"

text \<open>\<open>loopback\<close> is \<^verbatim>\<open>net.ParseIP(host) != nil\<close> and \<^verbatim>\<open>IsLoopback\<close> of that address.\<close>

definition isLoopback :: "(string \<Rightarrow> bool) \<Rightarrow> string \<Rightarrow> bool" where
  "isLoopback loopback host =
     (if fold_match ''localhost'' host = Some [] then True else loopback host)"

definition validateEndpoint :: "net_url \<Rightarrow> (string \<Rightarrow> bool) \<Rightarrow> string \<Rightarrow> bool \<Rightarrow> string res" where
  "validateEndpoint lib loopback raw development =
     (case url_Parse lib raw of
        None \<Rightarrow> Err (New ''r2: endpoint must be an absolute URL'')
      | Some parsed \<Rightarrow>
          if url_Hostname lib parsed = [] then Err (New ''r2: endpoint must be an absolute URL'')
          else if url_User parsed \<noteq> None then Err (New ''r2: endpoint must not contain credentials'')
          else if url_RawQuery parsed \<noteq> [] \<or> url_Fragment parsed \<noteq> []
          then Err (New ''r2: endpoint must not contain a query or fragment'')
          else if url_Path parsed \<noteq> [] \<and> url_Path parsed \<noteq> ''/''
          then Err (New ''r2: endpoint must not contain a path'')
          else if development \<and> url_Scheme parsed \<noteq> ''http'' \<and> url_Scheme parsed \<noteq> ''https''
          then Err (New ''r2: development endpoint must use HTTP or HTTPS'')
          else if development \<and> \<not> isLoopback loopback (url_Hostname lib parsed)
          then Err (New ''r2: development endpoint must use loopback'')
          else if \<not> development \<and> url_Scheme parsed \<noteq> ''https''
          then Err (New ''r2: endpoint must use HTTPS'')
          else Ok (TrimSuffix (url_String lib (parsed\<lparr>url_Path := []\<rparr>)) ''/''))"

section \<open>Loading\<close>

record 'h load_options =
  ld_Region :: string
  ld_AccessKeyID :: string
  ld_SecretAccessKey :: string
  ld_HTTPClient :: "'h option"

record ('s, 'o, 'h, 'c) r2_libs =
  rl_env :: redact_env
  rl_loopback :: "string \<Rightarrow> bool"
  rl_loader :: "'h load_options \<Rightarrow> ctx \<Rightarrow> 'c res \<times> ctx"
  rl_NewFromConfig :: "'c \<Rightarrow> string \<Rightarrow> bool \<Rightarrow> 's objectClient" \<comment> \<open>endpoint, path style\<close>
  rl_newTransport ::
    "'s objectClient option \<Rightarrow> string \<Rightarrow> 'o s3_option list \<Rightarrow> ('s, 'o) s3_adapter res"

record ('s, 'o) r2_adapter =
  ra_Adapter :: "('s, 'o) s3_adapter"
  ra_client :: "'s objectClient"
  ra_profile :: r2_Profile

definition default_settings :: "('o, 'h) r2_settings" where
  "default_settings =
     \<lparr>rs_endpoint = [], rs_developmentEndpoint = False, rs_maxListEntries = 10000,
      rs_maxMetadataEntries = 128, rs_maxMetadataBytes = 64 * 1024, rs_transferOptions = [],
      rs_httpClient = None, rs_httpClientSet = False\<rparr>"

fun r2_apply :: "('o, 'h) r2_settings \<Rightarrow> ('o, 'h) r2_option option list \<Rightarrow> ('o, 'h) r2_settings res" where
  "r2_apply configuration [] = Ok configuration"
| "r2_apply configuration (None # options) = Err (New ''r2: option must not be nil'')"
| "r2_apply configuration (Some option # options) = r2_apply (option configuration) options"

text \<open>The checks of the configuration, before anything is loaded: the endpoint to use.\<close>

definition check_identity :: "r2_Config \<Rightarrow> unit res" where
  "check_identity configuration =
     (if \<not> account_id (rc_AccountID configuration)
      then Err (New ''r2: account ID must be 32 hexadecimal characters'')
      else if blank (rc_Bucket configuration) then Err (New ''r2: bucket is required'')
      else if rc_AccessKeyID configuration = [] then Err (New ''r2: access key ID is required'')
      else if rc_SecretAccessKey configuration = [] then Err (New ''r2: secret access key is required'')
      else Ok ())"

definition check_settings ::
  "('s, 'o, 'h, 'c) r2_libs \<Rightarrow> r2_Config \<Rightarrow> ('o, 'h) r2_settings \<Rightarrow> string res" where
  "check_settings libs configuration st =
     (if None \<in> set (rs_transferOptions st) then Err (New ''r2: transfer option must not be nil'')
      else if rs_httpClientSet st \<and> rs_httpClient st = None
      then Err (New ''r2: HTTP client must not be nil'')
      else let endpoint = (if rs_endpoint st = []
             then ''https://'' @ map to_lower (rc_AccountID configuration) @ ''.r2.cloudflarestorage.com''
             else rs_endpoint st)
      in bind_res (validateEndpoint (re_url (rl_env libs)) (rl_loopback libs) endpoint
             (rs_developmentEndpoint st))
           (\<lambda>endpoint. bind_res (r2_validateLimits st)
             (\<lambda>_. if rc_Prefix configuration = [] then Ok endpoint
                else (case ParsePath (rc_Prefix configuration) of
                  Err e \<Rightarrow> Err (Errorf ''r2: invalid prefix: %w'' [] [e])
                | Panic e \<Rightarrow> Panic e
                | Ok _ \<Rightarrow> Ok endpoint))))"

definition poll_ctx :: "ctx \<Rightarrow> (ctx \<Rightarrow> 'a res \<times> ctx) \<Rightarrow> 'a res \<times> ctx" where
  "poll_ctx c k = (case ctx_Err c of (Some e, c') \<Rightarrow> (Err e, c') | (None, c') \<Rightarrow> k c')"

definition r2_transport_options :: "r2_Config \<Rightarrow> ('o, 'h) r2_settings \<Rightarrow> 'o s3_option list" where
  "r2_transport_options configuration st =
     [s3_WithMaxListEntries (rs_maxListEntries st),
      s3_WithMetadataLimits (rs_maxMetadataEntries st) (rs_maxMetadataBytes st)] @
     (if rc_Prefix configuration \<noteq> [] then [s3_WithPrefix (rc_Prefix configuration)] else []) @
     [s3_WithTransferOptions (map the (rs_transferOptions st))]"

definition r2_load ::
  "('s, 'o, 'h, 'c) r2_libs \<Rightarrow> r2_Config \<Rightarrow> ('o, 'h) r2_settings \<Rightarrow> string \<Rightarrow> ctx \<Rightarrow>
    ('s, 'o) r2_adapter res \<times> ctx" where
  "r2_load libs configuration st endpoint c =
     (case rl_loader libs \<lparr>ld_Region = ''auto'', ld_AccessKeyID = rc_AccessKeyID configuration,
          ld_SecretAccessKey = rc_SecretAccessKey configuration, ld_HTTPClient = rs_httpClient st\<rparr> c of
        (Err e, c') \<Rightarrow>
          (Err (Errorf ''r2: load AWS configuration: %w'' []
            [sanitize_error (re_url (rl_env libs)) (re_text (rl_env libs))
               [rc_AccessKeyID configuration, rc_SecretAccessKey configuration] e]), c')
      | (Panic e, c') \<Rightarrow> (Panic e, c')
      | (Ok awsConfiguration, c') \<Rightarrow> poll_ctx c' (\<lambda>c'.
          let client = rl_NewFromConfig libs awsConfiguration endpoint True in
          (bind_res (rl_newTransport libs (Some client) (rc_Bucket configuration)
              (r2_transport_options configuration st))
             (\<lambda>transport. Ok
                \<lparr>ra_Adapter = transport, ra_client = client,
                 ra_profile = \<lparr>rp_Endpoint = endpoint, rp_Region = ''auto'', rp_PathStyle = True,
                   rp_SupportsACL = False, rp_SupportsCopyChecksums = False,
                   rp_MultipartRequiresUniformPartSize = True\<rparr>\<rparr>), c')))"

definition newWithLoaderAndTransport ::
  "('s, 'o, 'h, 'c) r2_libs \<Rightarrow> ctx option \<Rightarrow> r2_Config \<Rightarrow> ('o, 'h) r2_option option list \<Rightarrow>
    ('s, 'o) r2_adapter res \<times> ctx option" where
  "newWithLoaderAndTransport libs ctx configuration options =
     (case ctx of
        None \<Rightarrow> (Err (Sentinel ErrContextRequired), None)
      | Some c \<Rightarrow> map_prod id Some (poll_ctx c (\<lambda>c.
          case bind_res (check_identity configuration) (\<lambda>_. r2_apply default_settings options) of
            Err e \<Rightarrow> (Err e, c)
          | Panic e \<Rightarrow> (Panic e, c)
          | Ok st \<Rightarrow>
              (case check_settings libs configuration st of
                 Err e \<Rightarrow> (Err e, c)
               | Panic e \<Rightarrow> (Panic e, c)
               | Ok endpoint \<Rightarrow> poll_ctx c (r2_load libs configuration st endpoint)))))"

text \<open>\<^verbatim>\<open>Load\<close> works with the transport of package s3.\<close>

definition r2_Load ::
  "('s, 'o) aws_sdk \<Rightarrow> ('s, 'o, 'h, 'c) r2_libs \<Rightarrow> ctx option \<Rightarrow> r2_Config \<Rightarrow>
    ('o, 'h) r2_option option list \<Rightarrow> ('s, 'o) r2_adapter res \<times> ctx option" where
  "r2_Load sdk libs = newWithLoaderAndTransport (libs\<lparr>rl_newTransport := NewR2Transport sdk\<rparr>)"

definition r2_Capabilities :: "('s, 'o) r2_adapter \<Rightarrow> CapabilitySet" where
  "r2_Capabilities a = s3_capabilities (ra_Adapter a)"

section \<open>Lemmas\<close>

definition endpoint_ok :: "net_url \<Rightarrow> (string \<Rightarrow> bool) \<Rightarrow> string \<Rightarrow> bool" where
  "endpoint_ok lib loopback endpoint =
     (\<exists>raw u. url_Parse lib raw = Some u \<and> url_Hostname lib u \<noteq> [] \<and> url_User u = None \<and>
        url_RawQuery u = [] \<and> url_Fragment u = [] \<and> url_Path u \<in> {[], ''/''} \<and>
        (url_Scheme u = ''https'' \<or> url_Scheme u = ''http'' \<and> isLoopback loopback (url_Hostname lib u)) \<and>
        endpoint = TrimSuffix (url_String lib (u\<lparr>url_Path := []\<rparr>)) ''/'')"

lemma validateEndpoint_ok:
  "validateEndpoint lib loopback raw development = Ok endpoint \<Longrightarrow> endpoint_ok lib loopback endpoint"
  by (auto simp: validateEndpoint_def endpoint_ok_def split: option.splits if_splits)

lemma poll_ctx_Ok:
  "poll_ctx c k = (Ok a, c'') \<Longrightarrow> \<exists>c'. k c' = (Ok a, c'')"
  by (auto simp: poll_ctx_def split: prod.splits option.splits)

lemma map_prod_Some_iff: "map_prod id Some x = (a, b) \<longleftrightarrow> (\<exists>c. x = (a, c) \<and> b = Some c)"
  by (cases x) auto

lemma case_res_Ok_iff:
  "(case r of Ok x \<Rightarrow> f x | Err e \<Rightarrow> (Err e, c) | Panic e \<Rightarrow> (Panic e, c)) = (Ok a, c') \<longleftrightarrow>
    (\<exists>x. r = Ok x \<and> f x = (Ok a, c'))"
  by (cases r) simp_all

lemma check_identity_Ok:
  "check_identity cf = Ok u \<Longrightarrow> account_id (rc_AccountID cf) \<and> \<not> blank (rc_Bucket cf) \<and>
    rc_AccessKeyID cf \<noteq> [] \<and> rc_SecretAccessKey cf \<noteq> []"
  by (auto simp: check_identity_def split: if_splits)

lemma check_settings_Ok:
  "check_settings libs cf st = Ok endpoint \<Longrightarrow> endpoint_ok (re_url (rl_env libs)) (rl_loopback libs) endpoint"
  by (auto simp: check_settings_def Let_def bind_res_Ok_iff dest!: validateEndpoint_ok
      split: if_splits res.splits)

lemma transport_named:
  assumes "NewR2Transport sdk client bucket (r2_transport_options cf st) = Ok a"
  shows "s3_ok a" and "s3_adapterName a = ''r2''" and "s3_bucket a = bucket"
proof -
  from assms obtain oc configuration where
      cfg: "s3_apply (initial_config ''r2'' bucket) (r2_transport_options cf st) = Ok configuration"
    and new: "s3_newAdapter client (sdk_NewTransferManager sdk oc (sc_uploadOptions configuration))
      (sdk_NewPresignClient sdk oc) configuration = Ok a"
    by (auto simp: NewR2Transport_def bind_res_Ok_iff split: option.splits)
  from new show "s3_ok a" by (rule s3_newAdapter_ok)
  from cfg have "sc_adapterName configuration = ''r2''" "sc_bucket configuration = bucket"
    by (auto simp: r2_transport_options_def s3_WithMaxListEntries_def s3_WithMetadataLimits_def
        s3_WithPrefix_def s3_WithTransferOptions_def initial_config_def bind_res_Ok_iff split: if_splits)
  with new show "s3_adapterName a = ''r2''" "s3_bucket a = bucket"
    by (auto simp: s3_newAdapter_def Let_def bind_res_Ok_iff default_limits_def split: if_splits)
qed

section \<open>Properties\<close>

text \<open>
  (C37) A loaded R2 adapter is validated: the account is 32 hexadecimal digits, bucket and
  credentials are given, the endpoint is HTTPS, or HTTP on a loopback host, without credentials,
  path, query or fragment, and the transport is a well-formed S3 adapter of the R2 profile for
  the configured bucket.
\<close>

theorem r2_Load_validated:
  assumes "r2_Load sdk libs ctx configuration options = (Ok a, ctx')"
  shows "ctx \<noteq> None \<and> account_id (rc_AccountID configuration) \<and> \<not> blank (rc_Bucket configuration) \<and>
    rc_AccessKeyID configuration \<noteq> [] \<and> rc_SecretAccessKey configuration \<noteq> [] \<and>
    s3_ok (ra_Adapter a) \<and> s3_adapterName (ra_Adapter a) = ''r2'' \<and>
    s3_bucket (ra_Adapter a) = rc_Bucket configuration \<and>
    endpoint_ok (re_url (rl_env libs)) (rl_loopback libs) (rp_Endpoint (ra_profile a)) \<and>
    rp_Region (ra_profile a) = ''auto'' \<and> rp_PathStyle (ra_profile a)"
proof -
  let ?libs = "libs\<lparr>rl_newTransport := NewR2Transport sdk\<rparr>"
  from assms obtain c c0 where c: "ctx = Some c" and "poll_ctx c (\<lambda>c.
          case bind_res (check_identity configuration) (\<lambda>_. r2_apply default_settings options) of
            Err e \<Rightarrow> (Err e, c)
          | Panic e \<Rightarrow> (Panic e, c)
          | Ok st \<Rightarrow>
              (case check_settings ?libs configuration st of
                 Err e \<Rightarrow> (Err e, c)
               | Panic e \<Rightarrow> (Panic e, c)
               | Ok endpoint \<Rightarrow> poll_ctx c (r2_load ?libs configuration st endpoint))) = (Ok a, c0)"
    by (cases ctx) (auto simp: r2_Load_def newWithLoaderAndTransport_def map_prod_Some_iff)
  from poll_ctx_Ok [OF this(2)] obtain c1 st endpoint where
      id: "check_identity configuration = Ok ()"
    and st: "check_settings ?libs configuration st = Ok endpoint"
    and "poll_ctx c1 (r2_load ?libs configuration st endpoint) = (Ok a, c0)"
    by (auto simp: case_res_Ok_iff bind_res_Ok_iff)
  from poll_ctx_Ok [OF this(3)] obtain c2 where "r2_load ?libs configuration st endpoint c2 = (Ok a, c0)" ..
  then obtain client transport where
      "NewR2Transport sdk (Some client) (rc_Bucket configuration) (r2_transport_options configuration st) = Ok transport"
    and a: "ra_Adapter a = transport" "rp_Endpoint (ra_profile a) = endpoint"
      "rp_Region (ra_profile a) = ''auto''" "rp_PathStyle (ra_profile a)"
    by (auto simp: r2_load_def Let_def bind_res_Ok_iff split: prod.splits res.splits dest!: poll_ctx_Ok)
  note t = transport_named [OF this(1)]
  from check_settings_Ok [OF st] check_identity_Ok [OF id] t a c show ?thesis by simp
qed

text \<open>
  When the AWS configuration cannot be loaded, the error that is returned still unwraps to the
  loader's error but its text holds neither the access key nor the secret key.
\<close>

theorem r2_load_error_redacted:
  assumes "rl_loader libs \<lparr>ld_Region = ''auto'', ld_AccessKeyID = rc_AccessKeyID configuration,
      ld_SecretAccessKey = rc_SecretAccessKey configuration, ld_HTTPClient = rs_httpClient st\<rparr> c = (Err e, c')"
    and "hidable (rc_AccessKeyID configuration)" and "hidable (rc_SecretAccessKey configuration)"
  shows "\<exists>message. r2_load libs configuration st endpoint c =
      (Err (Errorf ''r2: load AWS configuration: %w'' [] [Sanitized e message]), c') \<and>
    \<not> sublist (rc_AccessKeyID configuration) message \<and>
    \<not> sublist (rc_SecretAccessKey configuration) message"
proof -
  let ?secrets = "[rc_AccessKeyID configuration, rc_SecretAccessKey configuration]"
  let ?m = "sanitized_message (re_url (rl_env libs)) (re_text (rl_env libs) e) ?secrets"
  have "\<not> sublist s ?m" if "s \<in> set ?secrets" "hidable s" for s
    unfolding sanitized_message_def using hide_all_secrets that by blast
  with assms show ?thesis by (simp add: r2_load_def sanitize_error_def)
qed

section \<open>A concrete load\<close>

definition sample_url :: URL where
  "sample_url =
     \<lparr>url_Scheme = ''https'', url_Opaque = [], url_User = None, url_Host = ''h'', url_Path = ''/'',
      url_RawPath = [], url_OmitHost = False, url_ForceQuery = False, url_RawQuery = [],
      url_Fragment = [], url_RawFragment = []\<rparr>"

definition sample_libs :: "bool \<Rightarrow> (bucket, unit, unit, unit) r2_libs" where
  "sample_libs works =
     \<lparr>rl_env = \<lparr>re_url = \<lparr>url_Parse = (\<lambda>_. Some sample_url), url_String = (\<lambda>u. ''https://'' @ url_Host u @ url_Path u),
        url_Hostname = url_Host\<rparr>, re_text = (\<lambda>_. ''key AK and SK'')\<rparr>,
      rl_loopback = (\<lambda>_. False),
      rl_loader = (\<lambda>_ c. if works then (Ok (), c) else (Err (New ''refused''), c)),
      rl_NewFromConfig = (\<lambda>_ _ _. sample_client), rl_newTransport = (\<lambda>_ _ _. Err (New ''none''))\<rparr>"

definition sample_sdk :: "(bucket, unit) aws_sdk" where
  "sample_sdk =
     \<lparr>sdk_NewTransferManager = (\<lambda>_ _. Some sample_uploader),
      sdk_NewPresignClient = (\<lambda>_. Some sample_presigner)\<rparr>"

definition sample_r2_config :: r2_Config where
  "sample_r2_config =
     \<lparr>rc_AccountID = replicate 32 CHR ''a'', rc_Bucket = ''b'', rc_AccessKeyID = ''AK'',
      rc_SecretAccessKey = ''SK'', rc_Prefix = []\<rparr>"

theorem r2_Load_validated_witness:
  "\<exists>a. r2_Load sample_sdk (sample_libs True) (Some Background) sample_r2_config [] = (Ok a, Some Background) \<and>
     s3_ok (ra_Adapter a) \<and> s3_adapterName (ra_Adapter a) = ''r2''"
proof -
  have "account_id (replicate 32 CHR ''a'')" "\<not> blank ''b''"
    "\<not> is_panic (NewCapabilitySet s3_capability_list)" "err_of (NewCapabilitySet s3_capability_list) = None"
    by code_simp+
  then have "\<exists>a. r2_Load sample_sdk (sample_libs True) (Some Background) sample_r2_config [] = (Ok a, Some Background)"
    by (cases "NewCapabilitySet s3_capability_list")
      (simp_all add: r2_Load_def newWithLoaderAndTransport_def poll_ctx_def check_identity_def sample_r2_config_def
        check_settings_def sample_libs_def default_settings_def validateEndpoint_def sample_url_def
        r2_validateLimits_def r2_load_def r2_transport_options_def NewR2Transport_def initial_config_def
        s3_WithMaxListEntries_def s3_WithMetadataLimits_def s3_WithTransferOptions_def positiveListLimit_def
        validateMetadataLimits_def s3_newAdapter_def default_limits_def normalized_prefix_def sample_sdk_def)
  then obtain a where a: "r2_Load sample_sdk (sample_libs True) (Some Background) sample_r2_config [] =
      (Ok a, Some Background)" ..
  from r2_Load_validated [OF a] a show ?thesis by blast
qed

theorem r2_load_error_redacted_witness:
  "\<exists>message. r2_load (sample_libs False) sample_r2_config default_settings ''https://h'' Background =
      (Err (Errorf ''r2: load AWS configuration: %w'' [] [Sanitized (New ''refused'') message]), Background) \<and>
    \<not> sublist ''AK'' message \<and> \<not> sublist ''SK'' message"
proof -
  have "hidable ''AK''" "hidable ''SK''" by code_simp+
  then show ?thesis
    using r2_load_error_redacted [of "sample_libs False" sample_r2_config default_settings Background
        "New ''refused''" Background "''https://h''"]
    by (simp add: sample_libs_def sample_r2_config_def)
qed

end
