(* ===== verification/Stream_Writer.thy ===== *)
theory Stream_Writer
  imports Memory_Theorems
begin

text \<open>
  The stream writer: \<^verbatim>\<open>src/internal/streamwriter/writer.go\<close>.

  A \<^verbatim>\<open>Writer\<close> connects the caller's goroutine with the goroutine that runs the consumer
  through an \<^verbatim>\<open>io.Pipe\<close>. The model is a step relation over both goroutines, the pipe and the
  context: every interleaving of their steps is an execution. A pipe keeps, for each of its two
  ends, the first error it was closed with; closing either end releases both.

  The caller is any sequence of \<^verbatim>\<open>Write\<close> calls (\<open>sw_script\<close>) ended by \<^verbatim>\<open>Close\<close>; the consumer
  is any function that reads until it sees an error or returns before, and that returns once it
  has seen one. \<open>sw_written\<close>, \<open>sw_results\<close> and \<open>sw_reads\<close> record the history.
\<close>

section \<open>The pipe\<close>

definition ErrClosedPipe :: err where
  "ErrClosedPipe = Sentinel (Package_error ''io.ErrClosedPipe'')"

text \<open>\<^verbatim>\<open>onceError.Store\<close>: the first error stays.\<close>

definition store_once :: "err option \<Rightarrow> err \<Rightarrow> err option" where
  "store_once old e = (case old of None \<Rightarrow> Some e | Some e0 \<Rightarrow> Some e0)"

definition readCloseError :: "err option \<Rightarrow> err option \<Rightarrow> err" where
  "readCloseError werr rerr =
     (case (werr, rerr) of (Some e, None) \<Rightarrow> e | _ \<Rightarrow> ErrClosedPipe)"

definition writeCloseError :: "err option \<Rightarrow> err option \<Rightarrow> err" where
  "writeCloseError werr rerr =
     (case (werr, rerr) of (None, Some e) \<Rightarrow> e | _ \<Rightarrow> ErrClosedPipe)"

section \<open>The writer\<close>

datatype producer =
    Idle
  | Writing string nat bool \<comment> \<open>the rest of the chunk, the bytes taken, the first round\<close>
  | Closing
  | Closed "err option" \<comment> \<open>\<^verbatim>\<open>Close\<close> has returned this result\<close>

datatype consumer = Reading | Ended err | Returned "err option"

record stream_writer =
  sw_script :: "string list"
  sw_producer :: producer
  sw_written :: "string list"
  sw_results :: "(nat \<times> err option) list"
  sw_werr :: "err option"
  sw_rerr :: "err option"
  sw_reads :: reads
  sw_consumer :: consumer
  sw_ctx :: "sentinel option" \<comment> \<open>the error of the context once it is cancelled\<close>

definition sw_New :: "string list \<Rightarrow> stream_writer" where
  "sw_New script =
     \<lparr>sw_script = script, sw_producer = Idle, sw_written = [], sw_results = [], sw_werr = None,
      sw_rerr = None, sw_reads = [], sw_consumer = Reading, sw_ctx = None\<rparr>"

definition pipe_done :: "stream_writer \<Rightarrow> bool" where
  "pipe_done w = (sw_werr w \<noteq> None \<or> sw_rerr w \<noteq> None)"

text \<open>The error \<^verbatim>\<open>Write\<close> returns for an error of the pipe.\<close>

definition write_error :: "stream_writer \<Rightarrow> err" where
  "write_error w =
     (case sw_ctx w of
        Some s \<Rightarrow> Sentinel s
      | None \<Rightarrow> writeCloseError (sw_werr w) (sw_rerr w))"

inductive sw_step :: "stream_writer \<Rightarrow> stream_writer \<Rightarrow> bool" where
  call_Write: "sw_producer w = Idle \<Longrightarrow> sw_script w = content # script \<Longrightarrow>
    sw_step w (w\<lparr>sw_script := script, sw_producer := Writing content 0 True,
      sw_written := sw_written w @ [content]\<rparr>)"
| transfer: "sw_producer w = Writing rest n first \<Longrightarrow> first \<or> rest \<noteq> [] \<Longrightarrow> \<not> pipe_done w \<Longrightarrow>
    sw_consumer w = Reading \<Longrightarrow> k \<le> length rest \<Longrightarrow> rest = [] \<or> 0 < k \<Longrightarrow>
    sw_step w (w\<lparr>sw_producer := Writing (drop k rest) (n + k) False,
      sw_reads := sw_reads w @ [(take k rest, None)]\<rparr>)"
| return_Write: "sw_producer w = Writing [] n False \<Longrightarrow>
    sw_step w (w\<lparr>sw_producer := Idle, sw_results := sw_results w @ [(n, None)]\<rparr>)"
| fail_Write: "sw_producer w = Writing rest n first \<Longrightarrow> first \<or> rest \<noteq> [] \<Longrightarrow> pipe_done w \<Longrightarrow>
    sw_step w (w\<lparr>sw_producer := Idle, sw_results := sw_results w @ [(n, Some (write_error w))]\<rparr>)"
| call_Close: "sw_producer w = Idle \<Longrightarrow>
    sw_step w (w\<lparr>sw_producer := Closing, sw_werr := store_once (sw_werr w) (Sentinel IoEOF)\<rparr>)"
| return_Close: "sw_producer w = Closing \<Longrightarrow> sw_consumer w = Returned r \<Longrightarrow>
    sw_step w (w\<lparr>sw_producer := Closed r\<rparr>)"
| read_end: "sw_consumer w = Reading \<Longrightarrow> pipe_done w \<Longrightarrow>
    e = readCloseError (sw_werr w) (sw_rerr w) \<Longrightarrow>
    sw_step w (w\<lparr>sw_consumer := Ended e, sw_reads := sw_reads w @ [([], Some e)]\<rparr>)"
| return_consumer: "sw_consumer w = Reading \<or> sw_consumer w = Ended e \<Longrightarrow>
    sw_step w (w\<lparr>sw_consumer := Returned r,
      sw_rerr := store_once (sw_rerr w) (case r of None \<Rightarrow> ErrClosedPipe | Some e' \<Rightarrow> e')\<rparr>)"
| cancel: "sw_ctx w = None \<Longrightarrow> s \<in> {ContextCanceled, ContextDeadlineExceeded} \<Longrightarrow>
    sw_step w (w\<lparr>sw_ctx := Some s\<rparr>)"
| after_cancel: "sw_ctx w = Some s \<Longrightarrow> sw_werr w = None \<Longrightarrow>
    sw_step w (w\<lparr>sw_werr := Some (Sentinel s)\<rparr>)"

inductive sw_reachable :: "string list \<Rightarrow> stream_writer \<Rightarrow> bool" for script where
  start: "sw_reachable script (sw_New script)"
| step: "sw_reachable script w \<Longrightarrow> sw_step w w' \<Longrightarrow> sw_reachable script w'"

inductive_cases sw_stepE: "sw_step w w'"

section \<open>The invariant\<close>

text \<open>
  The bytes the consumer got are the bytes of the written chunks, except for the rest of the
  chunk in flight, as long as no \<^verbatim>\<open>Write\<close> failed; the pipe ends with the end of file only after
  \<^verbatim>\<open>Close\<close>, and then no \<^verbatim>\<open>Write\<close> failed; \<^verbatim>\<open>Close\<close> returns the consumer's result.
\<close>

fun in_flight :: "producer \<Rightarrow> string" where
  "in_flight (Writing rest n first) = rest"
| "in_flight _ = []"

fun closing :: "producer \<Rightarrow> bool" where
  "closing Closing = True"
| "closing (Closed _) = True"
| "closing _ = False"

fun returned :: "consumer \<Rightarrow> bool" where
  "returned (Returned _) = True"
| "returned _ = False"

definition all_accepted :: "stream_writer \<Rightarrow> bool" where
  "all_accepted w = list_all (\<lambda>(n, e). e = None) (sw_results w)"

definition received :: "stream_writer \<Rightarrow> string" where
  "received w = concat (map fst (sw_reads w))"

definition cancelled_pipe :: "stream_writer \<Rightarrow> bool" where
  "cancelled_pipe w = (\<exists>s. sw_ctx w = Some s \<and> sw_werr w = Some (Sentinel s))"

definition plain_reads :: "reads \<Rightarrow> bool" where
  "plain_reads rs = list_all (\<lambda>(chunk, e). e = None) rs"

definition ended_with :: "reads \<Rightarrow> err \<Rightarrow> bool" where
  "ended_with rs e = (\<exists>ps. rs = ps @ [([], Some e)] \<and> plain_reads ps)"

definition ends_inv :: "stream_writer \<Rightarrow> bool" where
  "ends_inv w =
     ((sw_rerr w \<noteq> None \<longleftrightarrow> returned (sw_consumer w)) \<and>
      (sw_werr w = None \<longrightarrow> \<not> closing (sw_producer w)) \<and>
      (sw_werr w \<noteq> None \<longrightarrow>
         sw_werr w = Some (Sentinel IoEOF) \<and> closing (sw_producer w) \<or> cancelled_pipe w) \<and>
      sw_ctx w \<in> {None, Some ContextCanceled, Some ContextDeadlineExceeded} \<and>
      (\<forall>r. sw_producer w = Closed r \<longrightarrow> sw_consumer w = Returned r))"

definition data_inv :: "stream_writer \<Rightarrow> bool" where
  "data_inv w =
     ((all_accepted w \<longrightarrow> received w @ in_flight (sw_producer w) = concat (sw_written w)) \<and>
      (\<not> all_accepted w \<longrightarrow> cancelled_pipe w \<or> returned (sw_consumer w)))"

definition reads_inv :: "stream_writer \<Rightarrow> bool" where
  "reads_inv w =
     ((sw_consumer w = Reading \<longrightarrow> plain_reads (sw_reads w)) \<and>
      (\<forall>e. sw_consumer w = Ended e \<longrightarrow> ended_with (sw_reads w) e \<and> sw_werr w = Some e) \<and>
      (returned (sw_consumer w) \<longrightarrow> plain_reads (sw_reads w) \<or> (\<exists>e. ended_with (sw_reads w) e)) \<and>
      (ended_with (sw_reads w) (Sentinel IoEOF) \<longrightarrow> all_accepted w \<and> sw_werr w = Some (Sentinel IoEOF)))"

lemmas sw_invs = ends_inv_def data_inv_def reads_inv_def

lemma store_once_simps [simp]: "store_once None e = Some e" "store_once (Some e0) e = Some e0"
  by (simp_all add: store_once_def)

lemma store_once_neq_None [simp]: "store_once old e \<noteq> None"
  by (cases old) simp_all

lemma plain_reads_snoc [simp]:
  "plain_reads (rs @ [(chunk, e)]) \<longleftrightarrow> plain_reads rs \<and> e = None"
  by (simp add: plain_reads_def)

lemma ended_with_snoc [simp]:
  "ended_with (rs @ [(chunk, e)]) e' \<longleftrightarrow> chunk = [] \<and> e = Some e' \<and> plain_reads rs"
  by (auto simp: ended_with_def)

lemma plain_not_ended: "plain_reads rs \<Longrightarrow> \<not> ended_with rs e"
  by (auto simp: ended_with_def)

lemma all_accepted_snoc [simp]:
  "all_accepted (w\<lparr>sw_producer := p, sw_results := sw_results w @ [(n, e)]\<rparr>) \<longleftrightarrow>
    all_accepted w \<and> e = None"
  by (simp add: all_accepted_def)

lemma ends_inv_step: "sw_step w w' \<Longrightarrow> ends_inv w \<Longrightarrow> ends_inv w'"
  by (induction rule: sw_step.induct) (auto simp: ends_inv_def cancelled_pipe_def pipe_done_def)

lemma data_inv_step: "sw_step w w' \<Longrightarrow> ends_inv w \<Longrightarrow> data_inv w \<Longrightarrow> data_inv w'"
  by (induction rule: sw_step.induct)
    (auto simp: ends_inv_def data_inv_def cancelled_pipe_def pipe_done_def received_def all_accepted_def)

lemma reads_inv_step:
  "sw_step w w' \<Longrightarrow> ends_inv w \<Longrightarrow> data_inv w \<Longrightarrow> reads_inv w \<Longrightarrow> reads_inv w'"
proof (induction rule: sw_step.induct)
  case (cancel w s)
  then show ?case by (simp add: reads_inv_def all_accepted_def)
next
  case (after_cancel w s)
  then show ?case by (auto simp: reads_inv_def all_accepted_def)
qed (auto simp: sw_invs cancelled_pipe_def pipe_done_def all_accepted_def readCloseError_def
    ErrClosedPipe_def plain_not_ended)

lemma sw_New_inv: "ends_inv (sw_New script)" "data_inv (sw_New script)" "reads_inv (sw_New script)"
  by (simp_all add: sw_invs sw_New_def cancelled_pipe_def received_def all_accepted_def plain_reads_def
      ended_with_def)

lemma sw_reachable_inv:
  "sw_reachable script w \<Longrightarrow> ends_inv w \<and> data_inv w \<and> reads_inv w \<and> sw_written w @ sw_script w = script"
proof (induction rule: sw_reachable.induct)
  case start
  then show ?case using sw_New_inv by (simp add: sw_New_def)
next
  case (step w w')
  from step.hyps(2) have "sw_written w' @ sw_script w' = sw_written w @ sw_script w"
    by (cases rule: sw_step.cases) simp_all
  with step show ?case using ends_inv_step data_inv_step reads_inv_step by simp
qed

section \<open>Progress\<close>

fun producer_work :: "producer \<Rightarrow> nat" where
  "producer_work Idle = 2"
| "producer_work (Writing rest n first) = 3 + length rest + (if first then 1 else 0)"
| "producer_work Closing = 1"
| "producer_work (Closed _) = 0"

fun consumer_work :: "consumer \<Rightarrow> nat" where
  "consumer_work Reading = 2"
| "consumer_work (Ended _) = 1"
| "consumer_work (Returned _) = 0"

definition sw_work :: "stream_writer \<Rightarrow> nat" where
  "sw_work w =
     sum_list (map (\<lambda>content. length content + 3) (sw_script w)) + producer_work (sw_producer w) +
     consumer_work (sw_consumer w) + (if sw_ctx w = None then 1 else 0) + (if sw_werr w = None then 1 else 0)"

lemma sw_step_work: "sw_step w w' \<Longrightarrow> sw_work w' < sw_work w"
  by (induction rule: sw_step.induct) (auto simp: sw_work_def)

lemma sw_progress:
  assumes "ends_inv w" and "reads_inv w" and "\<And>r. sw_producer w \<noteq> Closed r"
  shows "\<exists>w'. sw_step w w'"
proof (cases "sw_producer w")
  case Idle
  then show ?thesis using call_Close by blast
next
  case (Writing rest n first)
  show ?thesis
  proof (cases "first \<or> rest \<noteq> []")
    case False
    with Writing show ?thesis using return_Write [of w n] by auto
  next
    case True
    show ?thesis
    proof (cases "pipe_done w")
      case ended: True
      from fail_Write [OF Writing True ended] show ?thesis by blast
    next
      case False
      have "sw_consumer w = Reading"
        using assms(1,2) False by (cases "sw_consumer w") (auto simp: ends_inv_def reads_inv_def pipe_done_def)
      from transfer [OF Writing True False this, of "length rest"] show ?thesis by auto
    qed
  qed
next
  case Closing
  show ?thesis
  proof (cases "sw_consumer w")
    case (Returned r)
    from return_Close [OF Closing this] show ?thesis by blast
  qed (use return_consumer [of w _ None] in blast)+
qed (use assms(3) in blast)

section \<open>A complete execution\<close>

lemma sample_execution:
  obtains w where "sw_reachable [''ab''] w" "sw_reads w = [(''a'', None), (''b'', None), ([], Some (Sentinel IoEOF))]"
    "sw_written w = [''ab'']" "sw_producer w = Closed None"
proof -
  let ?w0 = "sw_New [''ab'']"
  let ?w1 = "?w0\<lparr>sw_script := [], sw_producer := Writing ''ab'' 0 True, sw_written := [''ab'']\<rparr>"
  let ?w2 = "?w1\<lparr>sw_producer := Writing ''b'' 1 False, sw_reads := [(''a'', None)]\<rparr>"
  let ?w3 = "?w2\<lparr>sw_producer := Writing [] 2 False, sw_reads := [(''a'', None), (''b'', None)]\<rparr>"
  let ?w4 = "?w3\<lparr>sw_producer := Idle, sw_results := [(2, None)]\<rparr>"
  let ?w5 = "?w4\<lparr>sw_producer := Closing, sw_werr := Some (Sentinel IoEOF)\<rparr>"
  let ?w6 = "?w5\<lparr>sw_consumer := Ended (Sentinel IoEOF),
    sw_reads := [(''a'', None), (''b'', None), ([], Some (Sentinel IoEOF))]\<rparr>"
  let ?w7 = "?w6\<lparr>sw_consumer := Returned None, sw_rerr := Some ErrClosedPipe\<rparr>"
  let ?w8 = "?w7\<lparr>sw_producer := Closed None\<rparr>"
  have "sw_step ?w0 ?w1" using call_Write [of ?w0 "''ab''" "[]"] by (simp add: sw_New_def)
  moreover have "sw_step ?w1 ?w2"
    using transfer [of ?w1 "''ab''" 0 True 1] by (simp add: sw_New_def pipe_done_def)
  moreover have "sw_step ?w2 ?w3"
    using transfer [of ?w2 "''b''" 1 False 1] by (simp add: sw_New_def pipe_done_def numeral_2_eq_2)
  moreover have "sw_step ?w3 ?w4" using return_Write [of ?w3 2] by (simp add: sw_New_def)
  moreover have "sw_step ?w4 ?w5" using call_Close [of ?w4] by (simp add: sw_New_def)
  moreover have "sw_step ?w5 ?w6"
    using read_end [of ?w5 "Sentinel IoEOF"] by (simp add: sw_New_def pipe_done_def readCloseError_def)
  moreover have "sw_step ?w6 ?w7" using return_consumer [of ?w6 "Sentinel IoEOF" None] by (simp add: sw_New_def)
  moreover have "sw_step ?w7 ?w8" using return_Close [of ?w7 None] by (simp add: sw_New_def)
  ultimately have "sw_reachable [''ab''] ?w8" by (meson sw_reachable.intros)
  then show thesis by (rule that) simp_all
qed

lemma implements_drop:
  "implements good view V outcome spec \<Longrightarrow> implements good view V (drop_result outcome) spec"
  by (cases outcome; cases "fst outcome") (auto simp: implements_def drop_result_def split: sum.splits)

section \<open>Properties\<close>

lemma reads_complete:
  assumes inv: "ends_inv w" "data_inv w" "reads_inv w" and "ended_with (sw_reads w) (Sentinel IoEOF)"
  shows "io_copy (sw_reads w) = (concat (sw_written w), None)"
proof -
  from inv(3) assms(4) have acc: "all_accepted w" and eof: "sw_werr w = Some (Sentinel IoEOF)"
    by (simp_all add: reads_inv_def)
  from inv(1) eof have "closing (sw_producer w)" by (auto simp: ends_inv_def cancelled_pipe_def)
  then have "in_flight (sw_producer w) = []" by (cases "sw_producer w") simp_all
  with inv(2) acc have "received w = concat (sw_written w)" by (simp add: data_inv_def)
  moreover from assms(4) obtain ps where ps: "sw_reads w = ps @ [([], Some (Sentinel IoEOF))]" "plain_reads ps"
    by (auto simp: ended_with_def)
  have "io_copy (ps @ [([], Some (Sentinel IoEOF))]) = (concat (map fst ps), None)"
    using ps(2) by (induction ps rule: io_copy.induct) (simp_all add: plain_reads_def)
  ultimately show ?thesis using ps(1) by (simp add: received_def)
qed

text \<open>
  (C16) The pipe neither loses, repeats nor reorders bytes, in any interleaving: when the consumer's
  reader ends with \<^verbatim>\<open>io.EOF\<close>, every \<^verbatim>\<open>Write\<close> so far was accepted completely, and the reads are
  exactly the concatenation of the chunks written before \<^verbatim>\<open>Close\<close>.
\<close>

theorem stream_complete:
  assumes "sw_reachable script w" and "ended_with (sw_reads w) (Sentinel IoEOF)"
  shows "io_copy (sw_reads w) = (concat (sw_written w), None) \<and> all_accepted w \<and> closing (sw_producer w) \<and>
    prefix (sw_written w) script"
proof -
  from sw_reachable_inv [OF assms(1)] have inv: "ends_inv w" "data_inv w" "reads_inv w"
    and sc: "sw_written w @ sw_script w = script" by simp_all
  from inv(3) assms(2) have acc: "all_accepted w" and eof: "sw_werr w = Some (Sentinel IoEOF)"
    by (simp_all add: reads_inv_def)
  from inv(1) eof have "closing (sw_producer w)" by (auto simp: ends_inv_def cancelled_pipe_def)
  with reads_complete [OF inv assms(2)] acc sc show ?thesis by (auto simp: prefix_def)
qed

theorem stream_complete_witness:
  "\<exists>w. sw_reachable [''ab''] w \<and> io_copy (sw_reads w) = (''ab'', None)"
proof -
  obtain w where w: "sw_reachable [''ab''] w" "sw_written w = [''ab'']"
    "sw_reads w = [(''a'', None), (''b'', None), ([], Some (Sentinel IoEOF))]"
    by (rule sample_execution)
  have "ended_with (sw_reads w) (Sentinel IoEOF)"
    by (auto simp: w(3) ended_with_def plain_reads_def)
  with stream_complete [OF w(1)] w(1,2) show ?thesis by auto
qed



text \<open>
  (C32) A streaming write to the in-memory store publishes on \<^verbatim>\<open>Close\<close>: whatever the interleaving,
  the consumer that \<^verbatim>\<open>OpenWriter\<close> starts, run on a stream that ended with \<^verbatim>\<open>io.EOF\<close>, implements
  the write of the concatenation of the written chunks.
\<close>

theorem OpenWriter_publishes:
  assumes "sw_reachable script w" and "ended_with (sw_reads w) (Sentinel IoEOF)"
    and "mem_good a" and "mem_room a" and "wf_path p" and "\<not> IsRoot p"
    and "spec_visibility (wo_Visibility opts) = Some v"
  shows "\<exists>consume. mem_OpenWriter p opts a Background = (Ok consume, a, Background) \<and>
    implements mem_good mem_view (mem_view a) (consume (sw_reads w) a Background)
      (spec_write (mem_view a) p (written_file opts (concat (sw_written w)) v) (wo_IfNoneMatch opts))"
proof -
  let ?consume = "\<lambda>source a' c'. drop_result (mem_Write p source opts a' c')"
  have "mem_OpenWriter p opts a Background = (Ok ?consume, a, Background)"
    using assms(6) by (simp add: mem_OpenWriter_def)
  moreover have "io_copy (sw_reads w) = (concat (sw_written w), None)"
  proof -
    from sw_reachable_inv [OF assms(1)] have inv: "ends_inv w" "data_inv w" "reads_inv w" by simp_all
    then show ?thesis using assms(2) by (rule reads_complete)
  qed
  from implements_drop [OF mem.Write_law [OF assms(3-6) this assms(7)]]
  have "implements mem_good mem_view (mem_view a) (drop_result (mem_Write p (sw_reads w) opts a Background))
      (spec_write (mem_view a) p (written_file opts (concat (sw_written w)) v) (wo_IfNoneMatch opts))"
    by simp
  ultimately show ?thesis by blast
qed

theorem OpenWriter_publishes_witness:
  "\<exists>w consume. sw_reachable [''ab''] w \<and>
     mem_OpenWriter (sample_path ''e'') sample_write (sample_memory [''a'', ''d/b'', ''d/c'']) Background =
       (Ok consume, sample_memory [''a'', ''d/b'', ''d/c''], Background) \<and>
     implements mem_good mem_view (mem_view (sample_memory [''a'', ''d/b'', ''d/c'']))
       (consume (sw_reads w) (sample_memory [''a'', ''d/b'', ''d/c'']) Background)
       (spec_write (mem_view (sample_memory [''a'', ''d/b'', ''d/c''])) (sample_path ''e'')
         (written_file sample_write ''ab'' VisibilityPrivate) False)"
proof -
  let ?a = "sample_memory [''a'', ''d/b'', ''d/c'']"
  obtain w where w: "sw_reachable [''ab''] w" "sw_written w = [''ab'']"
    "sw_reads w = [(''a'', None), (''b'', None), ([], Some (Sentinel IoEOF))]"
    by (rule sample_execution)
  have e: "ended_with (sw_reads w) (Sentinel IoEOF)"
    by (auto simp: w(3) ended_with_def plain_reads_def)
  have good: "mem_good ?a" "mem_room ?a"
    using sample_ok by (simp_all add: mem_good_def mem_room_def sample_memory_def)
  have v: "spec_visibility (wo_Visibility sample_write) = Some VisibilityPrivate"
    by (simp add: sample_write_def spec_visibility_def)
  have f: "wo_IfNoneMatch sample_write = False" by (simp add: sample_write_def)
  from OpenWriter_publishes [OF w(1) e good sample_paths(3,6) v] w(1,2) f show ?thesis by auto
qed

end
