(* ===== verification/File_Transfer.thy ===== *)
theory File_Transfer
  imports Store_Contract Digest
begin

text \<open>
  What the adapters on file trees share: \<^verbatim>\<open>src/local\<close>, \<^verbatim>\<open>src/sftp\<close> and \<^verbatim>\<open>src/ftp\<close> publish
  a file by filling one with a temporary name, read it back through the same readers and
  digest it the same way.
\<close>

section \<open>Files\<close>

datatype file_type = RegularFile | DirectoryFile | SymlinkFile | SpecialFile

record FileInfo =
  fi_Name :: string
  fi_Size :: int64
  fi_Type :: file_type
  fi_ModTime :: time

section \<open>Readers\<close>

text \<open>\<^verbatim>\<open>io.LimitReader\<close>.\<close>

fun limit_reads :: "nat \<Rightarrow> reads \<Rightarrow> reads" where
  "limit_reads n [] = []"
| "limit_reads n ((chunk, e) # rs) =
     (if n = 0 then []
      else if n < length chunk then [(take n chunk, None)]
      else (chunk, e) # limit_reads (n - length chunk) rs)"

text \<open>
  \<^verbatim>\<open>io.Copy\<close> into a file through its \<^verbatim>\<open>Write\<close>. The source is read through \<^verbatim>\<open>contextReader\<close>, and a
  source that \<^verbatim>\<open>Open\<close> returned polls the context once more: \<open>polls\<close> is how often the context is
  polled before one \<^verbatim>\<open>Read\<close> of the source.
\<close>

fun poll_times :: "nat \<Rightarrow> ctx \<Rightarrow> err option \<times> ctx" where
  "poll_times 0 c = (None, c)"
| "poll_times (Suc n) c =
     (case ctx_Err c of (Some e, c') \<Rightarrow> (Some e, c') | (None, c') \<Rightarrow> poll_times n c')"

fun copy_into ::
  "(string \<Rightarrow> 's \<Rightarrow> err option \<times> 's) \<Rightarrow> nat \<Rightarrow> reads \<Rightarrow> 's \<Rightarrow> ctx \<Rightarrow> err option \<times> 's \<times> ctx" where
  "copy_into write polls [] s c = (case poll_times polls c of (e, c') \<Rightarrow> (e, s, c'))"
| "copy_into write polls ((chunk, er) # rs) s c =
     (case poll_times polls c of
        (Some e, c') \<Rightarrow> (Some e, s, c')
      | (None, c') \<Rightarrow>
          (case (if chunk = [] then (None, s) else write chunk s) of
             (Some e, s') \<Rightarrow> (Some e, s', c')
           | (None, s') \<Rightarrow>
               (case er of
                  None \<Rightarrow> copy_into write polls rs s' c'
                | Some e \<Rightarrow> (if e = Sentinel IoEOF then None else Some e, s', c'))))"

section \<open>Temporary names and digests\<close>

text \<open>The last element of a temporary name, from 16 random bytes.\<close>

definition temporary_base :: "string \<Rightarrow> string" where
  "temporary_base random = ''.filesystem-'' @ hex_EncodeToString (bytes_of random) @ ''.tmp''"

lemma hex_digit_slash: "n < 16 \<Longrightarrow> hex_digit n \<noteq> slash"
proof -
  assume n: "n < 16"
  have "(of_char (hex_digit n) :: nat) \<noteq> 0x2F"
    using n by (simp add: hex_digit_def)
  then show ?thesis by auto
qed

lemma plain_temporary_base: "plain_elem (temporary_base random)"
proof -
  have "slash \<notin> set (hex_EncodeToString (bytes_of random))"
  proof (induction random)
    case (Cons c cs)
    have "(of_char c :: nat) < 256" by simp
    then have "(of_char c :: nat) div 16 < 16" "(of_char c :: nat) mod 16 < 16" by linarith+
    then have "hex_digit (of_char c div 16) \<noteq> slash" "hex_digit (of_char c mod 16) \<noteq> slash"
      by (simp_all only: hex_digit_slash not_False_eq_True)
    with Cons show ?case by (simp add: hex_EncodeToString_def)
  qed (simp add: hex_EncodeToString_def)
  then show ?thesis by (simp add: plain_elem_def temporary_base_def)
qed

text \<open>A list of path elements that ends in such a name.\<close>

definition temp_name :: "string list \<Rightarrow> bool" where
  "temp_name k = (k \<noteq> [] \<and> prefix ''.filesystem-'' (last k) \<and> suffix ''.tmp'' (last k))"

lemma temp_name_base: "temp_name (ks @ [temporary_base random])"
  by (auto simp: temp_name_def temporary_base_def suffix_def)

definition checksum_text :: "ChecksumAlgorithm \<Rightarrow> nat list \<Rightarrow> string option" where
  "checksum_text algorithm bs =
     (case algorithm of
        ChecksumMD5 \<Rightarrow> Some (hex_EncodeToString (md5_Sum bs))
      | ChecksumSHA256 \<Rightarrow> Some (hex_EncodeToString (sha256_Sum bs))
      | ChecksumCRC32C \<Rightarrow> Some (sprintf_08x (crc32c bs))
      | ChecksumNamed _ \<Rightarrow> None)"

end
