(* ===== verification/Local_Adapter.thy ===== *)
theory Local_Adapter
  imports File_Transfer
begin

unbundle bit_operations_syntax

text \<open>
  The local adapter: \<^verbatim>\<open>src/local/local.go\<close>.

  The interface \<^verbatim>\<open>rootFS\<close>, through which the adapter reaches the operating system, is a
  record of calls over a state \<open>'s\<close> and file handles \<open>'h\<close>; a call that only reports success
  gives an \<open>err option\<close>, a call with a value a sum. The theory \<open>Local_Root\<close> has the
  implementation \<^verbatim>\<open>osRoot\<close>. The bytes that the \<^verbatim>\<open>Read\<close> calls on a handle will give are
  those of the file at the moment it was opened: no operation of the adapter changes a
  published file in place.
\<close>

section \<open>The interfaces of the operating system\<close>

type_synonym file_mode = "32 word"

text \<open>A directory entry; \<^verbatim>\<open>Info\<close> looks the file up again and may fail.\<close>

record DirEntry =
  de_Name :: string
  de_Type :: file_type
  de_Info :: "err + FileInfo"

record ('s, 'h) rootFS =
  rf_Open :: "string \<Rightarrow> 's \<Rightarrow> (err + 'h) \<times> 's"
  rf_OpenFile :: "string \<Rightarrow> file_mode \<Rightarrow> 's \<Rightarrow> (err + 'h) \<times> 's" \<comment> \<open>with \<^verbatim>\<open>temporaryOpenFlags\<close>\<close>
  rf_Stat :: "string \<Rightarrow> 's \<Rightarrow> (err + FileInfo) \<times> 's"
  rf_Lstat :: "string \<Rightarrow> 's \<Rightarrow> (err + FileInfo) \<times> 's"
  rf_MkdirAll :: "string \<Rightarrow> file_mode \<Rightarrow> 's \<Rightarrow> err option \<times> 's"
  rf_Remove :: "string \<Rightarrow> 's \<Rightarrow> err option \<times> 's"
  rf_Link :: "string \<Rightarrow> string \<Rightarrow> 's \<Rightarrow> err option \<times> 's"
  rf_Rename :: "string \<Rightarrow> string \<Rightarrow> 's \<Rightarrow> err option \<times> 's"
  rf_RenameNoReplace :: "string \<Rightarrow> string \<Rightarrow> 's \<Rightarrow> err option \<times> 's"
  rf_ReadDir :: "string \<Rightarrow> 's \<Rightarrow> (err + DirEntry list) \<times> 's" \<comment> \<open>of \<^verbatim>\<open>FS()\<close>\<close>
  rf_Close :: "'s \<Rightarrow> err option \<times> 's"
  lf_Reads :: "'h \<Rightarrow> 's \<Rightarrow> reads"
  lf_Write :: "'h \<Rightarrow> string \<Rightarrow> 's \<Rightarrow> err option \<times> 's"
  lf_Seek :: "'h \<Rightarrow> int64 \<Rightarrow> 's \<Rightarrow> err option \<times> 's"
  lf_Stat :: "'h \<Rightarrow> 's \<Rightarrow> (err + FileInfo) \<times> 's"
  lf_Sync :: "'h \<Rightarrow> 's \<Rightarrow> err option \<times> 's"
  lf_Close :: "'h \<Rightarrow> 's \<Rightarrow> err option \<times> 's"

record ('s, 'h) system =
  sys_MkdirAll :: "string \<Rightarrow> file_mode \<Rightarrow> 's \<Rightarrow> err option \<times> 's"
  sys_OpenRoot :: "string \<Rightarrow> 's \<Rightarrow> (err + ('s, 'h) rootFS) \<times> 's"
  sys_random :: "'s \<Rightarrow> (err + string) \<times> 's" \<comment> \<open>16 bytes of \<^verbatim>\<open>rand.Reader\<close>\<close>

section \<open>Configuration\<close>

type_synonym SymlinkPolicy = "8 word"

definition DenySymlinks :: SymlinkPolicy where
  "DenySymlinks = 0"

definition AllowInternalSymlinks :: SymlinkPolicy where
  "AllowInternalSymlinks = 1"

record local_config =
  lc_fileMode :: file_mode
  lc_directoryMode :: file_mode
  lc_symlinkPolicy :: SymlinkPolicy

type_synonym local_option = "local_config \<Rightarrow> local_config res"

definition mode_Perm :: "file_mode \<Rightarrow> file_mode" where
  "mode_Perm mode = mode AND 0x1FF"

definition WithFileMode :: "file_mode \<Rightarrow> local_option" where
  "WithFileMode mode config =
     (if mode_Perm mode = 0 then Err (New ''local: file mode has no permission bits'')
      else Ok (config\<lparr>lc_fileMode := mode_Perm mode\<rparr>))"

definition WithDirectoryMode :: "file_mode \<Rightarrow> local_option" where
  "WithDirectoryMode mode config =
     (if mode_Perm mode = 0 then Err (New ''local: directory mode has no permission bits'')
      else Ok (config\<lparr>lc_directoryMode := mode_Perm mode\<rparr>))"

definition WithSymlinkPolicy :: "SymlinkPolicy \<Rightarrow> local_option" where
  "WithSymlinkPolicy policy config =
     (if policy \<noteq> DenySymlinks \<and> policy \<noteq> AllowInternalSymlinks
      then Err (Errorf ''local: invalid symlink policy %d'' [FInt (uint policy)] [])
      else Ok (config\<lparr>lc_symlinkPolicy := policy\<rparr>))"

fun local_apply :: "local_config \<Rightarrow> local_option list \<Rightarrow> local_config res" where
  "local_apply config [] = Ok config"
| "local_apply config (opt # options) = bind_res (opt config) (\<lambda>config. local_apply config options)"

record ('s, 'h) local_adapter =
  la_root :: "('s, 'h) rootFS"
  la_random :: "'s \<Rightarrow> (err + string) \<times> 's"
  la_fileMode :: file_mode
  la_directoryMode :: file_mode
  la_symlinkPolicy :: SymlinkPolicy

definition default_local_config :: local_config where
  "default_local_config =
     \<lparr>lc_fileMode = 0x180, lc_directoryMode = 0x1C0, lc_symlinkPolicy = DenySymlinks\<rparr>"

text \<open>
  \<^verbatim>\<open>openAdapter\<close>, with nil contexts as \<open>None\<close>; the cause of a cancelled context is the error
  it reports.
\<close>

definition openAdapter ::
  "ctx option \<Rightarrow> string \<Rightarrow> ('s, 'h) system \<Rightarrow> local_option list \<Rightarrow> 's \<Rightarrow>
    ('s, 'h) local_adapter res \<times> 's \<times> ctx option" where
  "openAdapter ctx root sys options s =
     (case ctx of
        None \<Rightarrow> (Err (Sentinel ErrContextRequired), s, None)
      | Some c \<Rightarrow> map_prod id (map_prod id Some)
          (check_ctx c s (\<lambda>c.
            case local_apply default_local_config options of
              Err e \<Rightarrow> (Err e, s, c)
            | Panic e \<Rightarrow> (Panic e, s, c)
            | Ok config \<Rightarrow> check_ctx c s (\<lambda>c.
                case sys_MkdirAll sys root (lc_directoryMode config) s of
                  (Some e, s1) \<Rightarrow> (Err (Errorf ''local: create root: %w'' [] [e]), s1, c)
                | (None, s1) \<Rightarrow> check_ctx c s1 (\<lambda>c.
                    case sys_OpenRoot sys root s1 of
                      (Inl e, s2) \<Rightarrow> (Err (Errorf ''local: open root: %w'' [] [e]), s2, c)
                    | (Inr opened, s2) \<Rightarrow>
                        (case ctx_Err c of
                           (Some e, c) \<Rightarrow>
                             (case rf_Close opened s2 of (ce, s3) \<Rightarrow>
                               (Err (the (errors_Join [Some e, ce])), s3, c))
                         | (None, c) \<Rightarrow>
                             (Ok \<lparr>la_root = opened, la_random = sys_random sys,
                                  la_fileMode = lc_fileMode config,
                                  la_directoryMode = lc_directoryMode config,
                                  la_symlinkPolicy = lc_symlinkPolicy config\<rparr>, s2, c)))))))"

definition local_Close :: "('s, 'h) local_adapter \<Rightarrow> 's \<Rightarrow> err option \<times> 's" where
  "local_Close a s = rf_Close (la_root a) s"

definition local_capability_list :: "capability list" where
  "local_capability_list =
     [CapabilityRead, CapabilityWrite, CapabilityStreamingWrite, CapabilityDelete,
      CapabilityList, CapabilityStat, CapabilityCopy, CapabilityMove, CapabilityRangeRead,
      CapabilityChecksum]"

definition local_Capabilities :: CapabilitySet where
  "local_Capabilities =
     (case NewCapabilitySet local_capability_list of
        Ok s \<Rightarrow> s | _ \<Rightarrow> \<lparr>cs_values = [], cs_index = {}\<rparr>)"

section \<open>Helpers\<close>

definition local_mapError :: "path \<Rightarrow> err \<Rightarrow> err" where
  "local_mapError p e =
     (if errors_is e FsErrNotExist
      then Errorf ''%w: %s'' [FStr (Path_String p)] [Sentinel ErrNotFound] else e)"

definition denied_symlink :: "string \<Rightarrow> err" where
  "denied_symlink name = Errorf ''local: symbolic link %q is denied'' [FStr name] []"

text \<open>The loop of \<^verbatim>\<open>checkSymlinks\<close> over the prefixes of the path, shortest first.\<close>

fun check_prefixes ::
  "('s, 'h) rootFS \<Rightarrow> path \<Rightarrow> string list \<Rightarrow> 's \<Rightarrow> err option \<times> 's" where
  "check_prefixes root p [] s = (None, s)"
| "check_prefixes root p (name # names) s =
     (case rf_Lstat root name s of
        (Inl e, s1) \<Rightarrow>
          if errors_is e FsErrNotExist then (None, s1) else (Some (local_mapError p e), s1)
      | (Inr info, s1) \<Rightarrow>
          if fi_Type info = SymlinkFile then (Some (denied_symlink name), s1)
          else check_prefixes root p names s1)"

definition name_prefixes :: "string list \<Rightarrow> string list" where
  "name_prefixes ss = map (\<lambda>i. join_with slash (take (Suc i) ss)) [0..<length ss]"

definition checkSymlinks ::
  "('s, 'h) local_adapter \<Rightarrow> path \<Rightarrow> bool \<Rightarrow> 's \<Rightarrow> err option \<times> 's" where
  "checkSymlinks a p includeFinal s =
     (if IsRoot p \<or> la_symlinkPolicy a = AllowInternalSymlinks then (None, s)
      else let ss = split_on slash (Path_String p) in
        check_prefixes (la_root a) p (name_prefixes (if includeFinal then ss else butlast ss)) s)"

text \<open>The guard \<^verbatim>\<open>if err := a.checkSymlinks(...); err != nil { return err }\<close>.\<close>

definition check_links ::
  "('s, 'h) local_adapter \<Rightarrow> path \<Rightarrow> bool \<Rightarrow> 's \<Rightarrow> ctx \<Rightarrow> ('s \<Rightarrow> 'a res \<times> 's \<times> ctx) \<Rightarrow>
    'a res \<times> 's \<times> ctx" where
  "check_links a p includeFinal s c k =
     (case checkSymlinks a p includeFinal s of
        (Some e, s1) \<Rightarrow> (Err e, s1, c)
      | (None, s1) \<Rightarrow> k s1)"

definition temporaryName ::
  "('s, 'h) local_adapter \<Rightarrow> string \<Rightarrow> 's \<Rightarrow> (err + string) \<times> 's" where
  "temporaryName a directory s =
     (case la_random a s of
        (Inl e, s1) \<Rightarrow> (Inl (Errorf ''local: generate temporary name: %w'' [] [e]), s1)
      | (Inr random, s1) \<Rightarrow>
          let name = temporary_base random in
          (Inr (if directory = ''.'' then name else directory @ ''/'' @ name), s1))"

section \<open>Reading\<close>

text \<open>\<^verbatim>\<open>Open\<close> gives the open file; a client sees it as a stream.\<close>

definition local_open ::
  "('s, 'h) local_adapter \<Rightarrow> path \<Rightarrow> ('s, 'h) action" where
  "local_open a p s c = check_ctx c s (\<lambda>c. check_links a p True s c (\<lambda>s.
     case rf_Open (la_root a) (Path_String p) s of
       (Inl e, s1) \<Rightarrow> (Err (local_mapError p e), s1, c)
     | (Inr h, s1) \<Rightarrow> (Ok h, s1, c)))"

definition file_stream :: "('s, 'h) rootFS \<Rightarrow> 'h \<Rightarrow> reads \<Rightarrow> 's \<Rightarrow> stream" where
  "file_stream root h rs s = \<lparr>st_reads = rs, st_close = fst (lf_Close root h s)\<rparr>"

definition local_Open :: "('s, 'h) local_adapter \<Rightarrow> path \<Rightarrow> ('s, stream) action" where
  "local_Open a p s c =
     (case local_open a p s c of
        (r, s1, c1) \<Rightarrow>
          (bind_res r (\<lambda>h. Ok (file_stream (la_root a) h (lf_Reads (la_root a) h s1) s1)), s1, c1))"

definition local_OpenRange ::
  "('s, 'h) local_adapter \<Rightarrow> path \<Rightarrow> ByteRange \<Rightarrow> ('s, stream) action" where
  "local_OpenRange a p r s c =
     (if sint (br_Offset r) < 0 \<or> sint (br_Length r) \<le> 0
      then (Err (invalid_range ''%w: offset=%d length=%d'' (br_Offset r) (br_Length r)), s, c)
      else (case local_open a p s c of
        (Err e, s1, c1) \<Rightarrow> (Err e, s1, c1)
      | (Panic e, s1, c1) \<Rightarrow> (Panic e, s1, c1)
      | (Ok h, s1, c1) \<Rightarrow>
          let root = la_root a; closed = (\<lambda>s. snd (lf_Close root h s)) in
          (case lf_Stat root h s1 of
             (Inl e, s2) \<Rightarrow> (Err e, closed s2, c1)
           | (Inr info, s2) \<Rightarrow>
               if sint (fi_Size info) \<le> sint (br_Offset r)
               then (Err (invalid_range ''%w: offset=%d size=%d'' (br_Offset r) (fi_Size info)),
                     closed s2, c1)
               else (case lf_Seek root h (br_Offset r) s2 of
                 (Some e, s3) \<Rightarrow> (Err e, closed s3, c1)
               | (None, s3) \<Rightarrow>
                   (Ok (file_stream root h
                          (limit_reads (nat (sint (br_Length r))) (lf_Reads root h s3)) s3), s3, c1)))))"

definition local_Stat :: "('s, 'h) local_adapter \<Rightarrow> path \<Rightarrow> ('s, Metadata) action" where
  "local_Stat a p s c = check_ctx c s (\<lambda>c. check_links a p True s c (\<lambda>s.
     case rf_Stat (la_root a) (if IsRoot p then ''.'' else Path_String p) s of
       (Inl e, s1) \<Rightarrow> (Err (local_mapError p e), s1, c)
     | (Inr info, s1) \<Rightarrow>
         (Ok \<lparr>m_Path = p,
              m_Kind = (if fi_Type info = DirectoryFile then EntryKindDirectory else EntryKindFile),
              m_Size = fi_Size info, m_Modified = fi_ModTime info, m_ETag = [],
              m_ContentType = [], m_UserMetadata = None, m_Visibility = VisibilityUnset\<rparr>, s1, c)))"

section \<open>Writing\<close>

definition precondition_failed :: "path \<Rightarrow> err" where
  "precondition_failed p = Errorf ''%w: %s'' [FStr (Path_String p)] [Sentinel ErrPreconditionFailed]"

text \<open>The copy, \<^verbatim>\<open>Sync\<close> and \<^verbatim>\<open>Close\<close> of the temporary file.\<close>

definition fill_temporary ::
  "('s, 'h) rootFS \<Rightarrow> 'h \<Rightarrow> nat \<Rightarrow> reads \<Rightarrow> 's \<Rightarrow> ctx \<Rightarrow> err option \<times> 's \<times> ctx" where
  "fill_temporary root h polls source s c =
     (case copy_into (lf_Write root h) polls source s c of
        (Some e, s1, c1) \<Rightarrow> (Some e, s1, c1)
      | (None, s1, c1) \<Rightarrow>
          (case ctx_Err c1 of
             (Some e, c2) \<Rightarrow> (Some e, s1, c2)
           | (None, c2) \<Rightarrow>
               (case lf_Sync root h s1 of
                  (Some e, s2) \<Rightarrow> (Some (Errorf ''local: sync temporary file: %w'' [] [e]), s2, c2)
                | (None, s2) \<Rightarrow>
                    (case lf_Close root h s2 of
                       (Some e, s3) \<Rightarrow>
                         (Some (Errorf ''local: close temporary file: %w'' [] [e]), s3, c2)
                     | (None, s3) \<Rightarrow> (None, s3, c2)))))"

text \<open>The publication: by \<^verbatim>\<open>Link\<close> and \<^verbatim>\<open>Remove\<close> when the write is exclusive, else by \<^verbatim>\<open>Rename\<close>.\<close>

definition publish_temporary ::
  "('s, 'h) rootFS \<Rightarrow> string \<Rightarrow> path \<Rightarrow> bool \<Rightarrow> 's \<Rightarrow> err option \<times> 's" where
  "publish_temporary root temporary p exclusive s =
     (if exclusive
      then (case rf_Link root temporary (Path_String p) s of
        (Some e, s1) \<Rightarrow>
          (Some (if errors_is e FsErrExist then precondition_failed p
                 else Errorf ''local: publish temporary file: %w'' [] [e]), s1)
      | (None, s1) \<Rightarrow>
          (case rf_Remove root temporary s1 of
             (Some e, s2) \<Rightarrow>
               (Some (Errorf ''local: remove published temporary file: %w'' [] [e]), s2)
           | (None, s2) \<Rightarrow> (None, s2)))
      else (case rf_Rename root temporary (Path_String p) s of
        (Some e, s1) \<Rightarrow> (Some (Errorf ''local: publish temporary file: %w'' [] [e]), s1)
      | (None, s1) \<Rightarrow> (None, s1)))"

text \<open>The deferred function: the handle is closed, an uncommitted temporary file removed.\<close>

definition cleanup_temporary ::
  "('s, 'h) rootFS \<Rightarrow> 'h \<Rightarrow> string \<Rightarrow> bool \<Rightarrow> 's \<Rightarrow> 's" where
  "cleanup_temporary root h temporary committed s =
     (let s1 = snd (lf_Close root h s)
      in if committed then s1 else snd (rf_Remove root temporary s1))"

definition write_temporary ::
  "('s, 'h) local_adapter \<Rightarrow> 'h \<Rightarrow> string \<Rightarrow> path \<Rightarrow> nat \<Rightarrow> reads \<Rightarrow> bool \<Rightarrow> ('s, Metadata) action" where
  "write_temporary a h temporary p polls source exclusive s c =
     (let root = la_root a in
      case fill_temporary root h polls source s c of
        (Some e, s1, c1) \<Rightarrow> (Err e, cleanup_temporary root h temporary False s1, c1)
      | (None, s1, c1) \<Rightarrow>
          (case publish_temporary root temporary p exclusive s1 of
             (Some e, s2) \<Rightarrow> (Err e, cleanup_temporary root h temporary False s2, c1)
           | (None, s2) \<Rightarrow>
               (case local_Stat a p s2 c1 of
                  (r, s3, c2) \<Rightarrow> (r, cleanup_temporary root h temporary True s3, c2))))"

text \<open>The early check of an exclusive write.\<close>

definition check_absent ::
  "('s, 'h) rootFS \<Rightarrow> path \<Rightarrow> bool \<Rightarrow> err \<Rightarrow> 's \<Rightarrow> err option \<times> 's" where
  "check_absent root p exclusive present s =
     (if \<not> exclusive then (None, s)
      else (case rf_Stat root (Path_String p) s of
        (Inr _, s1) \<Rightarrow> (Some present, s1)
      | (Inl e, s1) \<Rightarrow>
          (if errors_is e FsErrNotExist then None else Some (local_mapError p e), s1)))"

definition make_parents ::
  "('s, 'h) local_adapter \<Rightarrow> string \<Rightarrow> 's \<Rightarrow> err option \<times> 's" where
  "make_parents a directory s =
     (if directory \<noteq> ''.'' then rf_MkdirAll (la_root a) directory (la_directoryMode a) s
      else (None, s))"

definition local_write ::
  "('s, 'h) local_adapter \<Rightarrow> path \<Rightarrow> nat \<Rightarrow> reads \<Rightarrow> WriteOptions \<Rightarrow> ('s, Metadata) action" where
  "local_write a p polls source opts s c =
     (if IsRoot p then (Err rootPathError, s, c)
      else check_ctx c s (\<lambda>c. check_links a p False s c (\<lambda>s.
        case check_absent (la_root a) p (wo_IfNoneMatch opts) (precondition_failed p) s of
          (Some e, s1) \<Rightarrow> (Err e, s1, c)
        | (None, s1) \<Rightarrow>
            let directory = path_Dir (Path_String p) in
            (case make_parents a directory s1 of
               (Some e, s2) \<Rightarrow> (Err (Errorf ''local: create parent directories: %w'' [] [e]), s2, c)
             | (None, s2) \<Rightarrow>
                 (case temporaryName a directory s2 of
                    (Inl e, s3) \<Rightarrow> (Err e, s3, c)
                  | (Inr temporary, s3) \<Rightarrow>
                      (case rf_OpenFile (la_root a) temporary (la_fileMode a) s3 of
                         (Inl e, s4) \<Rightarrow>
                           (Err (Errorf ''local: create temporary file: %w'' [] [e]), s4, c)
                       | (Inr h, s4) \<Rightarrow>
                           write_temporary a h temporary p polls source (wo_IfNoneMatch opts) s4 c))))))"

definition local_Write ::
  "('s, 'h) local_adapter \<Rightarrow> path \<Rightarrow> reads \<Rightarrow> WriteOptions \<Rightarrow> ('s, Metadata) action" where
  "local_Write a p source opts = local_write a p 1 source opts"

definition local_OpenWriter ::
  "('s, 'h) local_adapter \<Rightarrow> path \<Rightarrow> WriteOptions \<Rightarrow> ('s, 's consumer) action" where
  "local_OpenWriter a p opts s c = check_ctx c s (\<lambda>c.
     if IsRoot p then (Err rootPathError, s, c)
     else (Ok (\<lambda>source s' c'. drop_result (local_Write a p source opts s' c')), s, c))"

section \<open>The other changes\<close>

definition local_Delete :: "('s, 'h) local_adapter \<Rightarrow> path \<Rightarrow> ('s, unit) action" where
  "local_Delete a p s c = check_ctx c s (\<lambda>c. check_links a p True s c (\<lambda>s.
     case rf_Remove (la_root a) (Path_String p) s of
       (Some e, s1) \<Rightarrow> (Err (local_mapError p e), s1, c)
     | (None, s1) \<Rightarrow> (Ok (), s1, c)))"

definition local_exists :: "path \<Rightarrow> err list \<Rightarrow> err" where
  "local_exists p causes =
     (if causes = [] then Errorf ''%w: %s'' [FStr (Path_String p)] [Sentinel ErrAlreadyExists]
      else Errorf ''%w: %s: %w'' [FStr (Path_String p)] (Sentinel ErrAlreadyExists # causes))"

definition local_Copy ::
  "('s, 'h) local_adapter \<Rightarrow> path \<Rightarrow> path \<Rightarrow> CopyOptions \<Rightarrow> ('s, unit) action" where
  "local_Copy a source destination opts s c =
     (case check_absent (la_root a) destination (\<not> co_Overwrite opts) (local_exists destination []) s of
        (Some e, s1) \<Rightarrow> (Err e, s1, c)
      | (None, s1) \<Rightarrow>
          (case local_open a source s1 c of
             (Err e, s2, c1) \<Rightarrow> (Err e, s2, c1)
           | (Panic e, s2, c1) \<Rightarrow> (Panic e, s2, c1)
           | (Ok h, s2, c1) \<Rightarrow>
               (case local_write a destination 2 (lf_Reads (la_root a) h s2)
                   \<lparr>wo_ContentType = [], wo_Metadata = None, wo_Visibility = VisibilityUnset,
                    wo_IfNoneMatch = \<not> co_Overwrite opts\<rparr> s2 c1 of
                  (r, s3, c2) \<Rightarrow>
                    (bind_res r (\<lambda>_. Ok ()), snd (lf_Close (la_root a) h s3), c2))))"

definition local_Move ::
  "('s, 'h) local_adapter \<Rightarrow> path \<Rightarrow> path \<Rightarrow> MoveOptions \<Rightarrow> ('s, unit) action" where
  "local_Move a source destination opts s c = check_ctx c s (\<lambda>c.
     check_links a source True s c (\<lambda>s. check_links a destination False s c (\<lambda>s.
       case check_absent (la_root a) destination (\<not> mo_Overwrite opts)
           (local_exists destination [Sentinel FsErrExist]) s of
         (Some e, s1) \<Rightarrow> (Err e, s1, c)
       | (None, s1) \<Rightarrow>
           (case make_parents a (path_Dir (Path_String destination)) s1 of
              (Some e, s2) \<Rightarrow> (Err e, s2, c)
            | (None, s2) \<Rightarrow>
                if \<not> mo_Overwrite opts
                then (case rf_RenameNoReplace (la_root a) (Path_String source)
                          (Path_String destination) s2 of
                    (Some e, s3) \<Rightarrow>
                      (Err (if errors_is e FsErrExist then local_exists destination [e]
                            else local_mapError source e), s3, c)
                  | (None, s3) \<Rightarrow> (Ok (), s3, c))
                else (case rf_Rename (la_root a) (Path_String source) (Path_String destination) s2 of
                    (Some e, s3) \<Rightarrow> (Err (local_mapError source e), s3, c)
                  | (None, s3) \<Rightarrow> (Ok (), s3, c))))))"

definition local_SetMetadata ::
  "('s, 'h) local_adapter \<Rightarrow> path \<Rightarrow> usermeta \<Rightarrow> ('s, unit) action" where
  "local_SetMetadata a p md s c =
     (Err (Unsupported ''local'' CapabilityMetadata OperationSetMetadata), s, c)"

definition local_Visibility :: "('s, 'h) local_adapter \<Rightarrow> path \<Rightarrow> ('s, Visibility) action" where
  "local_Visibility a p s c =
     (Err (Unsupported ''local'' CapabilityVisibility OperationVisibility), s, c)"

definition local_SetVisibility ::
  "('s, 'h) local_adapter \<Rightarrow> path \<Rightarrow> Visibility \<Rightarrow> ('s, unit) action" where
  "local_SetVisibility a p v s c =
     (Err (Unsupported ''local'' CapabilityVisibility OperationSetVisibility), s, c)"

definition local_Checksum ::
  "('s, 'h) local_adapter \<Rightarrow> path \<Rightarrow> ChecksumAlgorithm \<Rightarrow> ('s, Checksum) action" where
  "local_Checksum a p algorithm s c =
     (case local_open a p s c of
        (Err e, s1, c1) \<Rightarrow> (Err e, s1, c1)
      | (Panic e, s1, c1) \<Rightarrow> (Panic e, s1, c1)
      | (Ok h, s1, c1) \<Rightarrow>
          let root = la_root a; closed = snd (lf_Close root h s1) in
          (case algorithm of
             ChecksumNamed _ \<Rightarrow>
               (Err (Unsupported ''local'' CapabilityChecksum OperationChecksum), closed, c1)
           | _ \<Rightarrow>
               (case context_copy c1 (lf_Reads root h s1) of
                  ((content, Some e), c2) \<Rightarrow> (Err e, closed, c2)
                | ((content, None), c2) \<Rightarrow>
                    (Ok \<lparr>ck_Algorithm = algorithm,
                         ck_Value = the (checksum_text algorithm (bytes_of content))\<rparr>, closed, c2))))"

section \<open>Listing\<close>

text \<open>
  The function that \<^verbatim>\<open>List\<close> gives to \<^verbatim>\<open>fs.WalkDir\<close>, for a visit without an error; an error
  of the walk itself it returns as it is.
\<close>

datatype walk = WalkOn | SkipDir | LimitReached | WalkError err

definition visit ::
  "SymlinkPolicy \<Rightarrow> string \<Rightarrow> ListOptions \<Rightarrow> string \<Rightarrow> DirEntry \<Rightarrow> Entry list \<Rightarrow> ctx \<Rightarrow>
    walk \<times> Entry list \<times> ctx" where
  "visit policy start opts name entry entries c =
     (case ctx_Err c of
        (Some e, c) \<Rightarrow> (WalkError e, entries, c)
      | (None, c) \<Rightarrow>
          if name = start then (WalkOn, entries, c)
          else let relative = TrimPrefix (TrimPrefix name start) ''/'' in
            if \<not> lo_Recursive opts \<and> slash \<in> set relative
            then (if de_Type entry = DirectoryFile then SkipDir else WalkOn, entries, c)
            else if de_Type entry = SymlinkFile \<and> policy = DenySymlinks
            then (WalkError (denied_symlink name), entries, c)
            else (case de_Info entry of
              Inl e \<Rightarrow> (WalkError e, entries, c)
            | Inr info \<Rightarrow>
                (case ParsePath name of
                   Err e \<Rightarrow> (WalkError e, entries, c)
                 | Panic e \<Rightarrow> (WalkError e, entries, c)
                 | Ok logical \<Rightarrow>
                     let entries = entries @ [\<lparr>e_Path = logical,
                           e_Kind = (if de_Type entry = DirectoryFile then EntryKindDirectory
                                     else EntryKindFile),
                           e_Size = fi_Size info, e_Modified = fi_ModTime info\<rparr>]
                     in (if 0 < sint (lo_Limit opts) \<and> sint (lo_Limit opts) \<le> sint (go_len entries)
                         then LimitReached else WalkOn, entries, c))))"

text \<open>
  \<^verbatim>\<open>fs.WalkDir\<close> visits the tree depth first; \<open>stack\<close> holds what it still has to visit. The
  function skips only directories, for which \<^verbatim>\<open>SkipDir\<close> means not to read them. A tree that grows
  while it is walked need not have an end, so the walk may have no result.
\<close>

partial_function (option) walk_dir ::
  "('s, 'h) rootFS \<Rightarrow> (string \<Rightarrow> DirEntry \<Rightarrow> Entry list \<Rightarrow> ctx \<Rightarrow> walk \<times> Entry list \<times> ctx) \<Rightarrow>
    (string \<times> DirEntry) list \<Rightarrow> Entry list \<Rightarrow> 's \<Rightarrow> ctx \<Rightarrow>
    (err option \<times> Entry list \<times> 's \<times> ctx) option" where
  "walk_dir root fn stack entries s c =
     (case stack of
        [] \<Rightarrow> Some (None, entries, s, c)
      | (name, d) # rest \<Rightarrow>
          (case fn name d entries c of
             (WalkError e, entries, c) \<Rightarrow> Some (Some e, entries, s, c)
           | (LimitReached, entries, c) \<Rightarrow> Some (None, entries, s, c)
           | (SkipDir, entries, c) \<Rightarrow> walk_dir root fn rest entries s c
           | (WalkOn, entries, c) \<Rightarrow>
               if de_Type d \<noteq> DirectoryFile then walk_dir root fn rest entries s c
               else (case rf_ReadDir root name s of
                 (Inl e, s1) \<Rightarrow> Some (Some e, entries, s1, c)
               | (Inr dirs, s1) \<Rightarrow>
                   walk_dir root fn
                     (map (\<lambda>d1. (path_Join [name, de_Name d1], d1)) dirs @ rest) entries s1 c)))"

definition local_list ::
  "('s, 'h) local_adapter \<Rightarrow> path \<Rightarrow> ListOptions \<Rightarrow> 's \<Rightarrow> ctx \<Rightarrow>
    (Entry list res \<times> 's \<times> ctx) option" where
  "local_list a directory opts s c =
     (case ctx_Err c of
        (Some e, c) \<Rightarrow> Some (Err e, s, c)
      | (None, c) \<Rightarrow>
          if sint (lo_Limit opts) < 0
          then Some (Err (New ''local: list limit must not be negative''), s, c)
          else let start = (if Path_String directory = [] then ''.'' else Path_String directory) in
            (case (if IsRoot directory then (None, s) else checkSymlinks a directory True s) of
               (Some e, s1) \<Rightarrow> Some (Err e, s1, c)
             | (None, s1) \<Rightarrow>
                 (case rf_Stat (la_root a) start s1 of
                    (Inl e, s2) \<Rightarrow> Some (Err (local_mapError directory e), s2, c)
                  | (Inr info, s2) \<Rightarrow>
                      map_option (\<lambda>(e, entries, s3, c).
                        (case e of
                           Some e \<Rightarrow> Err (local_mapError directory e)
                         | None \<Rightarrow> Ok (sort_key entry_key entries), s3, c))
                        (walk_dir (la_root a) (visit (la_symlinkPolicy a) start opts)
                          [(start, \<lparr>de_Name = fi_Name info, de_Type = fi_Type info, de_Info = Inr info\<rparr>)]
                          [] s2 c))))"

definition local_List ::
  "('s, 'h) local_adapter \<Rightarrow> path \<Rightarrow> ListOptions \<Rightarrow> 's \<Rightarrow> ctx \<Rightarrow>
    (slice_iterator res \<times> 's \<times> ctx) option" where
  "local_List a directory opts s c =
     map_option (\<lambda>(r, s1, c1). (bind_res r (\<lambda>entries. Ok (new_iterator entries)), s1, c1))
       (local_list a directory opts s c)"

end
