(* ===== verification/Local_Root.thy ===== *)
theory Local_Root
  imports Local_Adapter "HOL-Library.AList"
begin

text \<open>
  The implementation of the interface \<^verbatim>\<open>rootFS\<close> on \<^verbatim>\<open>os.Root\<close>: the type \<^verbatim>\<open>osRoot\<close> of
  \<^verbatim>\<open>src/local/local.go\<close> and \<^verbatim>\<open>src/local/rename.go\<close>, over a model of the POSIX directory tree
  beneath the root. A file is a name for an inode, so that an exclusive publication by
  \<^verbatim>\<open>Link\<close> gives two names to one content; names may be symbolic links, which are followed within
  the root and never out of it.

  Any call can fail: \<open>os_faults\<close> says for every call by its number whether it does and how.
  A call that fails changes nothing, except that a failing \<^verbatim>\<open>Write\<close> may have written a part of
  its bytes and a failing \<^verbatim>\<open>MkdirAll\<close> may have made some of the directories.
\<close>

section \<open>The state of the operating system\<close>

datatype node = File nat | Dir | Link string

record fault =
  ft_error :: err
  ft_done :: nat

record handle =
  hd_inode :: "nat option" \<comment> \<open>\<open>None\<close> for an open directory\<close>
  hd_offset :: nat

record os =
  os_tree :: "(string list \<times> node) list"
  os_content :: "nat \<Rightarrow> string"
  os_mtime :: "nat \<Rightarrow> time"
  os_next :: nat \<comment> \<open>the next inode and the next handle\<close>
  os_handles :: "nat \<Rightarrow> handle option"
  os_faults :: "nat \<Rightarrow> fault option"
  os_calls :: nat
  os_random :: "nat \<Rightarrow> err + string" \<comment> \<open>what \<^verbatim>\<open>rand.Reader\<close> gives, by the number of the call\<close>
  os_links :: nat \<comment> \<open>how many symbolic links a lookup follows\<close>
  os_clock :: "nat \<Rightarrow> time"

definition find_node :: "os \<Rightarrow> string list \<Rightarrow> node option" where
  "find_node s k = (if k = [] then Some Dir else map_of (os_tree s) k)"

text \<open>The calls are numbered; a call that is to fail reports its fault.\<close>

definition os_tick :: "os \<Rightarrow> fault option \<times> os" where
  "os_tick s = (os_faults s (os_calls s), s\<lparr>os_calls := Suc (os_calls s)\<rparr>)"

definition os_run :: "(err \<Rightarrow> err) \<Rightarrow> (os \<Rightarrow> err + 'a \<times> os) \<Rightarrow> os \<Rightarrow> (err + 'a) \<times> os" where
  "os_run wrap f s =
     (case os_tick s of
        (Some ft, s1) \<Rightarrow> (Inl (wrap (ft_error ft)), s1)
      | (None, s1) \<Rightarrow>
          (case f s1 of Inl e \<Rightarrow> (Inl (wrap e), s1) | Inr (x, s2) \<Rightarrow> (Inr x, s2)))"

definition os_do :: "(err \<Rightarrow> err) \<Rightarrow> (os \<Rightarrow> err + os) \<Rightarrow> os \<Rightarrow> err option \<times> os" where
  "os_do wrap f s =
     (case os_run wrap (\<lambda>s. map_sum id (Pair ()) (f s)) s of
        (Inl e, s1) \<Rightarrow> (Some e, s1)
      | (Inr _, s1) \<Rightarrow> (None, s1))"

section \<open>Names\<close>

definition escapes :: err where
  "escapes = New ''path escapes from parent''"

definition errno :: "errno \<Rightarrow> err" where
  "errno n = Sentinel (Errno n)"

definition os_name :: "string \<Rightarrow> err + string list" where
  "os_name name =
     (if name = [] then Inl (New ''empty path'')
      else if name = ''.'' then Inr [] else Inr (split_on slash name))"

text \<open>
  The lookup of \<^verbatim>\<open>os.Root\<close>: component by component beneath the root; a link is replaced by its
  target, the last one only when \<open>follow\<close> says so. The last component need not exist.
\<close>

function resolve ::
  "os \<Rightarrow> bool \<Rightarrow> nat \<Rightarrow> string list \<Rightarrow> string list \<Rightarrow> err + string list" where
  "resolve s follow n cur todo =
     (case todo of
        [] \<Rightarrow> Inr cur
      | x # rest \<Rightarrow>
          if x = [] \<or> x = ''.'' then resolve s follow n cur rest
          else if x = ''..''
          then (if cur = [] then Inl escapes else resolve s follow n (butlast cur) rest)
          else (case find_node s (cur @ [x]) of
            Some (Link target) \<Rightarrow>
              if rest = [] \<and> \<not> follow then Inr (cur @ [x])
              else if n = 0 then Inl (New ''too many levels of symbolic links'')
              else if target = [] \<or> hd target = slash then Inl escapes
              else resolve s follow (n - 1) cur (split_on slash target @ rest)
          | Some Dir \<Rightarrow> resolve s follow n (cur @ [x]) rest
          | Some (File _) \<Rightarrow> if rest = [] then Inr (cur @ [x]) else Inl (errno ENOTDIR)
          | None \<Rightarrow> if rest = [] then Inr (cur @ [x]) else Inl (errno ENOENT)))"
  by pat_completeness auto
termination
  by (relation "measures [\<lambda>(s, follow, n, cur, todo). n, \<lambda>(s, follow, n, cur, todo). length todo]") auto

declare resolve.simps [simp del]

definition os_lookup :: "bool \<Rightarrow> string \<Rightarrow> os \<Rightarrow> err + string list" where
  "os_lookup follow name s =
     (case os_name name of Inl e \<Rightarrow> Inl e | Inr k \<Rightarrow> resolve s follow (os_links s) [] k)"

section \<open>Changes of the tree\<close>

definition os_set :: "string list \<Rightarrow> node \<Rightarrow> os \<Rightarrow> os" where
  "os_set k n s = s\<lparr>os_tree := AList.update k n (os_tree s)\<rparr>"

definition os_unset :: "string list \<Rightarrow> os \<Rightarrow> os" where
  "os_unset k s = s\<lparr>os_tree := AList.delete k (os_tree s)\<rparr>"

definition children :: "os \<Rightarrow> string list \<Rightarrow> string list" where
  "children s k =
     sort (map (\<lambda>(p, n). last p) (filter (\<lambda>(p, n). p \<noteq> [] \<and> butlast p = k) (os_tree s)))"

definition remove_node :: "string list \<Rightarrow> os \<Rightarrow> err + os" where
  "remove_node k s =
     (if k = [] then Inl (errno EINVAL)
      else case find_node s k of
        None \<Rightarrow> Inl (errno ENOENT)
      | Some Dir \<Rightarrow> if children s k = [] then Inr (os_unset k s) else Inl (errno ENOTEMPTY)
      | Some _ \<Rightarrow> Inr (os_unset k s))"

text \<open>The directory in which a name is made has to exist.\<close>

definition parent_ok :: "os \<Rightarrow> string list \<Rightarrow> bool" where
  "parent_ok s k = (k \<noteq> [] \<and> find_node s (butlast k) = Some Dir)"

definition link_node :: "string list \<Rightarrow> string list \<Rightarrow> os \<Rightarrow> err + os" where
  "link_node old new s =
     (case find_node s old of
        None \<Rightarrow> Inl (errno ENOENT)
      | Some Dir \<Rightarrow> Inl (errno EISDIR)
      | Some n \<Rightarrow>
          if \<not> parent_ok s new then Inl (errno ENOENT)
          else if find_node s new \<noteq> None then Inl (errno EEXIST)
          else Inr (os_set new n s))"

text \<open>\<^verbatim>\<open>renameat\<close>; a directory takes everything beneath it along.\<close>

definition move_node :: "string list \<Rightarrow> string list \<Rightarrow> os \<Rightarrow> os" where
  "move_node old new s =
     (case find_node s old of
        Some Dir \<Rightarrow>
          s\<lparr>os_tree := map (\<lambda>(k, n). (if prefix old k then new @ drop (length old) k else k, n))
                         (filter (\<lambda>(k, n). k \<noteq> new) (os_tree s))\<rparr>
      | Some n \<Rightarrow> os_set new n (os_unset old s)
      | None \<Rightarrow> s)"

definition rename_node :: "string list \<Rightarrow> string list \<Rightarrow> os \<Rightarrow> err + os" where
  "rename_node old new s =
     (if old = [] \<or> new = [] then Inl (errno EINVAL)
      else case find_node s old of
        None \<Rightarrow> Inl (errno ENOENT)
      | Some n \<Rightarrow>
          if \<not> parent_ok s new then Inl (errno ENOENT)
          else if old = new then Inr s
          else if n = Dir \<and> prefix old new then Inl (errno EINVAL)
          else (case find_node s new of
            None \<Rightarrow> Inr (move_node old new s)
          | Some Dir \<Rightarrow>
              if n \<noteq> Dir then Inl (errno EISDIR)
              else if children s new \<noteq> [] then Inl (errno ENOTEMPTY)
              else Inr (move_node old new s)
          | Some m \<Rightarrow>
              if n = Dir then Inl (errno ENOTDIR)
              else if n = m then Inr s
              else Inr (move_node old new s)))"

text \<open>\<^verbatim>\<open>renameat2\<close> with \<^verbatim>\<open>RENAME_NOREPLACE\<close>: the same, on an absent target only.\<close>

definition rename_exclusive :: "string list \<Rightarrow> string list \<Rightarrow> os \<Rightarrow> err + os" where
  "rename_exclusive old new s =
     (if old \<noteq> [] \<and> find_node s old \<noteq> None \<and> find_node s new \<noteq> None
      then Inl (errno EEXIST) else rename_node old new s)"

text \<open>\<^verbatim>\<open>MkdirAll\<close> makes the directories from the root downwards.\<close>

fun make_dirs :: "string list list \<Rightarrow> os \<Rightarrow> err option \<times> os" where
  "make_dirs [] s = (None, s)"
| "make_dirs (k # ks) s =
     (case find_node s k of
        None \<Rightarrow> make_dirs ks (os_set k Dir s)
      | Some Dir \<Rightarrow> make_dirs ks s
      | Some _ \<Rightarrow> (Some (errno ENOTDIR), s))"

definition dir_prefixes :: "string list \<Rightarrow> string list list" where
  "dir_prefixes k = map (\<lambda>i. take (Suc i) k) [0..<length k]"

section \<open>The calls\<close>

definition node_info :: "os \<Rightarrow> string list \<Rightarrow> node \<Rightarrow> FileInfo" where
  "node_info s k n =
     (let name = (if k = [] then ''.'' else last k) in
      case n of
        File i \<Rightarrow> \<lparr>fi_Name = name, fi_Size = go_len (os_content s i), fi_Type = RegularFile,
                   fi_ModTime = os_mtime s i\<rparr>
      | Dir \<Rightarrow> \<lparr>fi_Name = name, fi_Size = 4096, fi_Type = DirectoryFile, fi_ModTime = 0\<rparr>
      | Link target \<Rightarrow> \<lparr>fi_Name = name, fi_Size = go_len target, fi_Type = SymlinkFile, fi_ModTime = 0\<rparr>)"

definition os_stat :: "string \<Rightarrow> bool \<Rightarrow> string \<Rightarrow> os \<Rightarrow> (err + FileInfo) \<times> os" where
  "os_stat op follow name =
     os_run (PathError op name) (\<lambda>s.
       case os_lookup follow name s of
         Inl e \<Rightarrow> Inl e
       | Inr k \<Rightarrow>
           (case find_node s k of
              None \<Rightarrow> Inl (errno ENOENT)
            | Some n \<Rightarrow> Inr (node_info s k n, s)))"

definition open_handle :: "nat option \<Rightarrow> os \<Rightarrow> nat \<times> os" where
  "open_handle inode s =
     (os_next s, s\<lparr>os_next := Suc (os_next s),
        os_handles := (os_handles s)(os_next s \<mapsto> \<lparr>hd_inode = inode, hd_offset = 0\<rparr>)\<rparr>)"

definition os_Open :: "string \<Rightarrow> os \<Rightarrow> (err + nat) \<times> os" where
  "os_Open name =
     os_run (PathError ''openat'' name) (\<lambda>s.
       case os_lookup True name s of
         Inl e \<Rightarrow> Inl e
       | Inr k \<Rightarrow>
           (case find_node s k of
              Some (File i) \<Rightarrow> Inr (open_handle (Some i) s)
            | Some _ \<Rightarrow> Inr (open_handle None s)
            | None \<Rightarrow> Inl (errno ENOENT)))"

text \<open>A created file gets the inode whose number is also that of its handle.\<close>

definition os_OpenFile :: "string \<Rightarrow> file_mode \<Rightarrow> os \<Rightarrow> (err + nat) \<times> os" where
  "os_OpenFile name mode =
     os_run (PathError ''openat'' name) (\<lambda>s.
       case os_lookup False name s of
         Inl e \<Rightarrow> Inl e
       | Inr k \<Rightarrow>
           if find_node s k \<noteq> None then Inl (errno EEXIST)
           else if \<not> parent_ok s k then Inl (errno ENOENT)
           else let i = os_next s in
             Inr (open_handle (Some i)
               (os_set k (File i)
                 (s\<lparr>os_content := (os_content s)(i := []),
                    os_mtime := (os_mtime s)(i := os_clock s (os_calls s))\<rparr>))))"

definition os_MkdirAll :: "string \<Rightarrow> file_mode \<Rightarrow> os \<Rightarrow> err option \<times> os" where
  "os_MkdirAll name mode s =
     (case os_tick s of (ft, s1) \<Rightarrow>
       (case os_name name of
          Inl e \<Rightarrow> (Some (PathError ''mkdirat'' name e), s1)
        | Inr k \<Rightarrow>
            (case ft of
               None \<Rightarrow>
                 (case make_dirs (dir_prefixes k) s1 of
                    (e, s2) \<Rightarrow> (map_option (PathError ''mkdirat'' name) e, s2))
             | Some ft \<Rightarrow>
                 (Some (PathError ''mkdirat'' name (ft_error ft)),
                  snd (make_dirs (take (ft_done ft) (dir_prefixes k)) s1)))))"

definition os_Remove :: "string \<Rightarrow> os \<Rightarrow> err option \<times> os" where
  "os_Remove name =
     os_do (PathError ''unlinkat'' name) (\<lambda>s.
       case os_lookup False name s of Inl e \<Rightarrow> Inl e | Inr k \<Rightarrow> remove_node k s)"

definition on_names ::
  "(string list \<Rightarrow> string list \<Rightarrow> os \<Rightarrow> err + os) \<Rightarrow> string \<Rightarrow> string \<Rightarrow> os \<Rightarrow> err + os" where
  "on_names f old new s =
     (case os_lookup False old s of
        Inl e \<Rightarrow> Inl e
      | Inr k \<Rightarrow> (case os_lookup False new s of Inl e \<Rightarrow> Inl e | Inr k' \<Rightarrow> f k k' s))"

definition os_Link :: "string \<Rightarrow> string \<Rightarrow> os \<Rightarrow> err option \<times> os" where
  "os_Link old new = os_do (LinkError ''linkat'' old new) (on_names link_node old new)"

definition os_Rename :: "string \<Rightarrow> string \<Rightarrow> os \<Rightarrow> err option \<times> os" where
  "os_Rename old new = os_do (LinkError ''renameat'' old new) (on_names rename_node old new)"

definition os_ReadDir :: "string \<Rightarrow> os \<Rightarrow> (err + DirEntry list) \<times> os" where
  "os_ReadDir name =
     os_run (PathError ''openat'' name) (\<lambda>s.
       case os_lookup True name s of
         Inl e \<Rightarrow> Inl e
       | Inr k \<Rightarrow>
           (case find_node s k of
              None \<Rightarrow> Inl (errno ENOENT)
            | Some Dir \<Rightarrow>
                Inr (map (\<lambda>x. let info = node_info s (k @ [x]) (the (find_node s (k @ [x]))) in
                       \<lparr>de_Name = x, de_Type = fi_Type info, de_Info = Inr info\<rparr>) (children s k), s)
            | Some _ \<Rightarrow> Inl (errno ENOTDIR)))"

section \<open>Open files\<close>

definition file_closed :: "string \<Rightarrow> err" where
  "file_closed op = PathError op [] (Sentinel FsErrClosed)"

definition os_Reads :: "nat \<Rightarrow> os \<Rightarrow> reads" where
  "os_Reads h s =
     (case os_handles s h of
        None \<Rightarrow> [([], Some (file_closed ''read''))]
      | Some f \<Rightarrow>
          (case hd_inode f of
             None \<Rightarrow> [([], Some (PathError ''read'' [] (errno EISDIR)))]
           | Some i \<Rightarrow> [(drop (hd_offset f) (os_content s i), None)]))"

definition put_bytes :: "nat \<Rightarrow> nat \<Rightarrow> string \<Rightarrow> os \<Rightarrow> os" where
  "put_bytes h i chunk s =
     s\<lparr>os_content := (os_content s)(i := os_content s i @ chunk),
       os_mtime := (os_mtime s)(i := os_clock s (os_calls s))\<rparr>"

text \<open>Only a file that was created is written, from its start, so a write appends.\<close>

definition os_Write :: "nat \<Rightarrow> string \<Rightarrow> os \<Rightarrow> err option \<times> os" where
  "os_Write h chunk s =
     (case os_tick s of (ft, s1) \<Rightarrow>
       (case os_handles s1 h of
          None \<Rightarrow> (Some (file_closed ''write''), s1)
        | Some f \<Rightarrow>
            (case (hd_inode f, ft) of
               (None, _) \<Rightarrow> (Some (PathError ''write'' [] (errno EISDIR)), s1)
             | (Some i, None) \<Rightarrow> (None, put_bytes h i chunk s1)
             | (Some i, Some ft) \<Rightarrow>
                 (Some (PathError ''write'' [] (ft_error ft)),
                  put_bytes h i (take (ft_done ft) chunk) s1))))"

definition os_Seek :: "nat \<Rightarrow> int64 \<Rightarrow> os \<Rightarrow> err option \<times> os" where
  "os_Seek h offset =
     os_do (PathError ''seek'' []) (\<lambda>s.
       case os_handles s h of
         None \<Rightarrow> Inl (Sentinel FsErrClosed)
       | Some f \<Rightarrow>
           if sint offset < 0 then Inl (errno EINVAL)
           else Inr (s\<lparr>os_handles := (os_handles s)(h \<mapsto> f\<lparr>hd_offset := nat (sint offset)\<rparr>)\<rparr>))"

definition os_fstat :: "nat \<Rightarrow> os \<Rightarrow> (err + FileInfo) \<times> os" where
  "os_fstat h =
     os_run (PathError ''stat'' []) (\<lambda>s.
       case os_handles s h of
         None \<Rightarrow> Inl (Sentinel FsErrClosed)
       | Some f \<Rightarrow>
           Inr (node_info s [[]] (case hd_inode f of None \<Rightarrow> Dir | Some i \<Rightarrow> File i), s))"

definition os_Sync :: "nat \<Rightarrow> os \<Rightarrow> err option \<times> os" where
  "os_Sync h =
     os_do (PathError ''sync'' []) (\<lambda>s.
       if os_handles s h = None then Inl (Sentinel FsErrClosed) else Inr s)"

text \<open>A failing \<^verbatim>\<open>Close\<close> closes the file all the same.\<close>

definition os_Close :: "nat \<Rightarrow> os \<Rightarrow> err option \<times> os" where
  "os_Close h s =
     (case os_tick s of (ft, s1) \<Rightarrow>
       (if os_handles s1 h = None then Some (file_closed ''close'')
        else map_option (\<lambda>ft. PathError ''close'' [] (ft_error ft)) ft,
        s1\<lparr>os_handles := (os_handles s1)(h := None)\<rparr>))"

text \<open>\<^verbatim>\<open>RenameNoReplace\<close> opens both parent directories, then renames between them.\<close>

definition os_RenameNoReplace :: "string \<Rightarrow> string \<Rightarrow> os \<Rightarrow> err option \<times> os" where
  "os_RenameNoReplace source destination s =
     (case os_Open (path_Dir source) s of
        (Inl e, s1) \<Rightarrow> (Some e, s1)
      | (Inr sourceParent, s1) \<Rightarrow>
          (case os_Open (path_Dir destination) s1 of
             (Inl e, s2) \<Rightarrow> (Some e, snd (os_Close sourceParent s2))
           | (Inr destinationParent, s2) \<Rightarrow>
               (case os_do (LinkError ''rename-no-replace'' source destination)
                   (on_names rename_exclusive source destination) s2 of
                  (e, s3) \<Rightarrow> (e, snd (os_Close sourceParent (snd (os_Close destinationParent s3)))))))"

definition osRoot :: "(os, nat) rootFS" where
  "osRoot =
     \<lparr>rf_Open = os_Open, rf_OpenFile = os_OpenFile, rf_Stat = os_stat ''statat'' True,
      rf_Lstat = os_stat ''lstatat'' False, rf_MkdirAll = os_MkdirAll, rf_Remove = os_Remove,
      rf_Link = os_Link, rf_Rename = os_Rename, rf_RenameNoReplace = os_RenameNoReplace,
      rf_ReadDir = os_ReadDir, rf_Close = os_do (PathError ''close'' []) Inr,
      lf_Reads = os_Reads, lf_Write = os_Write, lf_Seek = os_Seek, lf_Stat = os_fstat,
      lf_Sync = os_Sync, lf_Close = os_Close\<rparr>"

lemma osRoot_simps [simp]:
  "rf_Open osRoot = os_Open" "rf_OpenFile osRoot = os_OpenFile"
  "rf_Stat osRoot = os_stat ''statat'' True" "rf_Lstat osRoot = os_stat ''lstatat'' False"
  "rf_MkdirAll osRoot = os_MkdirAll" "rf_Remove osRoot = os_Remove" "rf_Link osRoot = os_Link"
  "rf_Rename osRoot = os_Rename" "rf_RenameNoReplace osRoot = os_RenameNoReplace"
  "rf_ReadDir osRoot = os_ReadDir" "lf_Reads osRoot = os_Reads" "lf_Write osRoot = os_Write"
  "lf_Seek osRoot = os_Seek" "lf_Stat osRoot = os_fstat" "lf_Sync osRoot = os_Sync"
  "lf_Close osRoot = os_Close"
  by (simp_all add: osRoot_def)

definition os_rand :: "os \<Rightarrow> (err + string) \<times> os" where
  "os_rand s = (os_random s (os_calls s), s\<lparr>os_calls := Suc (os_calls s)\<rparr>)"

end
