(* ===== verification/Local_Theorems.thy ===== *)
theory Local_Theorems
  imports Local_Root
begin

text \<open>
  What the local adapter does on \<^verbatim>\<open>os.Root\<close>: a \<^verbatim>\<open>Write\<close> changes its destination in one step or
  not at all, whichever calls of the operating system fail and whenever the context is
  cancelled.
\<close>

section \<open>The invariant of the tree\<close>

text \<open>
  Every name stands in a directory, files name inodes that exist, and there is no symbolic
  link.
\<close>

fun node_ok :: "nat \<Rightarrow> node \<Rightarrow> bool" where
  "node_ok m (File i) = (i < m)"
| "node_ok m Dir = True"
| "node_ok m (Link _) = False"

definition os_ok :: "os \<Rightarrow> bool" where
  "os_ok s =
     (\<forall>k n. map_of (os_tree s) k = Some n \<longrightarrow>
        k \<noteq> [] \<and> find_node s (butlast k) = Some Dir \<and> node_ok (os_next s) n)"

fun node_content :: "(nat \<Rightarrow> string) \<Rightarrow> node \<Rightarrow> string option" where
  "node_content f (File i) = Some (f i)"
| "node_content f _ = None"

definition file_at :: "os \<Rightarrow> string list \<Rightarrow> string option" where
  "file_at s k = Option.bind (find_node s k) (node_content (os_content s))"

text \<open>A state in which the invariant holds and the files have not changed, those in \<open>X\<close> apart.\<close>

definition keeps :: "string list set \<Rightarrow> os \<Rightarrow> os \<Rightarrow> bool" where
  "keeps X s s' = (os_ok s' \<and> (\<forall>k. k \<notin> X \<longrightarrow> file_at s' k = file_at s k))"

named_theorems os_simps \<open>what the calls leave as it is\<close>

lemma keeps_refl: "os_ok s \<Longrightarrow> keeps X s s"
  by (simp add: keeps_def)

lemma keeps_trans: "keeps X s s' \<Longrightarrow> keeps Y s' s'' \<Longrightarrow> X \<union> Y \<subseteq> Z \<Longrightarrow> keeps Z s s''"
  unfolding keeps_def by (metis Un_iff subsetD)

lemma keeps_mono: "keeps X s s' \<Longrightarrow> X \<subseteq> Y \<Longrightarrow> keeps Y s s'"
  by (auto simp: keeps_def)

lemma find_node_frame [os_simps]:
  "find_node (s\<lparr>os_calls := n\<rparr>) k = find_node s k"
  "find_node (s\<lparr>os_handles := h\<rparr>) k = find_node s k"
  "find_node (s\<lparr>os_content := f\<rparr>) k = find_node s k"
  "find_node (s\<lparr>os_mtime := g\<rparr>) k = find_node s k"
  "find_node (s\<lparr>os_next := m\<rparr>) k = find_node s k"
  by (simp_all add: find_node_def)

lemma os_ok_frame [os_simps]:
  "os_ok (s\<lparr>os_calls := n\<rparr>) = os_ok s"
  "os_ok (s\<lparr>os_handles := h\<rparr>) = os_ok s"
  "os_ok (s\<lparr>os_content := f\<rparr>) = os_ok s"
  "os_ok (s\<lparr>os_mtime := g\<rparr>) = os_ok s"
  by (simp_all add: os_ok_def os_simps)

lemma file_at_frame [os_simps]:
  "file_at (s\<lparr>os_calls := n\<rparr>) k = file_at s k"
  "file_at (s\<lparr>os_handles := h\<rparr>) k = file_at s k"
  "file_at (s\<lparr>os_mtime := g\<rparr>) k = file_at s k"
  "file_at (s\<lparr>os_next := m\<rparr>) k = file_at s k"
  by (simp_all add: file_at_def os_simps)

lemma os_okD:
  assumes "os_ok s" and "find_node s k = Some n" and "k \<noteq> []"
  shows "find_node s (butlast k) = Some Dir" and "node_ok (os_next s) n"
  using assms by (auto simp: os_ok_def find_node_def split: if_splits)

lemma find_node_set [os_simps]:
  "k \<noteq> [] \<Longrightarrow> find_node (os_set k n s) k' = (if k' = k then Some n else find_node s k')"
  by (simp add: find_node_def os_set_def update_conv')

lemma find_node_unset [os_simps]:
  "k \<noteq> [] \<Longrightarrow> find_node (os_unset k s) k' = (if k' = k then None else find_node s k')"
  by (simp add: find_node_def os_unset_def delete_conv')

lemma os_fields_set [os_simps]:
  "os_content (os_set k n s) = os_content s" "os_next (os_set k n s) = os_next s"
  "os_content (os_unset k s) = os_content s" "os_next (os_unset k s) = os_next s"
  "os_handles (os_set k n s) = os_handles s" "os_handles (os_unset k s) = os_handles s"
  "os_calls (os_set k n s) = os_calls s" "os_calls (os_unset k s) = os_calls s"
  "os_faults (os_set k n s) = os_faults s" "os_faults (os_unset k s) = os_faults s"
  by (simp_all add: os_set_def os_unset_def)

lemma os_okI:
  assumes "map_of (os_tree s) [] = None"
    and "\<And>k n. k \<noteq> [] \<Longrightarrow> find_node s k = Some n \<Longrightarrow>
      find_node s (butlast k) = Some Dir \<and> node_ok (os_next s) n"
  shows "os_ok s"
  unfolding os_ok_def
proof (intro allI impI)
  fix k n assume k: "map_of (os_tree s) k = Some n"
  with assms(1) have "k \<noteq> []" by auto
  with k assms(2) [of k n]
  show "k \<noteq> [] \<and> find_node s (butlast k) = Some Dir \<and> node_ok (os_next s) n"
    by (simp add: find_node_def)
qed

lemma os_ok_root: "os_ok s \<Longrightarrow> map_of (os_tree s) [] = None"
  by (cases "map_of (os_tree s) []") (auto simp: os_ok_def)

lemma root_unnamed [os_simps]:
  "k \<noteq> [] \<Longrightarrow> map_of (os_tree (os_set k n s)) [] = map_of (os_tree s) []"
  "k \<noteq> [] \<Longrightarrow> map_of (os_tree (os_unset k s)) [] = map_of (os_tree s) []"
  by (simp_all add: os_set_def os_unset_def update_conv' delete_conv')

text \<open>A file has nothing beneath it.\<close>

lemma beneath_file:
  assumes "os_ok s" and "find_node s k = Some (File i)" and "k' \<noteq> []" and "butlast k' = k"
  shows "find_node s k' = None"
  using os_okD(1) [OF assms(1) _ assms(3)] assms(2,4) by (cases "find_node s k'") auto

section \<open>Names\<close>

lemma os_name_join:
  assumes "ss \<noteq> []" and "list_all plain_elem ss"
  shows "os_name (join_with slash ss) = Inr ss"
proof -
  have split: "split_on slash (join_with slash ss) = ss"
    using assms by (simp add: split_join plain_no_slash)
  then have "join_with slash ss \<noteq> ''.''" using assms(2) by (auto simp: plain_elem_def)
  with split show ?thesis
    using join_plain_hd [OF assms] by (simp add: os_name_def)
qed

lemma os_name_path:
  assumes "wf_path p" and "\<not> IsRoot p" shows "os_name (Path_String p) = Inr (segments p)"
proof -
  have "segments p \<noteq> []" and "list_all plain_elem (segments p)"
    using assms by (simp_all add: IsRoot_segments segments_plain wf_pathD)
  from os_name_join [OF this] show ?thesis by (simp add: join_segments Path_String_def)
qed

text \<open>Without links a lookup that succeeds finds the name itself.\<close>

lemma resolve_plain:
  assumes "os_ok s" and "list_all plain_elem todo" and "resolve s follow n cur todo = Inr k"
  shows "k = cur @ todo"
  using assms(2,3)
proof (induction todo arbitrary: cur)
  case Nil
  then show ?case by (simp add: resolve.simps)
next
  case (Cons x rest)
  have x: "x \<noteq> []" "x \<noteq> ''.''" "x \<noteq> ''..''" using Cons.prems(1) by (simp_all add: plain_elem_def)
  have "find_node s (cur @ [x]) \<noteq> Some (Link t)" for t
    using os_okD(2) [OF assms(1), of "cur @ [x]"] by auto
  then show ?case
    using Cons.prems x Cons.IH [of "cur @ [x]"]
    by (subst (asm) resolve.simps) (auto split: option.splits node.splits if_splits)
qed

text \<open>It succeeds when everything in front of the last component is a directory.\<close>

lemma resolve_dirs:
  assumes "os_ok s" and "list_all plain_elem (todo @ [l])"
    and "\<And>i. i < length todo \<Longrightarrow> find_node s (cur @ take (Suc i) todo) = Some Dir"
  shows "resolve s follow n cur (todo @ [l]) = Inr (cur @ todo @ [l])"
  using assms(2,3)
proof (induction todo arbitrary: cur)
  case Nil
  have l: "l \<noteq> []" "l \<noteq> ''.''" "l \<noteq> ''..''" using Nil.prems(1) by (simp_all add: plain_elem_def)
  have "find_node s (cur @ [l]) \<noteq> Some (Link t)" for t
    using os_okD(2) [OF assms(1), of "cur @ [l]"] by auto
  with l show ?case
    by (subst resolve.simps) (auto simp: resolve.simps [of s follow n "cur @ [l]" "[]"]
        split: option.splits node.splits)
next
  case (Cons x rest)
  have x: "x \<noteq> []" "x \<noteq> ''.''" "x \<noteq> ''..''" using Cons.prems(1) by (simp_all add: plain_elem_def)
  have "find_node s (cur @ [x]) = Some Dir" using Cons.prems(2) [of 0] by simp
  moreover have "find_node s ((cur @ [x]) @ take (Suc i) rest) = Some Dir" if "i < length rest" for i
    using Cons.prems(2) [of "Suc i"] that by simp
  ultimately show ?case
    using x Cons.IH [of "cur @ [x]"] Cons.prems(1) by (subst resolve.simps) simp
qed

text \<open>The proper prefixes of a name that exists are directories.\<close>

lemma prefix_dir:
  assumes "os_ok s" and "find_node s k = Some n" and "i < length k"
  shows "find_node s (take i k) = Some Dir"
  using assms(2,3)
proof (induction "length k - i" arbitrary: i n k)
  case 0
  then show ?case by simp
next
  case (Suc d)
  then have "k \<noteq> []" by auto
  then have b: "find_node s (butlast k) = Some Dir" using os_okD(1) [OF assms(1) Suc.prems(1)] by blast
  show ?case
  proof (cases "i = length k - 1")
    case True
    with b show ?thesis by (simp add: butlast_conv_take)
  next
    case False
    with Suc have "i < length (butlast k)" and "d = length (butlast k) - i" by auto
    from Suc.hyps(1) [OF this(2) b this(1)] show ?thesis
      using Suc.prems(2) False by (simp add: take_butlast)
  qed
qed

section \<open>The calls on the tree\<close>

lemma os_stat_state [os_simps]: "snd (os_stat op follow name s) = s\<lparr>os_calls := Suc (os_calls s)\<rparr>"
  by (auto simp: os_stat_def os_run_def os_tick_def split: option.splits sum.splits)

text \<open>A state that differs in the number of calls only.\<close>

definition counted :: "os \<Rightarrow> os \<Rightarrow> bool" where
  "counted s s' = (\<exists>n. s' = s\<lparr>os_calls := n\<rparr>)"

lemma counted_refl [simp]: "counted s s"
  unfolding counted_def by (rule exI [of _ "os_calls s"]) simp

lemma counted_ticked [simp]: "counted s (s\<lparr>os_calls := n\<rparr>)"
  by (auto simp: counted_def)

lemma counted_trans: "counted s s' \<Longrightarrow> counted s' s'' \<Longrightarrow> counted s s''"
  by (auto simp: counted_def)

lemma check_prefixes_state:
  "\<exists>n. snd (check_prefixes osRoot p names s) = s\<lparr>os_calls := n\<rparr>"
proof (induction names arbitrary: s)
  case Nil
  show ?case by (simp, rule exI [of _ "os_calls s"], simp)
next
  case (Cons name names)
  obtain r s1 where l: "os_stat ''lstatat'' False name s = (r, s1)" by fastforce
  then have s1: "s1 = s\<lparr>os_calls := Suc (os_calls s)\<rparr>" using os_stat_state by (metis snd_conv)
  obtain n where n: "snd (check_prefixes osRoot p names s1) = s1\<lparr>os_calls := n\<rparr>" using Cons by blast
  show ?case
  proof (cases r)
    case (Inl e)
    with l s1 show ?thesis by (auto simp: osRoot_def)
  next
    case (Inr info)
    with l n show ?thesis
      by (cases "fi_Type info = SymlinkFile") (use s1 in \<open>auto simp: osRoot_def\<close>)
  qed
qed

text \<open>The state after a call that has done nothing but count.\<close>

abbreviation ticked :: "os \<Rightarrow> os" where
  "ticked s \<equiv> s\<lparr>os_calls := Suc (os_calls s)\<rparr>"

lemma os_run_cases:
  assumes "os_run wrap f s = (r, s')"
  obtains e where "r = Inl (wrap e)" "s' = ticked s"
      "os_faults s (os_calls s) \<noteq> None \<or> f (ticked s) = Inl e"
  | x where "r = Inr x" "f (ticked s) = Inr (x, s')" "os_faults s (os_calls s) = None"
  using assms by (auto simp: os_run_def os_tick_def split: option.splits sum.splits)

lemma os_do_cases:
  assumes "os_do wrap f s = (r, s')"
  obtains e where "r = Some (wrap e)" "s' = ticked s"
      "os_faults s (os_calls s) \<noteq> None \<or> f (ticked s) = Inl e"
  | "r = None" "f (ticked s) = Inr s'" "os_faults s (os_calls s) = None"
proof -
  obtain x s1 where x: "os_run wrap (\<lambda>s. map_sum id (Pair ()) (f s)) s = (x, s1)" by fastforce
  from x show thesis
  proof (cases rule: os_run_cases)
    case (1 e)
    then have "f (ticked s) = Inl e" if "os_faults s (os_calls s) = None"
      using that by (cases "f (ticked s)") auto
    with 1 x assms that(1) show ?thesis by (auto simp: os_do_def)
  next
    case (2 y)
    then have "f (ticked s) = Inr s1" by (cases "f (ticked s)") auto
    with 2 x assms that(2) show ?thesis by (auto simp: os_do_def)
  qed
qed

definition named :: "string \<Rightarrow> string list \<Rightarrow> bool" where
  "named name k = (os_name name = Inr k \<and> k \<noteq> [] \<and> list_all plain_elem k)"

lemma lookup_named:
  "os_ok s \<Longrightarrow> named name k \<Longrightarrow> os_lookup follow name s = Inr k' \<Longrightarrow> k' = k"
  using resolve_plain [of s k follow "os_links s" "[]" k'] by (simp add: os_lookup_def named_def)

lemma named_path: "wf_path p \<Longrightarrow> \<not> IsRoot p \<Longrightarrow> named (Path_String p) (segments p)"
  by (simp add: named_def os_name_path IsRoot_segments segments_plain wf_pathD)

lemma mem_children: "x \<in> set (children s k) \<longleftrightarrow> k @ [x] \<in> fst ` set (os_tree s)"
proof
  assume "x \<in> set (children s k)"
  then obtain p n where "(p, n) \<in> set (os_tree s)" "p \<noteq> []" "butlast p = k" "last p = x"
    by (auto simp: children_def)
  then show "k @ [x] \<in> fst ` set (os_tree s)" by (force simp: image_iff)
next
  assume "k @ [x] \<in> fst ` set (os_tree s)"
  then show "x \<in> set (children s k)" by (force simp: children_def)
qed

lemma remove_node_ok:
  assumes "os_ok s" and "remove_node k s = Inr s'"
  shows "k \<noteq> []" and "s' = os_unset k s" and "os_ok s'"
proof -
  show k: "k \<noteq> []" and s': "s' = os_unset k s"
    using assms(2) by (auto simp: remove_node_def split: if_splits option.splits node.splits)
  have empty: "butlast k' \<noteq> k" if "k' \<noteq> []" "find_node s k' = Some n" for k' n
  proof
    assume b: "butlast k' = k"
    with os_okD(1) [OF assms(1) that(2,1)] have "find_node s k = Some Dir" by simp
    with assms(2) k have "children s k = []" by (auto simp: remove_node_def split: if_splits)
    moreover from that have "k @ [last k'] \<in> fst ` set (os_tree s)"
      using b by (force simp: find_node_def dest: map_of_SomeD)
    then have "last k' \<in> set (children s k)" by (simp add: mem_children)
    ultimately show False by simp
  qed
  show "os_ok s'"
    unfolding s'
  proof (rule os_okI)
    show "map_of (os_tree (os_unset k s)) [] = None"
      using os_ok_root [OF assms(1)] k by (simp add: os_simps)
  next
    fix k' n assume k': "k' \<noteq> []" "find_node (os_unset k s) k' = Some n"
    with k have "find_node s k' = Some n" by (simp add: os_simps split: if_splits)
    with os_okD [OF assms(1) this k'(1)] empty [OF k'(1) this] k
    show "find_node (os_unset k s) (butlast k') = Some Dir \<and> node_ok (os_next (os_unset k s)) n"
      by (simp add: os_simps)
  qed
qed

lemma os_ok_set:
  assumes "os_ok s" and "parent_ok s k" and "find_node s k \<noteq> Some Dir" and "node_ok (os_next s) n"
  shows "os_ok (os_set k n s)"
proof (rule os_okI)
  have k: "k \<noteq> []" "find_node s (butlast k) = Some Dir" using assms(2) by (simp_all add: parent_ok_def)
  show "map_of (os_tree (os_set k n s)) [] = None"
    using os_ok_root [OF assms(1)] k by (simp add: os_simps)
  fix k' m assume k': "k' \<noteq> []" "find_node (os_set k n s) k' = Some m"
  show "find_node (os_set k n s) (butlast k') = Some Dir \<and> node_ok (os_next (os_set k n s)) m"
  proof (cases "k' = k")
    case True
    moreover have "butlast k \<noteq> k" using k(1) by (metis append_butlast_last_id not_Cons_self2 self_append_conv)
    ultimately show ?thesis using k k' assms(4) by (simp add: os_simps)
  next
    case False
    with k k' have m: "find_node s k' = Some m" by (simp add: os_simps)
    with os_okD(1) [OF assms(1) m k'(1)] assms(3) have "butlast k' \<noteq> k" by auto
    with os_okD [OF assms(1) m k'(1)] k show ?thesis by (simp add: os_simps)
  qed
qed

lemma file_at_unset: "k \<noteq> [] \<Longrightarrow> file_at (os_unset k s) k' = (if k' = k then None else file_at s k')"
  by (simp add: file_at_def os_simps)

lemma file_at_set:
  "k \<noteq> [] \<Longrightarrow> file_at (os_set k n s) k' = (if k' = k then node_content (os_content s) n else file_at s k')"
  by (simp add: file_at_def os_simps)

section \<open>The temporary file\<close>

definition temp_file :: "os \<Rightarrow> string list \<Rightarrow> nat \<Rightarrow> string \<Rightarrow> bool" where
  "temp_file s t i content =
     (t \<noteq> [] \<and> find_node s t = Some (File i) \<and> os_content s i = content \<and>
      (\<forall>k. find_node s k = Some (File i) \<longrightarrow> k = t))"

definition writable :: "os \<Rightarrow> nat \<Rightarrow> bool" where
  "writable s h = (\<exists>f. os_handles s h = Some f \<and> hd_inode f = Some h)"

lemma temp_file_frame [os_simps]:
  "temp_file (s\<lparr>os_calls := n\<rparr>) t i content = temp_file s t i content"
  "temp_file (s\<lparr>os_handles := h\<rparr>) t i content = temp_file s t i content"
  by (simp_all add: temp_file_def os_simps)

lemma writable_frame [os_simps]: "writable (s\<lparr>os_calls := n\<rparr>) h = writable s h"
  by (simp add: writable_def)

lemma OpenFile_keeps:
  assumes "os_ok s" and "named name t" and "os_OpenFile name mode s = (r, s')"
  shows "keeps {t} s s'" and "r = Inr h \<Longrightarrow> temp_file s' t h [] \<and> writable s' h \<and> find_node s t = None"
    and "r = Inl e \<Longrightarrow> s' = ticked s"
proof -
  have "keeps {t} s s' \<and> (r = Inr h \<longrightarrow> temp_file s' t h [] \<and> writable s' h \<and> find_node s t = None) \<and>
      (r = Inl e \<longrightarrow> s' = ticked s)"
    using assms(3) unfolding os_OpenFile_def
  proof (cases rule: os_run_cases)
    case (1 e)
    then show ?thesis using assms(1) by (simp add: keeps_def os_simps)
  next
    case (2 x)
    let ?s = "(ticked s)\<lparr>os_content := (os_content s)(os_next s := []),
      os_mtime := (os_mtime s)(os_next s := os_clock s (Suc (os_calls s)))\<rparr>"
    from 2(2) obtain k where k: "os_lookup False name (ticked s) = Inr k"
      and new: "find_node s k = None" "parent_ok (ticked s) k"
      and s': "(x, s') = open_handle (Some (os_next s)) (os_set k (File (os_next s)) ?s)"
      by (auto simp: os_simps Let_def split: sum.splits if_splits)
    from lookup_named [OF _ assms(2) k] assms(1) have [simp]: "k = t" by (simp add: os_simps)
    have t: "t \<noteq> []" using assms(2) by (simp add: named_def)
    have x: "x = os_next s" using s' by (simp add: open_handle_def os_simps)
    have par: "parent_ok ?s t" using new(2) by (simp add: parent_ok_def os_simps)
    define u where "u = ?s\<lparr>os_next := Suc (os_next s)\<rparr>"
    have node_ok_Suc: "node_ok m n \<Longrightarrow> node_ok (Suc m) n" for m n by (cases n) auto
    have oku: "os_ok u"
    proof (rule os_okI)
      show "map_of (os_tree u) [] = None" using os_ok_root [OF assms(1)] by (simp add: u_def)
      show "find_node u (butlast k') = Some Dir \<and> node_ok (os_next u) n"
        if "k' \<noteq> []" "find_node u k' = Some n" for k' n
        using os_okD [OF assms(1), of k' n] that by (simp add: u_def os_simps node_ok_Suc)
    qed
    have s'': "s' = (os_set t (File (os_next s)) u)\<lparr>os_handles := (os_handles s)(os_next s \<mapsto>
        \<lparr>hd_inode = Some (os_next s), hd_offset = 0\<rparr>)\<rparr>"
      using s' by (simp add: open_handle_def u_def os_set_def)
    have nodes: "find_node s' k' = (if k' = t then Some (File (os_next s)) else find_node s k')" for k'
      using t by (simp add: s'' os_simps) (simp add: u_def os_simps)
    have cont: "os_content s' = (os_content s)(os_next s := [])" by (simp add: s'' os_simps u_def)
    have old: "find_node s k' \<noteq> Some (File (os_next s))" for k'
      using os_okD(2) [OF assms(1), of k' "File (os_next s)"] by (cases "k' = []") (auto simp: find_node_def)
    have "os_ok s'"
      unfolding s'' using oku new par t by (simp add: os_simps, intro os_ok_set)
        (simp_all add: parent_ok_def u_def os_simps)
    moreover have "file_at s' k' = file_at s k'" if "k' \<noteq> t" for k'
    proof (cases "find_node s k'")
      case (Some n)
      with old [of k'] that show ?thesis by (cases n) (auto simp: file_at_def nodes cont)
    qed (use that in \<open>simp add: file_at_def nodes\<close>)
    moreover have "temp_file s' t (os_next s) []"
      using old t by (auto simp: temp_file_def nodes cont split: if_splits)
    moreover have "writable s' (os_next s)" by (simp add: writable_def s'')
    ultimately show ?thesis using 2(1) x new(1) by (auto simp: keeps_def)
  qed
  then show "keeps {t} s s'" and "r = Inr h \<Longrightarrow> temp_file s' t h [] \<and> writable s' h \<and> find_node s t = None"
    and "r = Inl e \<Longrightarrow> s' = ticked s" by auto
qed

lemma Write_keeps:
  assumes "os_ok s" and "temp_file s t h content" and "writable s h" and "os_Write h chunk s = (r, s')"
  shows "keeps {t} s s'" and "writable s' h"
    and "\<exists>got. temp_file s' t h (content @ got) \<and> (r = None \<longrightarrow> got = chunk)"
proof -
  from assms(3) obtain f where f: "os_handles s h = Some f" "hd_inode f = Some h"
    by (auto simp: writable_def)
  then obtain got where s': "s' = put_bytes h h got (ticked s)" and got: "r = None \<longrightarrow> got = chunk"
    using assms(4) by (auto simp: os_Write_def os_tick_def split: option.splits)
  have nodes: "find_node s' k = find_node s k" for k by (simp add: s' put_bytes_def os_simps)
  have cont: "os_content s' = (os_content s)(h := os_content s h @ got)" by (simp add: s' put_bytes_def)
  have "os_ok s'" using assms(1) by (simp add: s' put_bytes_def os_simps)
  moreover have "file_at s' k = file_at s k" if "k \<noteq> t" for k
  proof (cases "find_node s k")
    case (Some n)
    with assms(2) that show ?thesis by (cases n) (auto simp: file_at_def nodes cont temp_file_def)
  qed (simp add: file_at_def nodes)
  ultimately show "keeps {t} s s'" by (simp add: keeps_def)
  show "writable s' h" using f by (simp add: writable_def s' put_bytes_def)
  show "\<exists>got. temp_file s' t h (content @ got) \<and> (r = None \<longrightarrow> got = chunk)"
    using assms(2) got by (intro exI [of _ got]) (auto simp: temp_file_def nodes cont)
qed

text \<open>The bytes that reach the file are those of the source, all of them if there is no error.\<close>

lemma copy_into_keeps:
  assumes "os_ok s" and "temp_file s t h content" and "writable s h"
    and "copy_into (os_Write h) polls rs s c = (r, s', c')"
  shows "keeps {t} s s' \<and> writable s' h \<and>
    (\<exists>got. temp_file s' t h (content @ got) \<and> (r = None \<longrightarrow> io_copy rs = (got, None)))"
  using assms
proof (induction rs arbitrary: s c content)
  case Nil
  then show ?case by (auto simp: keeps_refl split: prod.splits intro!: exI [of _ "[]"])
next
  case (Cons rd rs)
  obtain chunk er where rd: "rd = (chunk, er)" by fastforce
  obtain pe c1 where poll: "poll_times polls c = (pe, c1)" by fastforce
  show ?case
  proof (cases pe)
    case (Some e)
    with Cons.prems rd poll show ?thesis by (auto simp: keeps_refl intro!: exI [of _ "[]"])
  next
    case None
    obtain we s1 where w: "(if chunk = [] then (None, s) else os_Write h chunk s) = (we, s1)" by fastforce
    have s1: "keeps {t} s s1" "writable s1 h"
      "\<exists>got. temp_file s1 t h (content @ got) \<and> (we = None \<longrightarrow> got = chunk)"
      using w Write_keeps [OF Cons.prems(1,2,3), of chunk we s1] Cons.prems(1-3)
      by (auto simp: keeps_refl split: if_splits)
    then obtain got where got: "temp_file s1 t h (content @ got)" "we = None \<longrightarrow> got = chunk" by blast
    have lf: "lf_Write osRoot = os_Write" by (simp add: osRoot_def)
    note step = Cons.prems(4) [unfolded rd copy_into.simps lf poll None prod.case option.case w]
    show ?thesis
    proof (cases we)
      case (Some e)
      with step s1 got show ?thesis by auto
    next
      case None
      with got have t1: "temp_file s1 t h (content @ chunk)" by simp
      show ?thesis
      proof (cases er)
        case None
        from step [unfolded None \<open>we = None\<close>, simplified]
        have "copy_into (os_Write h) polls rs s1 c1 = (r, s', c')" .
        from Cons.IH [OF _ t1 s1(2) this] s1(1)
        obtain rest where "keeps {t} s1 s'" "writable s' h" "temp_file s' t h ((content @ chunk) @ rest)"
          "r = None \<longrightarrow> io_copy rs = (rest, None)" by (auto simp: keeps_def)
        with keeps_trans [OF s1(1)] rd None show ?thesis
          by (auto intro!: exI [of _ "chunk @ rest"])
      next
        case (Some e)
        with step \<open>we = None\<close> have "s' = s1" "r = (if e = Sentinel IoEOF then None else Some e)" by auto
        with s1 t1 rd Some show ?thesis by (auto intro!: exI [of _ chunk])
      qed
    qed
  qed
qed

lemma os_Close_state: "snd (os_Close h s) = (ticked s)\<lparr>os_handles := (os_handles s)(h := None)\<rparr>"
  by (simp add: os_Close_def os_tick_def)

lemma os_Sync_state: "snd (os_Sync h s) = ticked s"
proof -
  obtain r s' where r: "os_Sync h s = (r, s')" by fastforce
  then show ?thesis
    unfolding os_Sync_def by (cases rule: os_do_cases) (use r in \<open>auto simp: os_Sync_def split: if_splits\<close>)
qed

lemma fill_keeps:
  assumes "os_ok s" and "temp_file s t h []" and "writable s h"
    and "fill_temporary osRoot h polls source s c = (r, s', c')"
  shows "keeps {t} s s' \<and>
    (\<exists>content. temp_file s' t h content \<and> (r = None \<longrightarrow> io_copy source = (content, None)))"
proof -
  obtain e s1 c1 where cp: "copy_into (os_Write h) polls source s c = (e, s1, c1)" by (metis prod_cases3)
  from copy_into_keeps [OF assms(1-3) cp] obtain content where
    s1: "keeps {t} s s1" "temp_file s1 t h content" "e = None \<longrightarrow> io_copy source = (content, None)"
    by auto
  have *: "s' = s1 \<or> s' = ticked s1 \<or>
      s' = (ticked (ticked s1))\<lparr>os_handles := (os_handles s1)(h := None)\<rparr>"
    using assms(4) cp os_Sync_state [of h s1] os_Close_state [of h "ticked s1"]
    by (auto simp: fill_temporary_def osRoot_def split: option.splits prod.splits)
  have "r = None \<Longrightarrow> e = None"
    using assms(4) cp by (cases e) (auto simp: fill_temporary_def)
  with s1 * show ?thesis
    by (auto simp: keeps_def os_simps intro!: exI [of _ content])
qed

lemma Remove_keeps:
  assumes "os_ok s" and "named name t" and "os_Remove name s = (r, s')"
  shows "keeps {t} s s'" and "r = None \<Longrightarrow> s' = os_unset t (ticked s)" and "r \<noteq> None \<Longrightarrow> s' = ticked s"
proof -
  have t: "t \<noteq> []" using assms(2) by (simp add: named_def)
  have ok: "os_ok (ticked s)" using assms(1) by (simp add: os_simps)
  have "keeps {t} s s' \<and> (r = None \<longrightarrow> s' = os_unset t (ticked s)) \<and> (r \<noteq> None \<longrightarrow> s' = ticked s)"
    using assms(3) unfolding os_Remove_def
  proof (cases rule: os_do_cases)
    case (1 e)
    then show ?thesis using assms(1) by (simp add: keeps_def os_simps)
  next
    case 2
    then obtain k where k: "os_lookup False name (ticked s) = Inr k" "remove_node k (ticked s) = Inr s'"
      by (auto split: sum.splits)
    from lookup_named [OF ok assms(2) k(1)] have "k = t" .
    with remove_node_ok [OF ok k(2)] t 2(1) show ?thesis
      by (auto simp: keeps_def file_at_unset os_simps)
  qed
  then show "keeps {t} s s'" and "r = None \<Longrightarrow> s' = os_unset t (ticked s)" and "r \<noteq> None \<Longrightarrow> s' = ticked s"
    by auto
qed

lemma cleanup_keeps:
  assumes "os_ok s" and "named name t"
  shows "keeps (if committed then {} else {t}) s (cleanup_temporary osRoot h name committed s)"
proof -
  let ?s = "snd (os_Close h s)"
  have s: "?s = (ticked s)\<lparr>os_handles := (os_handles s)(h := None)\<rparr>" by (rule os_Close_state)
  have k: "keeps {} s ?s" unfolding s using assms(1) by (simp add: keeps_def os_simps)
  then have "os_ok ?s" by (simp add: keeps_def)
  then have "keeps {t} ?s (snd (os_Remove name ?s))"
    using Remove_keeps(1) [OF _ assms(2), of ?s] by (metis prod.collapse)
  with k show ?thesis
    using keeps_trans [OF k, of "{t}"] by (auto simp: cleanup_temporary_def osRoot_def Let_def)
qed

text \<open>
  The publication. A failing one leaves the destination as it was, except that the removal of
  the temporary name after a \<^verbatim>\<open>Link\<close> can fail when the destination is already published.
\<close>

lemma Link_keeps:
  assumes "os_ok s" and "named name t" and "named name' k" and "temp_file s t i content"
    and "os_Link name name' s = (r, s')"
  shows "r \<noteq> None \<Longrightarrow> s' = ticked s"
    and "r = None \<Longrightarrow> find_node s k = None \<and> os_ok s' \<and>
      (\<forall>k'. file_at s' k' = (if k' = k then Some content else file_at s k'))"
proof -
  have ok: "os_ok (ticked s)" using assms(1) by (simp add: os_simps)
  have k: "k \<noteq> []" and t: "find_node s t = Some (File i)" "os_content s i = content" "i < os_next s"
    using assms(3,4) os_okD(2) [OF assms(1), of t "File i"] by (auto simp: named_def temp_file_def)
  have "(r \<noteq> None \<longrightarrow> s' = ticked s) \<and> (r = None \<longrightarrow> find_node s k = None \<and> os_ok s' \<and>
      (\<forall>k'. file_at s' k' = (if k' = k then Some content else file_at s k')))"
    using assms(5) unfolding os_Link_def
  proof (cases rule: os_do_cases)
    case 2
    then obtain x y where xy: "os_lookup False name (ticked s) = Inr x"
        "os_lookup False name' (ticked s) = Inr y" "link_node x y (ticked s) = Inr s'"
      by (auto simp: on_names_def split: sum.splits)
    with lookup_named [OF ok assms(2)] lookup_named [OF ok assms(3)] have [simp]: "x = t" "y = k" by auto
    from xy(3) t have new: "parent_ok (ticked s) k" "find_node s k = None"
        and s': "s' = os_set k (File i) (ticked s)"
      by (auto simp: link_node_def os_simps split: if_splits)
    have "os_ok s'" unfolding s' using ok new t by (intro os_ok_set) (simp_all add: os_simps)
    with 2(1) new k t show ?thesis by (auto simp: s' file_at_set os_simps)
  qed auto
  then show "r \<noteq> None \<Longrightarrow> s' = ticked s"
    and "r = None \<Longrightarrow> find_node s k = None \<and> os_ok s' \<and>
      (\<forall>k'. file_at s' k' = (if k' = k then Some content else file_at s k'))" by auto
qed

lemma rename_file:
  assumes "os_ok s" and "find_node s t = Some (File i)" and "t \<noteq> []" and "rename_node t k s = Inr s'"
    and "t \<noteq> k" and "find_node s k \<noteq> Some (File i)"
  shows "s' = os_set k (File i) (os_unset t s)" and "k \<noteq> []" and "os_ok s'"
proof -
  show s': "s' = os_set k (File i) (os_unset t s)" and k: "k \<noteq> []"
    using assms by (auto simp: rename_node_def move_node_def split: if_splits option.splits node.splits)
  have p: "parent_ok s k" and nd: "find_node s k \<noteq> Some Dir"
    using assms by (auto simp: rename_node_def split: if_splits)
  have ok: "os_ok (os_unset t s)"
    using remove_node_ok [OF assms(1), of t "os_unset t s"] assms(2,3) by (auto simp: remove_node_def)
  show "os_ok s'"
    unfolding s'
    using ok p nd assms(2,3,5) os_okD(2) [OF assms(1,2,3)]
    by (intro os_ok_set) (auto simp: parent_ok_def os_simps)
qed

lemma Rename_keeps:
  assumes "os_ok s" and "named name t" and "named name' k" and "temp_file s t i content" and "t \<noteq> k"
    and "os_Rename name name' s = (r, s')"
  shows "r \<noteq> None \<Longrightarrow> s' = ticked s"
    and "r = None \<Longrightarrow> os_ok s' \<and>
      (\<forall>k'. file_at s' k' = (if k' = k then Some content else if k' = t then None else file_at s k'))"
proof -
  have ok: "os_ok (ticked s)" using assms(1) by (simp add: os_simps)
  have t: "t \<noteq> []" "find_node s t = Some (File i)" "os_content s i = content"
    "find_node s k \<noteq> Some (File i)"
    using assms(4,5) by (auto simp: temp_file_def)
  have "(r \<noteq> None \<longrightarrow> s' = ticked s) \<and> (r = None \<longrightarrow> os_ok s' \<and>
      (\<forall>k'. file_at s' k' = (if k' = k then Some content else if k' = t then None else file_at s k')))"
    using assms(6) unfolding os_Rename_def
  proof (cases rule: os_do_cases)
    case 2
    then obtain x y where xy: "os_lookup False name (ticked s) = Inr x"
        "os_lookup False name' (ticked s) = Inr y" "rename_node x y (ticked s) = Inr s'"
      by (auto simp: on_names_def split: sum.splits)
    with lookup_named [OF ok assms(2)] lookup_named [OF ok assms(3)] have [simp]: "x = t" "y = k" by auto
    from rename_file [OF ok _ t(1) xy(3) [simplified] assms(5)] t
    have "s' = os_set k (File i) (os_unset t (ticked s))" "k \<noteq> []" "os_ok s'" by (simp_all add: os_simps)
    with 2(1) t show ?thesis by (auto simp: file_at_set file_at_unset os_simps)
  qed auto
  then show "r \<noteq> None \<Longrightarrow> s' = ticked s"
    and "r = None \<Longrightarrow> os_ok s' \<and>
      (\<forall>k'. file_at s' k' = (if k' = k then Some content else if k' = t then None else file_at s k'))"
    by auto
qed

text \<open>The destination holds the whole content, or is as it was; only it and \<open>t\<close> may differ.\<close>

definition published :: "os \<Rightarrow> os \<Rightarrow> string list \<Rightarrow> string list \<Rightarrow> string \<Rightarrow> bool \<Rightarrow> bool" where
  "published s s' t k content exclusive =
     (keeps {t, k} s s' \<and> file_at s' k = Some content \<and> (exclusive \<longrightarrow> file_at s k = None))"

lemma publish_keeps:
  assumes "os_ok s" and "named name t" and "named (Path_String p) k" and "temp_file s t i content"
    and "t \<noteq> k" and "publish_temporary osRoot name p exclusive s = (r, s')"
  shows "keeps {t} s s' \<and> r \<noteq> None \<or> published s s' t k content exclusive"
proof (cases exclusive)
  case True
  obtain e s1 where l: "os_Link name (Path_String p) s = (e, s1)" by fastforce
  note link = Link_keeps [OF assms(1-4) l]
  show ?thesis
  proof (cases e)
    case (Some x)
    with link(1) assms(1,6) l True show ?thesis
      by (auto simp: publish_temporary_def osRoot_def keeps_def os_simps)
  next
    case None
    with link(2) have s1: "find_node s k = None" "os_ok s1"
      "file_at s1 k' = (if k' = k then Some content else file_at s k')" for k' by auto
    obtain e2 s2 where rm: "os_Remove name s1 = (e2, s2)" by fastforce
    from Remove_keeps(1) [OF s1(2) assms(2) rm] have "keeps {t} s1 s2" .
    moreover have "s' = s2"
      using assms(6) l None rm True
      by (auto simp: publish_temporary_def osRoot_def split: option.splits)
    ultimately show ?thesis
      using s1 assms(5) by (auto simp: published_def keeps_def file_at_def)
  qed
next
  case False
  obtain e s1 where rn: "os_Rename name (Path_String p) s = (e, s1)" by fastforce
  from Rename_keeps [OF assms(1-5) rn] assms(1,6) rn False show ?thesis
    by (cases e) (auto simp: publish_temporary_def osRoot_def keeps_def published_def os_simps)
qed

section \<open>Write under failures\<close>

text \<open>The adapter that \<^verbatim>\<open>Open\<close> returns: on \<^verbatim>\<open>osRoot\<close>, with \<^verbatim>\<open>rand.Reader\<close>.\<close>

definition on_os :: "(os, nat) local_adapter \<Rightarrow> bool" where
  "on_os a = (la_root a = osRoot \<and> la_random a = os_rand)"

lemma counted_keeps: "counted s s' \<Longrightarrow> os_ok s \<Longrightarrow> keeps X s s'"
  by (auto simp: counted_def keeps_def os_simps)

lemma check_prefixes_counted: "check_prefixes osRoot p names s = (r, s') \<Longrightarrow> counted s s'"
  using check_prefixes_state [of p names s] by (simp add: counted_def)

lemma checkSymlinks_counted:
  "la_root a = osRoot \<Longrightarrow> checkSymlinks a p final s = (r, s') \<Longrightarrow> counted s s'"
  by (auto simp: checkSymlinks_def Let_def intro: check_prefixes_counted split: if_splits)

lemma check_absent_counted:
  assumes "check_absent osRoot p exclusive present s = (r, s')" shows "counted s s'"
proof -
  have "snd (check_absent osRoot p exclusive present s) = (if exclusive then ticked s else s)"
    using os_stat_state [of "''statat''" True "Path_String p" s]
    by (auto simp: check_absent_def split: sum.splits prod.splits)
  with assms show ?thesis by (metis counted_refl counted_ticked snd_conv)
qed

lemma local_Stat_counted:
  assumes "la_root a = osRoot" and "local_Stat a p s c = (r, s', c')"
  shows "counted s s'"
proof (cases "ctx_done c")
  case True
  with assms(2) show ?thesis by (simp add: local_Stat_def check_ctx_if)
next
  case False
  obtain e s1 where ck: "checkSymlinks a p True s = (e, s1)" by fastforce
  from checkSymlinks_counted [OF assms(1) ck] have "counted s s1" .
  moreover have "counted s1 s'"
    using assms False ck os_stat_state [of "''statat''" True "if IsRoot p then ''.'' else Path_String p" s1]
    by (auto simp: local_Stat_def check_ctx_if check_links_def split: option.splits sum.splits prod.splits)
  ultimately show ?thesis by (rule counted_trans)
qed

lemma published_counted: "counted s' s'' \<Longrightarrow> published s s' t k content exclusive \<Longrightarrow> published s s'' t k content exclusive"
  by (auto simp: counted_def published_def keeps_def os_simps)

lemma published_after:
  assumes "keeps {t} s s'" and "published s' s'' t k content exclusive" and "t \<noteq> k"
  shows "published s s'' t k content exclusive"
proof -
  have "file_at s' k = file_at s k" using assms(1,3) by (auto simp: keeps_def)
  with assms(2) keeps_trans [OF assms(1), of "{t, k}" s'' "{t, k}"] show ?thesis
    by (auto simp: published_def)
qed

lemma write_temporary_outcome:
  assumes "on_os a" and "os_ok s" and "named name t" and "named (Path_String p) k" and "t \<noteq> k"
    and "temp_file s t h []" and "writable s h"
    and "write_temporary a h name p polls source exclusive s c = (r, s', c')"
  shows "keeps {t} s s' \<and> (\<forall>md. r \<noteq> Ok md) \<or>
    (\<exists>content. io_copy source = (content, None) \<and> published s s' t k content exclusive)"
proof -
  have root: "la_root a = osRoot" using assms(1) by (simp add: on_os_def)
  obtain e1 s1 c1 where f: "fill_temporary osRoot h polls source s c = (e1, s1, c1)" by (metis prod_cases3)
  from fill_keeps [OF assms(2,6,7) f] obtain content where
    s1: "keeps {t} s s1" "temp_file s1 t h content" "e1 = None \<longrightarrow> io_copy source = (content, None)" by auto
  then have ok1: "os_ok s1" by (simp add: keeps_def)
  show ?thesis
  proof (cases e1)
    case (Some e)
    with assms(8) f root have s': "s' = cleanup_temporary osRoot h name False s1" "r = Err e"
      by (simp_all add: write_temporary_def Let_def)
    from cleanup_keeps [OF ok1 assms(3), of False h] s' have "keeps {t} s1 s'" by simp
    with keeps_trans [OF s1(1)] s'(2) show ?thesis by auto
  next
    case None
    obtain e2 s2 where p: "publish_temporary osRoot name p exclusive s1 = (e2, s2)" by fastforce
    note pub = publish_keeps [OF ok1 assms(3,4) s1(2) assms(5) p]
    then have ok2: "os_ok s2" by (auto simp: keeps_def published_def)
    have close: "keeps {t} s2 s' \<and> (e2 = None \<longrightarrow> keeps {} s2 s') \<and> (e2 \<noteq> None \<longrightarrow> (\<forall>md. r \<noteq> Ok md))"
    proof (cases e2)
      case (Some e)
      with assms(8) f p None root have "s' = cleanup_temporary osRoot h name False s2" "r = Err e"
        by (simp_all add: write_temporary_def Let_def)
      with cleanup_keeps [OF ok2 assms(3), of False h] Some show ?thesis by simp
    next
      case e2: None
      obtain r3 s3 c3 where st: "local_Stat a p s2 c1 = (r3, s3, c3)" by (metis prod_cases3)
      from local_Stat_counted [OF root st] ok2 have k3: "keeps {} s2 s3" by (rule counted_keeps)
      then have "os_ok s3" by (simp add: keeps_def)
      moreover from assms(8) f p None root e2 st have "s' = cleanup_temporary osRoot h name True s3"
        by (simp add: write_temporary_def Let_def)
      ultimately have "keeps {} s3 s'" using cleanup_keeps [OF _ assms(3), of s3 True h] by simp
      with keeps_trans [OF k3] e2 show ?thesis by (auto intro: keeps_mono)
    qed
    have pubs: "published s s' t k content exclusive" if "published s1 s2 t k content exclusive"
    proof -
      have "published s1 s' t k content exclusive"
        using that close keeps_trans [of "{t, k}" s1 s2 "{t}" s'] assms(5)
        by (auto simp: published_def keeps_def)
      with published_after [OF s1(1)] assms(5) show ?thesis by blast
    qed
    from pub show ?thesis
    proof
      assume "keeps {t} s1 s2 \<and> e2 \<noteq> None"
      with close keeps_trans [OF s1(1), of "{t}" s2 "{t}"] keeps_trans [of "{t}" s s2 "{t}" s' "{t}"]
      show ?thesis by auto
    next
      assume "published s1 s2 t k content exclusive"
      with pubs s1(3) None show ?thesis by blast
    qed
  qed
qed

text \<open>\<^verbatim>\<open>MkdirAll\<close> adds directories in front of a name and changes nothing that was there.\<close>

definition adds_dirs :: "string list \<Rightarrow> os \<Rightarrow> os \<Rightarrow> bool" where
  "adds_dirs k s s' =
     (os_ok s' \<and> s' = s\<lparr>os_tree := os_tree s'\<rparr> \<and>
      (\<forall>x. find_node s' x = find_node s x \<or>
         (find_node s x = None \<and> find_node s' x = Some Dir \<and> (\<exists>i<length k. x = take (Suc i) k))))"

lemma adds_dirs_refl: "os_ok s \<Longrightarrow> adds_dirs k s s"
  by (simp add: adds_dirs_def)

lemma adds_dirs_trans:
  assumes "adds_dirs k s s'" and "adds_dirs k s' s''" shows "adds_dirs k s s''"
proof -
  have "s'' = s\<lparr>os_tree := os_tree s''\<rparr>"
    using assms unfolding adds_dirs_def by (metis os.surjective os.update_convs(1))
  with assms show ?thesis unfolding adds_dirs_def by (metis option.distinct(1))
qed

lemma adds_dirs_keeps: "adds_dirs k s s' \<Longrightarrow> keeps X s s'"
proof -
  assume a: "adds_dirs k s s'"
  have c: "os_content s' = os_content s" using a unfolding adds_dirs_def by (metis os.select_convs(2) os.surjective os.update_convs(1))
  have "file_at s' x = file_at s x" for x
  proof (cases "find_node s' x = find_node s x")
    case False
    with a show ?thesis by (force simp: adds_dirs_def file_at_def)
  qed (simp add: file_at_def c)
  with a show ?thesis by (simp add: keeps_def adds_dirs_def)
qed

lemma adds_dirs_set:
  assumes "os_ok s" and "find_node s (take m k) = Some Dir" and "m < length k"
    and "find_node s (take (Suc m) k) = None"
  shows "adds_dirs k s (os_set (take (Suc m) k) Dir s)"
proof -
  have ne: "take (Suc m) k \<noteq> []" using assms(3) by auto
  moreover have "butlast (take (Suc m) k) = take m k" using assms(3) by (simp add: butlast_take)
  ultimately have "os_ok (os_set (take (Suc m) k) Dir s)"
    using assms by (intro os_ok_set) (simp_all add: parent_ok_def)
  then show ?thesis
    using ne assms(3,4) by (auto simp: adds_dirs_def os_simps) (simp add: os_set_def)
qed

lemma make_dirs_adds:
  assumes "os_ok s" and "find_node s (take m k) = Some Dir" and "m \<le> j" and "j \<le> length k"
    and "make_dirs (map (\<lambda>i. take (Suc i) k) [m..<j]) s = (r, s')"
  shows "adds_dirs k s s' \<and> (r = None \<longrightarrow> find_node s' (take j k) = Some Dir) \<and>
    (r \<noteq> None \<longrightarrow> (\<exists>i<length k. \<exists>n. find_node s (take (Suc i) k) = Some n \<and> n \<noteq> Dir))"
  using assms
proof (induction "j - m" arbitrary: m s)
  case 0
  then show ?case by (simp add: adds_dirs_refl)
next
  case (Suc d)
  then have m: "m < j" "m < length k" "Suc m \<le> j" "d = j - Suc m" by auto
  note step = Suc.prems(5) [unfolded upt_conv_Cons [OF m(1)], simplified]
  show ?case
  proof (cases "find_node s (take (Suc m) k)")
    case None
    let ?s = "os_set (take (Suc m) k) Dir s"
    note add = adds_dirs_set [OF Suc.prems(1,2) m(2) None]
    have "find_node ?s (take (Suc m) k) = Some Dir" using m(2) by (subst find_node_set) auto
    moreover have "os_ok ?s" using add by (simp add: adds_dirs_def)
    ultimately have IH: "adds_dirs k ?s s'" "r = None \<longrightarrow> find_node s' (take j k) = Some Dir"
        "r \<noteq> None \<longrightarrow> (\<exists>i<length k. \<exists>n. find_node ?s (take (Suc i) k) = Some n \<and> n \<noteq> Dir)"
      using Suc.hyps(1) [OF m(4) _ _ m(3) Suc.prems(4)] step None by auto
    have "find_node s x = Some n" if "find_node ?s x = Some n" "n \<noteq> Dir" for x n
      using that m(2) by (subst (asm) find_node_set) (auto split: if_splits)
    with IH adds_dirs_trans [OF add] show ?thesis by blast
  next
    case (Some n)
    show ?thesis
    proof (cases "n = Dir")
      case True
      with Some step Suc.hyps(1) [OF m(4) Suc.prems(1) _ m(3) Suc.prems(4)] show ?thesis by simp
    next
      case False
      with Some step have "r = Some (errno ENOTDIR)" "s' = s" by (cases n; simp)+
      with Suc.prems(1) Some False m(2) show ?thesis by (auto simp: adds_dirs_refl)
    qed
  qed
qed

lemma MkdirAll_adds:
  assumes "os_ok s" and "named name k" and "os_MkdirAll name mode s = (r, s')"
  shows "adds_dirs k (ticked s) s'" and "r = None \<Longrightarrow> find_node s' k = Some Dir"
    and "r \<noteq> None \<Longrightarrow> os_faults s (os_calls s) \<noteq> None \<or>
      (\<exists>i<length k. \<exists>n. find_node s (take (Suc i) k) = Some n \<and> n \<noteq> Dir)"
proof -
  have ok: "os_ok (ticked s)" "find_node (ticked s) (take 0 k) = Some Dir"
    using assms(1) by (simp_all add: os_simps find_node_def)
  have k: "os_name name = Inr k" using assms(2) by (simp add: named_def)
  have pre: "take d (dir_prefixes k) = map (\<lambda>i. take (Suc i) k) [0..<min d (length k)]" for d
    by (simp add: dir_prefixes_def take_map min_def)
  note dirs = make_dirs_adds [OF ok]
  have "adds_dirs k (ticked s) s' \<and> (r = None \<longrightarrow> find_node s' k = Some Dir) \<and>
    (r \<noteq> None \<longrightarrow> os_faults s (os_calls s) \<noteq> None \<or>
      (\<exists>i<length k. \<exists>n. find_node s (take (Suc i) k) = Some n \<and> n \<noteq> Dir))"
  proof (cases "os_faults s (os_calls s)")
    case None
    obtain e s2 where d: "make_dirs (dir_prefixes k) (ticked s) = (e, s2)" by fastforce
    with None assms(3) k have "r = map_option (PathError ''mkdirat'' name) e" "s' = s2"
      by (simp_all add: os_MkdirAll_def os_tick_def)
    with dirs [of "length k" e s2] d show ?thesis by (simp add: dir_prefixes_def os_simps)
  next
    case (Some ft)
    obtain e s2 where d: "make_dirs (take (ft_done ft) (dir_prefixes k)) (ticked s) = (e, s2)" by fastforce
    with Some assms(3) k have "r \<noteq> None" "s' = s2" by (auto simp: os_MkdirAll_def os_tick_def)
    with dirs [of "min (ft_done ft) (length k)" e s2] d Some show ?thesis by (auto simp: pre)
  qed
  then show "adds_dirs k (ticked s) s'" and "r = None \<Longrightarrow> find_node s' k = Some Dir"
    and "r \<noteq> None \<Longrightarrow> os_faults s (os_calls s) \<noteq> None \<or>
      (\<exists>i<length k. \<exists>n. find_node s (take (Suc i) k) = Some n \<and> n \<noteq> Dir)" by auto
qed

lemma temporaryName_on_os:
  assumes "on_os a" and "temporaryName a directory s = (r, s')"
  shows "s' = ticked s"
    and "r = Inr name \<Longrightarrow> \<exists>x. os_random s (os_calls s) = Inr x \<and>
      name = (if directory = ''.'' then temporary_base x else directory @ ''/'' @ temporary_base x)"
  using assms
  by (auto simp: temporaryName_def on_os_def os_rand_def temporary_base_def Let_def split: sum.splits)

text \<open>The parent directory of a path, as a name for the operating system.\<close>

lemma path_Dir_path:
  assumes "wf_path p" and "\<not> IsRoot p"
  shows "path_Dir (Path_String p) =
      (if butlast (segments p) = [] then ''.'' else join_with slash (butlast (segments p)))"
    and "list_all plain_elem (butlast (segments p))"
    and "butlast (segments p) \<noteq> [] \<Longrightarrow> path_Dir (Path_String p) \<noteq> ''.''"
    and "butlast (segments p) \<noteq> [] \<Longrightarrow> named (path_Dir (Path_String p)) (butlast (segments p))"
proof -
  from assms obtain ss l where p: "segments p = ss @ [l]" by (auto elim: segments_snoc)
  have ok: "list_all plain_elem ss" "plain_elem l"
    using segments_plain [OF wf_pathD [OF assms(1)]] by (simp_all add: p)
  have "Path_String p = join_with slash (ss @ [l])" by (metis Path_String_def join_segments p)
  with path_Dir_snoc [OF ok] p
  show d: "path_Dir (Path_String p) =
      (if butlast (segments p) = [] then ''.'' else join_with slash (butlast (segments p)))" by simp
  show "list_all plain_elem (butlast (segments p))" using ok p by simp
  assume ne: "butlast (segments p) \<noteq> []"
  with d p have d: "path_Dir (Path_String p) = join_with slash ss" by simp
  from ne p ok show "named (path_Dir (Path_String p)) (butlast (segments p))"
    by (simp add: named_def d os_name_join)
  from ne p have "os_name (join_with slash ss) = Inr ss" using ok by (simp add: os_name_join)
  with ne p show "path_Dir (Path_String p) \<noteq> ''.''" by (auto simp: d os_name_def)
qed

lemma named_temporary:
  assumes "wf_path p" and "\<not> IsRoot p"
  shows "named (if path_Dir (Path_String p) = ''.'' then temporary_base x
      else path_Dir (Path_String p) @ ''/'' @ temporary_base x) (butlast (segments p) @ [temporary_base x])"
proof -
  let ?d = "butlast (segments p)"
  have pl: "list_all plain_elem (?d @ [temporary_base x])"
    using path_Dir_path(2) [OF assms] plain_temporary_base by simp
  have "(if path_Dir (Path_String p) = ''.'' then temporary_base x
      else path_Dir (Path_String p) @ ''/'' @ temporary_base x) = join_with slash (?d @ [temporary_base x])"
    using path_Dir_path(1,3) [OF assms] by (cases "?d = []") (simp_all add: join_with_snoc)
  with os_name_join [OF _ pl] pl show ?thesis by (simp add: named_def)
qed

lemma make_parents_on_os:
  assumes "on_os a" and "wf_path p" and "\<not> IsRoot p" and "os_ok s"
    and "make_parents a (path_Dir (Path_String p)) s = (r, s')"
  shows "\<exists>s1. counted s s1 \<and> adds_dirs (butlast (segments p)) s1 s'"
    and "r = None \<Longrightarrow> find_node s' (butlast (segments p)) = Some Dir"
    and "r \<noteq> None \<Longrightarrow> (\<exists>n. os_faults s n \<noteq> None) \<or>
      (\<exists>i<length (butlast (segments p)). \<exists>n. find_node s (take (Suc i) (segments p)) = Some n \<and> n \<noteq> Dir)"
proof -
  let ?d = "butlast (segments p)"
  have "(\<exists>s1. counted s s1 \<and> adds_dirs ?d s1 s') \<and> (r = None \<longrightarrow> find_node s' ?d = Some Dir) \<and>
    (r \<noteq> None \<longrightarrow> (\<exists>n. os_faults s n \<noteq> None) \<or>
      (\<exists>i<length ?d. \<exists>n. find_node s (take (Suc i) (segments p)) = Some n \<and> n \<noteq> Dir))"
  proof (cases "?d = []")
    case True
    with path_Dir_path(1) [OF assms(2,3)] assms(5) have "r = None" "s' = s" by (simp_all add: make_parents_def)
    with True assms(4) show ?thesis
      by (auto simp: find_node_def intro!: exI [of _ s] adds_dirs_refl)
  next
    case False
    note d = path_Dir_path [OF assms(2,3)]
    from assms(1,5) d(3) [OF False]
    have mk: "os_MkdirAll (path_Dir (Path_String p)) (la_directoryMode a) s = (r, s')"
      by (simp add: make_parents_def on_os_def)
    note m = MkdirAll_adds [OF assms(4) d(4) [OF False] mk]
    have "take (Suc i) ?d = take (Suc i) (segments p)" if "i < length ?d" for i
      using that by (simp add: take_butlast)
    with m(3) have "r \<noteq> None \<longrightarrow> (\<exists>n. os_faults s n \<noteq> None) \<or>
      (\<exists>i<length ?d. \<exists>n. find_node s (take (Suc i) (segments p)) = Some n \<and> n \<noteq> Dir)" by metis
    with m(1,2) counted_ticked show ?thesis by blast
  qed
  then show "\<exists>s1. counted s s1 \<and> adds_dirs ?d s1 s'"
    and "r = None \<Longrightarrow> find_node s' ?d = Some Dir"
    and "r \<noteq> None \<Longrightarrow> (\<exists>n. os_faults s n \<noteq> None) \<or>
      (\<exists>i<length ?d. \<exists>n. find_node s (take (Suc i) (segments p)) = Some n \<and> n \<noteq> Dir)" by blast+
qed

lemma local_write_steps:
  assumes "la_root a = osRoot" and "\<not> IsRoot p" and "\<not> ctx_done c"
    and "checkSymlinks a p False s = (e1, s1)"
    and "check_absent osRoot p (wo_IfNoneMatch opts) (precondition_failed p) s1 = (e2, s2)"
    and "make_parents a (path_Dir (Path_String p)) s2 = (e3, s3)"
    and "temporaryName a (path_Dir (Path_String p)) s3 = (e4, s4)"
  shows "local_write a p polls source opts s c =
    (case e1 of Some e \<Rightarrow> (Err e, s1, snd (ctx_Err c))
     | None \<Rightarrow> (case e2 of Some e \<Rightarrow> (Err e, s2, snd (ctx_Err c))
     | None \<Rightarrow> (case e3 of
         Some e \<Rightarrow> (Err (Errorf ''local: create parent directories: %w'' [] [e]), s3, snd (ctx_Err c))
     | None \<Rightarrow> (case e4 of Inl e \<Rightarrow> (Err e, s4, snd (ctx_Err c))
     | Inr name \<Rightarrow> (case os_OpenFile name (la_fileMode a) s4 of
         (Inl e, s5) \<Rightarrow> (Err (Errorf ''local: create temporary file: %w'' [] [e]), s5, snd (ctx_Err c))
       | (Inr h, s5) \<Rightarrow>
           write_temporary a h name p polls source (wo_IfNoneMatch opts) s5 (snd (ctx_Err c)))))))"
  using assms(2,3)
  by (simp add: local_write_def check_ctx_if check_links_def assms(1,4-7) Let_def
      split: option.split sum.split)

lemma local_write_outcome:
  assumes "on_os a" and "os_ok s" and "wf_path p" and "\<not> temp_name (segments p)"
    and "local_write a p polls source opts s c = (r, s', c')"
  shows "\<exists>t. temp_name t \<and> (keeps {t} s s' \<and> (\<forall>md. r \<noteq> Ok md) \<or>
    (\<exists>content. io_copy source = (content, None) \<and>
       published s s' t (segments p) content (wo_IfNoneMatch opts)))"
proof -
  have root: "la_root a = osRoot" using assms(1) by (simp add: on_os_def)
  have some: "temp_name [temporary_base []]" using temp_name_base [of "[]"] by simp
  have stop: ?thesis if "keeps {} s s'" "\<And>md. r \<noteq> Ok md"
    using some that keeps_mono [of "{}" s s'] by blast
  show ?thesis
  proof (cases "IsRoot p \<or> ctx_done c")
    case True
    then have "local_write a p polls source opts s c = (Err rootPathError, s, c) \<or>
        local_write a p polls source opts s c = (Err (ctx_error c), s, c)"
      by (cases "IsRoot p") (simp_all add: local_write_def check_ctx_if)
    with assms(2,5) show ?thesis by (intro stop) (auto simp: keeps_refl)
  next
    case False
    obtain e1 s1 where ck: "checkSymlinks a p False s = (e1, s1)" by fastforce
    obtain e2 s2 where ab: "check_absent osRoot p (wo_IfNoneMatch opts) (precondition_failed p) s1 = (e2, s2)"
      by fastforce
    obtain e3 s3 where mk: "make_parents a (path_Dir (Path_String p)) s2 = (e3, s3)" by fastforce
    obtain e4 s4 where tn: "temporaryName a (path_Dir (Path_String p)) s3 = (e4, s4)" by fastforce
    note c = checkSymlinks_counted [OF root ck] check_absent_counted [OF ab]
    from counted_trans [OF c] have c2: "counted s s2" .
    from counted_keeps [OF c(1) assms(2)] counted_keeps [OF c2 assms(2)]
    have k1: "keeps {} s s1" and k2: "keeps {} s s2" by simp_all
    then have ok2: "os_ok s2" by (simp add: keeps_def)
    from False have nr: "\<not> IsRoot p" by simp
    from make_parents_on_os(1) [OF assms(1,3) nr ok2 mk] obtain u
      where "counted s2 u" "adds_dirs (butlast (segments p)) u s3" by blast
    with ok2 have "keeps {} s2 s3" using keeps_trans [of "{}" s2 u "{}" s3 "{}"]
      by (auto intro: counted_keeps adds_dirs_keeps)
    with k2 have k3: "keeps {} s s3" using keeps_trans [of "{}" s s2] by auto
    moreover have s4: "s4 = ticked s3" using temporaryName_on_os(1) [OF assms(1) tn] .
    ultimately have k4: "keeps {} s s4" by (simp add: keeps_def os_simps)
    then have ok4: "os_ok s4" by (simp add: keeps_def)
    have cd: "\<not> ctx_done c" using False by simp
    note steps = local_write_steps [OF root nr cd ck ab mk tn, of polls source]
    show ?thesis
    proof (cases "e1 = None \<and> e2 = None \<and> e3 = None \<and> (\<exists>name. e4 = Inr name)")
      case no: False
      with assms(5) steps k1 k2 k3 k4 show ?thesis
        by (intro stop) (auto split: option.splits sum.splits)
    next
      case True
      then obtain name where e4: "e4 = Inr name" by blast
      from temporaryName_on_os(2) [OF assms(1) tn e4] obtain x where
        name: "name = (if path_Dir (Path_String p) = ''.'' then temporary_base x
          else path_Dir (Path_String p) @ ''/'' @ temporary_base x)" by blast
      define t where "t = butlast (segments p) @ [temporary_base x]"
      have t12: "named name t" "temp_name t"
        using named_temporary [OF assms(3) nr, of x] temp_name_base by (simp_all add: t_def name)
      then have t: "named name t" "temp_name t" "t \<noteq> segments p" using assms(4) by auto
      obtain r5 s5 where op: "os_OpenFile name (la_fileMode a) s4 = (r5, s5)"
        by (cases "os_OpenFile name (la_fileMode a) s4")
      note opened = OpenFile_keeps [OF ok4 t(1) op]
      from keeps_trans [OF k4 opened(1)] have k5: "keeps {t} s s5" by simp
      have rest: "(case r5 of
          Inl e \<Rightarrow> (Err (Errorf ''local: create temporary file: %w'' [] [e]), s5, snd (ctx_Err c))
        | Inr h \<Rightarrow> write_temporary a h name p polls source (wo_IfNoneMatch opts) s5 (snd (ctx_Err c))) =
          (r, s', c')"
        using assms(5) True by (simp add: steps e4 op split: sum.splits)
      show ?thesis
      proof (cases r5)
        case (Inl e)
        with rest k5 t(2) show ?thesis by auto
      next
        case (Inr h)
        with opened(2) have w: "temp_file s5 t h []" "writable s5 h" by simp_all
        have ok5: "os_ok s5" using k5 by (simp add: keeps_def)
        from Inr rest have "write_temporary a h name p polls source (wo_IfNoneMatch opts) s5 (snd (ctx_Err c)) =
          (r, s', c')" by simp
        from write_temporary_outcome [OF assms(1) ok5 t(1) named_path [OF assms(3) nr] t(3) w this]
        show ?thesis
        proof
          assume "keeps {t} s5 s' \<and> (\<forall>md. r \<noteq> Ok md)"
          with keeps_trans [OF k5, of "{t}" s' "{t}"] t(2) show ?thesis by auto
        next
          assume "\<exists>content. io_copy source = (content, None) \<and>
            published s5 s' t (segments p) content (wo_IfNoneMatch opts)"
          then obtain content where src: "io_copy source = (content, None)"
            and pub: "published s5 s' t (segments p) content (wo_IfNoneMatch opts)" by blast
          show ?thesis
            by (intro exI [of _ t] conjI disjI2 exI [of _ content] t(2) src published_after [OF k5 pub t(3)])
        qed
      qed
    qed
  qed
qed

section \<open>Properties\<close>

text \<open>A tree with one file, and an adapter on it.\<close>

definition sample_os :: os where
  "sample_os =
     \<lparr>os_tree = [([''a''], File 0)], os_content = (\<lambda>_. ''old''), os_mtime = (\<lambda>_. 0), os_next = 1,
      os_handles = (\<lambda>_. None), os_faults = (\<lambda>_. None), os_calls = 0,
      os_random = (\<lambda>_. Inr ''x''), os_links = 8, os_clock = int\<rparr>"

definition sample_local :: "(os, nat) local_adapter" where
  "sample_local =
     \<lparr>la_root = osRoot, la_random = os_rand, la_fileMode = 0x180, la_directoryMode = 0x1C0,
      la_symlinkPolicy = DenySymlinks\<rparr>"

definition sample_options :: "bool \<Rightarrow> WriteOptions" where
  "sample_options exclusive =
     \<lparr>wo_ContentType = [], wo_Metadata = None, wo_Visibility = VisibilityUnset,
      wo_IfNoneMatch = exclusive\<rparr>"

lemma on_os_sample: "on_os sample_local"
  by (simp add: on_os_def sample_local_def)

lemma os_ok_sample: "os_ok sample_os"
  by (auto simp: os_ok_def sample_os_def find_node_def split: if_splits)

text \<open>
  (C2) A \<^verbatim>\<open>Write\<close> of the local adapter is atomic, whichever calls of the operating system fail
  (with a part of the bytes written, or some directories made), wherever the source fails and
  whenever the context is cancelled. After it the destination has the file it had before, or
  the complete content of the source; the second is so whenever it reports success, and never
  over an existing file when the write is exclusive. No other file changes, names of
  temporary files apart.
\<close>

theorem local_Write_atomic:
  assumes "on_os a" and "os_ok s" and "wf_path p" and "\<not> temp_name (segments p)"
    and "local_Write a p source opts s c = (r, s', c')"
  shows "os_ok s' \<and>
    (\<forall>k. k \<noteq> segments p \<longrightarrow> \<not> temp_name k \<longrightarrow> file_at s' k = file_at s k) \<and>
    (file_at s' (segments p) = file_at s (segments p) \<and> (\<forall>md. r \<noteq> Ok md) \<or>
     (\<exists>content. io_copy source = (content, None) \<and> file_at s' (segments p) = Some content \<and>
        (wo_IfNoneMatch opts \<longrightarrow> file_at s (segments p) = None)))"
proof -
  have run: "local_write a p 1 source opts s c = (r, s', c')" using assms(5) by (simp add: local_Write_def)
  from local_write_outcome [OF assms(1-4) run]
  obtain t where t: "temp_name t" "keeps {t} s s' \<and> (\<forall>md. r \<noteq> Ok md) \<or>
    (\<exists>content. io_copy source = (content, None) \<and>
       published s s' t (segments p) content (wo_IfNoneMatch opts))" by (elim exE conjE)
  from t(2) show ?thesis
  proof
    assume k: "keeps {t} s s' \<and> (\<forall>md. r \<noteq> Ok md)"
    then have "file_at s' k = file_at s k" if "\<not> temp_name k" for k
      using that t(1) by (auto simp: keeps_def)
    with k assms(4) show ?thesis by (simp add: keeps_def)
  next
    assume "\<exists>content. io_copy source = (content, None) \<and>
       published s s' t (segments p) content (wo_IfNoneMatch opts)"
    then obtain content where c: "io_copy source = (content, None)"
      and pub: "published s s' t (segments p) content (wo_IfNoneMatch opts)" by blast
    have "file_at s' k = file_at s k" if "k \<noteq> segments p" "\<not> temp_name k" for k
      using pub that t(1) by (auto simp: published_def keeps_def)
    with c pub show ?thesis by (simp add: published_def keeps_def)
  qed
qed

theorem local_Write_atomic_witness:
  "on_os sample_local \<and> os_ok sample_os \<and> wf_path \<lparr>pvalue = ''a''\<rparr> \<and>
    \<not> temp_name (segments \<lparr>pvalue = ''a''\<rparr>) \<and>
    (case local_Write sample_local \<lparr>pvalue = ''a''\<rparr> [(''new'', None)] (sample_options False)
        sample_os Background of
       (r, s', c') \<Rightarrow> os_ok s' \<and> (\<exists>md. r = Ok md) \<and> file_at s' [''a''] = Some ''new'')"
proof -
  have wf: "wf_path \<lparr>pvalue = ''a''\<rparr>" "\<not> temp_name (segments \<lparr>pvalue = ''a''\<rparr>)" by code_simp+
  obtain r s' c' where run: "local_Write sample_local \<lparr>pvalue = ''a''\<rparr> [(''new'', None)]
      (sample_options False) sample_os Background = (r, s', c')" by (metis prod_cases3)
  have "(case fst (local_Write sample_local \<lparr>pvalue = ''a''\<rparr> [(''new'', None)]
      (sample_options False) sample_os Background) of Ok _ \<Rightarrow> True | _ \<Rightarrow> False)"
    by code_simp
  with run have "\<exists>md. r = Ok md" by (cases r) simp_all
  with local_Write_atomic [OF on_os_sample os_ok_sample wf run] on_os_sample os_ok_sample wf run
  show ?thesis by (auto simp: segments_def)
qed

end
