(* ===== verification/Local_Listing.thy ===== *)
theory Local_Listing
  imports Local_Theorems
begin

text \<open>
  The listing of the local adapter on \<^verbatim>\<open>os.Root\<close>. The walk of \<^verbatim>\<open>fs.WalkDir\<close> over a finite tree
  ends, whichever of its calls fail and whenever the context is cancelled; it changes nothing.
  It visits the names in the lexical order of their segments, so a listing with a limit has the
  first names of that order, which \<^verbatim>\<open>List\<close> then sorts as strings.
\<close>

section \<open>The names of a tree\<close>

text \<open>
  A POSIX tree: a name occurs once, and no component of it is empty, a dot, two dots or has a
  slash. A tree is portable when its names are logical paths.
\<close>

definition tree_ok :: "os \<Rightarrow> bool" where
  "tree_ok s =
     (os_ok s \<and> distinct (map fst (os_tree s)) \<and>
      (\<forall>k\<in>fst ` set (os_tree s). list_all plain_elem k))"

definition portable :: "os \<Rightarrow> bool" where
  "portable s =
     (\<forall>k\<in>fst ` set (os_tree s). list_all segment_ok k \<and> \<not> hasWindowsVolume (join_with slash k))"

definition tree_keys :: "os \<Rightarrow> string list list" where
  "tree_keys s = [] # map fst (os_tree s)"

definition subtree :: "os \<Rightarrow> string list \<Rightarrow> string list list" where
  "subtree s k = sort (filter (prefix k) (tree_keys s))"

definition name_of :: "string list \<Rightarrow> string" where
  "name_of k = (if k = [] then ''.'' else join_with slash k)"

lemma tree_okD:
  assumes "tree_ok s"
  shows "os_ok s" and "distinct (tree_keys s)"
  using assms os_ok_root [of s] by (auto simp: tree_ok_def tree_keys_def map_of_eq_None_iff)

lemma find_node_keys: "find_node s k \<noteq> None \<longleftrightarrow> k \<in> set (tree_keys s)"
  using map_of_eq_None_iff [of "os_tree s" k] by (auto simp: find_node_def tree_keys_def)

lemma plain_keys: "tree_ok s \<Longrightarrow> k \<in> set (tree_keys s) \<Longrightarrow> list_all plain_elem k"
  by (auto simp: tree_ok_def tree_keys_def)

lemma children_keys: "x \<in> set (children s k) \<longleftrightarrow> k @ [x] \<in> set (tree_keys s)"
  by (simp add: mem_children tree_keys_def)

lemma prefix_keys:
  assumes "tree_ok s" and "k @ r \<in> set (tree_keys s)"
  shows "k \<in> set (tree_keys s)"
proof (cases "r = []")
  case False
  from assms(2) obtain n where n: "find_node s (k @ r) = Some n" by (auto simp flip: find_node_keys)
  with prefix_dir [OF tree_okD(1) [OF assms(1)] n, of "length k"] False show ?thesis
    by (simp flip: find_node_keys)
qed (use assms in simp)

lemma set_subtree: "set (subtree s k) = {k' \<in> set (tree_keys s). prefix k k'}"
  by (auto simp: subtree_def)

lemma sorted_subtree: "sorted (subtree s k)"
  by (simp add: subtree_def)

lemma distinct_subtree: "tree_ok s \<Longrightarrow> distinct (subtree s k)"
  using tree_okD(2) by (simp add: subtree_def)

lemma distinct_children:
  assumes "tree_ok s" shows "distinct (children s k)"
proof -
  let ?ps = "filter (\<lambda>(p, n). p \<noteq> [] \<and> butlast p = k) (os_tree s)"
  have "inj_on last (fst ` set ?ps)"
    by (auto simp: inj_on_def) (metis append_butlast_last_id)
  moreover have "distinct (map fst ?ps)"
    using assms by (auto simp: tree_ok_def intro: distinct_map_filter)
  ultimately have "distinct (map last (map fst ?ps))" by (simp only: distinct_map set_map)
  then show ?thesis by (simp add: children_def comp_def case_prod_unfold)
qed

section \<open>The order of the walk\<close>

lemma less_at: "x < y \<Longrightarrow> k @ x # u < k @ y # (v :: string list)"
  by (induction k) simp_all

lemma prefix_le: "prefix k k' \<Longrightarrow> k \<le> (k' :: string list)"
  by (induction k arbitrary: k') (auto simp: prefix_def)

lemma sorted_subtrees:
  assumes "sorted xs" and "distinct xs"
  shows "sorted (concat (map (\<lambda>x. subtree s (k @ [x])) xs))"
  using assms
proof (induction xs)
  case (Cons x xs)
  have "u \<le> v" if u: "u \<in> set (subtree s (k @ [x]))" and y: "y \<in> set xs" and v: "v \<in> set (subtree s (k @ [y]))" for u v y
  proof -
    from Cons.prems y have "x < y" by (auto simp: less_le)
    moreover obtain a b where "u = k @ x # a" "v = k @ y # b"
      using u v by (auto simp: set_subtree prefix_def)
    ultimately show ?thesis using less_at by (simp add: order_less_imp_le)
  qed
  with Cons show ?case by (auto simp: sorted_append sorted_subtree)
qed simp

lemma distinct_subtrees:
  assumes "tree_ok s" and "distinct xs"
  shows "distinct (concat (map (\<lambda>x. subtree s (k @ [x])) xs))"
  using assms(2)
proof (induction xs)
  case (Cons x xs)
  have "set (subtree s (k @ [x])) \<inter> set (concat (map (\<lambda>x. subtree s (k @ [x])) xs)) = {}"
    using Cons.prems by (auto simp: set_subtree prefix_def)
  with Cons distinct_subtree [OF assms(1)] show ?case by simp
qed simp

lemma subtree_unfold:
  assumes s: "tree_ok s" and k: "k \<in> set (tree_keys s)"
  shows "subtree s k = k # concat (map (\<lambda>x. subtree s (k @ [x])) (children s k))" (is "_ = k # ?rest")
proof (rule sorted_distinct_set_unique)
  have ch: "sorted (children s k)" "distinct (children s k)"
    using distinct_children [OF s] by (simp_all add: children_def)
  have rest: "\<exists>x u. k' = k @ x # u" if "k' \<in> set ?rest" for k'
    using that by (auto simp: set_subtree prefix_def)
  then have "k \<notin> set ?rest" by force
  moreover have "\<forall>k'\<in>set ?rest. k \<le> k'" using rest by (metis prefix_le prefixI)
  ultimately show "sorted (k # ?rest)" and "distinct (k # ?rest)"
    using sorted_subtrees [OF ch] distinct_subtrees [OF s ch(2)] by simp_all
  show "set (subtree s k) = set (k # ?rest)"
  proof (intro equalityI subsetI)
    fix k' assume "k' \<in> set (subtree s k)"
    then obtain r where r: "k' = k @ r" "k' \<in> set (tree_keys s)" by (auto simp: set_subtree prefix_def)
    show "k' \<in> set (k # ?rest)"
    proof (cases r)
      case (Cons x u)
      with r prefix_keys [OF s, of "k @ [x]" u] have "x \<in> set (children s k)"
        by (simp add: children_keys)
      with r Cons show ?thesis by (auto simp: set_subtree prefix_def)
    qed (use r in simp)
  next
    fix k' assume "k' \<in> set (k # ?rest)"
    with k show "k' \<in> set (subtree s k)" by (auto simp: set_subtree prefix_def)
  qed
qed (simp_all add: sorted_subtree distinct_subtree [OF s])

section \<open>The calls of the walk\<close>

definition dir_entry :: "os \<Rightarrow> string list \<Rightarrow> DirEntry" where
  "dir_entry s k =
     (let info = node_info s k (the (find_node s k))
      in \<lparr>de_Name = fi_Name info, de_Type = fi_Type info, de_Info = Inr info\<rparr>)"

lemma named_key: "tree_ok s \<Longrightarrow> k \<in> set (tree_keys s) \<Longrightarrow> k \<noteq> [] \<Longrightarrow> named (name_of k) k"
  using os_name_join [of k] plain_keys [of s k] by (simp add: named_def name_of_def)

lemma lookup_key:
  assumes s: "tree_ok s" and k: "k \<in> set (tree_keys s)"
  shows "os_lookup follow (name_of k) s = Inr k"
proof (cases "k = []")
  case True
  then show ?thesis by (simp add: os_lookup_def name_of_def os_name_def resolve.simps)
next
  case False
  then obtain ks l where kl: "k = ks @ [l]" by (cases k rule: rev_cases) simp_all
  from k obtain n where n: "find_node s k = Some n" by (auto simp flip: find_node_keys)
  have "find_node s ([] @ take (Suc i) ks) = Some Dir" if "i < length ks" for i
    using prefix_dir [OF tree_okD(1) [OF s] n, of "Suc i"] that kl by simp
  from resolve_dirs [OF tree_okD(1) [OF s] _ this, where l = l and follow = follow and n = "os_links s"] plain_keys [OF s k] kl
  show ?thesis using named_key [OF s k False] by (simp add: os_lookup_def named_def)
qed

lemma counted_simps [os_simps]:
  assumes "counted s s'"
  shows "find_node s' k = find_node s k" "os_faults s' = os_faults s" "tree_ok s' = tree_ok s"
    "tree_keys s' = tree_keys s" "children s' k = children s k" "node_info s' k n = node_info s k n"
    "os_content s' = os_content s"
proof -
  obtain m where s': "s' = s\<lparr>os_calls := m\<rparr>" using assms by (auto simp: counted_def)
  show "find_node s' k = find_node s k" "os_faults s' = os_faults s" "tree_ok s' = tree_ok s"
    "tree_keys s' = tree_keys s" "children s' k = children s k" "node_info s' k n = node_info s k n"
    "os_content s' = os_content s"
    by (simp_all add: s' tree_ok_def os_simps tree_keys_def children_def node_info_def Let_def split: node.split)
qed

lemma path_Join_key:
  assumes "tree_ok s" and "x \<in> set (children s k)"
  shows "path_Join [name_of k, x] = name_of (k @ [x])"
proof -
  have pl: "list_all plain_elem (k @ [x])"
    using plain_keys [OF assms(1), of "k @ [x]"] assms(2) by (simp only: children_keys)
  then have x: "x \<noteq> []" "slash \<notin> set x" by (simp_all add: plain_elem_def)
  show ?thesis
  proof (cases "k = []")
    case True
    have "split_on slash (''.'' @ slash # x) = [''.'', x]"
      using split_join [of "[''.'', x]" slash] x by simp
    then show ?thesis using True pl x
      by (simp add: path_Join_def name_of_def path_Clean_def clean_step_def [of _ _ "''.''"] Let_def)
  next
    case False
    then have "join_with slash k \<noteq> []" using join_plain_hd [of k] pl by auto
    then show ?thesis
      using False path_Clean_plain [OF _ pl] by (simp add: path_Join_def name_of_def join_with_append)
  qed
qed

text \<open>A directory that is read gives the entries of its children, in order.\<close>

lemma ReadDir_key:
  assumes s: "tree_ok s" and k: "find_node s k = Some Dir" and c: "counted s s1"
  shows "\<exists>r. os_ReadDir (name_of k) s1 = (r, ticked s1) \<and>
    (\<forall>dirs. r = Inr dirs \<longrightarrow>
      map (\<lambda>d. (path_Join [name_of k, de_Name d], d)) dirs =
      map (\<lambda>x. (name_of (k @ [x]), dir_entry s (k @ [x]))) (children s k)) \<and>
    ((\<forall>n. os_faults s n = None) \<longrightarrow> (\<exists>dirs. r = Inr dirs))"
proof -
  have t: "counted s (ticked s1)" using counted_trans [OF c] by simp
  have "k \<in> set (tree_keys s)" using k by (simp flip: find_node_keys)
  with s t have l: "os_lookup True (name_of k) (ticked s1) = Inr k"
    using lookup_key [of "ticked s1" k True] by (simp add: counted_simps [OF t])
  let ?dirs = "map (\<lambda>x. dir_entry s (k @ [x])) (children s k)"
  have "map (\<lambda>x. let info = node_info s (k @ [x]) (the (find_node s (k @ [x]))) in
      \<lparr>de_Name = x, de_Type = fi_Type info, de_Info = Inr info\<rparr>) (children s k) = ?dirs"
    by (auto simp: dir_entry_def Let_def node_info_def split: node.split)
  then have run: "os_ReadDir (name_of k) s1 =
      (case os_faults s (os_calls s1) of
         Some ft \<Rightarrow> (Inl (PathError ''openat'' (name_of k) (ft_error ft)), ticked s1)
       | None \<Rightarrow> (Inr ?dirs, ticked s1))"
    using l k by (simp add: os_ReadDir_def os_run_def os_tick_def counted_simps [OF t]
        counted_simps [OF c] split: option.split)
  have "de_Name (dir_entry s (k @ [x])) = x" for x
    by (simp add: dir_entry_def Let_def node_info_def split: node.split)
  then have "map (\<lambda>d. (path_Join [name_of k, de_Name d], d)) ?dirs =
      map (\<lambda>x. (name_of (k @ [x]), dir_entry s (k @ [x]))) (children s k)"
    using path_Join_key [OF s] by simp
  with run show ?thesis by (cases "os_faults s (os_calls s1)") auto
qed

section \<open>The visits\<close>

definition shown :: "string list \<Rightarrow> bool \<Rightarrow> string list \<Rightarrow> bool" where
  "shown d recursive k = (strict_prefix d k \<and> (recursive \<or> length k = Suc (length d)))"

definition tree_entry :: "os \<Rightarrow> string list \<Rightarrow> Entry" where
  "tree_entry s k =
     (let n = the (find_node s k); info = node_info s k n in
      \<lparr>e_Path = \<lparr>pvalue = join_with slash k\<rparr>,
       e_Kind = (if n = Dir then EntryKindDirectory else EntryKindFile),
       e_Size = fi_Size info, e_Modified = fi_ModTime info\<rparr>)"

lemma slash_join: "ss \<noteq> [] \<Longrightarrow> list_all plain_elem ss \<Longrightarrow> slash \<in> set (join_with slash ss) \<longleftrightarrow> 1 < length ss"
  by (cases ss rule: remdups_adj.cases) (auto simp: plain_elem_def)

lemma relative_key:
  assumes "list_all plain_elem k" and "strict_prefix d k"
  shows "slash \<in> set (TrimPrefix (TrimPrefix (name_of k) (name_of d)) ''/'') \<longleftrightarrow> Suc (length d) < length k"
proof -
  obtain r where r: "k = d @ r" "r \<noteq> []" using assms(2) by (auto simp: strict_prefix_def prefix_def)
  have pl: "list_all plain_elem r" using assms(1) r by simp
  show ?thesis
  proof (cases "d = []")
    case False
    with r have "name_of k = name_of d @ ''/'' @ join_with slash r"
      by (simp add: name_of_def join_with_append)
    then show ?thesis using slash_join [OF r(2) pl] r TrimPrefix_append [of "''/''"] by simp
  next
    case True
    obtain x xs where x: "r = x # xs" using r(2) by (cases r) simp_all
    obtain a y where a: "x = a # y" "a \<noteq> slash" "slash \<notin> set y" "a = CHR ''.'' \<longrightarrow> y \<noteq> []"
      using pl x by (cases x) (auto simp: plain_elem_def)
    let ?t = "TrimPrefix (join_with slash r) ''.''"
    have "slash \<in> set ?t \<longleftrightarrow> slash \<in> set (join_with slash r) \<and> True"
      using a x by (auto simp: TrimPrefix_def join_with_Cons_char)
    moreover have "\<not> prefix ''/'' ?t"
      using a x by (cases y; cases xs) (auto simp: TrimPrefix_def)
    ultimately show ?thesis
      using True r slash_join [OF r(2) pl] by (simp add: name_of_def TrimPrefix_def [of _ "''/''"])
  qed
qed

lemma name_of_inject:
  assumes "list_all plain_elem k" and "list_all plain_elem k'"
  shows "name_of k = name_of k' \<longleftrightarrow> k = k'"
proof -
  have name: "os_name (name_of k) = Inr k" if "list_all plain_elem k" for k
    using that os_name_join [of k] by (cases "k = []") (simp_all add: name_of_def os_name_def)
  then show ?thesis using assms by (metis sum.inject(2))
qed

lemma dir_entry_type:
  assumes "tree_ok s" and "k \<in> set (tree_keys s)"
  shows "de_Type (dir_entry s k) \<noteq> SymlinkFile"
    and "de_Type (dir_entry s k) = DirectoryFile \<longleftrightarrow> find_node s k = Some Dir"
proof -
  obtain n where n: "find_node s k = Some n" using assms(2) by (auto simp flip: find_node_keys)
  have "n \<noteq> Link t" for t
    using os_okD(2) [OF tree_okD(1) [OF assms(1)] n] n by (cases "k = []") (auto simp: find_node_def)
  with n show "de_Type (dir_entry s k) \<noteq> SymlinkFile"
    "de_Type (dir_entry s k) = DirectoryFile \<longleftrightarrow> find_node s k = Some Dir"
    by (cases n; simp add: dir_entry_def node_info_def Let_def)+
qed

lemma visit_key:
  assumes s: "tree_ok s" and k: "k \<in> set (tree_keys s)" and d: "prefix d k"
  shows "visit policy (name_of d) opts (name_of k) (dir_entry s k) entries c =
    (case ctx_Err c of
       (Some e, c) \<Rightarrow> (WalkError e, entries, c)
     | (None, c) \<Rightarrow>
         if k = d then (WalkOn, entries, c)
         else if \<not> shown d (lo_Recursive opts) k
         then (if find_node s k = Some Dir then SkipDir else WalkOn, entries, c)
         else (case ParsePath (name_of k) of
           Err e \<Rightarrow> (WalkError e, entries, c)
         | Panic e \<Rightarrow> (WalkError e, entries, c)
         | Ok logical \<Rightarrow>
             let entries = entries @ [(tree_entry s k)\<lparr>e_Path := logical\<rparr>]
             in (if 0 < sint (lo_Limit opts) \<and> sint (lo_Limit opts) \<le> sint (go_len entries)
                 then LimitReached else WalkOn, entries, c)))"
proof -
  note pl = plain_keys [OF s k]
  have "list_all plain_elem d" using pl d by (auto simp: prefix_def)
  note name = name_of_inject [OF pl this]
  have rel: "k \<noteq> d \<Longrightarrow> slash \<in> set (TrimPrefix (TrimPrefix (name_of k) (name_of d)) ''/'') \<longleftrightarrow>
      Suc (length d) < length k"
    using relative_key [OF pl] d by (simp add: strict_prefix_def)
  have sh: "k \<noteq> d \<Longrightarrow> \<not> shown d (lo_Recursive opts) k \<longleftrightarrow> \<not> lo_Recursive opts \<and> Suc (length d) < length k"
    using d by (auto simp: shown_def strict_prefix_def prefix_def Suc_lessI)
  obtain n where n: "find_node s k = Some n" using k by (auto simp flip: find_node_keys)
  have info: "de_Info (dir_entry s k) = Inr (node_info s k n)" by (simp add: dir_entry_def n Let_def)
  have entry: "(tree_entry s k)\<lparr>e_Path := logical\<rparr> =
      \<lparr>e_Path = logical, e_Kind = (if n = Dir then EntryKindDirectory else EntryKindFile),
       e_Size = fi_Size (node_info s k n), e_Modified = fi_ModTime (node_info s k n)\<rparr>" for logical
    by (simp add: tree_entry_def n Let_def)
  show ?thesis
    unfolding visit_def Let_def entry
    using name rel sh dir_entry_type [OF s k] info n
    by (cases "k = d") (auto split: option.split prod.split res.split)
qed

section \<open>The walk\<close>

abbreviation no_faults :: "os \<Rightarrow> bool" where
  "no_faults s \<equiv> \<forall>n. os_faults s n = None"

text \<open>What the walk lists of the subtrees it has still to visit.\<close>

definition to_list :: "os \<Rightarrow> string list \<Rightarrow> bool \<Rightarrow> string list list \<Rightarrow> Entry list" where
  "to_list s d recursive ks =
     map (tree_entry s) (filter (shown d recursive) (concat (map (subtree s) ks)))"

lemma to_list_simps [simp]:
  "to_list s d recursive [] = []"
  "to_list s d recursive (ks @ ks') = to_list s d recursive ks @ to_list s d recursive ks'"
  by (simp_all add: to_list_def)

lemma to_list_Cons:
  assumes "tree_ok s" and "k \<in> set (tree_keys s)"
  shows "to_list s d recursive (k # ks) =
    (if shown d recursive k then [tree_entry s k] else []) @
    to_list s d recursive (map (\<lambda>x. k @ [x]) (children s k)) @ to_list s d recursive ks"
  using subtree_unfold [OF assms] by (simp add: to_list_def comp_def)

text \<open>Beneath a name that a flat listing skips nothing is shown.\<close>

lemma to_list_skipped:
  assumes "prefix d k" and "k \<noteq> d" and "\<not> shown d recursive k"
  shows "to_list s d recursive (k # ks) = to_list s d recursive ks"
proof -
  have "\<not> shown d recursive k'" if "k' \<in> set (subtree s k)" for k'
    using that assms by (auto simp: shown_def set_subtree strict_prefix_def prefix_def neq_Nil_conv)
  then have "filter (shown d recursive) (subtree s k) = []" by (simp add: filter_empty_conv)
  then show ?thesis by (simp add: to_list_def)
qed

lemma no_children:
  assumes "tree_ok s" and "k \<in> set (tree_keys s)" and "find_node s k \<noteq> Some Dir"
  shows "children s k = []"
proof (rule ccontr)
  assume "children s k \<noteq> []"
  then obtain x where "x \<in> set (children s k)" by (cases "children s k") auto
  then obtain n where "find_node s (k @ [x]) = Some n"
    by (auto simp: children_keys simp flip: find_node_keys)
  from os_okD(1) [OF tree_okD(1) [OF assms(1)] this] assms(3) show False by simp
qed

lemma limit_reached:
  fixes limit :: int64
  assumes "0 \<le> sint limit" and "limit = 0 \<or> length entries < nat (sint limit)"
  shows "0 < sint limit \<and> sint limit \<le> sint (go_len (entries @ [e])) \<longleftrightarrow>
    limit \<noteq> 0 \<and> nat (sint limit) = Suc (length entries)"
proof (cases "limit = 0")
  case False
  have "sint limit < 2 ^ 63" using sint_lt [of limit] by simp
  with assms False have "sint (go_len (entries @ [e])) = int (Suc (length entries))"
    using sint_go_len [of "entries @ [e]"] by simp
  with assms False show ?thesis by auto
qed simp

lemma limited_reached:
  "limit \<noteq> 0 \<Longrightarrow> nat (sint limit) = length xs \<Longrightarrow> limited limit (xs @ ys) = xs"
  by (simp add: limited_def)

lemma portable_path:
  assumes "portable s" and "k \<in> set (tree_keys s)" and "k \<noteq> []"
  shows "ParsePath (name_of k) = Ok \<lparr>pvalue = join_with slash k\<rparr>"
  using assms ParsePath_join [of k] by (auto simp: portable_def tree_keys_def name_of_def)

lemma tree_entry_path: "(tree_entry s k)\<lparr>e_Path := \<lparr>pvalue = join_with slash k\<rparr>\<rparr> = tree_entry s k"
  by (simp add: tree_entry_def Let_def)

text \<open>
  The outcome of a walk that starts with \<open>entries\<close> and has the names \<open>ks\<close> to visit: there is
  one, it leaves the tree as it is, and without an error it has appended what is to be listed.
\<close>

definition walked ::
  "os \<Rightarrow> string list \<Rightarrow> ListOptions \<Rightarrow> Entry list \<Rightarrow> string list list \<Rightarrow> ctx \<Rightarrow>
    (err option \<times> Entry list \<times> os \<times> ctx) option \<Rightarrow> bool" where
  "walked s d opts entries ks c r =
     (case r of
        None \<Rightarrow> False
      | Some (e, es, s', c') \<Rightarrow>
          counted s s' \<and>
          (portable s \<longrightarrow> e = None \<longrightarrow>
             es = limited (lo_Limit opts) (entries @ to_list s d (lo_Recursive opts) ks)) \<and>
          (portable s \<longrightarrow> no_faults s \<longrightarrow> c = Background \<longrightarrow> e = None \<and> c' = Background))"

abbreviation walk_keys ::
  "SymlinkPolicy \<Rightarrow> os \<Rightarrow> string list \<Rightarrow> ListOptions \<Rightarrow> string list list \<Rightarrow> Entry list \<Rightarrow> os \<Rightarrow> ctx \<Rightarrow>
    (err option \<times> Entry list \<times> os \<times> ctx) option" where
  "walk_keys policy s d opts ks \<equiv>
     walk_dir osRoot (visit policy (name_of d) opts) (map (\<lambda>k. (name_of k, dir_entry s k)) ks)"

abbreviation walk_room :: "ListOptions \<Rightarrow> Entry list \<Rightarrow> bool" where
  "walk_room opts entries \<equiv> lo_Limit opts = 0 \<or> length entries < nat (sint (lo_Limit opts))"

lemma walkedE:
  assumes "walked s d opts entries ks c r"
  obtains e es s' c' where "r = Some (e, es, s', c')"
proof (cases r)
  case (Some x)
  then show ?thesis using that by (cases x) simp
qed (use assms in \<open>simp add: walked_def\<close>)

lemma walked_next:
  assumes "walked s d opts entries1 ks1 c1 r"
    and "portable s \<Longrightarrow> entries1 @ to_list s d (lo_Recursive opts) ks1 = entries @ to_list s d (lo_Recursive opts) ks"
    and "c = Background \<Longrightarrow> c1 = Background"
  shows "walked s d opts entries ks c r"
  using assms by (auto simp: walked_def split: option.splits)

text \<open>The rest of the walk after a visit of \<open>k\<close> that lets it go on.\<close>

lemma walk_on:
  assumes s: "tree_ok s" and k: "k \<in> set (tree_keys s)" and s1: "counted s s1"
    and visit: "visit policy (name_of d) opts (name_of k) (dir_entry s k) entries c = (WalkOn, entries1, c1)"
    and go: "\<And>ks1 s2. ks1 = map (\<lambda>x. k @ [x]) (children s k) @ ks \<Longrightarrow> counted s s2 \<Longrightarrow>
      walked s d opts entries1 ks1 c1 (walk_keys policy s d opts ks1 entries1 s2 c1)"
    and entries: "portable s \<Longrightarrow> entries1 @ to_list s d (lo_Recursive opts) (map (\<lambda>x. k @ [x]) (children s k) @ ks) =
      entries @ to_list s d (lo_Recursive opts) (k # ks)"
    and c1: "c = Background \<Longrightarrow> c1 = Background"
  shows "walked s d opts entries (k # ks) c (walk_keys policy s d opts (k # ks) entries s1 c)"
proof (cases "find_node s k = Some Dir")
  case False
  have step: "walk_keys policy s d opts (k # ks) entries s1 c = walk_keys policy s d opts ks entries1 s1 c1"
    using visit False dir_entry_type(2) [OF s k] by (subst walk_dir.simps) simp
  have ks: "map (\<lambda>x. k @ [x]) (children s k) @ ks = ks" by (simp add: no_children [OF s k False])
  show ?thesis
    unfolding step by (rule walked_next [OF go [OF ks [symmetric] s1] entries [unfolded ks] c1])
next
  case True
  from ReadDir_key [OF s True s1]
  obtain r where r: "os_ReadDir (name_of k) s1 = (r, ticked s1)"
    and dirs: "\<forall>dirs. r = Inr dirs \<longrightarrow> map (\<lambda>d. (path_Join [name_of k, de_Name d], d)) dirs =
      map (\<lambda>x. (name_of (k @ [x]), dir_entry s (k @ [x]))) (children s k)"
    and ok: "no_faults s \<longrightarrow> (\<exists>dirs. r = Inr dirs)" by (elim exE conjE)
  have t: "counted s (ticked s1)" using counted_trans [OF s1] by simp
  show ?thesis
  proof (cases r)
    case (Inl e)
    then have "walk_keys policy s d opts (k # ks) entries s1 c = Some (Some e, entries1, ticked s1, c1)"
      using visit True dir_entry_type(2) [OF s k] r by (subst walk_dir.simps) simp
    with t ok Inl show ?thesis by (auto simp: walked_def)
  next
    case (Inr ds)
    let ?ks = "map (\<lambda>x. k @ [x]) (children s k) @ ks"
    have step: "walk_keys policy s d opts (k # ks) entries s1 c = walk_keys policy s d opts ?ks entries1 (ticked s1) c1"
      using visit True dir_entry_type(2) [OF s k] r Inr dirs [rule_format, OF Inr]
      by (subst walk_dir.simps) (simp add: comp_def)
    show ?thesis unfolding step by (rule walked_next [OF go [OF refl t] entries c1])
  qed
qed

text \<open>How many names the walk has still to visit at most.\<close>

definition remaining :: "os \<Rightarrow> string list list \<Rightarrow> nat" where
  "remaining s ks = length (concat (map (subtree s) ks))"

lemma remaining_Cons:
  assumes "tree_ok s" and "k \<in> set (tree_keys s)"
  shows "remaining s (k # ks) = Suc (remaining s (map (\<lambda>x. k @ [x]) (children s k) @ ks))"
  using subtree_unfold [OF assms] by (simp add: remaining_def comp_def)

text \<open>One visit, for a name that is not listed and for one that is; \<open>go\<close> is the walk after it.\<close>

lemma walk_unlisted:
  assumes s: "tree_ok s" and k: "k \<in> set (tree_keys s)" "prefix d k" and s1: "counted s s1"
    and room: "walk_room opts entries" and c1: "ctx_Err c = (None, c1)"
    and go: "\<And>ks1 entries1 s2. ks1 \<in> {map (\<lambda>x. k @ [x]) (children s k) @ ks, ks} \<Longrightarrow> counted s s2 \<Longrightarrow>
      walk_room opts entries1 \<Longrightarrow> walked s d opts entries1 ks1 c1 (walk_keys policy s d opts ks1 entries1 s2 c1)"
    and unlisted: "\<not> shown d (lo_Recursive opts) k"
  shows "walked s d opts entries (k # ks) c (walk_keys policy s d opts (k # ks) entries s1 c)"
proof (cases "k \<noteq> d \<and> find_node s k = Some Dir")
  case True
  then have step: "walk_keys policy s d opts (k # ks) entries s1 c = walk_keys policy s d opts ks entries s1 c1"
    using visit_key [OF s k, of policy opts entries c] unlisted c1 by (subst walk_dir.simps) simp
  have "walked s d opts entries (k # ks) c (walk_keys policy s d opts ks entries s1 c1)"
    by (rule walked_next [OF go [OF _ s1 room]]) (use True unlisted k c1 in \<open>simp_all add: to_list_skipped\<close>)
  then show ?thesis by (simp only: step)
next
  case False
  then have v: "visit policy (name_of d) opts (name_of k) (dir_entry s k) entries c = (WalkOn, entries, c1)"
    using visit_key [OF s k, of policy opts entries c] unlisted c1 by auto
  show ?thesis
    by (rule walk_on [OF s k(1) s1 v], rule go [OF _ _ room])
      (use c1 unlisted to_list_Cons [OF s k(1), of d "lo_Recursive opts" ks] in simp_all)
qed

lemma walk_listed:
  assumes s: "tree_ok s" and k: "k \<in> set (tree_keys s)" "prefix d k" and s1: "counted s s1"
    and room: "walk_room opts entries" and c1: "ctx_Err c = (None, c1)"
    and go: "\<And>ks1 entries1 s2. ks1 \<in> {map (\<lambda>x. k @ [x]) (children s k) @ ks, ks} \<Longrightarrow> counted s s2 \<Longrightarrow>
      walk_room opts entries1 \<Longrightarrow> walked s d opts entries1 ks1 c1 (walk_keys policy s d opts ks1 entries1 s2 c1)"
    and limit: "0 \<le> sint (lo_Limit opts)" and listed: "shown d (lo_Recursive opts) k"
  shows "walked s d opts entries (k # ks) c (walk_keys policy s d opts (k # ks) entries s1 c)"
proof -
  note visit = visit_key [OF s k, of policy opts entries c]
  note unfold = to_list_Cons [OF s k(1), of d "lo_Recursive opts" ks]
  have k': "k \<noteq> d" "k \<noteq> []" using listed by (auto simp: shown_def)
  show ?thesis
  proof (cases "ParsePath (name_of k)")
    case (Ok logical)
    let ?entries = "entries @ [(tree_entry s k)\<lparr>e_Path := logical\<rparr>]"
    have p: "portable s \<Longrightarrow> ?entries = entries @ [tree_entry s k]"
      using portable_path [OF _ k(1) k'(2)] Ok tree_entry_path by simp
    note full = limit_reached [OF limit room, of "(tree_entry s k)\<lparr>e_Path := logical\<rparr>"]
    show ?thesis
    proof (cases "lo_Limit opts \<noteq> 0 \<and> nat (sint (lo_Limit opts)) = Suc (length entries)")
      case True
      then have "walk_keys policy s d opts (k # ks) entries s1 c = Some (None, ?entries, s1, c1)"
        using visit listed k' c1 Ok full by (subst walk_dir.simps) (simp add: Let_def)
      moreover have "limited (lo_Limit opts) ((entries @ [tree_entry s k]) @ ys) = entries @ [tree_entry s k]" for ys
        using True by (intro limited_reached) simp_all
      ultimately show ?thesis using s1 p unfold listed c1 by (auto simp: walked_def)
    next
      case False
      with room have room1: "walk_room opts ?entries" by auto
      have v: "visit policy (name_of d) opts (name_of k) (dir_entry s k) entries c = (WalkOn, ?entries, c1)"
        using visit listed k' c1 Ok full False by (simp add: Let_def)
      show ?thesis
        by (rule walk_on [OF s k(1) s1 v], rule go [OF _ _ room1]) (use c1 p unfold listed in simp_all)
    qed
  next
    case (Err e)
    then have "\<not> portable s" using portable_path [OF _ k(1) k'(2)] by auto
    moreover have "walk_keys policy s d opts (k # ks) entries s1 c = Some (Some e, entries, s1, c1)"
      using visit listed k' c1 Err by (subst walk_dir.simps) simp
    ultimately show ?thesis using s1 by (simp add: walked_def)
  qed (simp add: ParsePath_never_panics)
qed

lemma walk_cancelled:
  assumes "tree_ok s" and "k \<in> set (tree_keys s)" "prefix d k" and "counted s s1" and c1: "ctx_Err c = (Some e, c1)"
  shows "walked s d opts entries (k # ks) c (walk_keys policy s d opts (k # ks) entries s1 c)"
proof -
  have "c \<noteq> Background" using c1 by auto
  moreover have "walk_keys policy s d opts (k # ks) entries s1 c = Some (Some e, entries, s1, c1)"
    using visit_key [OF assms(1-3), of policy opts entries c] c1 by (subst walk_dir.simps) simp
  ultimately show ?thesis using assms(4) by (simp add: walked_def)
qed

lemma walk_visits:
  assumes s: "tree_ok s" and limit: "0 \<le> sint (lo_Limit opts)"
    and "\<forall>k\<in>set ks. k \<in> set (tree_keys s) \<and> prefix d k" and "counted s s1" and "walk_room opts entries"
  shows "walked s d opts entries ks c (walk_keys policy s d opts ks entries s1 c)"
  using assms(3-5)
proof (induction "remaining s ks" arbitrary: ks entries s1 c rule: less_induct)
  case less
  show ?case
  proof (cases ks)
    case Nil
    then show ?thesis using less.prems by (subst walk_dir.simps) (auto simp: walked_def limited_def)
  next
    case (Cons k rest)
    let ?kids = "map (\<lambda>x. k @ [x]) (children s k) @ rest"
    have k: "k \<in> set (tree_keys s)" "prefix d k" using less.prems(1) Cons by simp_all
    have fewer: "remaining s ?kids < remaining s ks" "remaining s rest < remaining s ks"
      using remaining_Cons [OF s k(1), of rest] Cons by (simp_all add: remaining_def)
    have kids: "\<forall>k\<in>set ?kids. k \<in> set (tree_keys s) \<and> prefix d k"
      "\<forall>k\<in>set rest. k \<in> set (tree_keys s) \<and> prefix d k"
      using less.prems(1) Cons k(2) by (auto simp: children_keys)
    have go: "walked s d opts entries1 ks1 c1 (walk_keys policy s d opts ks1 entries1 s2 c1)"
      if "ks1 \<in> {?kids, rest}" "counted s s2" "walk_room opts entries1" for ks1 entries1 s2 c1
      using that(1) less.hyps [OF fewer(1) kids(1) that(2,3)] less.hyps [OF fewer(2) kids(2) that(2,3)]
      by (elim insertE emptyE) (simp_all only:)
    obtain e c1 where c1: "ctx_Err c = (e, c1)" by fastforce
    show ?thesis unfolding Cons
    proof (cases e)
      case (Some x)
      with c1 show "walked s d opts entries (k # rest) c (walk_keys policy s d opts (k # rest) entries s1 c)"
        by (intro walk_cancelled [OF s k less.prems(2)]) simp
    next
      case None
      with c1 have n: "ctx_Err c = (None, c1)" by simp
      show "walked s d opts entries (k # rest) c (walk_keys policy s d opts (k # rest) entries s1 c)"
        using walk_unlisted [OF s k less.prems(2,3) n go] walk_listed [OF s k less.prems(2,3) n go limit]
        by blast
    qed
  qed
qed

section \<open>The start of a listing\<close>

lemma os_stat_key:
  assumes s: "tree_ok s" and k: "list_all plain_elem k" and c: "counted s s1"
  shows "\<exists>r. os_stat op follow (name_of k) s1 = (r, ticked s1) \<and>
    (\<forall>info. r = Inr info \<longrightarrow> k \<in> set (tree_keys s) \<and> info = node_info s k (the (find_node s k))) \<and>
    (no_faults s \<longrightarrow> k \<in> set (tree_keys s) \<longrightarrow> (\<exists>info. r = Inr info))"
proof -
  have t: "counted s (ticked s1)" using counted_trans [OF c] by simp
  then have ok: "os_ok (ticked s1)" "tree_ok (ticked s1)"
    using s tree_okD(1) counted_simps(3) [OF t] by (metis, metis)
  have found: "os_lookup follow (name_of k) (ticked s1) = Inr k" if "k \<in> set (tree_keys s)"
    using lookup_key [OF ok(2)] that by (simp add: counted_simps [OF t])
  have plain: "k' = k" if "os_lookup follow (name_of k) (ticked s1) = Inr k'" for k'
  proof (cases "k = []")
    case True
    with that show ?thesis by (simp add: os_lookup_def name_of_def os_name_def resolve.simps)
  next
    case False
    with k os_name_join [OF False k] have "named (name_of k) k" by (simp add: named_def name_of_def)
    from lookup_named [OF ok(1) this that] show ?thesis .
  qed
  obtain r s2 where run: "os_stat op follow (name_of k) s1 = (r, s2)" by fastforce
  then have s2: "s2 = ticked s1" using os_stat_state [of op follow "name_of k" s1] by simp
  from run have "k \<in> set (tree_keys s) \<and> info = node_info s k (the (find_node s k))" if "r = Inr info" for info
    using that plain unfolding os_stat_def
    by (cases rule: os_run_cases)
      (auto simp: counted_simps [OF t] simp flip: find_node_keys split: sum.splits option.splits)
  moreover have "\<exists>info. r = Inr info" if nf: "no_faults s" and key: "k \<in> set (tree_keys s)"
  proof -
    obtain n where "find_node s k = Some n" using key by (auto simp flip: find_node_keys)
    with run found [OF key] nf show ?thesis
      by (auto simp: os_stat_def os_run_def os_tick_def counted_simps [OF c] counted_simps [OF t])
  qed
  ultimately show ?thesis using run s2 by blast
qed

lemma check_prefixes_key:
  assumes s: "tree_ok s" and "no_faults s" and "counted s s1" and "set ks \<subseteq> set (tree_keys s)"
  shows "fst (check_prefixes osRoot p (map name_of ks) s1) = None"
  using assms(3,4)
proof (induction ks arbitrary: s1)
  case (Cons k ks)
  have k: "k \<in> set (tree_keys s)" using Cons.prems by simp
  from os_stat_key [OF s plain_keys [OF s k] Cons.prems(1), of "''lstatat''" False] k assms(2)
  have "os_stat ''lstatat'' False (name_of k) s1 = (Inr (node_info s k (the (find_node s k))), ticked s1)"
    by auto
  moreover have "fi_Type (node_info s k (the (find_node s k))) \<noteq> SymlinkFile"
    using dir_entry_type(1) [OF s k] by (simp add: dir_entry_def Let_def)
  ultimately show ?case
    using Cons.IH [of "ticked s1"] Cons.prems counted_trans [OF Cons.prems(1)] by simp
qed simp

lemma checkSymlinks_key:
  assumes a: "la_root a = osRoot" and s: "tree_ok s" "no_faults s" and d: "wf_path d" "segments d \<in> set (tree_keys s)"
  shows "fst (checkSymlinks a d True s) = None"
proof (cases "IsRoot d")
  case False
  then have seg: "split_on slash (Path_String d) = segments d"
    by (simp add: segments_def IsRoot_def Path_String_def)
  let ?ks = "map (\<lambda>i. take (Suc i) (segments d)) [0..<length (segments d)]"
  have "take i (segments d) \<in> set (tree_keys s)" for i
    by (rule prefix_keys [OF s(1), where r = "drop i (segments d)"]) (simp add: d(2))
  then have "set ?ks \<subseteq> set (tree_keys s)" by auto
  moreover have "name_prefixes (segments d) = map name_of ?ks"
    using False by (auto simp: name_prefixes_def name_of_def IsRoot_segments)
  ultimately have "fst (check_prefixes osRoot d (name_prefixes (segments d)) s) = None"
    using check_prefixes_key [OF s counted_refl, of ?ks] by (simp only:)
  then show ?thesis by (simp add: checkSymlinks_def seg a)
qed (simp add: checkSymlinks_def)

text \<open>The names a listing shows, in the order of the walk.\<close>

definition walk_order :: "os \<Rightarrow> string list \<Rightarrow> bool \<Rightarrow> string list list" where
  "walk_order s d recursive = sort (filter (shown d recursive) (map fst (os_tree s)))"

lemma to_list_start: "to_list s d recursive [d] = map (tree_entry s) (walk_order s d recursive)"
proof -
  have "filter (shown d recursive) (filter (prefix d) (tree_keys s)) =
      filter (shown d recursive) (map fst (os_tree s))"
    by (auto simp: tree_keys_def shown_def strict_prefix_def intro!: filter_cong)
  then show ?thesis by (simp add: to_list_def subtree_def walk_order_def filter_sort)
qed

lemma name_of_path: "name_of (segments d) = (if Path_String d = [] then ''.'' else Path_String d)"
  by (auto simp: name_of_def join_segments Path_String_def segments_def)

text \<open>The whole of \<open>local_list\<close>, over the walk.\<close>

lemma local_list_outcome:
  assumes a: "la_root a = osRoot" and s: "tree_ok s" and d: "wf_path d" and limit: "0 \<le> sint (lo_Limit opts)"
  shows "\<exists>r s' c'. local_list a d opts s c = Some (r, s', c') \<and> counted s s' \<and> (\<forall>e. r \<noteq> Panic e) \<and>
    (portable s \<longrightarrow> (\<forall>es. r = Ok es \<longrightarrow> segments d \<in> set (tree_keys s) \<and>
       es = sort_key entry_key (limited (lo_Limit opts)
         (map (tree_entry s) (walk_order s (segments d) (lo_Recursive opts)))))) \<and>
    (portable s \<longrightarrow> no_faults s \<longrightarrow> c = Background \<longrightarrow> segments d \<in> set (tree_keys s) \<longrightarrow> (\<exists>es. r = Ok es))"
proof -
  let ?k = "segments d"
  obtain e c1 where c1: "ctx_Err c = (e, c1)" by fastforce
  obtain l s1 where l: "(if IsRoot d then (None, s) else checkSymlinks a d True s) = (l, s1)" by fastforce
  have s1: "counted s s1" using l checkSymlinks_counted [OF a] by (auto split: if_splits)
  have pl: "list_all plain_elem ?k" using d by (simp add: segments_plain wf_pathD)
  from os_stat_key [OF s pl s1, of "''statat''" True] obtain i
    where i: "os_stat ''statat'' True (name_of ?k) s1 = (i, ticked s1)"
      and found: "\<forall>info. i = Inr info \<longrightarrow> ?k \<in> set (tree_keys s) \<and> info = node_info s ?k (the (find_node s ?k))"
      and ok: "no_faults s \<longrightarrow> ?k \<in> set (tree_keys s) \<longrightarrow> (\<exists>info. i = Inr info)" by (elim exE conjE)
  have t: "counted s (ticked s1)" using counted_trans [OF s1] by simp
  note unfold = local_list_def Let_def a osRoot_simps c1 prod.case l i name_of_path [symmetric]
  show ?thesis
  proof (cases "e = None \<and> l = None \<and> (\<exists>info. i = Inr info)")
    case False
    have "e = None \<and> l = None \<and> (\<exists>info. i = Inr info)"
      if "no_faults s" "c = Background" "?k \<in> set (tree_keys s)"
      using that ok c1 checkSymlinks_key [OF a s that(1) d that(3)] l by (auto split: if_splits)
    with False have bad: "no_faults s \<longrightarrow> c = Background \<longrightarrow> ?k \<notin> set (tree_keys s)" by blast
    with False limit s1 t show ?thesis
      by (cases e; cases l; cases i) (simp_all only: unfold, auto)
  next
    case True
    then obtain info where info: "e = None" "l = None" "i = Inr info" by blast
    with found have k: "?k \<in> set (tree_keys s)" and "info = node_info s ?k (the (find_node s ?k))" by simp_all
    then have start: "[(name_of ?k, \<lparr>de_Name = fi_Name info, de_Type = fi_Type info, de_Info = Inr info\<rparr>)] =
        map (\<lambda>k. (name_of k, dir_entry s k)) [?k]" by (simp add: dir_entry_def Let_def)
    have w: "walked s ?k opts [] [?k] c1 (walk_keys (la_symlinkPolicy a) s ?k opts [?k] [] (ticked s1) c1)"
      by (rule walk_visits [OF s limit _ t]) (use k limit signed_eq_0_iff [of "lo_Limit opts"] in auto)
    from w obtain e' es s' c' where
      r: "walk_keys (la_symlinkPolicy a) s ?k opts [?k] [] (ticked s1) c1 = Some (e', es, s', c')" by (rule walkedE)
    have run: "local_list a d opts s c =
        Some (case e' of Some e \<Rightarrow> Err (local_mapError d e) | None \<Rightarrow> Ok (sort_key entry_key es), s', c')"
      using limit info r start by (simp add: unfold)
    from w show ?thesis
      using c1 k unfolding run r walked_def to_list_start by (cases e') auto
  qed
qed

lemma distinct_entries:
  assumes s: "tree_ok s" "portable s"
  shows "distinct (map entry_key (limited limit (map (tree_entry s) (walk_order s d recursive))))"
proof -
  let ?ks = "walk_order s d recursive"
  have "distinct ?ks" using s(1) by (simp add: walk_order_def tree_ok_def)
  moreover have "inj_on (join_with slash) (set ?ks)"
  proof (rule inj_on_inverseI)
    fix k assume "k \<in> set ?ks"
    then have "list_all segment_ok k" using s(2) by (auto simp: walk_order_def portable_def)
    then show "segments \<lparr>pvalue = join_with slash k\<rparr> = k" by (rule segments_join)
  qed
  moreover have "entry_key (tree_entry s k) = join_with slash k" for k
    by (simp add: entry_key_def tree_entry_def Path_String_def Let_def)
  ultimately have "distinct (map entry_key (map (tree_entry s) ?ks))"
    by (simp add: distinct_map comp_def)
  then show ?thesis by (simp add: limited_def flip: take_map)
qed

section \<open>Properties\<close>

declare walk_dir.simps [code]

definition sample_tree :: os where
  "sample_tree = sample_os\<lparr>os_tree :=
     [([''a''], Dir), ([''a'', ''c''], File 0), ([''a-b''], File 0)]\<rparr>"

definition list_options :: "bool \<Rightarrow> int64 \<Rightarrow> ListOptions" where
  "list_options recursive limit = \<lparr>lo_Recursive = recursive, lo_Limit = limit\<rparr>"

text \<open>
  (C15) A \<^verbatim>\<open>List\<close> of the local adapter returns, whichever calls of the operating system fail and
  whenever the context is cancelled, and it changes nothing. If it succeeds on a tree of logical
  names, the directory exists and the iterator yields, strictly sorted by path, the first names
  of the lexical order of segments up to the limit: those beneath the directory, or only its
  children when it is not recursive, each with the kind, size and time of the tree. It does
  succeed when nothing fails and the directory exists.
\<close>

theorem local_List_exact:
  assumes "on_os a" and "tree_ok s" and "wf_path d" and "0 \<le> sint (lo_Limit opts)"
  shows "\<exists>r s' c'. local_List a d opts s c = Some (r, s', c') \<and> counted s s' \<and> (\<forall>e. r \<noteq> Panic e) \<and>
    (portable s \<longrightarrow> (\<forall>it. r = Ok it \<longrightarrow> find_node s (segments d) \<noteq> None \<and>
       sorted_wrt (<) (map entry_key (si_pending it)) \<and>
       si_pending it = sort_key entry_key (limited (lo_Limit opts)
         (map (tree_entry s) (walk_order s (segments d) (lo_Recursive opts)))))) \<and>
    (portable s \<longrightarrow> no_faults s \<longrightarrow> c = Background \<longrightarrow> find_node s (segments d) \<noteq> None \<longrightarrow>
       (\<exists>it. r = Ok it))"
proof -
  let ?es = "limited (lo_Limit opts) (map (tree_entry s) (walk_order s (segments d) (lo_Recursive opts)))"
  have "la_root a = osRoot" using assms(1) by (simp add: on_os_def)
  from local_list_outcome [OF this assms(2-4), of c] obtain r s' c' where
    run: "local_list a d opts s c = Some (r, s', c')" and s': "counted s s'" "\<forall>e. r \<noteq> Panic e"
    and exact: "portable s \<longrightarrow> (\<forall>es. r = Ok es \<longrightarrow> segments d \<in> set (tree_keys s) \<and> es = sort_key entry_key ?es)"
    and ok: "portable s \<longrightarrow> no_faults s \<longrightarrow> c = Background \<longrightarrow> segments d \<in> set (tree_keys s) \<longrightarrow> (\<exists>es. r = Ok es)"
    by (elim exE conjE)
  have "sorted_wrt (<) (map entry_key (sort_key entry_key ?es))" if "portable s"
    using distinct_entries [OF assms(2) that] sorted_sort_key [of entry_key ?es]
    by (auto simp: strict_sorted_iff distinct_map)
  with run s' exact ok show ?thesis
    unfolding find_node_keys by (cases r) (auto simp: local_List_def new_iterator_def si_pending_def)
qed

theorem local_List_exact_witness:
  "on_os sample_local \<and> tree_ok sample_tree \<and> wf_path \<lparr>pvalue = []\<rparr> \<and>
    0 \<le> sint (lo_Limit (list_options True 2)) \<and> portable sample_tree \<and>
    (case local_List sample_local \<lparr>pvalue = []\<rparr> (list_options True 2) sample_tree Background of
       Some (Ok it, s', c') \<Rightarrow> counted sample_tree s' \<and> map entry_key (si_pending it) = [''a'', ''a/c'']
     | _ \<Rightarrow> False)"
proof -
  let ?root = "\<lparr>pvalue = []\<rparr>" and ?opts = "list_options True 2"
  have s: "tree_ok sample_tree" "portable sample_tree" "no_faults sample_tree"
    by (auto simp: sample_tree_def sample_os_def tree_ok_def portable_def os_ok_def find_node_def
        plain_elem_def segment_ok_def hasWindowsVolume_def has_control_def IsControl_def split: if_splits)
  have d: "wf_path ?root" "0 \<le> sint (lo_Limit ?opts)" "find_node sample_tree (segments ?root) \<noteq> None"
    by (simp_all add: wf_path_def segments_def hasWindowsVolume_def list_options_def find_node_def)
  have "map entry_key (sort_key entry_key (limited (lo_Limit ?opts)
      (map (tree_entry sample_tree) (walk_order sample_tree (segments ?root) (lo_Recursive ?opts))))) = [''a'', ''a/c'']"
    by code_simp
  with local_List_exact [OF on_os_sample s(1) d(1,2), of Background] s d on_os_sample show ?thesis
    by fastforce
qed

text \<open>
  A file whose name has a backslash, which POSIX allows, is listed under the path with a slash
  instead, since \<^verbatim>\<open>ParsePath\<close> normalizes it; no file has that path.
\<close>

theorem backslash_listed_elsewhere:
  "let s = sample_os\<lparr>os_tree := [([[CHR ''a'', backslash, CHR ''b'']], File 0)]\<rparr> in
   (case local_List sample_local \<lparr>pvalue = []\<rparr> (list_options True 0) s Background of
      Some (Ok it, s', c') \<Rightarrow> map entry_key (si_pending it) = [''a/b'']
    | _ \<Rightarrow> False) \<and>
   fails_with (fst (local_Stat sample_local \<lparr>pvalue = ''a/b''\<rparr> s Background)) ErrNotFound"
  by code_simp

end
