(* ===== verification/Remote_Session.thy ===== *)
theory Remote_Session
  imports File_Transfer
begin

text \<open>
  What \<^verbatim>\<open>src/sftp/sftp.go\<close> and \<^verbatim>\<open>src/ftp/ftp.go\<close> have in common: one session to a server
  that is made on demand, dropped when its connection is lost and never made again after
  \<^verbatim>\<open>Close\<close>; the check for symbolic links in front of a path; and the breadth-first listing.
  The two sources repeat this code, and each adapter instantiates it with its own protocol.

  A session is a value of type \<open>'i\<close>; whatever lies behind it (connections, servers) is a state
  \<open>'x\<close>. The fields \<open>rm_opened\<close> and \<open>rm_released\<close> are no fields of the code: they record which
  sessions the adapter acquired and which of them it closed.
\<close>

section \<open>Sessions\<close>

record ('x, 'i) remote =
  rm_session :: "'i option"
  rm_closed :: bool
  rm_world :: 'x
  rm_opened :: "'i list"
  rm_released :: "'i list"

type_synonym ('x, 'i) connector = "ctx \<Rightarrow> 'x \<Rightarrow> (err + 'i) \<times> 'x \<times> ctx"

text \<open>A call on a session: it changes the world and may fail.\<close>

type_synonym ('x, 'a) call = "'x \<Rightarrow> (err + 'a) \<times> 'x"

definition current_session ::
  "('x, 'i) connector \<Rightarrow> ('x, 'i) remote \<Rightarrow> ctx \<Rightarrow> (err + 'i) \<times> ('x, 'i) remote \<times> ctx" where
  "current_session dial r c =
     (case ctx_Err c of
        (Some e, c1) \<Rightarrow> (Inl e, r, c1)
      | (None, c1) \<Rightarrow>
          if rm_closed r then (Inl (Sentinel NetErrClosed), r, c1)
          else (case rm_session r of
            Some i \<Rightarrow> (Inr i, r, c1)
          | None \<Rightarrow>
              (case dial c1 (rm_world r) of
                 (Inl e, w, c2) \<Rightarrow> (Inl e, r\<lparr>rm_world := w\<rparr>, c2)
               | (Inr i, w, c2) \<Rightarrow>
                   (Inr i, r\<lparr>rm_world := w, rm_session := Some i, rm_opened := rm_opened r @ [i]\<rparr>, c2))))"

definition release :: "('i \<Rightarrow> 'x \<Rightarrow> err option \<times> 'x) \<Rightarrow> 'i \<Rightarrow> ('x, 'i) remote \<Rightarrow>
    err option \<times> ('x, 'i) remote" where
  "release close i r =
     (case close i (rm_world r) of
        (e, w) \<Rightarrow> (e, r\<lparr>rm_world := w, rm_session := None, rm_released := rm_released r @ [i]\<rparr>))"

definition invalidate_session ::
  "('i \<Rightarrow> 'x \<Rightarrow> err option \<times> 'x) \<Rightarrow> 'i \<Rightarrow> ('x, 'i) remote \<Rightarrow> ('x, 'i) remote" where
  "invalidate_session close failed r =
     (if rm_session r = Some failed then snd (release close failed r) else r)"

definition close_session ::
  "('i \<Rightarrow> 'x \<Rightarrow> err option \<times> 'x) \<Rightarrow> ('x, 'i) remote \<Rightarrow> err option \<times> ('x, 'i) remote" where
  "close_session close r =
     (if rm_closed r then (None, r)
      else let r = r\<lparr>rm_closed := True\<rparr> in
        (case rm_session r of None \<Rightarrow> (None, r) | Some i \<Rightarrow> release close i r))"

text \<open>An operation on a session, run on the world of the adapter.\<close>

definition on_world ::
  "('x \<Rightarrow> ctx \<Rightarrow> 'a \<times> 'x \<times> ctx) \<Rightarrow> ('x, 'i) remote \<Rightarrow> ctx \<Rightarrow> 'a \<times> ('x, 'i) remote \<times> ctx" where
  "on_world f r c = (case f (rm_world r) c of (x, w, c1) \<Rightarrow> (x, r\<lparr>rm_world := w\<rparr>, c1))"

text \<open>An operation that reconnects once when the connection was lost.\<close>

definition retry_on ::
  "('x, 'i) connector \<Rightarrow> ('i \<Rightarrow> 'x \<Rightarrow> err option \<times> 'x) \<Rightarrow> (err \<Rightarrow> bool) \<Rightarrow> bool \<Rightarrow>
    ('i \<Rightarrow> 'x \<Rightarrow> ctx \<Rightarrow> (err + 'a) \<times> 'x \<times> ctx) \<Rightarrow> 'i \<Rightarrow> ('x, 'i) remote \<Rightarrow> ctx \<Rightarrow>
    (err + 'a) \<times> ('x, 'i) remote \<times> ctx" where
  "retry_on dial close lost retry operation i r c =
     (case on_world (operation i) r c of
        (Inr x, r1, c1) \<Rightarrow> (Inr x, r1, c1)
      | (Inl e, r1, c1) \<Rightarrow>
          if \<not> retry \<or> \<not> lost e then (Inl e, r1, c1)
          else (case current_session dial (invalidate_session close i r1) c1 of
            (Inl e', r2, c2) \<Rightarrow> (Inl (Joined [e, e']), r2, c2)
          | (Inr j, r2, c2) \<Rightarrow> on_world (operation j) r2 c2))"

definition with_session ::
  "('x, 'i) connector \<Rightarrow> ('i \<Rightarrow> 'x \<Rightarrow> err option \<times> 'x) \<Rightarrow> (err \<Rightarrow> bool) \<Rightarrow> bool \<Rightarrow>
    ('i \<Rightarrow> 'x \<Rightarrow> ctx \<Rightarrow> (err + 'a) \<times> 'x \<times> ctx) \<Rightarrow> ('x, 'i) remote \<Rightarrow> ctx \<Rightarrow>
    (err + 'a) \<times> ('x, 'i) remote \<times> ctx" where
  "with_session dial close lost retry operation r c =
     (case current_session dial r c of
        (Inl e, r1, c1) \<Rightarrow> (Inl e, r1, c1)
      | (Inr i, r1, c1) \<Rightarrow> retry_on dial close lost retry operation i r1 c1)"

section \<open>Paths on the server\<close>

definition remote_path :: "string \<Rightarrow> path \<Rightarrow> string" where
  "remote_path root p = (if IsRoot p then root else path_Join [root, Path_String p])"

text \<open>\<^verbatim>\<open>validateRoot\<close>; \<open>name\<close> is the name of the adapter in the messages.\<close>

definition validate_root :: "string \<Rightarrow> string \<Rightarrow> string res" where
  "validate_root name root =
     (if root = [] then Ok ''/''
      else if \<not> HasPrefix root ''/'' \<or> backslash \<in> set root
      then Err (New (name @ '': root must be an absolute POSIX path''))
      else (case find (\<lambda>segment. segment = ''..'' \<or> has_control segment) (split_on slash root) of
        Some segment \<Rightarrow>
          Err (New (name @ (if segment = ''..'' then '': root must not contain parent segments''
                            else '': root contains a control character'')))
      | None \<Rightarrow> Ok (path_Clean root)))"

definition link_candidates :: "string \<Rightarrow> path \<Rightarrow> bool \<Rightarrow> string list" where
  "link_candidates root p includeFinal =
     (let ss = split_on slash (Path_String p);
          n = (if includeFinal then length ss else length ss - 1)
      in map (\<lambda>i. path_Join [root, path_Join (take (Suc i) ss)]) [0..<n])"

text \<open>The loop that looks for a symbolic link; \<open>is_link\<close> asks the server for one name.\<close>

fun reject_links ::
  "(string \<Rightarrow> ('x, bool) call) \<Rightarrow> (err \<Rightarrow> bool) \<Rightarrow> (string \<Rightarrow> err) \<Rightarrow> string list \<Rightarrow> 'x \<Rightarrow>
    err option \<times> 'x" where
  "reject_links is_link absent denied [] w = (None, w)"
| "reject_links is_link absent denied (candidate # candidates) w =
     (case is_link candidate w of
        (Inl e, w1) \<Rightarrow> (if absent e then None else Some e, w1)
      | (Inr True, w1) \<Rightarrow> (Some (denied candidate), w1)
      | (Inr False, w1) \<Rightarrow> reject_links is_link absent denied candidates w1)"

text \<open>\<^verbatim>\<open>temporaryPath\<close>.\<close>

definition temporary_path ::
  "string \<Rightarrow> ('x \<Rightarrow> (err + string) \<times> 'x) \<Rightarrow> string \<Rightarrow> ('x, string) call" where
  "temporary_path name random directory w =
     (case random w of
        (Inl e, w1) \<Rightarrow> (Inl (Errorf (name @ '': generate temporary path: %w'') [] [e]), w1)
      | (Inr bytes, w1) \<Rightarrow> (Inr (path_Join [directory, temporary_base bytes]), w1))"

section \<open>Listings\<close>

record remote_info =
  ri_Name :: string
  ri_Size :: int64
  ri_Modified :: time
  ri_Directory :: bool
  ri_Link :: bool

text \<open>
  One directory of the breadth-first walk: what is still to be read, the entries, and whether
  the limit was reached.
\<close>

fun add_infos ::
  "(string \<Rightarrow> err) \<Rightarrow> bool \<Rightarrow> int64 \<Rightarrow> path \<Rightarrow> remote_info list \<Rightarrow> path list \<Rightarrow> Entry list \<Rightarrow>
    err + path list \<times> Entry list \<times> bool" where
  "add_infos denied recursive limit current [] queue entries = Inr (queue, entries, False)"
| "add_infos denied recursive limit current (info # infos) queue entries =
     (if ri_Link info then Inl (denied (ri_Name info))
      else case Path_Join current (ri_Name info) of
        Err e \<Rightarrow> Inl e
      | Panic e \<Rightarrow> Inl e
      | Ok p \<Rightarrow>
          let queue = (if ri_Directory info \<and> recursive then queue @ [p] else queue);
              entries = entries @ [\<lparr>e_Path = p,
                e_Kind = (if ri_Directory info then EntryKindDirectory else EntryKindFile),
                e_Size = ri_Size info, e_Modified = ri_Modified info\<rparr>]
          in if sint limit \<le> int (length entries) then Inr (queue, entries, True)
             else add_infos denied recursive limit current infos queue entries)"

lemma add_infos_progress:
  "add_infos denied recursive limit current infos queue entries = Inr (queue', entries', full) \<Longrightarrow>
    length entries \<le> length entries' \<and>
    length queue' \<le> length queue + (length entries' - length entries) \<and>
    (\<not> full \<longrightarrow> entries' = entries \<or> int (length entries') < sint limit)"
proof (induction infos arbitrary: queue entries)
  case (Cons info infos)
  show ?case
  proof (cases "Path_Join current (ri_Name info)")
    case (Ok p)
    define q where "q = (if ri_Directory info \<and> recursive then queue @ [p] else queue)"
    define es where "es = entries @ [\<lparr>e_Path = p,
      e_Kind = (if ri_Directory info then EntryKindDirectory else EntryKindFile),
      e_Size = ri_Size info, e_Modified = ri_Modified info\<rparr>]"
    have es: "length es = Suc (length entries)" and q: "length q \<le> Suc (length queue)"
      by (simp_all add: es_def q_def)
    from Cons.prems Ok have step: "(if sint limit \<le> int (length es) then Inr (q, es, True)
        else add_infos denied recursive limit current infos q es) = Inr (queue', entries', full)"
      by (simp add: q_def es_def Let_def split: if_splits)
    show ?thesis
    proof (cases "sint limit \<le> int (length es)")
      case True
      with step es q show ?thesis by auto
    next
      case False
      with step Cons.IH [of q es] es q show ?thesis by auto
    qed
  qed (use Cons.prems in \<open>auto split: if_splits\<close>)
qed simp

text \<open>
  The walk itself. \<open>read\<close> asks the server for a directory. Each directory that is queued was
  counted as an entry, so the limit also bounds the number of directories that are read.
\<close>

function walk_remote ::
  "(path \<Rightarrow> 'x \<Rightarrow> ctx \<Rightarrow> (err + remote_info list) \<times> 'x \<times> ctx) \<Rightarrow> (string \<Rightarrow> err) \<Rightarrow> bool \<Rightarrow> int64 \<Rightarrow>
    path list \<Rightarrow> Entry list \<Rightarrow> 'x \<Rightarrow> ctx \<Rightarrow> (err + Entry list) \<times> 'x \<times> ctx" where
  "walk_remote read denied recursive limit queue entries w c =
     (case queue of
        [] \<Rightarrow> (Inr (sort_key entry_key entries), w, c)
      | current # rest \<Rightarrow>
          (case read current w c of
             (Inl e, w1, c1) \<Rightarrow> (Inl e, w1, c1)
           | (Inr infos, w1, c1) \<Rightarrow>
               (case add_infos denied recursive limit current (sort_key ri_Name infos) rest entries of
                  Inl e \<Rightarrow> (Inl e, w1, c1)
                | Inr (queue', entries', full) \<Rightarrow>
                    if full then (Inr (sort_key entry_key entries'), w1, c1)
                    else walk_remote read denied recursive limit queue' entries' w1 c1)))"
  by pat_completeness auto
termination
proof (relation "measure (\<lambda>(read, denied, recursive, limit, queue, entries, w, c).
    nat (sint limit - int (length entries)) + length queue)")
qed (auto dest!: add_infos_progress)

declare walk_remote.simps [simp del]

text \<open>Defaults and limits.\<close>

definition default_timeout :: "int \<Rightarrow> int" where
  "default_timeout timeout = (if timeout = 0 then 30 * 10 ^ 9 else timeout)"

definition default_max_list :: "int64 \<Rightarrow> int64" where
  "default_max_list limit = (if limit = 0 then 10000 else limit)"

definition effective_limit :: "int64 \<Rightarrow> int64 \<Rightarrow> int64" where
  "effective_limit requested maximum = (if requested = 0 then maximum else go_min requested maximum)"

text \<open>A result of a session as a result of the adapter.\<close>

definition as_res :: "(err \<Rightarrow> err) \<Rightarrow> err + 'a \<Rightarrow> 'a res" where
  "as_res f x = (case x of Inl e \<Rightarrow> Err (f e) | Inr y \<Rightarrow> Ok y)"

definition unit_res :: "(err \<Rightarrow> err) \<Rightarrow> err option \<Rightarrow> unit res" where
  "unit_res f e = (case e of Some e \<Rightarrow> Err (f e) | None \<Rightarrow> Ok ())"

end
