(* ===== verification/Sftp_Adapter.thy ===== *)
theory Sftp_Adapter
  imports Remote_Session
begin

text \<open>
  The SFTP adapter: \<^verbatim>\<open>src/sftp/sftp.go\<close>. The interfaces \<^verbatim>\<open>remoteSession\<close> and
  \<^verbatim>\<open>remoteFile\<close> are a record of calls over sessions \<open>'i\<close>, files \<open>'h\<close> and a world \<open>'x\<close>; the
  packages \<^verbatim>\<open>pkg/sftp\<close> and \<^verbatim>\<open>x/crypto/ssh\<close> behind them are the parameters \<open>sftp_lib\<close>.
\<close>

section \<open>Interfaces\<close>

record ('x, 'i, 'h) sftp_session =
  ss_Open :: "'i \<Rightarrow> string \<Rightarrow> ('x, 'h) call"
  ss_OpenFile :: "'i \<Rightarrow> string \<Rightarrow> ('x, 'h) call" \<comment> \<open>for writing, created exclusively\<close>
  ss_Stat :: "'i \<Rightarrow> string \<Rightarrow> ('x, FileInfo) call"
  ss_Lstat :: "'i \<Rightarrow> string \<Rightarrow> ('x, FileInfo) call"
  ss_ReadDirContext :: "'i \<Rightarrow> string \<Rightarrow> 'x \<Rightarrow> ctx \<Rightarrow> (err + FileInfo list) \<times> 'x \<times> ctx"
  ss_Remove :: "'i \<Rightarrow> string \<Rightarrow> 'x \<Rightarrow> err option \<times> 'x"
  ss_MkdirAll :: "'i \<Rightarrow> string \<Rightarrow> 'x \<Rightarrow> err option \<times> 'x"
  ss_Rename :: "'i \<Rightarrow> string \<Rightarrow> string \<Rightarrow> 'x \<Rightarrow> err option \<times> 'x"
  ss_PosixRename :: "'i \<Rightarrow> string \<Rightarrow> string \<Rightarrow> 'x \<Rightarrow> err option \<times> 'x"
  ss_HasExtension :: "'i \<Rightarrow> string \<Rightarrow> 'x \<Rightarrow> bool"
  ss_Close :: "'i \<Rightarrow> 'x \<Rightarrow> err option \<times> 'x"
  sf_Reads :: "'h \<Rightarrow> 'x \<Rightarrow> reads"
  sf_Write :: "'h \<Rightarrow> string \<Rightarrow> 'x \<Rightarrow> err option \<times> 'x"
  sf_Seek :: "'h \<Rightarrow> int64 \<Rightarrow> 'x \<Rightarrow> err option \<times> 'x"
  sf_Sync :: "'h \<Rightarrow> 'x \<Rightarrow> err option \<times> 'x"
  sf_Close :: "'h \<Rightarrow> 'x \<Rightarrow> err option \<times> 'x"

record ('x, 'i, 'h) sftp_adapter =
  sa_ops :: "('x, 'i, 'h) sftp_session"
  sa_connector :: "('x, 'i) connector"
  sa_random :: "'x \<Rightarrow> (err + string) \<times> 'x"
  sa_root :: string
  sa_maxList :: int64
  sa_atomicRename :: bool
  sa_capabilities :: CapabilitySet

section \<open>Classification of errors\<close>

definition sftp_isConnectionError :: "err \<Rightarrow> bool" where
  "sftp_isConnectionError e =
     (errors_is e (Package_error ''ErrSSHFxConnectionLost'') \<or>
      errors_is e (Package_error ''ErrSSHFxNoConnection'') \<or>
      errors_is e IoEOF \<or> errors_is e NetErrClosed \<or> is_net_error e)"

definition sftp_isNotFound :: "err \<Rightarrow> bool" where
  "sftp_isNotFound e =
     (errors_is e FsErrNotExist \<or> errors_is e (Package_error ''ErrSSHFxNoSuchFile''))"

definition sftp_isOperationUnsupported :: "err \<Rightarrow> bool" where
  "sftp_isOperationUnsupported e =
     (errors_is e (Package_error ''ErrSSHFxOpUnsupported'') \<or>
      error_code e = Some ''SSH_FX_OP_UNSUPPORTED'')"

definition sftp_mapError :: "path \<Rightarrow> err \<Rightarrow> err" where
  "sftp_mapError p e =
     (if sftp_isNotFound e
      then Errorf ''%w: %s'' [FStr (Path_String p)] [Sentinel ErrNotFound] else e)"

section \<open>Construction\<close>

record 'auth sftp_Config =
  sc_Address :: string
  sc_User :: string
  sc_Auth :: "'auth option list" \<comment> \<open>\<open>None\<close> for a nil method\<close>
  sc_HostKeyCallback :: bool \<comment> \<open>whether there is one\<close>
  sc_Root :: string
  sc_AllowUnsafeSubroot :: bool
  sc_Timeout :: int
  sc_MaxListEntries :: int64

definition sftp_validateRoot :: "string \<Rightarrow> string res" where
  "sftp_validateRoot = validate_root ''sftp''"

definition sftp_defaultTimeout :: "int \<Rightarrow> int" where
  "sftp_defaultTimeout = default_timeout"

definition sftp_defaultMaxList :: "int64 \<Rightarrow> int64" where
  "sftp_defaultMaxList = default_max_list"

definition isNilAuthMethod :: "'auth option \<Rightarrow> bool" where
  "isNilAuthMethod method = (method = None)"

definition acquisitionError :: "ctx \<Rightarrow> string \<Rightarrow> err \<Rightarrow> err \<times> ctx" where
  "acquisitionError c operation e =
     (case ctx_Err c of
        (Some ce, c1) \<Rightarrow> (ce, c1)
      | (None, c1) \<Rightarrow> (Errorf ''%s: %w'' [FStr operation] [e], c1))"

text \<open>
  The dialling closure of \<^verbatim>\<open>Open\<close> over the network and the two protocol packages; a
  cancelled context closes the connection, which makes the handshake fail.
\<close>

record ('x, 'i, 'conn, 'client, 'auth) sftp_lib =
  sl_DialContext :: "int \<Rightarrow> string \<Rightarrow> ctx \<Rightarrow> 'x \<Rightarrow> (err + 'conn) \<times> 'x \<times> ctx"
  sl_NewClientConn :: "'conn \<Rightarrow> 'auth sftp_Config \<Rightarrow> ('x, 'client) call"
  sl_NewClient :: "'client \<Rightarrow> ('x, 'i) call"
  sl_CloseConn :: "'conn \<Rightarrow> 'x \<Rightarrow> err option \<times> 'x"
  sl_CloseClient :: "'client \<Rightarrow> 'x \<Rightarrow> err option \<times> 'x"

definition sftp_dial ::
  "('x, 'i, 'conn, 'client, 'auth) sftp_lib \<Rightarrow> 'auth sftp_Config \<Rightarrow> int \<Rightarrow> ('x, 'i) connector" where
  "sftp_dial lib config timeout c w =
     (case sl_DialContext lib timeout (sc_Address config) c w of
        (Inl e, w1, c1) \<Rightarrow> (Inl (Errorf ''sftp: dial SSH server: %w'' [] [e]), w1, c1)
      | (Inr connection, w1, c1) \<Rightarrow>
          (case sl_NewClientConn lib connection config w1 of
             (Inl e, w2) \<Rightarrow>
               (case acquisitionError c1 ''sftp: establish SSH connection'' e of
                  (e', c2) \<Rightarrow> (Inl e', snd (sl_CloseConn lib connection w2), c2))
           | (Inr sshClient, w2) \<Rightarrow>
               (case sl_NewClient lib sshClient w2 of
                  (Inl e, w3) \<Rightarrow>
                    (case acquisitionError c1 ''sftp: start subsystem'' e of
                       (e', c2) \<Rightarrow> (Inl e', snd (sl_CloseClient lib sshClient w3), c2))
                | (Inr session, w3) \<Rightarrow> (Inr session, w3, c1))))"

definition sftp_capability_list :: "bool \<Rightarrow> capability list" where
  "sftp_capability_list atomicRename =
     [CapabilityRead, CapabilityWrite, CapabilityStreamingWrite, CapabilityDelete, CapabilityList,
      CapabilityStat, CapabilityCopy, CapabilityRangeRead, CapabilityChecksum] @
     (if atomicRename then [CapabilityMove] else [])"

text \<open>\<^verbatim>\<open>newAdapter\<close> returns the adapter and its first state.\<close>

definition sftp_newAdapter ::
  "('x, 'i, 'h) sftp_session \<Rightarrow> ('x \<Rightarrow> (err + string) \<times> 'x) \<Rightarrow> ctx option \<Rightarrow>
    ('x, 'i) connector option \<Rightarrow> string \<Rightarrow> int64 \<Rightarrow> 'x \<Rightarrow>
    (('x, 'i, 'h) sftp_adapter \<times> ('x, 'i) remote) res \<times> 'x \<times> ctx option" where
  "sftp_newAdapter ops rand ctx dial root maxList w =
     (case (ctx, dial) of
        (None, _) \<Rightarrow> (Err (Sentinel ErrContextRequired), w, None)
      | (Some c, None) \<Rightarrow> (Err (New ''sftp: connector is required''), w, Some c)
      | (Some c, Some connect) \<Rightarrow>
          (case sftp_validateRoot root of
             Err e \<Rightarrow> (Err e, w, Some c)
           | Panic e \<Rightarrow> (Panic e, w, Some c)
           | Ok root \<Rightarrow>
               if sint maxList \<le> 0
               then (Err (New ''sftp: maximum list entries must be positive''), w, Some c)
               else map_prod id (map_prod id Some) (check_ctx c w (\<lambda>c.
                 case connect c w of
                   (Inl e, w1, c1) \<Rightarrow> (Err e, w1, c1)
                 | (Inr session, w1, c1) \<Rightarrow>
                     (case ctx_Err c1 of
                        (Some e, c2) \<Rightarrow> (Err e, snd (ss_Close ops session w1), c2)
                      | (None, c2) \<Rightarrow>
                          let atomicRename = ss_HasExtension ops session ''posix-rename@openssh.com'' w1 in
                          (bind_res (NewCapabilitySet (sftp_capability_list atomicRename)) (\<lambda>capabilities.
                             Ok (\<lparr>sa_ops = ops, sa_connector = connect, sa_random = rand,
                                  sa_root = root, sa_maxList = maxList,
                                  sa_atomicRename = atomicRename, sa_capabilities = capabilities\<rparr>,
                                 \<lparr>rm_session = Some session, rm_closed = False, rm_world = w1,
                                  rm_opened = [session], rm_released = []\<rparr>)), w1, c2))))))"

text \<open>\<^verbatim>\<open>Open\<close>: the checks of the configuration, then \<^verbatim>\<open>newAdapter\<close>.\<close>

definition sftp_check_config :: "'auth sftp_Config \<Rightarrow> string res" where
  "sftp_check_config config =
     (if blank (sc_Address config) then Err (New ''sftp: address is required'')
      else if blank (sc_User config) then Err (New ''sftp: user is required'')
      else if sc_Auth config = []
      then Err (New ''sftp: at least one authentication method is required'')
      else if list_ex isNilAuthMethod (sc_Auth config)
      then Err (New ''sftp: authentication methods must not be nil'')
      else if \<not> sc_HostKeyCallback config then Err (New ''sftp: host-key callback is required'')
      else bind_res (sftp_validateRoot (sc_Root config)) (\<lambda>root.
        if root \<noteq> ''/'' \<and> \<not> sc_AllowUnsafeSubroot config
        then Err (New ''sftp: subroot requires explicit unsafe opt-in and server-side isolation'')
        else if sc_Timeout config < 0 then Err (New ''sftp: timeout must not be negative'')
        else if sint (sc_MaxListEntries config) < 0
        then Err (New ''sftp: maximum list entries must be positive'')
        else Ok root))"

definition sftp_Open ::
  "('x, 'i, 'conn, 'client, 'auth) sftp_lib \<Rightarrow> ('x, 'i, 'h) sftp_session \<Rightarrow>
    ('x \<Rightarrow> (err + string) \<times> 'x) \<Rightarrow> ctx option \<Rightarrow> 'auth sftp_Config \<Rightarrow> 'x \<Rightarrow>
    (('x, 'i, 'h) sftp_adapter \<times> ('x, 'i) remote) res \<times> 'x \<times> ctx option" where
  "sftp_Open lib ops rand ctx config w =
     (case ctx of
        None \<Rightarrow> (Err (Sentinel ErrContextRequired), w, None)
      | Some c \<Rightarrow>
          (case ctx_Err c of
             (Some e, c1) \<Rightarrow> (Err e, w, Some c1)
           | (None, c1) \<Rightarrow>
               (case sftp_check_config config of
                  Err e \<Rightarrow> (Err e, w, Some c1)
                | Panic e \<Rightarrow> (Panic e, w, Some c1)
                | Ok root \<Rightarrow>
                    (case ctx_Err c1 of
                       (Some e, c2) \<Rightarrow> (Err e, w, Some c2)
                     | (None, c2) \<Rightarrow>
                         sftp_newAdapter ops rand (Some c2)
                           (Some (sftp_dial lib config (sftp_defaultTimeout (sc_Timeout config))))
                           root (sftp_defaultMaxList (sc_MaxListEntries config)) w))))"

section \<open>Sessions and paths\<close>

type_synonym ('x, 'i) sftp_state = "('x, 'i) remote"

definition sftp_Close ::
  "('x, 'i, 'h) sftp_adapter \<Rightarrow> ('x, 'i) sftp_state \<Rightarrow> err option \<times> ('x, 'i) sftp_state" where
  "sftp_Close a = close_session (ss_Close (sa_ops a))"

definition sftp_currentSession ::
  "('x, 'i, 'h) sftp_adapter \<Rightarrow> ('x, 'i) sftp_state \<Rightarrow> ctx \<Rightarrow> (err + 'i) \<times> ('x, 'i) sftp_state \<times> ctx" where
  "sftp_currentSession a = current_session (sa_connector a)"

definition sftp_invalidate ::
  "('x, 'i, 'h) sftp_adapter \<Rightarrow> 'i \<Rightarrow> ('x, 'i) sftp_state \<Rightarrow> ('x, 'i) sftp_state" where
  "sftp_invalidate a = invalidate_session (ss_Close (sa_ops a))"

definition sftp_withSession ::
  "('x, 'i, 'h) sftp_adapter \<Rightarrow> bool \<Rightarrow> ('i \<Rightarrow> 'x \<Rightarrow> ctx \<Rightarrow> (err + 'a) \<times> 'x \<times> ctx) \<Rightarrow>
    ('x, 'i) sftp_state \<Rightarrow> ctx \<Rightarrow> (err + 'a) \<times> ('x, 'i) sftp_state \<times> ctx" where
  "sftp_withSession a = with_session (sa_connector a) (ss_Close (sa_ops a)) sftp_isConnectionError"

definition sftp_remotePath :: "('x, 'i, 'h) sftp_adapter \<Rightarrow> path \<Rightarrow> string" where
  "sftp_remotePath a = remote_path (sa_root a)"

definition sftp_denied :: "string \<Rightarrow> err" where
  "sftp_denied name = Errorf ''sftp: symbolic link %q is denied'' [FStr name] []"

definition sftp_is_link :: "('x, 'i, 'h) sftp_session \<Rightarrow> 'i \<Rightarrow> string \<Rightarrow> ('x, bool) call" where
  "sftp_is_link ops i name w =
     (case ss_Lstat ops i name w of
        (Inl e, w1) \<Rightarrow> (Inl e, w1)
      | (Inr info, w1) \<Rightarrow> (Inr (fi_Type info = SymlinkFile), w1))"

definition sftp_rejectSymlinks ::
  "('x, 'i, 'h) sftp_adapter \<Rightarrow> 'i \<Rightarrow> path \<Rightarrow> bool \<Rightarrow> 'x \<Rightarrow> err option \<times> 'x" where
  "sftp_rejectSymlinks a i p includeFinal =
     reject_links (sftp_is_link (sa_ops a) i) sftp_isNotFound sftp_denied
       (link_candidates (sa_root a) p includeFinal)"

text \<open>A call on the server behind the check for symbolic links.\<close>

definition sftp_checked ::
  "('x, 'i, 'h) sftp_adapter \<Rightarrow> path \<Rightarrow> ('i \<Rightarrow> ('x, 'a) call) \<Rightarrow> 'i \<Rightarrow> 'x \<Rightarrow> ctx \<Rightarrow>
    (err + 'a) \<times> 'x \<times> ctx" where
  "sftp_checked a p f i w c =
     (case sftp_rejectSymlinks a i p True w of
        (Some e, w1) \<Rightarrow> (Inl e, w1, c)
      | (None, w1) \<Rightarrow> (case f i w1 of (x, w2) \<Rightarrow> (x, w2, c)))"

section \<open>Reading\<close>

definition sftp_open ::
  "('x, 'i, 'h) sftp_adapter \<Rightarrow> path \<Rightarrow> (('x, 'i) sftp_state, 'h) action" where
  "sftp_open a p r c =
     (case sftp_withSession a True
         (sftp_checked a p (\<lambda>i. ss_Open (sa_ops a) i (sftp_remotePath a p))) r c of
        (x, r1, c1) \<Rightarrow> (as_res (sftp_mapError p) x, r1, c1))"

definition sftp_stream :: "('x, 'i, 'h) sftp_adapter \<Rightarrow> 'h \<Rightarrow> reads \<Rightarrow> 'x \<Rightarrow> stream" where
  "sftp_stream a h rs w = \<lparr>st_reads = rs, st_close = fst (sf_Close (sa_ops a) h w)\<rparr>"

definition sftp_OpenStream ::
  "('x, 'i, 'h) sftp_adapter \<Rightarrow> path \<Rightarrow> (('x, 'i) sftp_state, stream) action" where
  "sftp_OpenStream a p r c =
     (case sftp_open a p r c of
        (x, r1, c1) \<Rightarrow>
          (bind_res x (\<lambda>h. Ok (sftp_stream a h (sf_Reads (sa_ops a) h (rm_world r1)) (rm_world r1))),
           r1, c1))"

definition sftp_validByteRange :: "ByteRange \<Rightarrow> bool" where
  "sftp_validByteRange br =
     (if sint (br_Offset br) < 0 \<or> sint (br_Length br) \<le> 0 then False
      else sint (br_Length br - 1) \<le> sint (0x7FFFFFFFFFFFFFFF - br_Offset br))"

definition sftp_open_at ::
  "('x, 'i, 'h) sftp_adapter \<Rightarrow> path \<Rightarrow> int64 \<Rightarrow> 'i \<Rightarrow> ('x, 'h) call" where
  "sftp_open_at a p offset i w =
     (case ss_Open (sa_ops a) i (sftp_remotePath a p) w of
        (Inl e, w1) \<Rightarrow> (Inl e, w1)
      | (Inr h, w1) \<Rightarrow>
          (case sf_Seek (sa_ops a) h offset w1 of
             (Some e, w2) \<Rightarrow> (Inl e, snd (sf_Close (sa_ops a) h w2))
           | (None, w2) \<Rightarrow> (Inr h, w2)))"

definition sftp_OpenRange ::
  "('x, 'i, 'h) sftp_adapter \<Rightarrow> path \<Rightarrow> ByteRange \<Rightarrow> (('x, 'i) sftp_state, stream) action" where
  "sftp_OpenRange a p br r c =
     (if \<not> sftp_validByteRange br
      then (Err (invalid_range ''%w: offset=%d length=%d'' (br_Offset br) (br_Length br)), r, c)
      else (case sftp_withSession a True (sftp_checked a p (sftp_open_at a p (br_Offset br))) r c of
        (Inl e, r1, c1) \<Rightarrow> (Err (sftp_mapError p e), r1, c1)
      | (Inr h, r1, c1) \<Rightarrow>
          (Ok (sftp_stream a h
             (limit_reads (nat (sint (br_Length br))) (sf_Reads (sa_ops a) h (rm_world r1)))
             (rm_world r1)), r1, c1)))"

definition sftp_Stat ::
  "('x, 'i, 'h) sftp_adapter \<Rightarrow> path \<Rightarrow> (('x, 'i) sftp_state, Metadata) action" where
  "sftp_Stat a p r c =
     (case sftp_withSession a True
         (sftp_checked a p (\<lambda>i. ss_Stat (sa_ops a) i (sftp_remotePath a p))) r c of
        (x, r1, c1) \<Rightarrow>
          (bind_res (as_res (sftp_mapError p) x) (\<lambda>info.
             Ok \<lparr>m_Path = p,
                 m_Kind = (if fi_Type info = DirectoryFile then EntryKindDirectory else EntryKindFile),
                 m_Size = fi_Size info, m_Modified = fi_ModTime info, m_ETag = [],
                 m_ContentType = [], m_UserMetadata = None, m_Visibility = VisibilityUnset\<rparr>), r1, c1))"

section \<open>Listing\<close>

definition sftp_info :: "FileInfo \<Rightarrow> remote_info" where
  "sftp_info info =
     \<lparr>ri_Name = fi_Name info, ri_Size = fi_Size info, ri_Modified = fi_ModTime info,
      ri_Directory = (fi_Type info = DirectoryFile), ri_Link = (fi_Type info = SymlinkFile)\<rparr>"

definition sftp_read_dir ::
  "('x, 'i, 'h) sftp_adapter \<Rightarrow> 'i \<Rightarrow> path \<Rightarrow> 'x \<Rightarrow> ctx \<Rightarrow> (err + remote_info list) \<times> 'x \<times> ctx" where
  "sftp_read_dir a i p w c =
     (case ss_ReadDirContext (sa_ops a) i (sftp_remotePath a p) w c of
        (x, w1, c1) \<Rightarrow> (map_sum id (map sftp_info) x, w1, c1))"

definition sftp_list ::
  "('x, 'i, 'h) sftp_adapter \<Rightarrow> path \<Rightarrow> bool \<Rightarrow> int64 \<Rightarrow> 'i \<Rightarrow> 'x \<Rightarrow> ctx \<Rightarrow>
    (err + Entry list) \<times> 'x \<times> ctx" where
  "sftp_list a directory recursive limit i w c =
     (case (if IsRoot directory then (None, w) else sftp_rejectSymlinks a i directory True w) of
        (Some e, w1) \<Rightarrow> (Inl e, w1, c)
      | (None, w1) \<Rightarrow>
          walk_remote (sftp_read_dir a i) sftp_denied recursive limit [directory] [] w1 c)"

definition sftp_effectiveListLimit :: "int64 \<Rightarrow> int64 \<Rightarrow> int64" where
  "sftp_effectiveListLimit = effective_limit"

definition sftp_List ::
  "('x, 'i, 'h) sftp_adapter \<Rightarrow> path \<Rightarrow> ListOptions \<Rightarrow> (('x, 'i) sftp_state, slice_iterator) action" where
  "sftp_List a directory opts r c =
     (if sint (lo_Limit opts) < 0 then (Err (New ''sftp: list limit must not be negative''), r, c)
      else (case sftp_withSession a True
          (sftp_list a directory (lo_Recursive opts)
             (sftp_effectiveListLimit (lo_Limit opts) (sa_maxList a))) r c of
        (x, r1, c1) \<Rightarrow>
          (bind_res (as_res (sftp_mapError directory) x) (\<lambda>entries. Ok (new_iterator entries)), r1, c1)))"

section \<open>Writing\<close>

text \<open>
  The part of \<^verbatim>\<open>Write\<close> that works on one session. Every failure after the temporary file was
  created removes it.
\<close>

definition sftp_fill ::
  "('x, 'i, 'h) sftp_session \<Rightarrow> 'i \<Rightarrow> 'h \<Rightarrow> string \<Rightarrow> nat \<Rightarrow> reads \<Rightarrow> 'x \<Rightarrow> ctx \<Rightarrow>
    err option \<times> 'x \<times> ctx" where
  "sftp_fill ops i h temporary polls source w c =
     (let cleanup = (\<lambda>w. snd (ss_Remove ops i temporary (snd (sf_Close ops h w)))) in
      case copy_into (sf_Write ops h) polls source w c of
        (Some e, w1, c1) \<Rightarrow> (Some e, cleanup w1, c1)
      | (None, w1, c1) \<Rightarrow>
          (case ctx_Err c1 of
             (Some e, c2) \<Rightarrow> (Some e, cleanup w1, c2)
           | (None, c2) \<Rightarrow>
               (case sf_Sync ops h w1 of
                  (e, w2) \<Rightarrow>
                    if e \<noteq> None \<and> \<not> sftp_isOperationUnsupported (the e) then (e, cleanup w2, c2)
                    else (case sf_Close ops h w2 of
                      (Some e, w3) \<Rightarrow> (Some e, snd (ss_Remove ops i temporary w3), c2)
                    | (None, w3) \<Rightarrow> (None, w3, c2)))))"

definition sftp_publish ::
  "('x, 'i, 'h) sftp_adapter \<Rightarrow> 'i \<Rightarrow> string \<Rightarrow> string \<Rightarrow> 'x \<Rightarrow> err option \<times> 'x" where
  "sftp_publish a i temporary destination w =
     (case (if sa_atomicRename a then ss_PosixRename (sa_ops a) i temporary destination w
            else ss_Rename (sa_ops a) i temporary destination w) of
        (Some e, w1) \<Rightarrow> (Some e, snd (ss_Remove (sa_ops a) i temporary w1))
      | (None, w1) \<Rightarrow> (None, w1))"

definition sftp_upload ::
  "('x, 'i, 'h) sftp_adapter \<Rightarrow> path \<Rightarrow> nat \<Rightarrow> reads \<Rightarrow> 'i \<Rightarrow> 'x \<Rightarrow> ctx \<Rightarrow> (err + unit) \<times> 'x \<times> ctx" where
  "sftp_upload a p polls source i w c =
     (let ops = sa_ops a; destination = sftp_remotePath a p; mapped = sftp_mapError p in
      case sftp_rejectSymlinks a i p False w of
        (Some e, w1) \<Rightarrow> (Inl (mapped e), w1, c)
      | (None, w1) \<Rightarrow>
          (case ss_Stat ops i destination w1 of
             (x, w2) \<Rightarrow>
               if (case x of Inr _ \<Rightarrow> \<not> sa_atomicRename a | Inl _ \<Rightarrow> False)
               then (Inl (Unsupported ''sftp'' CapabilityWrite OperationWrite), w2, c)
               else if (case x of Inl e \<Rightarrow> \<not> sftp_isNotFound e | Inr _ \<Rightarrow> False)
               then (Inl (mapped (projl x)), w2, c)
               else (case ss_MkdirAll ops i (path_Dir destination) w2 of
                 (Some e, w3) \<Rightarrow> (Inl (mapped e), w3, c)
               | (None, w3) \<Rightarrow>
                   (case temporary_path ''sftp'' (sa_random a) (path_Dir destination) w3 of
                      (Inl e, w4) \<Rightarrow> (Inl e, w4, c)
                    | (Inr temporary, w4) \<Rightarrow>
                        (case ss_OpenFile ops i temporary w4 of
                           (Inl e, w5) \<Rightarrow> (Inl (mapped e), w5, c)
                         | (Inr h, w5) \<Rightarrow>
                             (case sftp_fill ops i h temporary polls source w5 c of
                                (Some e, w6, c1) \<Rightarrow> (Inl e, w6, c1)
                              | (None, w6, c1) \<Rightarrow>
                                  (case sftp_publish a i temporary destination w6 of
                                     (Some e, w7) \<Rightarrow> (Inl (mapped e), w7, c1)
                                   | (None, w7) \<Rightarrow> (Inr (), w7, c1))))))))"

definition sftp_write ::
  "('x, 'i, 'h) sftp_adapter \<Rightarrow> path \<Rightarrow> nat \<Rightarrow> reads \<Rightarrow> WriteOptions \<Rightarrow>
    (('x, 'i) sftp_state, Metadata) action" where
  "sftp_write a p polls source opts r c =
     (if IsRoot p then (Err rootPathError, r, c)
      else if wo_IfNoneMatch opts
      then (Err (Unsupported ''sftp'' CapabilityWrite OperationWrite), r, c)
      else (case sftp_currentSession a r c of
        (Inl e, r1, c1) \<Rightarrow> (Err e, r1, c1)
      | (Inr i, r1, c1) \<Rightarrow>
          (case on_world (sftp_upload a p polls source i) r1 c1 of
             (Inl e, r2, c2) \<Rightarrow> (Err e, r2, c2)
           | (Inr _, r2, c2) \<Rightarrow> sftp_Stat a p r2 c2)))"

definition sftp_Write ::
  "('x, 'i, 'h) sftp_adapter \<Rightarrow> path \<Rightarrow> reads \<Rightarrow> WriteOptions \<Rightarrow>
    (('x, 'i) sftp_state, Metadata) action" where
  "sftp_Write a p source opts = sftp_write a p 1 source opts"

definition sftp_OpenWriter ::
  "('x, 'i, 'h) sftp_adapter \<Rightarrow> path \<Rightarrow> WriteOptions \<Rightarrow>
    (('x, 'i) sftp_state, ('x, 'i) sftp_state consumer) action" where
  "sftp_OpenWriter a p opts r c = check_ctx c r (\<lambda>c.
     if IsRoot p then (Err rootPathError, r, c)
     else (Ok (\<lambda>source r' c'. drop_result (sftp_Write a p source opts r' c')), r, c))"

definition sftp_Delete ::
  "('x, 'i, 'h) sftp_adapter \<Rightarrow> path \<Rightarrow> (('x, 'i) sftp_state, unit) action" where
  "sftp_Delete a p r c =
     (case sftp_currentSession a r c of
        (Inl e, r1, c1) \<Rightarrow> (Err e, r1, c1)
      | (Inr i, r1, c1) \<Rightarrow>
          on_world (\<lambda>w c.
            case sftp_rejectSymlinks a i p True w of
              (Some e, w1) \<Rightarrow> (Err (sftp_mapError p e), w1, c)
            | (None, w1) \<Rightarrow>
                (case ss_Remove (sa_ops a) i (sftp_remotePath a p) w1 of
                   (e, w2) \<Rightarrow> (unit_res (sftp_mapError p) e, w2, c))) r1 c1)"

definition sftp_Copy ::
  "('x, 'i, 'h) sftp_adapter \<Rightarrow> path \<Rightarrow> path \<Rightarrow> CopyOptions \<Rightarrow> (('x, 'i) sftp_state, unit) action" where
  "sftp_Copy a source destination opts r c =
     (if \<not> co_Overwrite opts then (Err (Unsupported ''sftp'' CapabilityCopy OperationCopy), r, c)
      else (case sftp_open a source r c of
        (Err e, r1, c1) \<Rightarrow> (Err e, r1, c1)
      | (Panic e, r1, c1) \<Rightarrow> (Panic e, r1, c1)
      | (Ok h, r1, c1) \<Rightarrow>
          (case sftp_write a destination 2 (sf_Reads (sa_ops a) h (rm_world r1))
              \<lparr>wo_ContentType = [], wo_Metadata = None, wo_Visibility = VisibilityUnset,
               wo_IfNoneMatch = False\<rparr> r1 c1 of
             (x, r2, c2) \<Rightarrow>
               (bind_res x (\<lambda>_. Ok ()),
                r2\<lparr>rm_world := snd (sf_Close (sa_ops a) h (rm_world r2))\<rparr>, c2))))"

definition sftp_Move ::
  "('x, 'i, 'h) sftp_adapter \<Rightarrow> path \<Rightarrow> path \<Rightarrow> MoveOptions \<Rightarrow> (('x, 'i) sftp_state, unit) action" where
  "sftp_Move a source destination opts r c =
     (if \<not> sa_atomicRename a \<or> \<not> mo_Overwrite opts
      then (Err (Unsupported ''sftp'' CapabilityMove OperationMove), r, c)
      else (case sftp_currentSession a r c of
        (Inl e, r1, c1) \<Rightarrow> (Err e, r1, c1)
      | (Inr i, r1, c1) \<Rightarrow>
          on_world (\<lambda>w c.
            case sftp_rejectSymlinks a i source True w of
              (Some e, w1) \<Rightarrow> (Err (sftp_mapError source e), w1, c)
            | (None, w1) \<Rightarrow>
                (case sftp_rejectSymlinks a i destination False w1 of
                   (Some e, w2) \<Rightarrow> (Err (sftp_mapError destination e), w2, c)
                 | (None, w2) \<Rightarrow>
                     (case ss_MkdirAll (sa_ops a) i (path_Dir (sftp_remotePath a destination)) w2 of
                        (Some e, w3) \<Rightarrow> (Err e, w3, c)
                      | (None, w3) \<Rightarrow>
                          (case ss_PosixRename (sa_ops a) i (sftp_remotePath a source)
                              (sftp_remotePath a destination) w3 of
                             (e, w4) \<Rightarrow> (unit_res (sftp_mapError source) e, w4, c))))) r1 c1))"

section \<open>The other operations\<close>

definition sftp_SetMetadata ::
  "('x, 'i, 'h) sftp_adapter \<Rightarrow> path \<Rightarrow> usermeta \<Rightarrow> (('x, 'i) sftp_state, unit) action" where
  "sftp_SetMetadata a p md r c =
     (Err (Unsupported ''sftp'' CapabilityMetadata OperationSetMetadata), r, c)"

definition sftp_TemporaryURL ::
  "('x, 'i, 'h) sftp_adapter \<Rightarrow> path \<Rightarrow> int \<Rightarrow> TemporaryURLOptions \<Rightarrow> (('x, 'i) sftp_state, string) action" where
  "sftp_TemporaryURL a p lifetime opts r c =
     (Err (Unsupported ''sftp'' CapabilityTemporaryURL OperationTemporaryURL), r, c)"

definition sftp_Visibility ::
  "('x, 'i, 'h) sftp_adapter \<Rightarrow> path \<Rightarrow> (('x, 'i) sftp_state, Visibility) action" where
  "sftp_Visibility a p r c =
     (Err (Unsupported ''sftp'' CapabilityVisibility OperationVisibility), r, c)"

definition sftp_SetVisibility ::
  "('x, 'i, 'h) sftp_adapter \<Rightarrow> path \<Rightarrow> Visibility \<Rightarrow> (('x, 'i) sftp_state, unit) action" where
  "sftp_SetVisibility a p v r c =
     (Err (Unsupported ''sftp'' CapabilityVisibility OperationSetVisibility), r, c)"

definition sftp_Checksum ::
  "('x, 'i, 'h) sftp_adapter \<Rightarrow> path \<Rightarrow> ChecksumAlgorithm \<Rightarrow> (('x, 'i) sftp_state, Checksum) action" where
  "sftp_Checksum a p algorithm r c =
     (case sftp_open a p r c of
        (Err e, r1, c1) \<Rightarrow> (Err e, r1, c1)
      | (Panic e, r1, c1) \<Rightarrow> (Panic e, r1, c1)
      | (Ok h, r1, c1) \<Rightarrow>
          let closed = r1\<lparr>rm_world := snd (sf_Close (sa_ops a) h (rm_world r1))\<rparr> in
          (case algorithm of
             ChecksumNamed _ \<Rightarrow>
               (Err (Unsupported ''sftp'' CapabilityChecksum OperationChecksum), closed, c1)
           | _ \<Rightarrow>
               (case context_copy c1 (sf_Reads (sa_ops a) h (rm_world r1)) of
                  ((content, Some e), c2) \<Rightarrow> (Err e, closed, c2)
                | ((content, None), c2) \<Rightarrow>
                    (Ok \<lparr>ck_Algorithm = algorithm,
                         ck_Value = the (checksum_text algorithm (bytes_of content))\<rparr>, closed, c2))))"

definition sftp_Capabilities :: "('x, 'i, 'h) sftp_adapter \<Rightarrow> CapabilitySet" where
  "sftp_Capabilities a = sa_capabilities a"

text \<open>\<^verbatim>\<open>realSession.Close\<close> joins the errors of the two layers.\<close>

definition realSession_Close :: "err option \<Rightarrow> err option \<Rightarrow> err option" where
  "realSession_Close sftpErr sshErr =
     errors_Join [sftpErr, if opt_is sshErr NetErrClosed then None else sshErr]"

end
