(* ===== verification/Ftp_Adapter.thy ===== *)
theory Ftp_Adapter
  imports Remote_Session
begin

text \<open>
  The FTP adapter: \<^verbatim>\<open>src/ftp/ftp.go\<close>. The interface \<^verbatim>\<open>remoteSession\<close> is a record of calls
  over sessions \<open>'i\<close> and a world \<open>'x\<close>; \<^verbatim>\<open>realSession\<close> implements it on the interface
  \<^verbatim>\<open>protocolClient\<close> of the protocol package, which is a parameter.

  The lock \<^verbatim>\<open>opMu\<close> is held by one operation at a time, and by a read stream until its
  transfer has ended, so an operation and a transfer are one step each on the state. The
  transfer of \<^verbatim>\<open>Open\<close> is modelled for a client that reads its stream to the end.
\<close>

section \<open>Interfaces and configuration\<close>

type_synonym TLSMode = "8 word"
type_synonym DataMode = "8 word"

definition TLSExplicit :: TLSMode where
  "TLSExplicit = 0"

definition TLSImplicit :: TLSMode where
  "TLSImplicit = 1"

definition TLSPlaintext :: TLSMode where
  "TLSPlaintext = 2"

definition Passive :: DataMode where
  "Passive = 0"

definition Active :: DataMode where
  "Active = 1"

record tls_Config =
  tls_InsecureSkipVerify :: bool
  tls_MinVersion :: "16 word"

record ftp_Config =
  fc_Address :: string
  fc_Username :: string
  fc_Password :: string
  fc_Root :: string
  fc_AllowUnsafeSubroot :: bool
  fc_TLSMode :: TLSMode
  fc_TLSConfig :: "tls_Config option"
  fc_AllowPlaintext :: bool
  fc_DataMode :: DataMode
  fc_DisableEPSV :: bool
  fc_Timeout :: int
  fc_MaxListEntries :: int64

record ftp_Profile =
  fpr_TLSMode :: TLSMode
  fpr_DataMode :: DataMode
  fpr_MachineListings :: bool

text \<open>
  \<^verbatim>\<open>Retrieve\<close> gives the chunks that it writes to its destination and its error; \<^verbatim>\<open>Store\<close> reads
  its source through a \<^verbatim>\<open>contextReader\<close>.
\<close>

record ('x, 'i) ftp_session =
  fp_Retrieve :: "'i \<Rightarrow> string \<Rightarrow> 'x \<Rightarrow> (string list \<times> err option) \<times> 'x"
  fp_Store :: "'i \<Rightarrow> string \<Rightarrow> reads \<Rightarrow> 'x \<Rightarrow> ctx \<Rightarrow> err option \<times> 'x \<times> ctx"
  fp_Stat :: "'i \<Rightarrow> string \<Rightarrow> ('x, remote_info) call"
  fp_List :: "'i \<Rightarrow> string \<Rightarrow> ('x, remote_info list) call"
  fp_MakeDir :: "'i \<Rightarrow> string \<Rightarrow> 'x \<Rightarrow> err option \<times> 'x"
  fp_Delete :: "'i \<Rightarrow> string \<Rightarrow> 'x \<Rightarrow> err option \<times> 'x"
  fp_Rename :: "'i \<Rightarrow> string \<Rightarrow> string \<Rightarrow> 'x \<Rightarrow> err option \<times> 'x"
  fp_Abort :: "'i \<Rightarrow> 'x \<Rightarrow> err option \<times> 'x"
  fp_Quit :: "'i \<Rightarrow> 'x \<Rightarrow> err option \<times> 'x"
  fp_MachineListings :: "'i \<Rightarrow> bool"

record ('x, 'i) ftp_adapter =
  fa_ops :: "('x, 'i) ftp_session"
  fa_connector :: "('x, 'i) connector"
  fa_random :: "'x \<Rightarrow> (err + string) \<times> 'x"
  fa_root :: string
  fa_maxList :: int64
  fa_capabilities :: CapabilitySet
  fa_profile :: ftp_Profile

section \<open>Classification of errors\<close>

definition errFileUnavailable :: err where
  "errFileUnavailable = Sentinel (Package_error ''ftp: remote path unavailable'')"

definition ftp_isConnectionError :: "err \<Rightarrow> bool" where
  "ftp_isConnectionError e =
     (errors_is e IoEOF \<or> errors_is e IoErrUnexpectedEOF \<or> errors_is e NetErrClosed \<or>
      is_net_error e \<or> error_code e \<in> {Some ''421'', Some ''425'', Some ''426''})"

definition ftp_isNotFound :: "err \<Rightarrow> bool" where
  "ftp_isNotFound e =
     (errors_is e (Package_error ''ftp: remote path unavailable'') \<or> error_code e = Some ''550'')"

definition ftp_mapError :: "path \<Rightarrow> err \<Rightarrow> err" where
  "ftp_mapError p e =
     (if ftp_isNotFound e
      then Errorf ''%w: %s'' [FStr (Path_String p)] [Sentinel ErrNotFound] else e)"

section \<open>The session on the protocol client\<close>

record MLEntry =
  ml_Name :: string
  ml_Type :: string
  ml_Size :: int64
  ml_ModTime :: time

record ftp_Entry =
  fe_Name :: string
  fe_Type :: string
  fe_Size :: int64

record ('x, 'cl) protocolClient =
  pc_Retrieve :: "'cl \<Rightarrow> string \<Rightarrow> 'x \<Rightarrow> (string list \<times> err option) \<times> 'x"
  pc_Store :: "'cl \<Rightarrow> string \<Rightarrow> reads \<Rightarrow> 'x \<Rightarrow> ctx \<Rightarrow> err option \<times> 'x \<times> ctx"
  pc_MLStat :: "'cl \<Rightarrow> string \<Rightarrow> ('x, MLEntry) call"
  pc_List :: "'cl \<Rightarrow> string \<Rightarrow> ('x, ftp_Entry list) call"
  pc_ModTime :: "'cl \<Rightarrow> string \<Rightarrow> ('x, time) call"
  pc_MLList :: "'cl \<Rightarrow> string \<Rightarrow> ('x, MLEntry list) call"
  pc_MakeDir :: "'cl \<Rightarrow> string \<Rightarrow> 'x \<Rightarrow> err option \<times> 'x"
  pc_Delete :: "'cl \<Rightarrow> string \<Rightarrow> 'x \<Rightarrow> err option \<times> 'x"
  pc_Rename :: "'cl \<Rightarrow> string \<Rightarrow> string \<Rightarrow> 'x \<Rightarrow> err option \<times> 'x"
  pc_Abort :: "'cl \<Rightarrow> 'x \<Rightarrow> err option \<times> 'x"
  pc_Quit :: "'cl \<Rightarrow> 'x \<Rightarrow> err option \<times> 'x"

definition machineEntry :: "MLEntry \<Rightarrow> remote_info" where
  "machineEntry entry =
     \<lparr>ri_Name = ml_Name entry, ri_Size = ml_Size entry, ri_Modified = ml_ModTime entry,
      ri_Directory = (ml_Type entry = ''dir'' \<or> ml_Type entry = ''cdir'' \<or> ml_Type entry = ''pdir''),
      ri_Link = (ml_Type entry = ''link'')\<rparr>"

definition machineListEntries :: "MLEntry list \<Rightarrow> remote_info list" where
  "machineListEntries entries =
     map machineEntry (filter (\<lambda>entry. \<not> (ml_Type entry = ''cdir'' \<or> ml_Type entry = ''pdir'')) entries)"

definition listEntry :: "ftp_Entry \<Rightarrow> time \<Rightarrow> remote_info" where
  "listEntry entry modified =
     \<lparr>ri_Name = fe_Name entry, ri_Size = fe_Size entry, ri_Modified = modified,
      ri_Directory = (fe_Type entry = ''dir''), ri_Link = (fe_Type entry = ''link'')\<rparr>"

text \<open>A session is the client with its flag \<^verbatim>\<open>machineListings\<close>; a failing \<^verbatim>\<open>ModTime\<close> gives the zero time.\<close>

definition stat_by_listing ::
  "('x, 'cl) protocolClient \<Rightarrow> 'cl \<Rightarrow> string \<Rightarrow> ('x, remote_info) call" where
  "stat_by_listing pc client name w =
     (case pc_List pc client (path_Dir name) w of
        (Inl e, w1) \<Rightarrow> (Inl e, w1)
      | (Inr entries, w1) \<Rightarrow>
          (case find (\<lambda>entry. fe_Name entry = path_Base name) entries of
             None \<Rightarrow> (Inl errFileUnavailable, w1)
           | Some entry \<Rightarrow>
               (case pc_ModTime pc client name w1 of
                  (Inr modified, w2) \<Rightarrow> (Inr (listEntry entry modified), w2)
                | (Inl _, w2) \<Rightarrow> (Inr (listEntry entry 0), w2))))"

definition real_Stat ::
  "('x, 'cl) protocolClient \<Rightarrow> 'cl \<times> bool \<Rightarrow> string \<Rightarrow> ('x, remote_info) call" where
  "real_Stat pc session name w =
     (case session of (client, machineListings) \<Rightarrow>
       if machineListings
       then (case pc_MLStat pc client name w of
           (Inr entry, w1) \<Rightarrow> (Inr (machineEntry entry), w1)
         | (Inl e, w1) \<Rightarrow>
             if ftp_isNotFound e then (Inl e, w1) else stat_by_listing pc client name w1)
       else stat_by_listing pc client name w)"

definition real_List ::
  "('x, 'cl) protocolClient \<Rightarrow> 'cl \<times> bool \<Rightarrow> string \<Rightarrow> ('x, remote_info list) call" where
  "real_List pc session name w =
     (case session of (client, machineListings) \<Rightarrow>
       let legacy = (\<lambda>w. case pc_List pc client name w of
             (Inl e, w1) \<Rightarrow> (Inl e, w1)
           | (Inr entries, w1) \<Rightarrow> (Inr (map (\<lambda>entry. listEntry entry 0) entries), w1))
       in if machineListings
          then (case pc_MLList pc client name w of
              (Inr entries, w1) \<Rightarrow> (Inr (machineListEntries entries), w1)
            | (Inl _, w1) \<Rightarrow> legacy w1)
          else legacy w)"

definition realSession :: "('x, 'cl) protocolClient \<Rightarrow> ('x, 'cl \<times> bool) ftp_session" where
  "realSession pc =
     \<lparr>fp_Retrieve = \<lambda>s. pc_Retrieve pc (fst s), fp_Store = \<lambda>s. pc_Store pc (fst s),
      fp_Stat = real_Stat pc, fp_List = real_List pc, fp_MakeDir = \<lambda>s. pc_MakeDir pc (fst s),
      fp_Delete = \<lambda>s. pc_Delete pc (fst s), fp_Rename = \<lambda>s. pc_Rename pc (fst s),
      fp_Abort = \<lambda>s. pc_Abort pc (fst s), fp_Quit = \<lambda>s. pc_Quit pc (fst s),
      fp_MachineListings = snd\<rparr>"

section \<open>Construction\<close>

datatype protocol_option = WithTimeout int | WithActiveMode | WithDisableEPSV

record ('x, 'cl) ftp_lib =
  fl_client :: "('x, 'cl) protocolClient"
  fl_Dial :: "string \<Rightarrow> protocol_option list \<Rightarrow> ('x, 'cl) call"
  fl_Login :: "'cl \<Rightarrow> string \<Rightarrow> string \<Rightarrow> 'x \<Rightarrow> err option \<times> 'x"
  fl_Features :: "'cl \<Rightarrow> ('x, string list) call" \<comment> \<open>the keys of the map\<close>

definition supportsMachineListings :: "string list \<Rightarrow> bool" where
  "supportsMachineListings features = (''MLST'' \<in> set features \<or> ''MLSD'' \<in> set features)"

text \<open>The goroutine of \<^verbatim>\<open>connect\<close>.\<close>

definition acquire ::
  "('x, 'cl) ftp_lib \<Rightarrow> string \<Rightarrow> string \<Rightarrow> string \<Rightarrow> protocol_option list \<Rightarrow> ('x, 'cl \<times> bool) call" where
  "acquire lib address username password options w =
     (case fl_Dial lib address options w of
        (Inl e, w1) \<Rightarrow> (Inl (Errorf ''ftp: connect: %w'' [] [e]), w1)
      | (Inr client, w1) \<Rightarrow>
          (case fl_Login lib client username password w1 of
             (Some e, w2) \<Rightarrow>
               (Inl (Errorf ''ftp: authenticate: %w'' [] [e]), snd (pc_Quit (fl_client lib) client w2))
           | (None, w2) \<Rightarrow>
               (case fl_Features lib client w2 of
                  (x, w3) \<Rightarrow>
                    (Inr (client, case x of Inr features \<Rightarrow> supportsMachineListings features
                                          | Inl _ \<Rightarrow> False), w3))))"

text \<open>
  \<^verbatim>\<open>connect\<close>: a context that is done when the acquisition ends wins over it, and the late
  session is closed.
\<close>

definition connect ::
  "('x, 'cl) ftp_lib \<Rightarrow> string \<Rightarrow> string \<Rightarrow> string \<Rightarrow> protocol_option list \<Rightarrow>
    ('x, 'cl \<times> bool) connector" where
  "connect lib address username password options c w =
     (case acquire lib address username password options w of
        (x, w1) \<Rightarrow>
          (case ctx_Err c of
             (None, c1) \<Rightarrow> (x, w1, c1)
           | (Some e, c1) \<Rightarrow>
               (Inl e, case x of Inl _ \<Rightarrow> w1 | Inr session \<Rightarrow> snd (pc_Quit (fl_client lib) (fst session) w1),
                c1)))"

definition invalidTLSMinimum :: "16 word \<Rightarrow> bool" where
  "invalidTLSMinimum version = (version \<noteq> 0 \<and> version < 0x0303)"

definition ftp_validateRoot :: "string \<Rightarrow> string res" where
  "ftp_validateRoot = validate_root ''ftp''"

definition ftp_defaultTimeout :: "int \<Rightarrow> int" where
  "ftp_defaultTimeout = default_timeout"

definition ftp_defaultMaxList :: "int64 \<Rightarrow> int64" where
  "ftp_defaultMaxList = default_max_list"

definition ftp_capability_list :: "capability list" where
  "ftp_capability_list =
     [CapabilityRead, CapabilityWrite, CapabilityStreamingWrite, CapabilityDelete, CapabilityList,
      CapabilityStat]"

definition ftp_newAdapter ::
  "('x, 'i) ftp_session \<Rightarrow> ('x \<Rightarrow> (err + string) \<times> 'x) \<Rightarrow> ctx option \<Rightarrow> ('x, 'i) connector option \<Rightarrow>
    string \<Rightarrow> int64 \<Rightarrow> ftp_Profile \<Rightarrow> 'x \<Rightarrow>
    (('x, 'i) ftp_adapter \<times> ('x, 'i) remote) res \<times> 'x \<times> ctx option" where
  "ftp_newAdapter ops rand ctx dial root maxList profile w =
     (case (ctx, dial) of
        (None, _) \<Rightarrow> (Err (Sentinel ErrContextRequired), w, None)
      | (Some c, None) \<Rightarrow> (Err (New ''ftp: connector is required''), w, Some c)
      | (Some c, Some connector) \<Rightarrow>
          (case ftp_validateRoot root of
             Err e \<Rightarrow> (Err e, w, Some c)
           | Panic e \<Rightarrow> (Panic e, w, Some c)
           | Ok root \<Rightarrow>
               if sint maxList \<le> 0
               then (Err (New ''ftp: maximum list entries must be positive''), w, Some c)
               else map_prod id (map_prod id Some) (check_ctx c w (\<lambda>c.
                 case connector c w of
                   (Inl e, w1, c1) \<Rightarrow> (Err e, w1, c1)
                 | (Inr session, w1, c1) \<Rightarrow>
                     (case ctx_Err c1 of
                        (Some e, c2) \<Rightarrow> (Err e, snd (fp_Quit ops session w1), c2)
                      | (None, c2) \<Rightarrow>
                          (bind_res (NewCapabilitySet ftp_capability_list) (\<lambda>capabilities.
                             Ok (\<lparr>fa_ops = ops, fa_connector = connector, fa_random = rand,
                                  fa_root = root, fa_maxList = maxList,
                                  fa_capabilities = capabilities,
                                  fa_profile = profile\<lparr>fpr_MachineListings :=
                                    fpr_MachineListings profile \<or> fp_MachineListings ops session\<rparr>\<rparr>,
                                 \<lparr>rm_session = Some session, rm_closed = False, rm_world = w1,
                                  rm_opened = [session], rm_released = []\<rparr>)), w1, c2))))))"

definition ftp_check_config :: "ftp_Config \<Rightarrow> string res" where
  "ftp_check_config config =
     (if blank (fc_Address config) then Err (New ''ftp: address is required'')
      else if blank (fc_Username config) then Err (New ''ftp: username is required'')
      else if fc_Password config = [] then Err (New ''ftp: password is required'')
      else if fc_TLSMode config > TLSPlaintext
      then Err (Errorf ''ftp: invalid TLS mode %d'' [FInt (uint (fc_TLSMode config))] [])
      else if fc_DataMode config > Active
      then Err (Errorf ''ftp: invalid data mode %d'' [FInt (uint (fc_DataMode config))] [])
      else if fc_TLSMode config = TLSPlaintext \<and> \<not> fc_AllowPlaintext config
      then Err (New ''ftp: plaintext credentials require explicit opt-in'')
      else if fc_TLSMode config \<noteq> TLSPlaintext
      then (case fc_TLSConfig config of
          None \<Rightarrow> Err (New ''ftp: TLS configuration is required'')
        | Some tls \<Rightarrow>
            if tls_InsecureSkipVerify tls
            then Err (New ''ftp: TLS certificate verification must be enabled'')
            else if invalidTLSMinimum (tls_MinVersion tls)
            then Err (New ''ftp: minimum TLS version must be TLS 1.2 or newer'')
            else Err (New ''ftp: TLS data transfers are not supported by the pinned protocol client''))
      else bind_res (ftp_validateRoot (fc_Root config)) (\<lambda>root.
        if root \<noteq> ''/'' \<and> \<not> fc_AllowUnsafeSubroot config
        then Err (New ''ftp: subroot requires explicit unsafe opt-in and server-side isolation'')
        else if fc_Timeout config < 0 then Err (New ''ftp: timeout must not be negative'')
        else if sint (fc_MaxListEntries config) < 0
        then Err (New ''ftp: maximum list entries must be positive'')
        else Ok root))"

definition ftp_options :: "ftp_Config \<Rightarrow> protocol_option list" where
  "ftp_options config =
     [WithTimeout (ftp_defaultTimeout (fc_Timeout config))] @
     (if fc_DataMode config = Active then [WithActiveMode] else []) @
     (if fc_DisableEPSV config then [WithDisableEPSV] else [])"

definition ftp_Open ::
  "('x, 'cl) ftp_lib \<Rightarrow> ('x \<Rightarrow> (err + string) \<times> 'x) \<Rightarrow> ctx option \<Rightarrow> ftp_Config \<Rightarrow> 'x \<Rightarrow>
    (('x, 'cl \<times> bool) ftp_adapter \<times> ('x, 'cl \<times> bool) remote) res \<times> 'x \<times> ctx option" where
  "ftp_Open lib rand ctx config w =
     (case ctx of
        None \<Rightarrow> (Err (Sentinel ErrContextRequired), w, None)
      | Some c \<Rightarrow>
          (case ctx_Err c of
             (Some e, c1) \<Rightarrow> (Err e, w, Some c1)
           | (None, c1) \<Rightarrow>
               (case ftp_check_config config of
                  Err e \<Rightarrow> (Err e, w, Some c1)
                | Panic e \<Rightarrow> (Panic e, w, Some c1)
                | Ok root \<Rightarrow>
                    (case ctx_Err c1 of
                       (Some e, c2) \<Rightarrow> (Err e, w, Some c2)
                     | (None, c2) \<Rightarrow>
                         ftp_newAdapter (realSession (fl_client lib)) rand (Some c2)
                           (Some (connect lib (fc_Address config) (fc_Username config)
                              (fc_Password config) (ftp_options config)))
                           root (ftp_defaultMaxList (fc_MaxListEntries config))
                           \<lparr>fpr_TLSMode = fc_TLSMode config, fpr_DataMode = fc_DataMode config,
                            fpr_MachineListings = False\<rparr> w))))"

definition ftp_Profile_of :: "('x, 'i) ftp_adapter \<Rightarrow> ftp_Profile" where
  "ftp_Profile_of a = fa_profile a"

definition ftp_Capabilities :: "('x, 'i) ftp_adapter \<Rightarrow> CapabilitySet" where
  "ftp_Capabilities a = fa_capabilities a"

section \<open>Sessions and paths\<close>

type_synonym ('x, 'i) ftp_state = "('x, 'i) remote"

definition ftp_abortTransfer :: "('x, 'i) ftp_adapter \<Rightarrow> ('x, 'i) ftp_state \<Rightarrow> ('x, 'i) ftp_state" where
  "ftp_abortTransfer a r =
     (case rm_session r of
        None \<Rightarrow> r
      | Some i \<Rightarrow> r\<lparr>rm_world := snd (fp_Abort (fa_ops a) i (rm_world r))\<rparr>)"

definition ftp_Close :: "('x, 'i) ftp_adapter \<Rightarrow> ('x, 'i) ftp_state \<Rightarrow> err option \<times> ('x, 'i) ftp_state" where
  "ftp_Close a r = close_session (fp_Quit (fa_ops a)) (ftp_abortTransfer a r)"

definition ftp_currentSession ::
  "('x, 'i) ftp_adapter \<Rightarrow> ('x, 'i) ftp_state \<Rightarrow> ctx \<Rightarrow> (err + 'i) \<times> ('x, 'i) ftp_state \<times> ctx" where
  "ftp_currentSession a = current_session (fa_connector a)"

definition ftp_invalidate ::
  "('x, 'i) ftp_adapter \<Rightarrow> 'i \<Rightarrow> ('x, 'i) ftp_state \<Rightarrow> ('x, 'i) ftp_state" where
  "ftp_invalidate a = invalidate_session (fp_Quit (fa_ops a))"

definition ftp_withLockedResult ::
  "('x, 'i) ftp_adapter \<Rightarrow> bool \<Rightarrow> ('i \<Rightarrow> 'x \<Rightarrow> ctx \<Rightarrow> (err + 'a) \<times> 'x \<times> ctx) \<Rightarrow>
    ('x, 'i) ftp_state \<Rightarrow> ctx \<Rightarrow> (err + 'a) \<times> ('x, 'i) ftp_state \<times> ctx" where
  "ftp_withLockedResult a = with_session (fa_connector a) (fp_Quit (fa_ops a)) ftp_isConnectionError"

definition ftp_remotePath :: "('x, 'i) ftp_adapter \<Rightarrow> path \<Rightarrow> string" where
  "ftp_remotePath a = remote_path (fa_root a)"

definition ftp_denied :: "string \<Rightarrow> err" where
  "ftp_denied name = Errorf ''ftp: symbolic link %q is denied'' [FStr name] []"

definition ftp_is_link :: "('x, 'i) ftp_session \<Rightarrow> 'i \<Rightarrow> string \<Rightarrow> ('x, bool) call" where
  "ftp_is_link ops i name w =
     (case fp_Stat ops i name w of
        (Inl e, w1) \<Rightarrow> (Inl e, w1)
      | (Inr entry, w1) \<Rightarrow> (Inr (ri_Link entry), w1))"

definition ftp_rejectLink ::
  "('x, 'i) ftp_adapter \<Rightarrow> 'i \<Rightarrow> path \<Rightarrow> bool \<Rightarrow> 'x \<Rightarrow> err option \<times> 'x" where
  "ftp_rejectLink a i p includeFinal =
     reject_links (ftp_is_link (fa_ops a) i) ftp_isNotFound ftp_denied
       (link_candidates (fa_root a) p includeFinal)"

definition ftp_checked ::
  "('x, 'i) ftp_adapter \<Rightarrow> path \<Rightarrow> ('i \<Rightarrow> ('x, 'a) call) \<Rightarrow> 'i \<Rightarrow> 'x \<Rightarrow> ctx \<Rightarrow>
    (err + 'a) \<times> 'x \<times> ctx" where
  "ftp_checked a p f i w c =
     (case ftp_rejectLink a i p True w of
        (Some e, w1) \<Rightarrow> (Inl e, w1, c)
      | (None, w1) \<Rightarrow> (case f i w1 of (x, w2) \<Rightarrow> (x, w2, c)))"

text \<open>\<^verbatim>\<open>makeDirectories\<close>: a directory that cannot be made has to exist.\<close>

fun make_each :: "('x, 'i) ftp_session \<Rightarrow> 'i \<Rightarrow> string \<Rightarrow> string list \<Rightarrow> 'x \<Rightarrow> err option \<times> 'x" where
  "make_each ops i current [] w = (None, w)"
| "make_each ops i current (segment # segs) w =
     (let current = path_Join [current, segment] in
      case fp_MakeDir ops i current w of
        (None, w1) \<Rightarrow> make_each ops i current segs w1
      | (Some e, w1) \<Rightarrow>
          (case fp_Stat ops i current w1 of
             (Inr entry, w2) \<Rightarrow>
               if ri_Directory entry then make_each ops i current segs w2 else (Some e, w2)
           | (Inl _, w2) \<Rightarrow> (Some e, w2)))"

definition ftp_makeDirectories ::
  "('x, 'i) ftp_adapter \<Rightarrow> 'i \<Rightarrow> string \<Rightarrow> 'x \<Rightarrow> err option \<times> 'x" where
  "ftp_makeDirectories a i directory w =
     (if directory = ''/'' \<or> directory = ''.'' then (None, w)
      else make_each (fa_ops a) i ''/'' (split_on slash (TrimPrefix directory ''/'')) w)"

section \<open>Reading\<close>

text \<open>\<^verbatim>\<open>prepareOpen\<close> gives the session it succeeded on and the entry.\<close>

definition ftp_prepareOpen ::
  "('x, 'i) ftp_adapter \<Rightarrow> path \<Rightarrow> 'i \<Rightarrow> ('x, 'i) ftp_state \<Rightarrow> ctx \<Rightarrow>
    (err + 'i \<times> remote_info) \<times> ('x, 'i) ftp_state \<times> ctx" where
  "ftp_prepareOpen a p =
     retry_on (fa_connector a) (fp_Quit (fa_ops a)) ftp_isConnectionError True
       (ftp_checked a p (\<lambda>i w.
          case fp_Stat (fa_ops a) i (ftp_remotePath a p) w of
            (x, w1) \<Rightarrow> (map_sum id (Pair i) x, w1)))"

text \<open>
  \<^verbatim>\<open>transfer\<close>: the chunks that reach the pipe and the error it is closed with. A transfer that
  lost its connection before it delivered a byte is made once more.
\<close>

definition ftp_retrieve ::
  "('x, 'i) ftp_adapter \<Rightarrow> 'i \<Rightarrow> path \<Rightarrow> ('x, 'i) ftp_state \<Rightarrow>
    (string list \<times> err option) \<times> ('x, 'i) ftp_state" where
  "ftp_retrieve a i p r =
     (case fp_Retrieve (fa_ops a) i (ftp_remotePath a p) (rm_world r) of
        (x, w) \<Rightarrow> (x, r\<lparr>rm_world := w\<rparr>))"

definition wrote_any :: "string list \<Rightarrow> bool" where
  "wrote_any chunks = list_ex (\<lambda>chunk. chunk \<noteq> []) chunks"

definition ftp_replay ::
  "('x, 'i) ftp_adapter \<Rightarrow> 'i \<Rightarrow> path \<Rightarrow> string list \<Rightarrow> err \<Rightarrow> ('x, 'i) ftp_state \<Rightarrow> ctx \<Rightarrow>
    (string list \<times> err option) \<times> ('x, 'i) ftp_state \<times> ctx" where
  "ftp_replay a i p chunks e r c =
     (case ctx_Err c of
        (Some _, c1) \<Rightarrow> ((chunks, Some e), r, c1)
      | (None, c1) \<Rightarrow>
          (case ftp_currentSession a (ftp_invalidate a i r) c1 of
             (Inl e', r2, c2) \<Rightarrow> ((chunks, Some (Joined [e, e'])), r2, c2)
           | (Inr j, r2, c2) \<Rightarrow>
               (case ftp_retrieve a j p r2 of
                  ((chunks', e'), r3) \<Rightarrow> ((chunks @ chunks', e'), r3, c2))))"

definition ftp_transfer ::
  "('x, 'i) ftp_adapter \<Rightarrow> 'i \<Rightarrow> path \<Rightarrow> ('x, 'i) ftp_state \<Rightarrow> ctx \<Rightarrow>
    (string list \<times> err option) \<times> ('x, 'i) ftp_state \<times> ctx" where
  "ftp_transfer a i p r c =
     (case ftp_retrieve a i p r of
        ((chunks, e), r1) \<Rightarrow>
          (case (if e \<noteq> None \<and> ftp_isConnectionError (the e) \<and> \<not> wrote_any chunks
                 then ftp_replay a i p chunks (the e) r1 c else ((chunks, e), r1, c)) of
             ((delivered, failure), r2, c1) \<Rightarrow>
               (case ctx_Err c1 of
                  (Some ce, c2) \<Rightarrow> ((delivered, Some (ftp_mapError p ce)), r2, c2)
                | (None, c2) \<Rightarrow> ((delivered, map_option (ftp_mapError p) failure), r2, c2))))"

text \<open>What the reader of the pipe sees, and the result of \<^verbatim>\<open>Close\<close>.\<close>

definition pipe_reads :: "string list \<times> err option \<Rightarrow> reads" where
  "pipe_reads x =
     map (\<lambda>chunk. (chunk, None)) (fst x) @ (case snd x of None \<Rightarrow> [] | Some e \<Rightarrow> [([], Some e)])"

definition ftp_OpenStream ::
  "('x, 'i) ftp_adapter \<Rightarrow> path \<Rightarrow> (('x, 'i) ftp_state, stream) action" where
  "ftp_OpenStream a p r c = check_ctx c r (\<lambda>c.
     case ftp_currentSession a r c of
       (Inl e, r1, c1) \<Rightarrow> (Err e, r1, c1)
     | (Inr session, r1, c1) \<Rightarrow>
         (case ftp_prepareOpen a p session r1 c1 of
            (Inl e, r2, c2) \<Rightarrow> (Err (ftp_mapError p e), r2, c2)
          | (Inr (i, entry), r2, c2) \<Rightarrow>
              if ri_Directory entry
              then (Err (Errorf ''ftp: cannot open directory %q'' [FStr (Path_String p)] []), r2, c2)
              else (case ftp_transfer a i p r2 c2 of
                (x, r3, c3) \<Rightarrow> (Ok \<lparr>st_reads = pipe_reads x, st_close = fst (ctx_Err c3)\<rparr>, r3, c3))))"

definition ftp_Stat ::
  "('x, 'i) ftp_adapter \<Rightarrow> path \<Rightarrow> (('x, 'i) ftp_state, Metadata) action" where
  "ftp_Stat a p r c =
     (case ftp_withLockedResult a True
         (ftp_checked a p (\<lambda>i. fp_Stat (fa_ops a) i (ftp_remotePath a p))) r c of
        (x, r1, c1) \<Rightarrow>
          (bind_res (as_res (ftp_mapError p) x) (\<lambda>entry.
             Ok \<lparr>m_Path = p,
                 m_Kind = (if ri_Directory entry then EntryKindDirectory else EntryKindFile),
                 m_Size = ri_Size entry, m_Modified = ri_Modified entry, m_ETag = [],
                 m_ContentType = [], m_UserMetadata = None, m_Visibility = VisibilityUnset\<rparr>), r1, c1))"

section \<open>Listing\<close>

definition ftp_read_dir ::
  "('x, 'i) ftp_adapter \<Rightarrow> 'i \<Rightarrow> path \<Rightarrow> 'x \<Rightarrow> ctx \<Rightarrow> (err + remote_info list) \<times> 'x \<times> ctx" where
  "ftp_read_dir a i p w c =
     (case ctx_Err c of
        (Some e, c1) \<Rightarrow> (Inl e, w, c1)
      | (None, c1) \<Rightarrow> (case fp_List (fa_ops a) i (ftp_remotePath a p) w of (x, w1) \<Rightarrow> (x, w1, c1)))"

definition ftp_list ::
  "('x, 'i) ftp_adapter \<Rightarrow> path \<Rightarrow> bool \<Rightarrow> int64 \<Rightarrow> 'i \<Rightarrow> 'x \<Rightarrow> ctx \<Rightarrow>
    (err + Entry list) \<times> 'x \<times> ctx" where
  "ftp_list a directory recursive limit i w c =
     (case (if IsRoot directory then (None, w) else ftp_rejectLink a i directory True w) of
        (Some e, w1) \<Rightarrow> (Inl e, w1, c)
      | (None, w1) \<Rightarrow> walk_remote (ftp_read_dir a i) ftp_denied recursive limit [directory] [] w1 c)"

definition ftp_effectiveListLimit :: "int64 \<Rightarrow> int64 \<Rightarrow> int64" where
  "ftp_effectiveListLimit = effective_limit"

definition ftp_List ::
  "('x, 'i) ftp_adapter \<Rightarrow> path \<Rightarrow> ListOptions \<Rightarrow> (('x, 'i) ftp_state, slice_iterator) action" where
  "ftp_List a directory opts r c =
     (if sint (lo_Limit opts) < 0 then (Err (New ''ftp: list limit must not be negative''), r, c)
      else (case ftp_withLockedResult a True
          (ftp_list a directory (lo_Recursive opts)
             (ftp_effectiveListLimit (lo_Limit opts) (fa_maxList a))) r c of
        (x, r1, c1) \<Rightarrow>
          (bind_res (as_res (ftp_mapError directory) x) (\<lambda>entries. Ok (new_iterator entries)), r1, c1)))"

section \<open>Writing\<close>

definition ftp_publish ::
  "('x, 'i) ftp_session \<Rightarrow> 'i \<Rightarrow> string \<Rightarrow> string \<Rightarrow> reads \<Rightarrow> 'x \<Rightarrow> ctx \<Rightarrow> (err + unit) \<times> 'x \<times> ctx" where
  "ftp_publish ops i temporary destination source w c =
     (case fp_Store ops i temporary source w c of
        (Some e, w1, c1) \<Rightarrow> (Inl e, snd (fp_Delete ops i temporary w1), c1)
      | (None, w1, c1) \<Rightarrow>
          (case ctx_Err c1 of
             (Some e, c2) \<Rightarrow> (Inl e, snd (fp_Delete ops i temporary w1), c2)
           | (None, c2) \<Rightarrow>
               (case fp_Rename ops i temporary destination w1 of
                  (Some e, w2) \<Rightarrow> (Inl e, snd (fp_Delete ops i temporary w2), c2)
                | (None, w2) \<Rightarrow> (Inr (), w2, c2))))"

definition ftp_write ::
  "('x, 'i) ftp_adapter \<Rightarrow> path \<Rightarrow> reads \<Rightarrow> 'i \<Rightarrow> 'x \<Rightarrow> ctx \<Rightarrow> (err + unit) \<times> 'x \<times> ctx" where
  "ftp_write a p source i w c =
     (let ops = fa_ops a; destination = ftp_remotePath a p in
      case ftp_rejectLink a i p False w of
        (Some e, w1) \<Rightarrow> (Inl e, w1, c)
      | (None, w1) \<Rightarrow>
          (case fp_Stat ops i destination w1 of
             (Inr _, w2) \<Rightarrow> (Inl (Unsupported ''ftp'' CapabilityWrite OperationWrite), w2, c)
           | (Inl e, w2) \<Rightarrow>
               if \<not> ftp_isNotFound e then (Inl e, w2, c)
               else (case ftp_makeDirectories a i (path_Dir destination) w2 of
                 (Some e, w3) \<Rightarrow> (Inl e, w3, c)
               | (None, w3) \<Rightarrow>
                   (case temporary_path ''ftp'' (fa_random a) (path_Dir destination) w3 of
                      (Inl e, w4) \<Rightarrow> (Inl e, w4, c)
                    | (Inr temporary, w4) \<Rightarrow>
                        ftp_publish ops i temporary destination source w4 c))))"

definition ftp_Write ::
  "('x, 'i) ftp_adapter \<Rightarrow> path \<Rightarrow> reads \<Rightarrow> WriteOptions \<Rightarrow> (('x, 'i) ftp_state, Metadata) action" where
  "ftp_Write a p source opts r c =
     (if IsRoot p then (Err rootPathError, r, c)
      else if wo_IfNoneMatch opts
      then (Err (Unsupported ''ftp'' CapabilityWrite OperationWrite), r, c)
      else (case ftp_currentSession a r c of
        (Inl e, r1, c1) \<Rightarrow> (Err (ftp_mapError p e), r1, c1)
      | (Inr i, r1, c1) \<Rightarrow>
          (case on_world (ftp_write a p source i) r1 c1 of
             (Inl e, r2, c2) \<Rightarrow> (Err (ftp_mapError p e), r2, c2)
           | (Inr _, r2, c2) \<Rightarrow> ftp_Stat a p r2 c2)))"

definition ftp_OpenWriter ::
  "('x, 'i) ftp_adapter \<Rightarrow> path \<Rightarrow> WriteOptions \<Rightarrow>
    (('x, 'i) ftp_state, ('x, 'i) ftp_state consumer) action" where
  "ftp_OpenWriter a p opts r c = check_ctx c r (\<lambda>c.
     if IsRoot p then (Err rootPathError, r, c)
     else (Ok (\<lambda>source r' c'. drop_result (ftp_Write a p source opts r' c')), r, c))"

definition ftp_withLocked ::
  "('x, 'i) ftp_adapter \<Rightarrow> bool \<Rightarrow> ('i \<Rightarrow> 'x \<Rightarrow> ctx \<Rightarrow> (err + unit) \<times> 'x \<times> ctx) \<Rightarrow> path \<Rightarrow>
    (('x, 'i) ftp_state, unit) action" where
  "ftp_withLocked a retry operation p r c =
     (case ftp_withLockedResult a retry operation r c of
        (x, r1, c1) \<Rightarrow> (as_res (ftp_mapError p) x, r1, c1))"

definition ftp_Delete :: "('x, 'i) ftp_adapter \<Rightarrow> path \<Rightarrow> (('x, 'i) ftp_state, unit) action" where
  "ftp_Delete a p =
     ftp_withLocked a False
       (ftp_checked a p (\<lambda>i w.
          case fp_Delete (fa_ops a) i (ftp_remotePath a p) w of
            (Some e, w1) \<Rightarrow> (Inl e, w1)
          | (None, w1) \<Rightarrow> (Inr (), w1))) p"

section \<open>The operations FTP does not support\<close>

definition ftp_OpenRange ::
  "('x, 'i) ftp_adapter \<Rightarrow> path \<Rightarrow> ByteRange \<Rightarrow> (('x, 'i) ftp_state, stream) action" where
  "ftp_OpenRange a p br r c =
     (Err (Unsupported ''ftp'' CapabilityRangeRead OperationRangeRead), r, c)"

definition ftp_Copy ::
  "('x, 'i) ftp_adapter \<Rightarrow> path \<Rightarrow> path \<Rightarrow> CopyOptions \<Rightarrow> (('x, 'i) ftp_state, unit) action" where
  "ftp_Copy a p q opts r c = (Err (Unsupported ''ftp'' CapabilityCopy OperationCopy), r, c)"

definition ftp_Move ::
  "('x, 'i) ftp_adapter \<Rightarrow> path \<Rightarrow> path \<Rightarrow> MoveOptions \<Rightarrow> (('x, 'i) ftp_state, unit) action" where
  "ftp_Move a p q opts r c = (Err (Unsupported ''ftp'' CapabilityMove OperationMove), r, c)"

definition ftp_SetMetadata ::
  "('x, 'i) ftp_adapter \<Rightarrow> path \<Rightarrow> usermeta \<Rightarrow> (('x, 'i) ftp_state, unit) action" where
  "ftp_SetMetadata a p md r c =
     (Err (Unsupported ''ftp'' CapabilityMetadata OperationSetMetadata), r, c)"

definition ftp_Checksum ::
  "('x, 'i) ftp_adapter \<Rightarrow> path \<Rightarrow> ChecksumAlgorithm \<Rightarrow> (('x, 'i) ftp_state, Checksum) action" where
  "ftp_Checksum a p algorithm r c =
     (Err (Unsupported ''ftp'' CapabilityChecksum OperationChecksum), r, c)"

definition ftp_TemporaryURL ::
  "('x, 'i) ftp_adapter \<Rightarrow> path \<Rightarrow> int \<Rightarrow> TemporaryURLOptions \<Rightarrow> (('x, 'i) ftp_state, string) action" where
  "ftp_TemporaryURL a p lifetime opts r c =
     (Err (Unsupported ''ftp'' CapabilityTemporaryURL OperationTemporaryURL), r, c)"

definition ftp_Visibility ::
  "('x, 'i) ftp_adapter \<Rightarrow> path \<Rightarrow> (('x, 'i) ftp_state, Visibility) action" where
  "ftp_Visibility a p r c =
     (Err (Unsupported ''ftp'' CapabilityVisibility OperationVisibility), r, c)"

definition ftp_SetVisibility ::
  "('x, 'i) ftp_adapter \<Rightarrow> path \<Rightarrow> Visibility \<Rightarrow> (('x, 'i) ftp_state, unit) action" where
  "ftp_SetVisibility a p v r c =
     (Err (Unsupported ''ftp'' CapabilityVisibility OperationSetVisibility), r, c)"

end
