(* ===== verification/Remote_Theorems.thy ===== *)
theory Remote_Theorems
  imports Sftp_Adapter Ftp_Adapter
begin

text \<open>
  What holds of the SFTP and the FTP adapter whatever the server and the protocol packages do:
  listings end and stay beneath their directory, every session that was acquired is closed
  exactly once, and nothing is acquired after \<^verbatim>\<open>Close\<close>.
\<close>

section \<open>Listings\<close>

text \<open>A directory reader that counts its calls.\<close>

definition counting ::
  "(path \<Rightarrow> 'x \<Rightarrow> ctx \<Rightarrow> (err + remote_info list) \<times> 'x \<times> ctx) \<Rightarrow>
    path \<Rightarrow> 'x \<times> nat \<Rightarrow> ctx \<Rightarrow> (err + remote_info list) \<times> ('x \<times> nat) \<times> ctx" where
  "counting read p wn c =
     (case read p (fst wn) c of (x, w1, c1) \<Rightarrow> (x, (w1, Suc (snd wn)), c1))"

definition at_or_beneath :: "path \<Rightarrow> path \<Rightarrow> bool" where
  "at_or_beneath d p = (wf_path p \<and> prefix (segments d) (segments p))"

lemma at_refl: "wf_path d \<Longrightarrow> at_or_beneath d d"
  by (simp add: at_or_beneath_def)

lemma at_join:
  assumes "at_or_beneath d current" and "Path_Join current name = Ok p"
  shows "at_or_beneath d p \<and> beneath d p"
proof -
  have cur: "wf_path current" and pre: "prefix (segments d) (segments current)"
    using assms(1) by (simp_all add: at_or_beneath_def)
  have ok: "Path_Join current name = Ok p" by (rule assms(2))
  obtain q where q: "ParsePath name = Ok q"
    using ok by (cases "ParsePath name") (simp_all add: Path_Join_def)
  note wq = ParsePath_wf [OF q]
  have p: "p = path_append current q" using Path_Join_eq [OF cur q] ok by simp
  have seg: "segments p = segments current @ segments q"
    using segments_append [OF cur wq(1)] by (simp add: p)
  obtain r where r: "segments current = segments d @ r" using pre by (auto simp: prefix_def)
  have ne: "r @ segments q \<noteq> []" using wq(2) by (simp add: IsRoot_segments)
  have eq: "segments p = segments d @ (r @ segments q)" by (simp add: seg r)
  have "beneath d p" unfolding beneath_iff using eq ne by blast
  moreover have "at_or_beneath d p"
    unfolding at_or_beneath_def using wf_path_append [OF cur wq(1)] eq by (simp add: p prefix_def)
  ultimately show ?thesis by simp
qed

text \<open>One step of the inner loop, without its case analysis.\<close>

definition new_entry :: "remote_info \<Rightarrow> path \<Rightarrow> Entry" where
  "new_entry info p = \<lparr>e_Path = p,
     e_Kind = (if ri_Directory info then EntryKindDirectory else EntryKindFile),
     e_Size = ri_Size info, e_Modified = ri_Modified info\<rparr>"

lemma add_infos_Cons:
  assumes "add_infos denied recursive limit current (info # infos) queue entries = Inr x"
  obtains p q where "Path_Join current (ri_Name info) = Ok p" and "q = queue \<or> q = queue @ [p]"
    and "(if sint limit \<le> int (length (entries @ [new_entry info p]))
          then Inr (q, entries @ [new_entry info p], True)
          else add_infos denied recursive limit current infos q (entries @ [new_entry info p])) = Inr x"
proof (cases "Path_Join current (ri_Name info)")
  case (Ok p)
  with assms that [of p "if ri_Directory info \<and> recursive then queue @ [p] else queue"] show ?thesis
    by (simp add: new_entry_def Let_def split: if_splits)
qed (use assms in \<open>simp_all split: if_splits\<close>)

lemma add_infos_at:
  assumes "at_or_beneath d current" and "\<forall>p\<in>set queue. at_or_beneath d p"
    and "\<forall>e\<in>set entries. wf_path (e_Path e) \<and> beneath d (e_Path e)"
    and "add_infos denied recursive limit current infos queue entries = Inr (queue', entries', full)"
  shows "(\<forall>p\<in>set queue'. at_or_beneath d p) \<and>
    (\<forall>e\<in>set entries'. wf_path (e_Path e) \<and> beneath d (e_Path e))"
  using assms(2-4)
proof (induction infos arbitrary: queue entries)
  case (Cons info infos)
  from add_infos_Cons [OF Cons.prems(3)] obtain p q where
    p: "Path_Join current (ri_Name info) = Ok p" and q: "q = queue \<or> q = queue @ [p]" and
    step: "(if sint limit \<le> int (length (entries @ [new_entry info p]))
        then Inr (q, entries @ [new_entry info p], True)
        else add_infos denied recursive limit current infos q (entries @ [new_entry info p]))
      = Inr (queue', entries', full)" .
  note at = at_join [OF assms(1) p]
  have q': "\<forall>p\<in>set q. at_or_beneath d p" using q at Cons.prems(1) by auto
  have es': "\<forall>e\<in>set (entries @ [new_entry info p]). wf_path (e_Path e) \<and> beneath d (e_Path e)"
    using at Cons.prems(2) by (auto simp: new_entry_def at_or_beneath_def)
  show ?case
  proof (cases "sint limit \<le> int (length (entries @ [new_entry info p]))")
    case True
    with step have "queue' = q" "entries' = entries @ [new_entry info p]" by simp_all
    with q' es' show ?thesis by simp
  next
    case False
    with step have "add_infos denied recursive limit current infos q (entries @ [new_entry info p])
      = Inr (queue', entries', full)" by simp
    from Cons.IH [OF q' es' this] show ?thesis .
  qed
qed simp

lemma add_infos_limit:
  "add_infos denied recursive limit current infos queue entries = Inr (queue', entries', full) \<Longrightarrow>
    int (length entries) < sint limit \<Longrightarrow> int (length entries') \<le> sint limit"
proof (induction infos arbitrary: queue entries)
  case (Cons info infos)
  from add_infos_Cons [OF Cons.prems(1)] obtain p q where
    step: "(if sint limit \<le> int (length (entries @ [new_entry info p]))
        then Inr (q, entries @ [new_entry info p], True)
        else add_infos denied recursive limit current infos q (entries @ [new_entry info p]))
      = Inr (queue', entries', full)" .
  show ?case
  proof (cases "sint limit \<le> int (length (entries @ [new_entry info p]))")
    case True
    with step have "entries' = entries @ [new_entry info p]" by simp
    with Cons.prems(2) show ?thesis by simp
  next
    case False
    with step have rec: "add_infos denied recursive limit current infos q (entries @ [new_entry info p])
      = Inr (queue', entries', full)" by simp
    from Cons.IH [OF rec] False show ?thesis by simp
  qed
qed simp

lemma walk_remote_Nil:
  "walk_remote read denied recursive limit [] entries w c = (Inr (sort_key entry_key entries), w, c)"
  by (subst walk_remote.simps) simp

lemma walk_remote_Cons:
  assumes "read current w c = (y, w1, c1)"
  shows "walk_remote read denied recursive limit (current # rest) entries w c =
    (case y of
       Inl e \<Rightarrow> (Inl e, w1, c1)
     | Inr infos \<Rightarrow>
         (case add_infos denied recursive limit current (sort_key ri_Name infos) rest entries of
            Inl e \<Rightarrow> (Inl e, w1, c1)
          | Inr (queue', entries', full) \<Rightarrow>
              if full then (Inr (sort_key entry_key entries'), w1, c1)
              else walk_remote read denied recursive limit queue' entries' w1 c1))"
  by (subst walk_remote.simps) (simp add: assms split: sum.split)

text \<open>An induction over the directories that are read.\<close>

lemma walk_remote_induct:
  fixes c :: ctx
  assumes "\<And>entries w c. P [] entries w c"
    and "\<And>current rest entries w c y w1 c1. (read :: path \<Rightarrow> 'x \<Rightarrow> ctx \<Rightarrow> _) current w c = (y, w1, c1) \<Longrightarrow>
      (\<And>infos q es. y = Inr infos \<Longrightarrow>
        add_infos denied recursive limit current (sort_key ri_Name infos) rest entries = Inr (q, es, False) \<Longrightarrow>
        P q es w1 c1) \<Longrightarrow> P (current # rest) entries w c"
  shows "P queue entries w c"
proof (induction "nat (sint limit - int (length entries)) + length queue"
    arbitrary: queue entries w c rule: less_induct)
  case (less queue entries w c)
  show ?case
  proof (cases queue)
    case (Cons current rest)
    obtain y w1 c1 where rd: "read current w c = (y, w1, c1)" by (metis prod_cases3)
    show ?thesis unfolding Cons
    proof (rule assms(2) [OF rd])
      fix infos q es
      assume a: "add_infos denied recursive limit current (sort_key ri_Name infos) rest entries = Inr (q, es, False)"
      note prog = add_infos_progress [OF a]
      have "nat (sint limit - int (length es)) + length q
          < nat (sint limit - int (length entries)) + length queue"
        using prog Cons by auto
      then show "P q es w1 c1" by (rule less)
    qed
  qed (simp add: assms(1))
qed

lemma walk_remote_entries:
  assumes "walk_remote read denied recursive limit queue entries w c = (Inr es, w', c')"
    and "int (length entries) < sint limit" and "\<forall>p\<in>set queue. at_or_beneath d p"
    and "\<forall>e\<in>set entries. wf_path (e_Path e) \<and> beneath d (e_Path e)"
  shows "sorted (map entry_key es) \<and> int (length es) \<le> sint limit \<and>
    (\<forall>e\<in>set es. wf_path (e_Path e) \<and> beneath d (e_Path e))"
  using assms
proof (induction queue entries w c rule: walk_remote_induct [where read = read and denied = denied
      and recursive = recursive and limit = limit])
  case (1 entries w c)
  then show ?case by (auto simp: walk_remote_Nil)
next
  case (2 current rest entries w c y w1 c1)
  note step = 2(3) [unfolded walk_remote_Cons [where read = read, OF 2(1)]]
  from step obtain infos q es1 full where y: "y = Inr infos"
    and a: "add_infos denied recursive limit current (sort_key ri_Name infos) rest entries = Inr (q, es1, full)"
    by (auto split: sum.splits)
  have at: "at_or_beneath d current" "\<forall>p\<in>set rest. at_or_beneath d p" using 2(5) by simp_all
  note w' = add_infos_at [OF at 2(6) a]
  note lim = add_infos_limit [OF a 2(4)]
  show ?case
  proof (cases full)
    case True
    with step y a have "es = sort_key entry_key es1" by simp
    with lim w' show ?thesis by simp
  next
    case False
    with step y a have rec: "walk_remote read denied recursive limit q es1 w1 c1 = (Inr es, w', c')" by simp
    have "int (length es1) < sint limit" using add_infos_progress [OF a] False 2(4) by auto
    moreover have "add_infos denied recursive limit current (sort_key ri_Name infos) rest entries = Inr (q, es1, False)"
      using a False by simp
    ultimately show ?thesis using 2(2) [OF y _ rec] w' by blast
  qed
qed

lemma walk_remote_reads:
  assumes "walk_remote (counting read) denied recursive limit queue entries wn c = (x, wn', c')"
    and "queue \<noteq> []" and "int (length entries) < sint limit"
  shows "snd wn' + length entries < snd wn + length queue + nat (sint limit)"
  using assms
proof (induction queue entries wn c rule: walk_remote_induct [where read = "counting read" and denied = denied
      and recursive = recursive and limit = limit])
  case (2 current rest entries wn c y wn1 c1)
  note step = 2(3) [unfolded walk_remote_Cons [where read = "counting read", OF 2(1)]]
  have one: "snd wn1 = Suc (snd wn)" using 2(1) by (auto simp: counting_def split: prod.splits)
  have room: "length entries < nat (sint limit)" using 2(5) by linarith
  show ?case
  proof (cases "wn' = wn1")
    case False
    with step obtain infos q es where y: "y = Inr infos"
      and a: "add_infos denied recursive limit current (sort_key ri_Name infos) rest entries = Inr (q, es, False)"
      and rec: "walk_remote (counting read) denied recursive limit q es wn1 c1 = (x, wn', c')"
      by (auto split: sum.splits if_splits)
    note prog = add_infos_progress [OF a]
    have lt: "int (length es) < sint limit" using prog 2(5) by auto
    have ne: "q \<noteq> []" using rec False by (auto simp: walk_remote_Nil)
    from 2(2) [OF y a rec ne lt] one prog show ?thesis by auto
  qed (use one room in simp)
qed simp

section \<open>Names on the server\<close>

text \<open>
  A name that stays at or beneath the root, read element by element: it is clean, so it has
  no dot elements, and it extends the root at a separator.
\<close>

definition under :: "string \<Rightarrow> string \<Rightarrow> bool" where
  "under root name =
     (path_Clean name = name \<and>
      (name = root \<or> HasPrefix name (if root = ''/'' then root else root @ ''/'')))"

definition root_ok :: "string \<Rightarrow> bool" where
  "root_ok root = (HasPrefix root ''/'' \<and> list_all plain_elem (if root = ''/'' then [] else split_on slash (tl root)))"

abbreviation rooted :: "string list \<Rightarrow> string" where
  "rooted ss \<equiv> slash # join_with slash ss"

lemma root_okE:
  assumes "root_ok root"
  obtains ss where "list_all plain_elem ss" and "root = rooted ss"
proof (cases "root = ''/''")
  case True
  then show ?thesis using that [of "[]"] by simp
next
  case False
  from assms obtain t where t: "root = slash # t" by (auto simp: root_ok_def HasPrefix_append)
  with assms False that [of "split_on slash t"] show ?thesis by (simp add: root_ok_def)
qed

lemma rooted_ok: "list_all plain_elem ss \<Longrightarrow> root_ok (rooted ss)"
  by (cases "ss = []") (auto simp: root_ok_def HasPrefix_append split_join plain_no_slash)

lemma rooted_under:
  assumes "list_all plain_elem (ss @ rs)" shows "under (rooted ss) (rooted (ss @ rs))"
proof -
  have "rooted (ss @ rs) = rooted ss \<or>
      HasPrefix (rooted (ss @ rs)) (if rooted ss = ''/'' then rooted ss else rooted ss @ ''/'')"
    using join_plain_hd [of ss] assms
    by (cases "ss = []"; cases "rs = []") (auto simp: HasPrefix_append join_with_append)
  then show ?thesis using path_Clean_rooted [OF assms] by (simp add: under_def)
qed

lemma path_Clean_append:
  assumes "list_all plain_elem ss" and "list_all plain_elem rs"
  shows "path_Clean (rooted ss @ slash # join_with slash rs) = rooted (ss @ rs)"
  using assms
  by (cases "ss = []"; cases "rs = []")
    (simp_all add: path_Clean_def split_on_sep_append split_join plain_no_slash clean_fold_plain)

lemma path_Join_rooted:
  "list_all plain_elem ss \<Longrightarrow> list_all plain_elem rs \<Longrightarrow>
    path_Join [rooted ss, join_with slash rs] = rooted (ss @ rs)"
  using path_Clean_append by (simp add: path_Join_def)

lemma path_Dir_rooted:
  assumes "list_all plain_elem ss" and "plain_elem l"
  shows "path_Dir (rooted (ss @ [l])) = rooted ss"
proof -
  have l: "slash \<notin> set l" using assms(2) by (simp add: plain_elem_def)
  show ?thesis
  proof (cases "ss = []")
    case True
    then show ?thesis
      using dropWhile_rev_no_slash [OF l, of "[]"] path_Clean_rooted [of "[]"] by (simp add: path_Dir_def)
  next
    case False
    then have "path_Dir (rooted (ss @ [l])) = path_Clean (rooted ss @ slash # join_with slash [])"
      using dropWhile_rev_no_slash [OF l, of "rev (join_with slash ss) @ [slash]"]
      by (simp add: path_Dir_def join_with_snoc)
    with path_Clean_append [OF assms(1), of "[]"] show ?thesis by simp
  qed
qed

text \<open>A root that was validated is clean and absolute.\<close>

lemma clean_fold_rooted:
  "list_all plain_elem out \<Longrightarrow> list_all (\<lambda>s. slash \<notin> set s) ss \<Longrightarrow>
    list_all plain_elem (foldl (clean_step True) out ss)"
proof (induction ss arbitrary: out)
  case (Cons s ss)
  have "list_all plain_elem (clean_step True out s)"
    using Cons.prems by (auto simp: clean_step_def plain_elem_def list_all_iff dest: in_set_butlastD)
  with Cons show ?case by simp
qed simp

lemma validate_root_ok:
  assumes "validate_root name root = Ok r" shows "root_ok r"
proof (cases "root = []")
  case True
  with assms have "r = rooted []" by (simp add: validate_root_def)
  then show ?thesis using rooted_ok [of "[]"] by simp
next
  case False
  from assms False obtain t where t: "root = slash # t" and r: "r = path_Clean root"
    by (auto simp: validate_root_def HasPrefix_append split: if_splits option.splits)
  have "list_all plain_elem (foldl (clean_step True) [] (split_on slash root))"
    by (rule clean_fold_rooted) (auto simp: list_all_iff dest: sep_notin_split)
  moreover have "r = rooted (foldl (clean_step True) [] (split_on slash root))"
    unfolding r by (simp add: path_Clean_def t)
  ultimately show ?thesis using rooted_ok by simp
qed

text \<open>Every name that an adapter asks for is under its root.\<close>

lemma remote_path_rooted:
  assumes "list_all plain_elem ss" and "wf_path p"
  shows "remote_path (rooted ss) p = rooted (ss @ segments p)"
  using path_Join_rooted [OF assms(1) segments_plain [OF wf_pathD [OF assms(2)]]]
  by (simp add: remote_path_def Path_String_def join_segments IsRoot_segments)

lemma remote_path_under:
  assumes "root_ok root" and "wf_path p" shows "under root (remote_path root p)"
proof -
  from assms(1) obtain ss where ss: "list_all plain_elem ss" "root = rooted ss" by (rule root_okE)
  with segments_plain [OF wf_pathD [OF assms(2)]] show ?thesis
    using remote_path_rooted [OF ss(1) assms(2)] rooted_under [of ss "segments p"] by simp
qed

lemma link_candidates_under:
  assumes "root_ok root" and "wf_path p" and "name \<in> set (link_candidates root p includeFinal)"
  shows "under root name"
proof -
  from assms(1) obtain ss where ss: "list_all plain_elem ss" "root = rooted ss" by (rule root_okE)
  from assms(3) obtain n where n: "0 < n" and
    name: "name = path_Join [root, path_Join (take n (split_on slash (Path_String p)))]"
    by (auto simp: link_candidates_def Let_def)
  have "\<exists>rs. list_all plain_elem rs \<and> path_Join (take n (split_on slash (Path_String p))) = join_with slash rs"
  proof (cases "IsRoot p")
    case True
    then show ?thesis
      using n by (intro exI [of _ "[]"]) (simp add: Path_String_def IsRoot_def path_Join_def take_Cons')
  next
    case False
    have seg: "split_on slash (Path_String p) = segments p"
      using False by (simp add: Path_String_def segments_def IsRoot_def)
    have pl: "list_all plain_elem (take n (segments p))"
      using segments_plain [OF wf_pathD [OF assms(2)]] by (auto simp: list_all_iff dest: in_set_takeD)
    have ne: "take n (segments p) \<noteq> []" using False n by (simp add: IsRoot_segments)
    then obtain x xs where t: "take n (segments p) = x # xs" by (cases "take n (segments p)") auto
    with pl have "x \<noteq> []" by (simp add: plain_elem_def)
    then have "path_Join (take n (segments p)) = path_Clean (join_with slash (take n (segments p)))"
      by (simp add: path_Join_def t)
    with path_Clean_plain [OF ne pl] pl show ?thesis unfolding seg by metis
  qed
  then obtain rs where rs: "list_all plain_elem rs"
    "path_Join (take n (split_on slash (Path_String p))) = join_with slash rs" by blast
  show ?thesis
    using path_Join_rooted [OF ss(1) rs(1)] rooted_under [of ss rs] ss rs by (simp add: name)
qed

lemma destination_parts:
  assumes "root_ok root" and "wf_path p" and "\<not> IsRoot p"
  obtains ss rs l where "list_all plain_elem ss" and "root = rooted ss" and "segments p = rs @ [l]"
    and "list_all plain_elem rs" and "plain_elem l" and "remote_path root p = rooted (ss @ rs @ [l])"
    and "path_Dir (remote_path root p) = rooted (ss @ rs)"
proof -
  from assms(1) obtain ss where ss: "list_all plain_elem ss" "root = rooted ss" by (rule root_okE)
  have pl: "list_all plain_elem (segments p)" using segments_plain [OF wf_pathD [OF assms(2)]] .
  from assms(3) obtain rs l where rs: "segments p = rs @ [l]"
    by (metis IsRoot_segments rev_exhaust)
  have ok: "list_all plain_elem (ss @ rs)" "plain_elem l" using ss(1) pl rs by simp_all
  have "remote_path root p = rooted (ss @ rs @ [l])"
    using remote_path_rooted [OF ss(1) assms(2)] ss(2) rs by simp
  moreover have "path_Dir (rooted (ss @ rs @ [l])) = rooted (ss @ rs)"
    using path_Dir_rooted [OF ok] by simp
  ultimately show ?thesis using that [OF ss rs] ok by simp
qed

lemma temporary_parts:
  assumes "temporary_path name random (rooted ks) w = (Inr t, w')" and "list_all plain_elem ks"
  obtains b where "t = rooted (ks @ [temporary_base b])" and "list_all plain_elem (ks @ [temporary_base b])"
proof -
  from assms(1) obtain b where "t = path_Join [rooted ks, temporary_base b]"
    by (auto simp: temporary_path_def split: prod.splits sum.splits)
  then have "t = rooted (ks @ [temporary_base b])"
    using path_Join_rooted [OF assms(2), of "[temporary_base b]"] plain_temporary_base by simp
  with that assms(2) plain_temporary_base show ?thesis by simp
qed

lemma split_rooted:
  "list_all plain_elem ks \<Longrightarrow> ks \<noteq> [] \<Longrightarrow> split_on slash (rooted ks) = [] # ks"
  by (simp add: split_join plain_no_slash)

lemma destination_names:
  assumes "root_ok root" and "wf_path p" and "\<not> IsRoot p"
  shows "under root (path_Dir (remote_path root p))"
    and "temporary_path name random (path_Dir (remote_path root p)) w = (Inr t, w') \<Longrightarrow>
      under root t \<and> temp_name (split_on slash t)"
    and "temp_name (split_on slash (remote_path root p)) = temp_name (segments p)"
proof -
  from assms obtain ss rs l where
    p: "list_all plain_elem ss" "root = rooted ss" "segments p = rs @ [l]" "list_all plain_elem rs"
      "plain_elem l" "remote_path root p = rooted (ss @ rs @ [l])"
      "path_Dir (remote_path root p) = rooted (ss @ rs)" by (rule destination_parts)
  have ok: "list_all plain_elem (ss @ rs)" using p by simp
  show "under root (path_Dir (remote_path root p))" using rooted_under [OF ok] p by simp
  show "under root t \<and> temp_name (split_on slash t)"
    if temp: "temporary_path name random (path_Dir (remote_path root p)) w = (Inr t, w')"
  proof -
    obtain b where t: "t = rooted ((ss @ rs) @ [temporary_base b])"
      and pl: "list_all plain_elem ((ss @ rs) @ [temporary_base b])"
      by (rule temporary_parts [OF temp [unfolded p(7)] ok])
    have "under root t" using rooted_under [of ss "rs @ [temporary_base b]"] pl by (simp add: t p(2))
    moreover have "temp_name (split_on slash t)"
      using split_rooted [OF pl] temp_name_base [of "[] # ss @ rs"] by (simp add: t)
    ultimately show ?thesis by simp
  qed
  show "temp_name (split_on slash (remote_path root p)) = temp_name (segments p)"
    using split_rooted [of "ss @ rs @ [l]"] p by (simp add: temp_name_def)
qed

section \<open>Runs of an adapter\<close>

text \<open>
  Whatever a request does, it does by these steps: calls on the current session, the release of
  what it opened, and the replacement of the session. \<open>touch\<close> is what one call may do to the
  world, \<open>after\<close> what releasing a handle may do.
\<close>

inductive remote_run ::
  "('x, 'i) connector \<Rightarrow> ('i \<Rightarrow> 'x \<Rightarrow> err option \<times> 'x) \<Rightarrow> ('i \<Rightarrow> 'x \<Rightarrow> 'x \<Rightarrow> bool) \<Rightarrow> ('x \<Rightarrow> 'x \<Rightarrow> bool) \<Rightarrow>
    ('x, 'i) remote \<Rightarrow> ('x, 'i) remote \<Rightarrow> bool"
  for dial close touch after r where
  stay: "remote_run dial close touch after r r"
| call: "remote_run dial close touch after r r' \<Longrightarrow> rm_session r' = Some i \<Longrightarrow> touch i (rm_world r') w \<Longrightarrow>
    remote_run dial close touch after r (r'\<lparr>rm_world := w\<rparr>)"
| released: "remote_run dial close touch after r r' \<Longrightarrow> \<not> rm_closed r' \<Longrightarrow> after (rm_world r') w \<Longrightarrow>
    remote_run dial close touch after r (r'\<lparr>rm_world := w\<rparr>)"
| refused: "remote_run dial close touch after r r' \<Longrightarrow> \<not> rm_closed r' \<Longrightarrow> rm_session r' = None \<Longrightarrow>
    dial c (rm_world r') = (Inl e, w, c') \<Longrightarrow>
    remote_run dial close touch after r (r'\<lparr>rm_world := w\<rparr>)"
| dialled: "remote_run dial close touch after r r' \<Longrightarrow> \<not> rm_closed r' \<Longrightarrow> rm_session r' = None \<Longrightarrow>
    dial c (rm_world r') = (Inr i, w, c') \<Longrightarrow>
    remote_run dial close touch after r
      (r'\<lparr>rm_world := w, rm_session := Some i, rm_opened := rm_opened r' @ [i]\<rparr>)"
| dropped: "remote_run dial close touch after r r' \<Longrightarrow> rm_session r' = Some i \<Longrightarrow>
    remote_run dial close touch after r (snd (release close i r'))"

lemma remote_run_trans:
  assumes "remote_run dial close touch after r' r''" and "remote_run dial close touch after r r'"
  shows "remote_run dial close touch after r r''"
  using assms by (induction rule: remote_run.induct) (auto intro: remote_run.intros)

text \<open>
  Every session that was acquired and is not the current one was closed, once, in the order
  of acquisition; a closed adapter has no session.
\<close>

definition remote_ok :: "('x, 'i) remote \<Rightarrow> bool" where
  "remote_ok r =
     ((rm_closed r \<longrightarrow> rm_session r = None) \<and>
      rm_opened r = rm_released r @ (case rm_session r of None \<Rightarrow> [] | Some i \<Rightarrow> [i]))"

lemma remote_run_ok:
  assumes "remote_run dial close touch after r r'" and "remote_ok r"
  shows "remote_ok r' \<and> rm_closed r' = rm_closed r \<and> (rm_closed r \<longrightarrow> r' = r)"
  using assms
  by (induction rule: remote_run.induct) (auto simp: remote_ok_def release_def split: prod.splits)

lemma remote_run_invariant:
  assumes "remote_run dial close touch after r r'" and "J (rm_world r)"
    and "\<And>i w w'. J w \<Longrightarrow> touch i w w' \<Longrightarrow> J w'" and "\<And>w w'. J w \<Longrightarrow> after w w' \<Longrightarrow> J w'"
    and "\<And>c w x w' c'. J w \<Longrightarrow> dial c w = (x, w', c') \<Longrightarrow> J w'"
    and "\<And>i w. J w \<Longrightarrow> J (snd (close i w))"
  shows "J (rm_world r')"
  using assms(1,2)
proof (induction rule: remote_run.induct)
  case (call r' i w)
  from assms(3) [OF call.IH [OF call.prems] call.hyps(3)] show ?case by simp
next
  case (released r' w)
  from assms(4) [OF released.IH [OF released.prems] released.hyps(3)] show ?case by simp
next
  case (refused r' c e w c')
  from assms(5) [OF refused.IH [OF refused.prems] refused.hyps(4)] show ?case by simp
next
  case (dialled r' c i w c')
  from assms(5) [OF dialled.IH [OF dialled.prems] dialled.hyps(4)] show ?case by simp
next
  case (dropped r' i)
  from assms(6) [OF dropped.IH [OF dropped.prems], of i] show ?case
    by (cases "close i (rm_world r')") (simp add: release_def)
qed

text \<open>\<^verbatim>\<open>Close\<close> leaves nothing open, and a second one does nothing.\<close>

lemma close_session_facts:
  assumes "remote_ok r" and "close_session close r = (e, r')"
  shows "rm_closed r' \<and> remote_ok r' \<and> rm_session r' = None \<and> rm_released r' = rm_opened r' \<and>
    rm_opened r' = rm_opened r"
  using assms
  by (auto simp: close_session_def release_def remote_ok_def Let_def split: if_splits option.splits prod.splits)

text \<open>The session code of the adapters runs by these steps.\<close>

lemma current_session_run:
  assumes "current_session dial r c = (x, r', c')"
  shows "remote_run dial close touch after r r'" and "x = Inr i \<Longrightarrow> rm_session r' = Some i"
  using assms
  by (auto simp: current_session_def split: prod.splits option.splits if_splits sum.splits
      intro: remote_run.intros)

lemma invalidate_run: "remote_run dial close touch after r (invalidate_session close i r)"
  by (auto simp: invalidate_session_def intro: remote_run.intros)

lemma on_world_run:
  assumes "on_world f r c = (x, r', c')" and "rm_session r = Some i"
    and "\<And>w c x w' c'. f w c = (x, w', c') \<Longrightarrow> touch i w w'"
  shows "remote_run dial close touch after r r'" and "rm_session r' = Some i"
proof -
  obtain w where "r' = r\<lparr>rm_world := w\<rparr>" "touch i (rm_world r) w"
    using assms(1,3) by (auto simp: on_world_def split: prod.splits)
  then show "remote_run dial close touch after r r'" "rm_session r' = Some i"
    using assms(2) by (auto intro: remote_run.intros)
qed

lemma retry_on_run:
  assumes "retry_on dial close lost retry f i r c = (x, r', c')" and "rm_session r = Some i"
    and "\<And>i w c x w' c'. f i w c = (x, w', c') \<Longrightarrow> touch i w w'"
  shows "remote_run dial close touch after r r'"
proof -
  obtain y r1 c1 where f: "on_world (f i) r c = (y, r1, c1)" by (metis prod_cases3)
  obtain z r2 c2 where s: "current_session dial (invalidate_session close i r1) c1 = (z, r2, c2)"
    by (metis prod_cases3)
  have r1: "remote_run dial close touch after r r1"
    using on_world_run(1) [where touch = touch, OF f assms(2)] assms(3) by blast
  have r2: "remote_run dial close touch after r r2"
    using remote_run_trans [OF current_session_run(1) [OF s] remote_run_trans [OF invalidate_run r1]] .
  consider "r' = r1" | "r' = r2" | j c' x where "z = Inr j" "on_world (f j) r2 c2 = (x, r', c')"
    using assms(1) by (auto simp: retry_on_def f s split: sum.splits if_splits)
  then show ?thesis
  proof cases
    case 3
    have "rm_session r2 = Some j" using current_session_run(2) [OF s 3(1)] .
    from on_world_run(1) [where touch = touch, OF 3(2) this] assms(3)
    have "remote_run dial close touch after r2 r'" by blast
    from remote_run_trans [OF this r2] show ?thesis .
  qed (use r1 r2 in simp_all)
qed

lemma retry_on_current:
  assumes "retry_on dial close lost retry f i r c = (Inr y, r', c')" and "rm_session r = Some i"
  obtains j w d w' d' where "rm_session r' = Some j" and "f j w d = (Inr y, w', d')"
proof -
  obtain z r2 c2 where s: "current_session dial (invalidate_session close i (fst (snd (on_world (f i) r c))))
      (snd (snd (on_world (f i) r c))) = (z, r2, c2)" by (metis prod_cases3)
  consider "on_world (f i) r c = (Inr y, r', c')"
    | j where "z = Inr j" "on_world (f j) r2 c2 = (Inr y, r', c')"
    using assms(1) s by (auto simp: retry_on_def split: sum.splits if_splits prod.splits)
  then show ?thesis
  proof cases
    case 1
    with assms(2) that show ?thesis by (auto simp: on_world_def split: prod.splits)
  next
    case 2
    with current_session_run(2) [OF s] that show ?thesis by (auto simp: on_world_def split: prod.splits)
  qed
qed

lemma with_session_run:
  assumes "with_session dial close lost retry f r c = (x, r', c')"
    and "\<And>i w c x w' c'. f i w c = (x, w', c') \<Longrightarrow> touch i w w'"
  shows "remote_run dial close touch after r r'"
proof -
  obtain z r1 c1 where s: "current_session dial r c = (z, r1, c1)" by (metis prod_cases3)
  have r1: "remote_run dial close touch after r r1" using current_session_run(1) [OF s] .
  show ?thesis
  proof (cases z)
    case (Inl e)
    with assms(1) s r1 show ?thesis by (simp add: with_session_def)
  next
    case (Inr i)
    with assms(1) s have "retry_on dial close lost retry f i r1 c1 = (x, r', c')"
      by (simp add: with_session_def)
    from retry_on_run [where touch = touch, OF this current_session_run(2) [OF s Inr]] assms(2)
    have "remote_run dial close touch after r1 r'" by blast
    from remote_run_trans [OF this r1] show ?thesis .
  qed
qed

lemma remote_run_closed:
  assumes "remote_run dial close touch after r r'" shows "rm_closed r' = rm_closed r"
  using assms by (induction rule: remote_run.induct) (auto simp: release_def split: prod.splits)

lemma with_session_open:
  "with_session dial close lost retry f r c = (Inr y, r', c') \<Longrightarrow> \<not> rm_closed r"
  by (auto simp: with_session_def current_session_def split: prod.splits if_splits sum.splits option.splits)

text \<open>The loops over the server's answers.\<close>

lemma reject_links_touch:
  assumes "reject_links is_link absent denied names w = (e, w')" and "reflp T" and "transp T"
    and "\<And>name w. name \<in> set names \<Longrightarrow> T w (snd (is_link name w))"
  shows "T w w'"
  using assms(1,4)
proof (induction names arbitrary: w)
  case Nil
  then show ?case using assms(2) by (simp add: reflpD)
next
  case (Cons name names)
  obtain x w1 where x: "is_link name w = (x, w1)" by (metis surj_pair)
  have first: "T w w1" using Cons.prems(2) [of name w] x by simp
  show ?case
  proof (cases "x = Inr False")
    case True
    with Cons.prems(1) x have "reject_links is_link absent denied names w1 = (e, w')" by simp
    from Cons.IH [OF this] Cons.prems(2) have "T w1 w'" by simp
    from transpD [OF assms(3) first this] show ?thesis .
  next
    case False
    with Cons.prems(1) x have "w' = w1" by (cases x) (auto split: bool.splits)
    with first show ?thesis by simp
  qed
qed

lemma copy_into_touch:
  assumes "copy_into write polls rs w c = (e, w', c')" and "reflp T" and "transp T"
    and "\<And>chunk w. T w (snd (write chunk w))"
  shows "T w w'"
  using assms(1)
proof (induction rs arbitrary: w c)
  case Nil
  then show ?case using assms(2) by (auto simp: reflpD split: prod.splits)
next
  case (Cons x rs)
  obtain chunk er where x: "x = (chunk, er)" by (metis surj_pair)
  obtain pe c1 where p: "poll_times polls c = (pe, c1)" by (metis surj_pair)
  show ?case
  proof (cases pe)
    case (Some e1)
    with Cons.prems p x show ?thesis using assms(2) by (simp add: reflpD)
  next
    case None
    obtain we w1 where w: "(if chunk = [] then (None, w) else write chunk w) = (we, w1)"
      by (metis surj_pair)
    have first: "T w w1"
      using assms(4) [of w chunk] assms(2) w by (auto simp: reflpD split: if_splits)
    have "w' = w1 \<or> copy_into write polls rs w1 c1 = (e, w', c')"
      using Cons.prems by (auto simp: x p None w split: option.splits)
    then show ?thesis using first Cons.IH assms(3) by (auto dest: transpD)
  qed
qed

lemma walk_remote_touch:
  assumes "walk_remote read denied recursive limit queue entries w c = (x, w', c')"
    and "\<forall>p\<in>set queue. at_or_beneath d p"
    and "\<forall>e\<in>set entries. wf_path (e_Path e) \<and> beneath d (e_Path e)"
    and "reflp T" and "transp T"
    and "\<And>p w c x w' c'. at_or_beneath d p \<Longrightarrow> read p w c = (x, w', c') \<Longrightarrow> T w w'"
  shows "T w w'"
  using assms(1-3)
proof (induction queue entries w c rule: walk_remote_induct [where read = read and denied = denied
      and recursive = recursive and limit = limit])
  case (1 entries w c)
  then show ?case using assms(4) by (simp add: walk_remote_Nil reflpD)
next
  case (2 current rest entries w c y w1 c1)
  have at: "at_or_beneath d current" "\<forall>p\<in>set rest. at_or_beneath d p" using 2(4) by simp_all
  have first: "T w w1" using assms(6) [OF at(1) 2(1)] .
  note step = 2(3) [unfolded walk_remote_Cons [where read = read, OF 2(1)]]
  show ?case
  proof (cases "w' = w1")
    case False
    with step obtain infos q es where y: "y = Inr infos"
      and a: "add_infos denied recursive limit current (sort_key ri_Name infos) rest entries = Inr (q, es, False)"
      and rec: "walk_remote read denied recursive limit q es w1 c1 = (x, w', c')"
      by (auto split: sum.splits if_splits)
    from 2(2) [OF y a rec] add_infos_at [OF at 2(5) a] have "T w1 w'" by simp
    from transpD [OF assms(5) first this] show ?thesis .
  qed (use first in simp)
qed

section \<open>Requests and outcomes\<close>

text \<open>The requests of a client on parsed paths, whose moves name an object.\<close>

definition remote_request :: "request \<Rightarrow> bool" where
  "remote_request req = (list_all wf_path (request_paths req) \<and> request_ok req)"

lemma drop_result_state: "drop_result y = (x, r', c') \<Longrightarrow> \<exists>z. y = (z, r', c')"
  by (auto simp: drop_result_def split: prod.splits)

text \<open>What a write may have changed, when the source is \<open>source\<close> and the destination \<open>d\<close>.\<close>

definition replaced :: "reads \<Rightarrow> string \<Rightarrow> bool \<Rightarrow> (string \<Rightarrow> string option) \<Rightarrow> (string \<Rightarrow> string option) \<Rightarrow> bool" where
  "replaced source d ok v v' =
     ((\<forall>n. n \<noteq> d \<longrightarrow> \<not> temp_name (split_on slash n) \<longrightarrow> v' n = v n) \<and>
      (v' d = v d \<and> \<not> ok \<or> (\<exists>content. io_copy source = (content, None) \<and> v' d = Some content)))"

lemma replaced_not: "replaced source d False v v"
  by (simp add: replaced_def)

section \<open>Listings of the remote adapters\<close>

text \<open>
  (C11) A listing of a remote tree ends, whatever the server answers: it reads at most as many
  directories as it may return entries, also when directories contain themselves. What it
  returns is sorted by path, respects the limit and lies beneath the directory.
\<close>

theorem remote_listing_ends:
  assumes "wf_path d" and "0 < sint limit"
    and "walk_remote (counting read) denied recursive limit [d] [] (w, 0) c = (x, (w', n), c')"
  shows "int n \<le> sint limit \<and>
    (\<forall>es. x = Inr es \<longrightarrow> sorted (map entry_key es) \<and> int (length es) \<le> sint limit \<and>
      (\<forall>e\<in>set es. wf_path (e_Path e) \<and> beneath d (e_Path e)))"
proof -
  have "n < Suc (nat (sint limit))" using walk_remote_reads [OF assms(3)] assms(2) by simp
  then have "int n \<le> sint limit" using assms(2) by linarith
  moreover have "sorted (map entry_key es) \<and> int (length es) \<le> sint limit \<and>
      (\<forall>e\<in>set es. wf_path (e_Path e) \<and> beneath d (e_Path e))" if "x = Inr es" for es
    using walk_remote_entries [where d = d, OF assms(3) [unfolded that]] assms(1,2) by (simp add: at_refl)
  ultimately show ?thesis by blast
qed

text \<open>A server where every directory contains a directory \<^verbatim>\<open>d\<close> and a file \<^verbatim>\<open>f\<close>.\<close>

definition endless_dir :: "path \<Rightarrow> unit \<Rightarrow> ctx \<Rightarrow> (err + remote_info list) \<times> unit \<times> ctx" where
  "endless_dir p w c =
     (Inr [\<lparr>ri_Name = ''f'', ri_Size = 1, ri_Modified = 0, ri_Directory = False, ri_Link = False\<rparr>,
           \<lparr>ri_Name = ''d'', ri_Size = 0, ri_Modified = 0, ri_Directory = True, ri_Link = False\<rparr>], w, c)"

theorem remote_listing_ends_witness:
  "case walk_remote (counting endless_dir) New True 5 [\<lparr>pvalue = ''a''\<rparr>] [] ((), 0) Background of
     (x, (w', n), c') \<Rightarrow> n = 3 \<and> int n \<le> sint (5 :: int64) \<and>
       (case x of Inr es \<Rightarrow> map (Path_String \<circ> e_Path) es =
            [''a/d'', ''a/d/d'', ''a/d/d/d'', ''a/d/f'', ''a/f''] | Inl _ \<Rightarrow> False)"
proof -
  have wf: "wf_path \<lparr>pvalue = ''a''\<rparr>" by code_simp
  obtain x w' n c' where run:
    "walk_remote (counting endless_dir) New True 5 [\<lparr>pvalue = ''a''\<rparr>] [] ((), 0) Background = (x, (w', n), c')"
    by (metis prod_cases3 surj_pair)
  have "0 < sint (5 :: int64)" by simp
  from remote_listing_ends [OF wf this run] have "int n \<le> sint (5 :: int64)" by (rule conjunct1)
  moreover have "case walk_remote (counting endless_dir) New True 5 [\<lparr>pvalue = ''a''\<rparr>] [] ((), 0) Background of
     (x, (w', n), c') \<Rightarrow> n = 3 \<and> (case x of Inr es \<Rightarrow> map (Path_String \<circ> e_Path) es =
            [''a/d'', ''a/d/d'', ''a/d/d/d'', ''a/d/f'', ''a/f''] | Inl _ \<Rightarrow> False)"
    by code_simp
  ultimately show ?thesis using run by simp
qed

end
