(* ===== verification/Sftp_Theorems.thy ===== *)
theory Sftp_Theorems
  imports Sftp_Adapter Remote_Theorems
begin

text \<open>
  The SFTP adapter: its requests only make calls beneath its root and on its current session,
  it closes every session it opened, and a \<^verbatim>\<open>Write\<close> replaces its destination by the complete
  source or not at all.
\<close>

definition sftp_backend ::
  "('x, 'i, 'h) sftp_adapter \<Rightarrow> (('x, 'i) sftp_state, slice_iterator, ('x, 'i) sftp_state consumer) backend" where
  "sftp_backend a =
     \<lparr>be_Capabilities = sftp_Capabilities a, be_Open = sftp_OpenStream a, be_OpenRange = sftp_OpenRange a,
      be_Write = sftp_Write a, be_OpenWriter = sftp_OpenWriter a, be_Delete = sftp_Delete a,
      be_List = sftp_List a, be_Stat = sftp_Stat a, be_Copy = sftp_Copy a, be_Move = sftp_Move a,
      be_SetMetadata = sftp_SetMetadata a, be_Checksum = sftp_Checksum a,
      be_Visibility = sftp_Visibility a, be_SetVisibility = sftp_SetVisibility a,
      be_iterator = slice_iterator_ops\<rparr>"

section \<open>Calls\<close>

text \<open>One call on a session \<open>i\<close>. Every name in it is under the root of the adapter.\<close>

inductive sftp_call :: "('x, 'i, 'h) sftp_adapter \<Rightarrow> 'i \<Rightarrow> 'x \<Rightarrow> 'x \<Rightarrow> bool" for a i where
  call_Open: "under (sa_root a) name \<Longrightarrow> sftp_call a i w (snd (ss_Open (sa_ops a) i name w))"
| call_OpenFile: "under (sa_root a) name \<Longrightarrow> sftp_call a i w (snd (ss_OpenFile (sa_ops a) i name w))"
| call_Stat: "under (sa_root a) name \<Longrightarrow> sftp_call a i w (snd (ss_Stat (sa_ops a) i name w))"
| call_Lstat: "under (sa_root a) name \<Longrightarrow> sftp_call a i w (snd (ss_Lstat (sa_ops a) i name w))"
| call_ReadDir: "under (sa_root a) name \<Longrightarrow>
    sftp_call a i w (fst (snd (ss_ReadDirContext (sa_ops a) i name w c)))"
| call_Remove: "under (sa_root a) name \<Longrightarrow> sftp_call a i w (snd (ss_Remove (sa_ops a) i name w))"
| call_MkdirAll: "under (sa_root a) name \<Longrightarrow> sftp_call a i w (snd (ss_MkdirAll (sa_ops a) i name w))"
| call_Rename: "under (sa_root a) old \<Longrightarrow> under (sa_root a) new \<Longrightarrow>
    sftp_call a i w (snd (ss_Rename (sa_ops a) i old new w))"
| call_PosixRename: "under (sa_root a) old \<Longrightarrow> under (sa_root a) new \<Longrightarrow>
    sftp_call a i w (snd (ss_PosixRename (sa_ops a) i old new w))"
| call_random: "sftp_call a i w (snd (sa_random a w))"
| call_Write: "sftp_call a i w (snd (sf_Write (sa_ops a) h chunk w))"
| call_Seek: "sftp_call a i w (snd (sf_Seek (sa_ops a) h offset w))"
| call_Sync: "sftp_call a i w (snd (sf_Sync (sa_ops a) h w))"
| call_Close: "sftp_call a i w (snd (sf_Close (sa_ops a) h w))"

definition sftp_calls :: "('x, 'i, 'h) sftp_adapter \<Rightarrow> 'i \<Rightarrow> 'x \<Rightarrow> 'x \<Rightarrow> bool" where
  "sftp_calls a i = (sftp_call a i)\<^sup>*\<^sup>*"

definition handle_closed :: "('x, 'i, 'h) sftp_adapter \<Rightarrow> 'x \<Rightarrow> 'x \<Rightarrow> bool" where
  "handle_closed a w w' = (\<exists>h. w' = snd (sf_Close (sa_ops a) h w))"

abbreviation sftp_run :: "('x, 'i, 'h) sftp_adapter \<Rightarrow> ('x, 'i) remote \<Rightarrow> ('x, 'i) remote \<Rightarrow> bool" where
  "sftp_run a \<equiv> remote_run (sa_connector a) (ss_Close (sa_ops a)) (sftp_calls a) (handle_closed a)"

lemma calls_refl: "reflp (sftp_calls a i)"
  by (rule reflpI) (simp add: sftp_calls_def)

lemma calls_trans: "transp (sftp_calls a i)"
  by (simp add: sftp_calls_def)

lemma calls_stay [intro]: "sftp_calls a i w w"
  by (simp add: sftp_calls_def)

lemma calls_one: "sftp_call a i w w' \<Longrightarrow> sftp_calls a i w w'"
  by (simp add: sftp_calls_def)

lemma calls_snoc: "sftp_calls a i w w' \<Longrightarrow> sftp_call a i w' w'' \<Longrightarrow> sftp_calls a i w w''"
  by (simp add: sftp_calls_def)

lemma calls_join: "sftp_calls a i w w' \<Longrightarrow> sftp_calls a i w' w'' \<Longrightarrow> sftp_calls a i w w''"
  by (simp add: sftp_calls_def)

text \<open>A call with its result: the world after it is one step further.\<close>

lemma call_result:
  "sftp_call a i w (snd y) \<Longrightarrow> y = (x, w') \<Longrightarrow> sftp_call a i w w'"
  "sftp_call a i w (fst (snd z)) \<Longrightarrow> z = (x', w', c') \<Longrightarrow> sftp_call a i w w'"
  by simp_all

section \<open>Every operation is a run\<close>

lemma rejectSymlinks_calls:
  assumes "sftp_rejectSymlinks a i p final w = (e, w')" and "root_ok (sa_root a)" and "wf_path p"
  shows "sftp_calls a i w w'"
proof (rule reject_links_touch [OF assms(1) [unfolded sftp_rejectSymlinks_def] calls_refl calls_trans])
  fix name w assume "name \<in> set (link_candidates (sa_root a) p final)"
  from link_candidates_under [OF assms(2,3) this]
  have "sftp_call a i w (snd (ss_Lstat (sa_ops a) i name w))" by (rule call_Lstat)
  then show "sftp_calls a i w (snd (sftp_is_link (sa_ops a) i name w))"
    by (auto simp: sftp_is_link_def split: prod.splits sum.splits intro: calls_one)
qed

lemma checked_calls:
  assumes "sftp_checked a p f i w c = (x, w', c')" and "root_ok (sa_root a)" and "wf_path p"
    and "\<And>w x w'. f i w = (x, w') \<Longrightarrow> sftp_calls a i w w'"
  shows "sftp_calls a i w w'"
proof -
  obtain e w1 where e: "sftp_rejectSymlinks a i p True w = (e, w1)" by (metis surj_pair)
  have first: "sftp_calls a i w w1" using rejectSymlinks_calls [OF e assms(2,3)] .
  show ?thesis
  proof (cases e)
    case None
    obtain y w2 where y: "f i w1 = (y, w2)" by (metis surj_pair)
    with assms(1) e None have "w' = w2" by (simp add: sftp_checked_def)
    with calls_join [OF first assms(4) [OF y]] show ?thesis by simp
  qed (use assms(1) e first in \<open>simp add: sftp_checked_def\<close>)
qed

lemma remotePath_under: "root_ok (sa_root a) \<Longrightarrow> wf_path p \<Longrightarrow> under (sa_root a) (sftp_remotePath a p)"
  by (simp add: sftp_remotePath_def remote_path_under)

lemma open_run:
  assumes "sftp_open a p r c = (x, r', c')" and "root_ok (sa_root a)" and "wf_path p"
  shows "sftp_run a r r'"
proof -
  let ?f = "sftp_checked a p (\<lambda>i. ss_Open (sa_ops a) i (sftp_remotePath a p))"
  obtain y where "with_session (sa_connector a) (ss_Close (sa_ops a)) sftp_isConnectionError True ?f r c
      = (y, r', c')"
    using assms(1) by (auto simp: sftp_open_def sftp_withSession_def split: prod.splits)
  then show ?thesis
  proof (rule with_session_run)
    fix i w c x w' c' assume "?f i w c = (x, w', c')"
    then show "sftp_calls a i w w'"
      by (rule checked_calls [OF _ assms(2,3)])
        (auto intro!: calls_one call_result(1) [OF call_Open [OF remotePath_under [OF assms(2,3)]]])
  qed
qed

lemma open_at_calls:
  assumes "sftp_open_at a p offset i w = (x, w')" and "root_ok (sa_root a)" and "wf_path p"
  shows "sftp_calls a i w w'"
proof -
  obtain y w1 where y: "ss_Open (sa_ops a) i (sftp_remotePath a p) w = (y, w1)" by (metis surj_pair)
  have first: "sftp_calls a i w w1"
    using calls_one [OF call_result(1) [OF call_Open [OF remotePath_under [OF assms(2,3)]] y]] .
  show ?thesis
  proof (cases y)
    case (Inl e)
    with assms(1) y first show ?thesis by (simp add: sftp_open_at_def)
  next
    case (Inr h)
    obtain e w2 where e: "sf_Seek (sa_ops a) h offset w1 = (e, w2)" by (metis surj_pair)
    have second: "sftp_calls a i w w2" using calls_snoc [OF first call_result(1) [OF call_Seek e]] .
    have "w' = w2 \<or> w' = snd (sf_Close (sa_ops a) h w2)"
      using assms(1) y Inr e by (auto simp: sftp_open_at_def split: option.splits)
    with second calls_snoc [OF second call_Close] show ?thesis by auto
  qed
qed

lemma OpenRange_run:
  assumes "sftp_OpenRange a p br r c = (x, r', c')" and "root_ok (sa_root a)" and "wf_path p"
  shows "sftp_run a r r'"
proof (cases "sftp_validByteRange br")
  case True
  let ?f = "sftp_checked a p (sftp_open_at a p (br_Offset br))"
  obtain y where "with_session (sa_connector a) (ss_Close (sa_ops a)) sftp_isConnectionError True ?f r c
      = (y, r', c')"
    using assms(1) True by (auto simp: sftp_OpenRange_def sftp_withSession_def split: prod.splits sum.splits)
  then show ?thesis
    by (rule with_session_run) (erule checked_calls [OF _ assms(2,3)], erule open_at_calls [OF _ assms(2,3)])
qed (use assms(1) in \<open>auto simp: sftp_OpenRange_def intro: remote_run.intros\<close>)

lemma Stat_run:
  assumes "sftp_Stat a p r c = (x, r', c')" and "root_ok (sa_root a)" and "wf_path p"
  shows "sftp_run a r r'"
proof -
  let ?f = "sftp_checked a p (\<lambda>i. ss_Stat (sa_ops a) i (sftp_remotePath a p))"
  obtain y where "with_session (sa_connector a) (ss_Close (sa_ops a)) sftp_isConnectionError True ?f r c
      = (y, r', c')"
    using assms(1) by (auto simp: sftp_Stat_def sftp_withSession_def split: prod.splits)
  then show ?thesis
  proof (rule with_session_run)
    fix i w c x w' c' assume "?f i w c = (x, w', c')"
    then show "sftp_calls a i w w'"
      by (rule checked_calls [OF _ assms(2,3)])
        (auto intro!: calls_one call_result(1) [OF call_Stat [OF remotePath_under [OF assms(2,3)]]])
  qed
qed

lemma list_calls:
  assumes "sftp_list a d recursive limit i w c = (x, w', c')" and "root_ok (sa_root a)" and "wf_path d"
  shows "sftp_calls a i w w'"
proof -
  obtain e w1 where e: "(if IsRoot d then (None, w) else sftp_rejectSymlinks a i d True w) = (e, w1)"
    by (metis surj_pair)
  have first: "sftp_calls a i w w1"
    using e rejectSymlinks_calls [OF _ assms(2,3)] by (auto split: if_splits)
  show ?thesis
  proof (cases e)
    case None
    with assms(1) e have "walk_remote (sftp_read_dir a i) sftp_denied recursive limit [d] [] w1 c = (x, w', c')"
      by (simp add: sftp_list_def)
    then have "sftp_calls a i w1 w'"
    proof (rule walk_remote_touch [where d = d, OF _ _ _ calls_refl calls_trans])
      fix p w c x w' c' assume at: "at_or_beneath d p" and rd: "sftp_read_dir a i p w c = (x, w', c')"
      obtain y where "ss_ReadDirContext (sa_ops a) i (sftp_remotePath a p) w c = (y, w', c')"
        using rd by (auto simp: sftp_read_dir_def split: prod.splits)
      moreover have "wf_path p" using at by (simp add: at_or_beneath_def)
      ultimately show "sftp_calls a i w w'"
        using calls_one [OF call_result(2) [OF call_ReadDir [OF remotePath_under [OF assms(2)]]]] by blast
    qed (use assms(3) in \<open>simp_all add: at_refl\<close>)
    with first show ?thesis by (rule calls_join)
  qed (use assms(1) e first in \<open>simp add: sftp_list_def\<close>)
qed

lemma List_run:
  assumes "sftp_List a d opts r c = (x, r', c')" and "root_ok (sa_root a)" and "wf_path d"
  shows "sftp_run a r r'"
proof (cases "sint (lo_Limit opts) < 0")
  case False
  let ?f = "sftp_list a d (lo_Recursive opts) (sftp_effectiveListLimit (lo_Limit opts) (sa_maxList a))"
  obtain y where "with_session (sa_connector a) (ss_Close (sa_ops a)) sftp_isConnectionError True ?f r c
      = (y, r', c')"
    using assms(1) False by (auto simp: sftp_List_def sftp_withSession_def split: prod.splits)
  then show ?thesis by (rule with_session_run) (erule list_calls [OF _ assms(2,3)])
qed (use assms(1) in \<open>auto simp: sftp_List_def intro: remote_run.intros\<close>)


lemma fill_calls:
  assumes "sftp_fill (sa_ops a) i h t polls source w c = (e, w', c')" and "under (sa_root a) t"
  shows "sftp_calls a i w w'"
proof -
  let ?ops = "sa_ops a"
  have undo: "sftp_calls a i v (snd (ss_Remove ?ops i t (snd (sf_Close ?ops h v))))" for v
    using calls_snoc [OF calls_one [OF call_Close] call_Remove [OF assms(2)]] .
  obtain ce w1 c1 where cp: "copy_into (sf_Write ?ops h) polls source w c = (ce, w1, c1)"
    by (metis prod_cases3)
  have w1: "sftp_calls a i w w1"
    by (rule copy_into_touch [OF cp calls_refl calls_trans]) (rule calls_one [OF call_Write])
  obtain se w2 where sy: "sf_Sync ?ops h w1 = (se, w2)" by (metis surj_pair)
  have w2: "sftp_calls a i w w2" using calls_snoc [OF w1 call_result(1) [OF call_Sync sy]] .
  obtain fe w3 where cl: "sf_Close ?ops h w2 = (fe, w3)" by (metis surj_pair)
  have w3: "sftp_calls a i w w3" using calls_snoc [OF w2 call_result(1) [OF call_Close cl]] .
  have "w' = snd (ss_Remove ?ops i t (snd (sf_Close ?ops h w1))) \<or>
      w' = snd (ss_Remove ?ops i t (snd (sf_Close ?ops h w2))) \<or>
      w' = snd (ss_Remove ?ops i t w3) \<or> w' = w3"
    using assms(1) by (auto simp: sftp_fill_def Let_def cp sy cl split: option.splits prod.splits if_splits)
  then show ?thesis
    using calls_join [OF w1 undo] calls_join [OF w2 undo] calls_snoc [OF w3 call_Remove [OF assms(2)]] w3
    by (elim disjE) simp_all
qed

lemma publish_calls:
  assumes "sftp_publish a i t d w = (e, w')" and "under (sa_root a) t" and "under (sa_root a) d"
  shows "sftp_calls a i w w'"
proof -
  obtain e1 w1 where rn: "(if sa_atomicRename a then ss_PosixRename (sa_ops a) i t d w
      else ss_Rename (sa_ops a) i t d w) = (e1, w1)" by (metis surj_pair)
  have w1: "sftp_calls a i w w1"
    using rn calls_one [OF call_result(1) [OF call_Rename [OF assms(2,3)]]]
      calls_one [OF call_result(1) [OF call_PosixRename [OF assms(2,3)]]]
    by (cases "sa_atomicRename a") simp_all
  have "w' = w1 \<or> w' = snd (ss_Remove (sa_ops a) i t w1)"
    using assms(1) rn by (auto simp: sftp_publish_def split: option.splits)
  with w1 calls_snoc [OF w1 call_Remove [OF assms(2)]] show ?thesis by auto
qed

text \<open>The way of an upload through the calls, for the proofs that need all of it.\<close>

lemma upload_steps:
  assumes "sftp_upload a p polls source i w c = (x, w', c')"
  obtains (refused) e w1 where "sftp_rejectSymlinks a i p False w = (Some e, w1)" "w' = w1" "\<exists>e. x = Inl e"
  | (present) w1 y w2 where "sftp_rejectSymlinks a i p False w = (None, w1)"
      "ss_Stat (sa_ops a) i (sftp_remotePath a p) w1 = (y, w2)" "w' = w2" "\<exists>e. x = Inl e"
  | (no_dir) w1 y w2 e w3 where "sftp_rejectSymlinks a i p False w = (None, w1)"
      "ss_Stat (sa_ops a) i (sftp_remotePath a p) w1 = (y, w2)"
      "ss_MkdirAll (sa_ops a) i (path_Dir (sftp_remotePath a p)) w2 = (e, w3)"
      "w' = w3" "\<exists>e. x = Inl e"
  | (no_name) w1 y w2 w3 e w4 where "sftp_rejectSymlinks a i p False w = (None, w1)"
      "ss_Stat (sa_ops a) i (sftp_remotePath a p) w1 = (y, w2)"
      "ss_MkdirAll (sa_ops a) i (path_Dir (sftp_remotePath a p)) w2 = (None, w3)"
      "temporary_path ''sftp'' (sa_random a) (path_Dir (sftp_remotePath a p)) w3 = (Inl e, w4)"
      "w' = w4" "\<exists>e. x = Inl e"
  | (temporary) w1 y w2 w3 t w4 z w5 where "sftp_rejectSymlinks a i p False w = (None, w1)"
      "ss_Stat (sa_ops a) i (sftp_remotePath a p) w1 = (y, w2)"
      "ss_MkdirAll (sa_ops a) i (path_Dir (sftp_remotePath a p)) w2 = (None, w3)"
      "temporary_path ''sftp'' (sa_random a) (path_Dir (sftp_remotePath a p)) w3 = (Inr t, w4)"
      "ss_OpenFile (sa_ops a) i t w4 = (z, w5)"
      "(\<exists>e. z = Inl e \<and> w' = w5 \<and> (\<exists>e. x = Inl e)) \<or>
       (\<exists>h fe w6 c1. z = Inr h \<and> sftp_fill (sa_ops a) i h t polls source w5 c = (fe, w6, c1) \<and>
          (fe \<noteq> None \<and> w' = w6 \<and> (\<exists>e. x = Inl e) \<or>
           fe = None \<and> (\<exists>pe. sftp_publish a i t (sftp_remotePath a p) w6 = (pe, w') \<and>
             (pe \<noteq> None \<longrightarrow> (\<exists>e. x = Inl e)))))"
proof -
  let ?ops = "sa_ops a" and ?d = "sftp_remotePath a p"
  obtain e1 w1 where s1: "sftp_rejectSymlinks a i p False w = (e1, w1)" by (metis surj_pair)
  obtain y w2 where s2: "ss_Stat ?ops i ?d w1 = (y, w2)" by (metis surj_pair)
  obtain e3 w3 where s3: "ss_MkdirAll ?ops i (path_Dir ?d) w2 = (e3, w3)" by (metis surj_pair)
  obtain t4 w4 where s4: "temporary_path ''sftp'' (sa_random a) (path_Dir ?d) w3 = (t4, w4)"
    by (metis surj_pair)
  note step = assms [unfolded sftp_upload_def Let_def s1 prod.case]
  show thesis
  proof (cases e1)
    case (Some e)
    with step s1 show thesis by (intro refused) auto
  next
    case e1: None
    note step = step [unfolded e1 option.case s2 prod.case s3]
    show thesis
    proof (cases "(\<exists>e. x = Inl e) \<and> w' = w2")
      case True
      with s1 s2 e1 show thesis by (intro present) auto
    next
      case no2: False
      show thesis
      proof (cases e3)
        case (Some e)
        have "(\<exists>e. x = Inl e) \<and> w' = w3" using step Some no2 by (auto split: if_splits sum.splits)
        with s1 s2 s3 e1 Some show thesis by (intro no_dir) auto
      next
        case e3: None
        show thesis
        proof (cases t4)
          case (Inl e)
          have "(\<exists>e. x = Inl e) \<and> w' = w4"
            using step e3 s4 Inl no2 by (auto split: if_splits sum.splits)
          with s1 s2 s3 s4 e1 e3 Inl show thesis by (intro no_name) auto
        next
          case (Inr t)
          obtain z w5 where s5: "ss_OpenFile ?ops i t w4 = (z, w5)" by (metis surj_pair)
          have "(\<exists>e. z = Inl e \<and> w' = w5 \<and> (\<exists>e. x = Inl e)) \<or>
            (\<exists>h fe w6 c1. z = Inr h \<and> sftp_fill ?ops i h t polls source w5 c = (fe, w6, c1) \<and>
              (fe \<noteq> None \<and> w' = w6 \<and> (\<exists>e. x = Inl e) \<or>
               fe = None \<and> (\<exists>pe. sftp_publish a i t ?d w6 = (pe, w') \<and>
                 (pe \<noteq> None \<longrightarrow> (\<exists>e. x = Inl e)))))"
          proof (cases z)
            case Inl5: (Inl e)
            then show ?thesis using step e3 s4 Inr s5 no2 by (auto split: if_splits sum.splits)
          next
            case Inr5: (Inr h)
            obtain fe w6 c1 where s6: "sftp_fill ?ops i h t polls source w5 c = (fe, w6, c1)"
              by (metis prod_cases3)
            obtain pe w7 where s7: "sftp_publish a i t ?d w6 = (pe, w7)" by (metis surj_pair)
            show ?thesis using step e3 s4 Inr s5 Inr5 s6 s7 no2
              by (auto split: if_splits sum.splits option.splits)
          qed
          with s1 s2 s3 s4 s5 e1 e3 Inr show thesis by (intro temporary) auto
        qed
      qed
    qed
  qed
qed

lemma upload_calls:
  assumes "sftp_upload a p polls source i w c = (x, w', c')"
    and "root_ok (sa_root a)" and "wf_path p" and "\<not> IsRoot p"
  shows "sftp_calls a i w w'"
proof -
  note names = destination_names [OF assms(2-4), folded sftp_remotePath_def]
  note dest = remotePath_under [OF assms(2,3)]
  have checked: "sftp_calls a i w w1" if "sftp_rejectSymlinks a i p False w = (e, w1)" for e w1
    using rejectSymlinks_calls [OF that assms(2,3)] .
  have stat: "sftp_calls a i w w2"
    if "sftp_rejectSymlinks a i p False w = (e, w1)"
      and "ss_Stat (sa_ops a) i (sftp_remotePath a p) w1 = (y, w2)" for e w1 y w2
    using calls_snoc [OF checked [OF that(1)] call_result(1) [OF call_Stat [OF dest] that(2)]] .
  have made: "sftp_calls a i w w3"
    if "sftp_rejectSymlinks a i p False w = (e, w1)"
      and "ss_Stat (sa_ops a) i (sftp_remotePath a p) w1 = (y, w2)"
      and "ss_MkdirAll (sa_ops a) i (path_Dir (sftp_remotePath a p)) w2 = (e3, w3)" for e w1 y w2 e3 w3
    using calls_snoc [OF stat [OF that(1,2)] call_result(1) [OF call_MkdirAll [OF names(1)] that(3)]] .
  have random: "sftp_call a i w3 w4"
    if "temporary_path ''sftp'' (sa_random a) d w3 = (t, w4)" for t d w3 w4
    using that call_random [of a i w3] by (auto simp: temporary_path_def split: prod.splits sum.splits)
  from assms(1) show ?thesis
  proof (cases rule: upload_steps)
    case (temporary w1 y w2 w3 t w4 z w5)
    have t: "under (sa_root a) t" using names(2) [OF temporary(4)] by simp
    have w5: "sftp_calls a i w w5"
      using calls_snoc [OF calls_snoc [OF made [OF temporary(1-3)] random [OF temporary(4)]]
          call_result(1) [OF call_OpenFile [OF t] temporary(5)]] .
    from temporary(6) show ?thesis
    proof (elim disjE exE conjE)
      fix h fe w6 c1 assume fill: "sftp_fill (sa_ops a) i h t polls source w5 c = (fe, w6, c1)" and "w' = w6"
      then show ?thesis using calls_join [OF w5 fill_calls [OF fill t]] by simp
    next
      fix h fe w6 c1 pe assume fill: "sftp_fill (sa_ops a) i h t polls source w5 c = (fe, w6, c1)"
        and pub: "sftp_publish a i t (sftp_remotePath a p) w6 = (pe, w')"
      show ?thesis
        using calls_join [OF calls_join [OF w5 fill_calls [OF fill t]] publish_calls [OF pub t dest]] .
    qed (use w5 in simp)
  next
    case (no_name w1 y w2 w3 e w4)
    then show ?thesis using calls_snoc [OF made [OF no_name(1-3)] random [OF no_name(4)]] by simp
  qed (use checked stat made in blast)+
qed

lemma sftp_currentSession_run:
  assumes "sftp_currentSession a r c = (x, r', c')"
  shows "sftp_run a r r'" and "x = Inr i \<Longrightarrow> rm_session r' = Some i"
  using current_session_run [OF assms [unfolded sftp_currentSession_def]] by blast+

lemma write_run:
  assumes "sftp_write a p polls source opts r c = (x, r', c')" and "root_ok (sa_root a)" and "wf_path p"
  shows "sftp_run a r r'"
proof (cases "IsRoot p \<or> wo_IfNoneMatch opts")
  case False
  obtain y r1 c1 where s: "sftp_currentSession a r c = (y, r1, c1)" by (metis prod_cases3)
  have r1: "sftp_run a r r1" using sftp_currentSession_run(1) [OF s] .
  show ?thesis
  proof (cases y)
    case (Inl e)
    with assms(1) False s r1 show ?thesis by (simp add: sftp_write_def)
  next
    case (Inr i)
    obtain z r2 c2 where u: "on_world (sftp_upload a p polls source i) r1 c1 = (z, r2, c2)"
      by (metis prod_cases3)
    have "sftp_run a r1 r2"
      by (rule on_world_run(1) [OF u sftp_currentSession_run(2) [OF s Inr]])
        (rule upload_calls [OF _ assms(2,3)], use False in auto)
    with r1 have r2: "sftp_run a r r2" by (blast intro: remote_run_trans)
    have "r' = r2 \<or> sftp_Stat a p r2 c2 = (x, r', c')"
      using assms(1) False s Inr u by (auto simp: sftp_write_def split: sum.splits)
    then show ?thesis using r2 Stat_run [OF _ assms(2,3)] by (blast intro: remote_run_trans)
  qed
qed (use assms(1) in \<open>auto simp: sftp_write_def intro: remote_run.intros split: if_splits\<close>)

lemma Delete_run:
  assumes "sftp_Delete a p r c = (x, r', c')" and "root_ok (sa_root a)" and "wf_path p"
  shows "sftp_run a r r'"
proof -
  obtain y r1 c1 where s: "sftp_currentSession a r c = (y, r1, c1)" by (metis prod_cases3)
  have r1: "sftp_run a r r1" using sftp_currentSession_run(1) [OF s] .
  show ?thesis
  proof (cases y)
    case (Inl e)
    with assms(1) s r1 show ?thesis by (simp add: sftp_Delete_def)
  next
    case (Inr i)
    let ?f = "\<lambda>w c. case sftp_rejectSymlinks a i p True w of
        (Some e, w1) \<Rightarrow> (Err (sftp_mapError p e), w1, c)
      | (None, w1) \<Rightarrow> (case ss_Remove (sa_ops a) i (sftp_remotePath a p) w1 of
          (e, w2) \<Rightarrow> (unit_res (sftp_mapError p) e, w2, c))"
    from assms(1) s Inr have "on_world ?f r1 c1 = (x, r', c')" by (simp add: sftp_Delete_def)
    then have "sftp_run a r1 r'"
    proof (rule on_world_run(1) [OF _ sftp_currentSession_run(2) [OF s Inr]])
      fix w c x w' c' assume f: "?f w c = (x, w', c')"
      obtain e w1 where e: "sftp_rejectSymlinks a i p True w = (e, w1)" by (metis surj_pair)
      have w1: "sftp_calls a i w w1" using rejectSymlinks_calls [OF e assms(2,3)] .
      have "w' = w1 \<or> w' = snd (ss_Remove (sa_ops a) i (sftp_remotePath a p) w1)"
        using f e by (auto split: option.splits prod.splits)
      with w1 calls_snoc [OF w1 call_Remove [OF remotePath_under [OF assms(2,3)]]]
      show "sftp_calls a i w w'" by auto
    qed
    with r1 show ?thesis by (blast intro: remote_run_trans)
  qed
qed

lemma Move_run:
  assumes "sftp_Move a p q opts r c = (x, r', c')" and "root_ok (sa_root a)" and "wf_path p"
    and "wf_path q" and "\<not> IsRoot q"
  shows "sftp_run a r r'"
proof (cases "\<not> sa_atomicRename a \<or> \<not> mo_Overwrite opts")
  case False
  obtain y r1 c1 where s: "sftp_currentSession a r c = (y, r1, c1)" by (metis prod_cases3)
  have r1: "sftp_run a r r1" using sftp_currentSession_run(1) [OF s] .
  show ?thesis
  proof (cases y)
    case (Inl e)
    with assms(1) False s r1 show ?thesis by (simp add: sftp_Move_def)
  next
    case (Inr i)
    let ?dir = "path_Dir (sftp_remotePath a q)"
    let ?f = "\<lambda>w c. case sftp_rejectSymlinks a i p True w of
        (Some e, w1) \<Rightarrow> (Err (sftp_mapError p e), w1, c)
      | (None, w1) \<Rightarrow> (case sftp_rejectSymlinks a i q False w1 of
          (Some e, w2) \<Rightarrow> (Err (sftp_mapError q e), w2, c)
        | (None, w2) \<Rightarrow> (case ss_MkdirAll (sa_ops a) i ?dir w2 of
            (Some e, w3) \<Rightarrow> (Err e, w3, c)
          | (None, w3) \<Rightarrow> (case ss_PosixRename (sa_ops a) i (sftp_remotePath a p) (sftp_remotePath a q) w3 of
              (e, w4) \<Rightarrow> (unit_res (sftp_mapError p) e, w4, c))))"
    from assms(1) s Inr False have "on_world ?f r1 c1 = (x, r', c')" by (simp add: sftp_Move_def)
    then have "sftp_run a r1 r'"
    proof (rule on_world_run(1) [OF _ sftp_currentSession_run(2) [OF s Inr]])
      fix w c x w' c' assume f: "?f w c = (x, w', c')"
      obtain e1 w1 where e1: "sftp_rejectSymlinks a i p True w = (e1, w1)" by (metis surj_pair)
      obtain e2 w2 where e2: "sftp_rejectSymlinks a i q False w1 = (e2, w2)" by (metis surj_pair)
      obtain e3 w3 where e3: "ss_MkdirAll (sa_ops a) i ?dir w2 = (e3, w3)" by (metis surj_pair)
      have w1: "sftp_calls a i w w1" using rejectSymlinks_calls [OF e1 assms(2,3)] .
      have w2: "sftp_calls a i w w2" using calls_join [OF w1 rejectSymlinks_calls [OF e2 assms(2,4)]] .
      have w3: "sftp_calls a i w w3"
        using calls_snoc [OF w2 call_result(1) [OF call_MkdirAll e3]]
          destination_names(1) [OF assms(2,4,5)] by (simp add: sftp_remotePath_def)
      have "w' = w1 \<or> w' = w2 \<or> w' = w3 \<or>
          w' = snd (ss_PosixRename (sa_ops a) i (sftp_remotePath a p) (sftp_remotePath a q) w3)"
        using f by (auto simp: e1 e2 e3 split: option.splits prod.splits)
      with w1 w2 w3 calls_snoc [OF w3 call_PosixRename [OF remotePath_under [OF assms(2,3)]
          remotePath_under [OF assms(2,4)]]]
      show "sftp_calls a i w w'" by auto
    qed
    with r1 show ?thesis by (blast intro: remote_run_trans)
  qed
qed (use assms(1) in \<open>auto simp: sftp_Move_def intro: remote_run.intros\<close>)

lemma open_not_closed: "sftp_open a p r c = (Ok h, r', c') \<Longrightarrow> \<not> rm_closed r"
  by (auto simp: sftp_open_def sftp_withSession_def as_res_def dest: with_session_open
      split: prod.splits sum.splits)

lemma Copy_run:
  assumes "sftp_Copy a p q opts r c = (x, r', c')" and "root_ok (sa_root a)" and "wf_path p" and "wf_path q"
  shows "sftp_run a r r'"
proof (cases "co_Overwrite opts")
  case True
  obtain y r1 c1 where o: "sftp_open a p r c = (y, r1, c1)" by (metis prod_cases3)
  have r1: "sftp_run a r r1" using open_run [OF o assms(2,3)] .
  show ?thesis
  proof (cases y)
    case (Ok h)
    let ?opts = "\<lparr>wo_ContentType = [], wo_Metadata = None, wo_Visibility = VisibilityUnset,
      wo_IfNoneMatch = False\<rparr>"
    obtain z r2 c2 where w: "sftp_write a q 2 (sf_Reads (sa_ops a) h (rm_world r1)) ?opts r1 c1 = (z, r2, c2)"
      by (metis prod_cases3)
    have r2: "sftp_run a r r2" using remote_run_trans [OF write_run [OF w assms(2,4)] r1] .
    have "\<not> rm_closed r2" using open_not_closed [OF o [unfolded Ok]] remote_run_closed [OF r2] by simp
    then have "sftp_run a r (r2\<lparr>rm_world := snd (sf_Close (sa_ops a) h (rm_world r2))\<rparr>)"
      by (rule released [OF r2]) (auto simp: handle_closed_def)
    with assms(1) True o Ok w show ?thesis by (simp add: sftp_Copy_def)
  qed (use assms(1) True o r1 in \<open>simp_all add: sftp_Copy_def\<close>)
qed (use assms(1) in \<open>auto simp: sftp_Copy_def intro: remote_run.intros\<close>)

lemma Checksum_run:
  assumes "sftp_Checksum a p algorithm r c = (x, r', c')" and "root_ok (sa_root a)" and "wf_path p"
  shows "sftp_run a r r'"
proof -
  obtain y r1 c1 where o: "sftp_open a p r c = (y, r1, c1)" by (metis prod_cases3)
  have r1: "sftp_run a r r1" using open_run [OF o assms(2,3)] .
  show ?thesis
  proof (cases y)
    case (Ok h)
    have "\<not> rm_closed r1" using open_not_closed [OF o [unfolded Ok]] remote_run_closed [OF r1] by simp
    then have "sftp_run a r (r1\<lparr>rm_world := snd (sf_Close (sa_ops a) h (rm_world r1))\<rparr>)"
      by (rule released [OF r1]) (auto simp: handle_closed_def)
    moreover have "r' = r1\<lparr>rm_world := snd (sf_Close (sa_ops a) h (rm_world r1))\<rparr>"
      using assms(1) o Ok
      by (auto simp: sftp_Checksum_def Let_def split: ChecksumAlgorithm.splits prod.splits option.splits)
    ultimately show ?thesis by simp
  qed (use assms(1) o r1 in \<open>simp_all add: sftp_Checksum_def\<close>)
qed

lemma sftp_request_run:
  assumes "run_request (sftp_backend a) req r c = (x, r', c')"
    and "root_ok (sa_root a)" and "remote_request req"
  shows "sftp_run a r r'"
proof (cases req)
  case (ReqOpen p)
  with assms show ?thesis
    by (auto simp: remote_request_def sftp_backend_def sftp_OpenStream_def split: prod.splits
        dest!: drop_result_state intro: open_run)
next
  case (ReqOpenRange p br)
  with assms show ?thesis
    by (auto simp: remote_request_def sftp_backend_def dest!: drop_result_state intro: OpenRange_run)
next
  case (ReqWrite p rs opts)
  with assms show ?thesis
    by (auto simp: remote_request_def sftp_backend_def sftp_Write_def dest!: drop_result_state intro: write_run)
next
  case (ReqOpenWriter p opts)
  with assms have "r' = r"
    by (auto simp: sftp_backend_def sftp_OpenWriter_def check_ctx_def dest!: drop_result_state
        split: prod.splits option.splits if_splits)
  then show ?thesis by (simp add: stay)
next
  case (ReqDelete p)
  with assms show ?thesis by (auto simp: remote_request_def sftp_backend_def intro: Delete_run)
next
  case (ReqList p opts)
  with assms show ?thesis
    by (auto simp: remote_request_def sftp_backend_def dest!: drop_result_state intro: List_run)
next
  case (ReqStat p)
  with assms show ?thesis
    by (auto simp: remote_request_def sftp_backend_def dest!: drop_result_state intro: Stat_run)
next
  case (ReqCopy p q opts)
  with assms show ?thesis by (auto simp: remote_request_def sftp_backend_def intro: Copy_run)
next
  case (ReqMove p q opts)
  with assms show ?thesis by (auto simp: remote_request_def sftp_backend_def intro: Move_run)
next
  case (ReqChecksum p algorithm)
  with assms show ?thesis
    by (auto simp: remote_request_def sftp_backend_def dest!: drop_result_state intro: Checksum_run)
qed (use assms in \<open>auto simp: sftp_backend_def sftp_SetMetadata_def sftp_Visibility_def
  sftp_SetVisibility_def drop_result_def intro: remote_run.intros\<close>)

lemma sftp_executes_run:
  assumes "executes (sftp_backend a) reqs r r'" and "root_ok (sa_root a)" and "list_all remote_request reqs"
  shows "sftp_run a r r'"
  using assms
proof (induction rule: executes.induct)
  case (serve req s c x t c' reqs u)
  then show ?case using sftp_request_run [OF serve.hyps(1)] by (auto intro: remote_run_trans)
qed (simp add: stay)

lemma sftp_newAdapter_ok:
  assumes "sftp_newAdapter ops rand ctx dial root maxList w = (Ok (a, r), w', c')"
  shows "root_ok (sa_root a) \<and> remote_ok r \<and> 0 < sint (sa_maxList a)"
  using assms
  by (auto simp: sftp_newAdapter_def check_ctx_def remote_ok_def sftp_validateRoot_def Let_def
      bind_res_Ok_iff not_le
      dest!: validate_root_ok split: option.splits res.splits prod.splits if_splits sum.splits)

lemma sftp_Open_ok:
  assumes "sftp_Open lib ops rand ctx config w = (Ok (a, r), w', c')"
  shows "root_ok (sa_root a) \<and> remote_ok r \<and> 0 < sint (sa_maxList a)"
  using assms
  by (auto simp: sftp_Open_def dest!: sftp_newAdapter_ok split: option.splits res.splits prod.splits)

section \<open>Writes\<close>

text \<open>
  What the write relies on of the server, with \<open>V\<close> the files of the server by name and \<open>N\<close> the
  name a handle was opened with; no other client changes them meanwhile. Queries, directories
  and sessions do not change a file; an exclusive create makes an empty file or finds none; a
  failing write has written a part; a failing create, remove or rename may or may not have taken
  effect, as its answer may have been lost.
\<close>

definition sftp_server ::
  "('x, 'i, 'h) sftp_adapter \<Rightarrow> ('x \<Rightarrow> string \<Rightarrow> string option) \<Rightarrow> ('h \<Rightarrow> string) \<Rightarrow> bool" where
  "sftp_server a V N =
     (let ops = sa_ops a in
      (\<forall>i n w. V (snd (ss_Stat ops i n w)) = V w) \<and> (\<forall>i n w. V (snd (ss_Lstat ops i n w)) = V w) \<and>
      (\<forall>i n w. V (snd (ss_MkdirAll ops i n w)) = V w) \<and> (\<forall>w. V (snd (sa_random a w)) = V w) \<and>
      (\<forall>h w. V (snd (sf_Sync ops h w)) = V w) \<and> (\<forall>h w. V (snd (sf_Close ops h w)) = V w) \<and>
      (\<forall>i w. V (snd (ss_Close ops i w)) = V w) \<and>
      (\<forall>c w. V (fst (snd (sa_connector a c w))) = V w) \<and>
      (\<forall>i n w. case ss_OpenFile ops i n w of
         (Inr h, w') \<Rightarrow> N h = n \<and> V w n = None \<and> V w' = (V w)(n \<mapsto> [])
       | (Inl e, w') \<Rightarrow> V w' = V w \<or> V w n = None \<and> V w' = (V w)(n \<mapsto> [])) \<and>
      (\<forall>h chunk w old. V w (N h) = Some old \<longrightarrow>
         (\<exists>k. V (snd (sf_Write ops h chunk w)) = (V w)(N h \<mapsto> old @ take k chunk) \<and>
              (fst (sf_Write ops h chunk w) = None \<longrightarrow> k = length chunk))) \<and>
      (\<forall>i n w. V (snd (ss_Remove ops i n w)) = V w \<or> V (snd (ss_Remove ops i n w)) = (V w)(n := None)) \<and>
      (\<forall>rename\<in>{ss_Rename ops, ss_PosixRename ops}. \<forall>i old new w. old \<noteq> new \<longrightarrow>
         fst (rename i old new w) \<noteq> None \<and> V (snd (rename i old new w)) = V w \<or>
         V (snd (rename i old new w)) = (V w)(new := V w old, old := None)))"

lemma sftp_server_quiet:
  assumes "sftp_server a V N"
  shows "V (snd (ss_Stat (sa_ops a) i n w)) = V w" "V (snd (ss_Lstat (sa_ops a) i n w)) = V w"
    "V (snd (ss_MkdirAll (sa_ops a) i n w)) = V w" "V (snd (sa_random a w)) = V w"
    "V (snd (sf_Sync (sa_ops a) h w)) = V w" "V (snd (sf_Close (sa_ops a) h w)) = V w"
    "V (snd (ss_Close (sa_ops a) i w)) = V w" "V (fst (snd (sa_connector a c w))) = V w"
  using assms by (simp_all add: sftp_server_def Let_def)

lemma sftp_server_create:
  assumes "sftp_server a V N" and "ss_OpenFile (sa_ops a) i n w = (z, w')"
  shows "z = Inr h \<Longrightarrow> N h = n \<and> V w n = None \<and> V w' = (V w)(n \<mapsto> [])"
    and "V w' = V w \<or> V w n = None \<and> V w' = (V w)(n \<mapsto> [])"
proof -
  have "case ss_OpenFile (sa_ops a) i n w of
      (Inr h, w') \<Rightarrow> N h = n \<and> V w n = None \<and> V w' = (V w)(n \<mapsto> [])
    | (Inl e, w') \<Rightarrow> V w' = V w \<or> V w n = None \<and> V w' = (V w)(n \<mapsto> [])"
    using assms(1) by (simp add: sftp_server_def Let_def)
  then show "z = Inr h \<Longrightarrow> N h = n \<and> V w n = None \<and> V w' = (V w)(n \<mapsto> [])"
    and "V w' = V w \<or> V w n = None \<and> V w' = (V w)(n \<mapsto> [])"
    by (cases z; simp add: assms(2))+
qed

lemma sftp_server_remove:
  assumes "sftp_server a V N"
  shows "V (snd (ss_Remove (sa_ops a) i n w)) = V w \<or> V (snd (ss_Remove (sa_ops a) i n w)) = (V w)(n := None)"
  using assms by (simp add: sftp_server_def Let_def)

lemma sftp_server_write:
  assumes "sftp_server a V N" and "V w (N h) = Some old"
  obtains k where "V (snd (sf_Write (sa_ops a) h chunk w)) = (V w)(N h \<mapsto> old @ take k chunk)"
    and "fst (sf_Write (sa_ops a) h chunk w) = None \<longrightarrow> k = length chunk"
proof -
  have "\<forall>h chunk w old. V w (N h) = Some old \<longrightarrow>
      (\<exists>k. V (snd (sf_Write (sa_ops a) h chunk w)) = (V w)(N h \<mapsto> old @ take k chunk) \<and>
        (fst (sf_Write (sa_ops a) h chunk w) = None \<longrightarrow> k = length chunk))"
    using assms(1) by (simp add: sftp_server_def Let_def)
  with assms(2) that show thesis by blast
qed

lemma sftp_server_rename:
  assumes "sftp_server a V N" and "old \<noteq> new"
    and "(if sa_atomicRename a then ss_PosixRename (sa_ops a) i old new w
          else ss_Rename (sa_ops a) i old new w) = (e, w')"
  shows "e \<noteq> None \<and> V w' = V w \<or> V w' = (V w)(new := V w old, old := None)"
proof -
  let ?f = "if sa_atomicRename a then ss_PosixRename (sa_ops a) else ss_Rename (sa_ops a)"
  have all: "\<forall>rename\<in>{ss_Rename (sa_ops a), ss_PosixRename (sa_ops a)}. \<forall>i old new w. old \<noteq> new \<longrightarrow>
      fst (rename i old new w) \<noteq> None \<and> V (snd (rename i old new w)) = V w \<or>
      V (snd (rename i old new w)) = (V w)(new := V w old, old := None)"
    using assms(1) unfolding sftp_server_def Let_def by (elim conjE)
  have "?f \<in> {ss_Rename (sa_ops a), ss_PosixRename (sa_ops a)}" by simp
  from bspec [OF all this, THEN spec, THEN spec, THEN spec, THEN spec, THEN mp, OF assms(2)]
  have "fst (?f i old new w) \<noteq> None \<and> V (snd (?f i old new w)) = V w \<or>
      V (snd (?f i old new w)) = (V w)(new := V w old, old := None)" .
  moreover have "?f i old new w = (e, w')" using assms(3) by (simp split: if_splits)
  ultimately show ?thesis by (simp only: fst_conv snd_conv)
qed

lemma copy_into_file:
  assumes "sftp_server a V N" and "V w (N h) = Some old"
    and "copy_into (sf_Write (sa_ops a) h) polls rs w c = (e, w', c')"
  shows "\<exists>content. V w' = (V w)(N h \<mapsto> old @ content) \<and> (e = None \<longrightarrow> io_copy rs = (content, None))"
  using assms(2,3)
proof (induction rs arbitrary: old w c)
  case Nil
  then show ?case by (intro exI [of _ "[]"]) (auto split: prod.splits simp: fun_upd_idem)
next
  case (Cons x rs)
  obtain chunk er where x: "x = (chunk, er)" by (metis surj_pair)
  obtain pe c1 where p: "poll_times polls c = (pe, c1)" by (metis surj_pair)
  show ?case
  proof (cases pe)
    case (Some e1)
    with Cons.prems p x show ?thesis by (intro exI [of _ "[]"]) (auto simp: fun_upd_idem)
  next
    case None
    obtain we w1 where w: "(if chunk = [] then (None, w) else sf_Write (sa_ops a) h chunk w) = (we, w1)"
      by (metis surj_pair)
    obtain k where k: "V w1 = (V w)(N h \<mapsto> old @ take k chunk)" "we = None \<Longrightarrow> k = length chunk"
    proof (cases "chunk = []")
      case True
      with w that [of 0] Cons.prems(1) show ?thesis by (auto simp: fun_upd_idem)
    next
      case False
      obtain k where "V (snd (sf_Write (sa_ops a) h chunk w)) = (V w)(N h \<mapsto> old @ take k chunk)"
        "fst (sf_Write (sa_ops a) h chunk w) = None \<longrightarrow> k = length chunk"
        by (rule sftp_server_write [OF assms(1) Cons.prems(1), of chunk])
      with False w that [of k] show ?thesis by simp
    qed
    show ?thesis
    proof (cases we)
      case (Some e1)
      with Cons.prems(2) x p None w have "w' = w1" "e = Some e1" by simp_all
      with k(1) show ?thesis by blast
    next
      case we: None
      with k have v1: "V w1 = (V w)(N h \<mapsto> old @ chunk)" by simp
      show ?thesis
      proof (cases er)
        case (Some e1)
        with Cons.prems(2) x p None w we
        have "w' = w1" "e = (if e1 = Sentinel IoEOF then None else Some e1)" by simp_all
        with v1 x Some show ?thesis by (intro exI [of _ chunk]) simp
      next
        case er: None
        with Cons.prems(2) x p None w we
        have rec: "copy_into (sf_Write (sa_ops a) h) polls rs w1 c1 = (e, w', c')" by simp
        from v1 have "V w1 (N h) = Some (old @ chunk)" by simp
        from Cons.IH [OF this rec] obtain content where
          "V w' = (V w1)(N h \<mapsto> (old @ chunk) @ content)" "e = None \<longrightarrow> io_copy rs = (content, None)" by blast
        then show ?thesis by (intro exI [of _ "chunk @ content"]) (simp add: v1 x er)
      qed
    qed
  qed
qed

lemma fill_file:
  assumes "sftp_server a V N" and "V w t = Some []" and "N h = t"
    and "sftp_fill (sa_ops a) i h t polls source w c = (e, w', c')"
  shows "(\<forall>n. n \<noteq> t \<longrightarrow> V w' n = V w n) \<and>
    (e = None \<longrightarrow> (\<exists>content. io_copy source = (content, None) \<and> V w' t = Some content))"
proof -
  let ?ops = "sa_ops a"
  note quiet = sftp_server_quiet [OF assms(1)]
  obtain ce w1 c1 where cp: "copy_into (sf_Write ?ops h) polls source w c = (ce, w1, c1)"
    by (metis prod_cases3)
  from copy_into_file [OF assms(1) _ cp] assms(2,3) obtain content where
    w1: "V w1 = (V w)(t \<mapsto> content)" "ce = None \<longrightarrow> io_copy source = (content, None)" by fastforce
  obtain se w2 where sy: "sf_Sync ?ops h w1 = (se, w2)" by (metis surj_pair)
  have w2: "V w2 = V w1" using quiet(5) [of h w1] sy by simp
  obtain fe w3 where cl: "sf_Close ?ops h w2 = (fe, w3)" by (metis surj_pair)
  have w3: "V w3 = V w1" using quiet(6) [of h w2] cl w2 by simp
  have gone: "V (snd (ss_Remove ?ops i t v)) n = V v n" if "n \<noteq> t" for v n
    using sftp_server_remove [OF assms(1), of i t v] that by auto
  consider "e \<noteq> None" "w' = snd (ss_Remove ?ops i t (snd (sf_Close ?ops h w1)))"
    | "e \<noteq> None" "w' = snd (ss_Remove ?ops i t (snd (sf_Close ?ops h w2)))"
    | "e \<noteq> None" "w' = snd (ss_Remove ?ops i t w3)"
    | "e = None" "ce = None" "w' = w3"
    using assms(4) by (auto simp: sftp_fill_def Let_def cp sy cl split: option.splits prod.splits if_splits)
  then show ?thesis
    by cases (use w1 in \<open>auto simp: gone quiet(6) w2 w3\<close>)
qed

lemma publish_file:
  assumes "sftp_server a V N" and "sftp_publish a i t d w = (e, w')" and "t \<noteq> d"
  shows "(\<forall>n. n \<noteq> t \<longrightarrow> n \<noteq> d \<longrightarrow> V w' n = V w n) \<and>
    (V w' d = V w d \<and> e \<noteq> None \<or> V w' d = V w t)"
proof -
  obtain e1 w1 where rn: "(if sa_atomicRename a then ss_PosixRename (sa_ops a) i t d w
      else ss_Rename (sa_ops a) i t d w) = (e1, w1)" by (metis surj_pair)
  note v1 = sftp_server_rename [OF assms(1,3) rn]
  have gone: "V (snd (ss_Remove (sa_ops a) i t v)) n = V v n" if "n \<noteq> t" for v n
    using sftp_server_remove [OF assms(1), of i t v] that by auto
  consider "e1 = None" "e = None" "w' = w1" | "e1 \<noteq> None" "e \<noteq> None" "w' = snd (ss_Remove (sa_ops a) i t w1)"
    using assms(2) rn by (auto simp: sftp_publish_def split: option.splits)
  then show ?thesis
    by cases (use v1 assms(3) in \<open>auto simp: gone\<close>)
qed

lemma is_link_world: "snd (sftp_is_link ops i name w) = snd (ss_Lstat ops i name w)"
  by (auto simp: sftp_is_link_def split: prod.splits sum.splits)

lemma rejectSymlinks_file:
  assumes "sftp_server a V N" and "sftp_rejectSymlinks a i p final w = (e, w')"
  shows "V w' = V w"
proof -
  have "(\<lambda>w w'. V w' = V w) w w'"
    by (rule reject_links_touch [OF assms(2) [unfolded sftp_rejectSymlinks_def]])
      (simp_all add: is_link_world sftp_server_quiet(2) [OF assms(1)] reflp_def transp_def)
  then show ?thesis .
qed

lemma sftp_Stat_file:
  assumes "sftp_server a V N" and "sftp_Stat a p r c = (x, r', c')"
  shows "V (rm_world r') = V (rm_world r)"
proof -
  note quiet = sftp_server_quiet [OF assms(1)]
  let ?f = "sftp_checked a p (\<lambda>i. ss_Stat (sa_ops a) i (sftp_remotePath a p))"
  obtain y where y: "with_session (sa_connector a) (ss_Close (sa_ops a)) sftp_isConnectionError True ?f r c
      = (y, r', c')"
    using assms(2) by (auto simp: sftp_Stat_def sftp_withSession_def split: prod.splits)
  have "remote_run (sa_connector a) (ss_Close (sa_ops a)) (\<lambda>_ w w'. V w' = V w) (\<lambda>_ _. False) r r'"
  proof (rule with_session_run [OF y])
    fix i w c x w' c' assume f: "?f i w c = (x, w', c')"
    obtain e w1 where e: "sftp_rejectSymlinks a i p True w = (e, w1)" by (metis surj_pair)
    have "w' = w1 \<or> w' = snd (ss_Stat (sa_ops a) i (sftp_remotePath a p) w1)"
      using f e by (auto simp: sftp_checked_def split: option.splits prod.splits)
    then show "V w' = V w" using rejectSymlinks_file [OF assms(1) e] quiet(1) by auto
  qed
  then show ?thesis
  proof (rule remote_run_invariant [where J = "\<lambda>w. V w = V (rm_world r)"])
    show "V w' = V (rm_world r)" if "V w = V (rm_world r)" "sa_connector a c w = (x, w', c')" for c w x w' c'
      using that quiet(8) [of c w] by simp
  qed (simp_all add: quiet)
qed

lemma upload_file:
  assumes "sftp_server a V N" and "root_ok (sa_root a)" and "wf_path p" and "\<not> IsRoot p"
    and "\<not> temp_name (segments p)" and "sftp_upload a p polls source i w c = (x, w', c')"
  shows "replaced source (sftp_remotePath a p) (\<exists>u. x = Inr u) (V w) (V w')"
proof -
  let ?d = "sftp_remotePath a p"
  note quiet = sftp_server_quiet [OF assms(1)]
  note names = destination_names [OF assms(2-4), folded sftp_remotePath_def]
  have random: "V w4 = V w3" if "temporary_path ''sftp'' (sa_random a) k w3 = (t, w4)" for t k w3 w4
    using that quiet(4) [of w3] by (auto simp: temporary_path_def split: prod.splits sum.splits)
  have stat: "V w2 = V w"
    if "sftp_rejectSymlinks a i p False w = (e, w1)" and "ss_Stat (sa_ops a) i ?d w1 = (y, w2)" for e w1 y w2
    using rejectSymlinks_file [OF assms(1) that(1)] quiet(1) [of i ?d w1] that(2) by simp
  have made: "V w3 = V w"
    if "sftp_rejectSymlinks a i p False w = (e, w1)" and "ss_Stat (sa_ops a) i ?d w1 = (y, w2)"
      and "ss_MkdirAll (sa_ops a) i (path_Dir ?d) w2 = (e3, w3)" for e w1 y w2 e3 w3
    using stat [OF that(1,2)] quiet(3) [of i "path_Dir ?d" w2] that(3) by simp
  from assms(6) show ?thesis
  proof (cases rule: upload_steps)
    case (refused e w1)
    then show ?thesis using rejectSymlinks_file [OF assms(1)] replaced_not by auto
  next
    case (present w1 y w2)
    then show ?thesis using stat [OF present(1,2)] replaced_not by auto
  next
    case (no_dir w1 y w2 e w3)
    then show ?thesis using made [OF no_dir(1-3)] replaced_not by auto
  next
    case (no_name w1 y w2 w3 e w4)
    then show ?thesis using made [OF no_name(1-3)] random [OF no_name(4)] replaced_not by auto
  next
    case (temporary w1 y w2 w3 t w4 z w5)
    have t: "temp_name (split_on slash t)" "t \<noteq> ?d"
      using names(2) [OF temporary(4)] names(3) assms(5) by auto
    have w4: "V w4 = V w" using made [OF temporary(1-3)] random [OF temporary(4)] by simp
    have other: "replaced source ?d False (V w) v" if "\<forall>n. n \<noteq> t \<longrightarrow> v n = V w n" for v
      using that t by (auto simp: replaced_def)
    from temporary(6) show ?thesis
    proof (elim disjE exE conjE)
      fix e e' assume "w' = w5" and x: "x = Inl e'"
      then have "replaced source ?d False (V w) (V w')"
        using sftp_server_create(2) [OF assms(1) temporary(5)] w4 by (intro other) auto
      with x show ?thesis by simp
    next
      fix h fe w6 c1 e' assume z: "z = Inr h" and "w' = w6" and x: "x = Inl e'"
        and fill: "sftp_fill (sa_ops a) i h t polls source w5 c = (fe, w6, c1)"
      from sftp_server_create(1) [OF assms(1) temporary(5) z] w4
      have new: "V w5 = (V w)(t \<mapsto> [])" "N h = t" by simp_all
      have "V w5 t = Some []" using new by simp
      from fill_file [OF assms(1) this new(2) fill] \<open>w' = w6\<close> new(1)
      have "replaced source ?d False (V w) (V w')" by (intro other) simp
      with x show ?thesis by simp
    next
      fix h fe w6 c1 pe assume z: "z = Inr h" and none: "fe = None"
        and fill: "sftp_fill (sa_ops a) i h t polls source w5 c = (fe, w6, c1)"
        and pub: "sftp_publish a i t ?d w6 = (pe, w')" and pe: "pe \<noteq> None \<longrightarrow> (\<exists>e. x = Inl e)"
      from sftp_server_create(1) [OF assms(1) temporary(5) z] w4
      have new: "V w5 = (V w)(t \<mapsto> [])" "N h = t" by simp_all
      have "V w5 t = Some []" using new by simp
      from fill_file [OF assms(1) this new(2) fill] none new(1) obtain content where
        w6: "\<forall>n. n \<noteq> t \<longrightarrow> V w6 n = V w n" "io_copy source = (content, None)" "V w6 t = Some content" by auto
      from publish_file [OF assms(1) pub t(2)] have
        w7: "\<forall>n. n \<noteq> t \<longrightarrow> n \<noteq> ?d \<longrightarrow> V w' n = V w6 n" "V w' ?d = V w6 ?d \<and> pe \<noteq> None \<or> V w' ?d = V w6 t"
        by simp_all
      have rest: "\<forall>n. n \<noteq> ?d \<longrightarrow> \<not> temp_name (split_on slash n) \<longrightarrow> V w' n = V w n"
        using w6(1) w7(1) t(1) by auto
      from w7(2) show ?thesis
      proof
        assume "V w' ?d = V w6 ?d \<and> pe \<noteq> None"
        with pe rest w6(1) t(2) show ?thesis by (auto simp: replaced_def)
      next
        assume "V w' ?d = V w6 t"
        with rest w6(2,3) show ?thesis by (simp add: replaced_def)
      qed
    qed
  qed
qed

lemma sftp_currentSession_file:
  assumes "sftp_server a V N" and "sftp_currentSession a r c = (x, r', c')"
  shows "V (rm_world r') = V (rm_world r)"
proof -
  note quiet = sftp_server_quiet [OF assms(1)]
  from current_session_run(1) [OF assms(2) [unfolded sftp_currentSession_def]]
  have "remote_run (sa_connector a) (ss_Close (sa_ops a)) (\<lambda>_ _ _. False) (\<lambda>_ _. False) r r'" .
  then show ?thesis
  proof (rule remote_run_invariant [where J = "\<lambda>w. V w = V (rm_world r)"])
    show "V w' = V (rm_world r)" if "V w = V (rm_world r)" "sa_connector a c w = (x, w', c')" for c w x w' c'
      using that quiet(8) [of c w] by simp
  qed (simp_all add: quiet)
qed

lemma sftp_write_outcome:
  assumes "sftp_server a V N" and "root_ok (sa_root a)" and "wf_path p" and "\<not> temp_name (segments p)"
    and "sftp_write a p polls source opts r c = (x, r', c')"
  shows "replaced source (sftp_remotePath a p) (\<exists>md. x = Ok md) (V (rm_world r)) (V (rm_world r'))"
proof (cases "IsRoot p \<or> wo_IfNoneMatch opts")
  case True
  with assms(5) have "(\<exists>e. x = Err e) \<and> r' = r" by (auto simp: sftp_write_def split: if_splits)
  then show ?thesis using replaced_not by auto
next
  case False
  obtain y r1 c1 where s: "sftp_currentSession a r c = (y, r1, c1)" by (metis prod_cases3)
  have r1: "V (rm_world r1) = V (rm_world r)" using sftp_currentSession_file [OF assms(1) s] .
  show ?thesis
  proof (cases y)
    case (Inl e)
    with assms(5) False s r1 show ?thesis by (auto simp: sftp_write_def replaced_def)
  next
    case (Inr i)
    obtain z w2 c2 where u: "sftp_upload a p polls source i (rm_world r1) c1 = (z, w2, c2)"
      by (metis prod_cases3)
    from False have "\<not> IsRoot p" by simp
    from upload_file [OF assms(1-3) this assms(4) u] r1
    have up: "replaced source (sftp_remotePath a p) (\<exists>u. z = Inr u) (V (rm_world r)) (V w2)" by simp
    let ?r2 = "r1\<lparr>rm_world := w2\<rparr>"
    consider e where "z = Inl e" "x = Err e" "r' = ?r2" | "z = Inr ()" "sftp_Stat a p ?r2 c2 = (x, r', c')"
      using assms(5) False s Inr u by (auto simp: sftp_write_def on_world_def split: sum.splits)
    then show ?thesis
    proof cases
      case 1
      with up show ?thesis by simp
    next
      case 2
      from sftp_Stat_file [OF assms(1) 2(2)] have "V (rm_world r') = V w2" by simp
      with up 2(1) show ?thesis by (auto simp: replaced_def)
    qed
  qed
qed

section \<open>A server in memory\<close>

text \<open>The files of a server as an association list; the handles are the names.\<close>

type_synonym files = "(string \<times> string) list"

definition file_info :: "string \<Rightarrow> files \<Rightarrow> (err + FileInfo) \<times> files" where
  "file_info n w =
     (case map_of w n of
        None \<Rightarrow> (Inl (Sentinel FsErrNotExist), w)
      | Some content \<Rightarrow> (Inr \<lparr>fi_Name = path_Base n, fi_Size = go_len content,
          fi_Type = RegularFile, fi_ModTime = 0\<rparr>, w))"

definition sample_rename :: "unit \<Rightarrow> string \<Rightarrow> string \<Rightarrow> files \<Rightarrow> err option \<times> files" where
  "sample_rename i old new w =
     (case map_of w old of
        None \<Rightarrow> (Some (Sentinel FsErrNotExist), w)
      | Some content \<Rightarrow> (None, filter (\<lambda>f. fst f \<noteq> old) ((new, content) # w)))"

definition sample_sftp_ops :: "(files, unit, string) sftp_session" where
  "sample_sftp_ops =
     \<lparr>ss_Open = \<lambda>i n w. (if map_of w n = None then Inl (Sentinel FsErrNotExist) else Inr n, w),
      ss_OpenFile = \<lambda>i n w.
        (if map_of w n = None then (Inr n, (n, []) # w) else (Inl (New ''exists''), w)),
      ss_Stat = \<lambda>i. file_info, ss_Lstat = \<lambda>i. file_info,
      ss_ReadDirContext = \<lambda>i n w c. (Inr [], w, c),
      ss_Remove = \<lambda>i n w. (None, filter (\<lambda>f. fst f \<noteq> n) w), ss_MkdirAll = \<lambda>i n w. (None, w),
      ss_Rename = sample_rename, ss_PosixRename = sample_rename, ss_HasExtension = \<lambda>i n w. True,
      ss_Close = \<lambda>i w. (None, w), sf_Reads = \<lambda>h w. [(the (map_of w h), None)],
      sf_Write = \<lambda>h chunk w.
        (case map_of w h of None \<Rightarrow> (Some (New ''gone''), w) | Some old \<Rightarrow> (None, (h, old @ chunk) # w)),
      sf_Seek = \<lambda>h offset w. (None, w), sf_Sync = \<lambda>h w. (None, w), sf_Close = \<lambda>h w. (None, w)\<rparr>"

definition sample_random :: "'x \<Rightarrow> (err + string) \<times> 'x" where
  "sample_random w = (Inr ''0123456789abcdef'', w)"

definition sample_sftp :: "(files, unit, string) sftp_adapter" where
  "sample_sftp =
     \<lparr>sa_ops = sample_sftp_ops, sa_connector = \<lambda>c w. (Inr (), w, c), sa_random = sample_random,
      sa_root = ''/srv'', sa_maxList = 10, sa_atomicRename = True, sa_capabilities = \<lparr>cs_values = [], cs_index = {}\<rparr>\<rparr>"

definition sample_remote :: "files \<Rightarrow> (files, unit) remote" where
  "sample_remote w =
     \<lparr>rm_session = Some (), rm_closed = False, rm_world = w, rm_opened = [()], rm_released = []\<rparr>"

lemma map_of_filter_key: "map_of (filter (\<lambda>f. fst f \<noteq> k) xs) = (map_of xs)(k := None)"
  by (induction xs) auto

lemma sample_sftp_server: "sftp_server sample_sftp map_of id"
proof -
  have "\<exists>k. map_of (snd (sf_Write sample_sftp_ops h chunk w)) = (map_of w)(id h \<mapsto> old @ take k chunk) \<and>
      (fst (sf_Write sample_sftp_ops h chunk w) = None \<longrightarrow> k = length chunk)"
    if "map_of w (id h) = Some old" for h chunk w old
    using that by (intro exI [of _ "length chunk"]) (simp add: sample_sftp_ops_def)
  then show ?thesis
    unfolding sftp_server_def Let_def
    by (auto simp: sample_sftp_def sample_sftp_ops_def sample_random_def file_info_def sample_rename_def
        map_of_filter_key [unfolded not_def] map_of_filter_key fun_upd_twist split: option.splits)
qed

definition sample_sftp_lib :: "(files, unit, unit, unit, unit) sftp_lib" where
  "sample_sftp_lib =
     \<lparr>sl_DialContext = \<lambda>timeout address c w. (Inr (), w, c), sl_NewClientConn = \<lambda>k config w. (Inr (), w),
      sl_NewClient = \<lambda>k w. (Inr (), w), sl_CloseConn = \<lambda>k w. (None, w), sl_CloseClient = \<lambda>k w. (None, w)\<rparr>"

definition sample_sftp_config :: "unit sftp_Config" where
  "sample_sftp_config =
     \<lparr>sc_Address = ''h'', sc_User = ''u'', sc_Auth = [Some ()], sc_HostKeyCallback = True,
      sc_Root = ''/srv'', sc_AllowUnsafeSubroot = True, sc_Timeout = 0, sc_MaxListEntries = 0\<rparr>"

abbreviation sample_sftp_opened where
  "sample_sftp_opened \<equiv> sftp_Open sample_sftp_lib sample_sftp_ops sample_random (Some Background)
     sample_sftp_config [(''/srv/a'', ''old'')]"

definition plain_write :: WriteOptions where
  "plain_write = \<lparr>wo_ContentType = [], wo_Metadata = None, wo_Visibility = VisibilityUnset,
     wo_IfNoneMatch = False\<rparr>"

section \<open>Properties\<close>

text \<open>
  (C7) A \<^verbatim>\<open>Write\<close> of the SFTP adapter is atomic, wherever the source, the connection or a call on the
  server fails, also when a call took effect and its answer was lost, and whenever the context
  is cancelled: afterwards the destination has the file it had before, or the complete content
  of the source, which is so whenever the write reports success. No other file changes, names
  of temporary files apart.
\<close>

theorem sftp_Write_atomic:
  assumes "sftp_server a V N" and "root_ok (sa_root a)" and "wf_path p" and "\<not> temp_name (segments p)"
    and "sftp_Write a p source opts r c = (x, r', c')"
  shows "(\<forall>n. n \<noteq> sftp_remotePath a p \<longrightarrow> \<not> temp_name (split_on slash n) \<longrightarrow>
      V (rm_world r') n = V (rm_world r) n) \<and>
    (V (rm_world r') (sftp_remotePath a p) = V (rm_world r) (sftp_remotePath a p) \<and> (\<forall>md. x \<noteq> Ok md) \<or>
     (\<exists>content. io_copy source = (content, None) \<and>
        V (rm_world r') (sftp_remotePath a p) = Some content))"
  using sftp_write_outcome [OF assms(1-4) assms(5) [unfolded sftp_Write_def]] by (simp add: replaced_def)

theorem sftp_Write_atomic_witness:
  "sftp_server sample_sftp map_of id \<and> root_ok (sa_root sample_sftp) \<and> wf_path \<lparr>pvalue = ''a''\<rparr> \<and>
    \<not> temp_name (segments \<lparr>pvalue = ''a''\<rparr>) \<and>
    (case sftp_Write sample_sftp \<lparr>pvalue = ''a''\<rparr> [(''ne'', None), (''w'', None)] plain_write
        (sample_remote [(''/srv/a'', ''old''), (''/srv/b'', ''kept'')]) Background of
       (x, r', c') \<Rightarrow> (\<exists>md. x = Ok md) \<and> map_of (rm_world r') ''/srv/a'' = Some ''new'' \<and>
         map_of (rm_world r') ''/srv/b'' = Some ''kept'')"
proof -
  let ?r = "sample_remote [(''/srv/a'', ''old''), (''/srv/b'', ''kept'')]"
  have wf: "wf_path \<lparr>pvalue = ''a''\<rparr>" "\<not> temp_name (segments \<lparr>pvalue = ''a''\<rparr>)" by code_simp+
  have root: "root_ok (sa_root sample_sftp)" by code_simp
  obtain x r' c' where run: "sftp_Write sample_sftp \<lparr>pvalue = ''a''\<rparr> [(''ne'', None), (''w'', None)]
      plain_write ?r Background = (x, r', c')" by (metis prod_cases3)
  have "(case fst (sftp_Write sample_sftp \<lparr>pvalue = ''a''\<rparr> [(''ne'', None), (''w'', None)]
      plain_write ?r Background) of Ok _ \<Rightarrow> True | _ \<Rightarrow> False)" by code_simp
  with run have ok: "\<exists>md. x = Ok md" by (cases x) simp_all
  have d: "sftp_remotePath sample_sftp \<lparr>pvalue = ''a''\<rparr> = ''/srv/a''" by code_simp
  have b: "\<not> temp_name (split_on slash ''/srv/b'')" by code_simp
  from sftp_Write_atomic [OF sample_sftp_server root wf run] ok b sample_sftp_server root wf run
  show ?thesis by (auto simp: d sample_remote_def)
qed



text \<open>
  (C12) The sessions of an adapter are balanced: at any time every session it ever acquired was
  closed exactly once, in the order of acquisition, except the current one. After \<^verbatim>\<open>Close\<close> all
  are closed, and no later request acquires another, closes one again or reaches the server.
\<close>

theorem sftp_sessions_balanced:
  assumes "sftp_Open lib ops rand ctx config w = (Ok (a, r), w', ctx')"
    and "executes (sftp_backend a) reqs r r1" and "list_all remote_request reqs"
    and "sftp_Close a r1 = (e, r2)"
    and "executes (sftp_backend a) reqs' r2 r3" and "list_all remote_request reqs'"
  shows "rm_opened r1 = rm_released r1 @ (case rm_session r1 of None \<Rightarrow> [] | Some i \<Rightarrow> [i]) \<and>
    rm_opened r2 = rm_opened r1 \<and> rm_released r2 = rm_opened r2 \<and> rm_session r2 = None \<and> r3 = r2"
proof -
  have ok: "root_ok (sa_root a)" "remote_ok r" using sftp_Open_ok [OF assms(1)] by simp_all
  have r1: "remote_ok r1" using remote_run_ok [OF sftp_executes_run [OF assms(2) ok(1) assms(3)] ok(2)] by simp
  note r2 = close_session_facts [OF r1 assms(4) [unfolded sftp_Close_def]]
  have "r3 = r2" using remote_run_ok [OF sftp_executes_run [OF assms(5) ok(1) assms(6)]] r2 by blast
  moreover have "rm_opened r1 = rm_released r1 @ (case rm_session r1 of None \<Rightarrow> [] | Some i \<Rightarrow> [i])"
    using r1 unfolding remote_ok_def by (rule conjunct2)
  ultimately show ?thesis using r2 by blast
qed

theorem sftp_sessions_balanced_witness:
  "case sample_sftp_opened of
     (Ok (a, r), _, _) \<Rightarrow>
       (case sftp_Close a r of
          (e, r2) \<Rightarrow> rm_opened r2 = [()] \<and> rm_released r2 = rm_opened r2 \<and>
            fst (snd (run_request (sftp_backend a) (ReqStat \<lparr>pvalue = ''a''\<rparr>) r2 Background)) = r2)
   | _ \<Rightarrow> False"
proof -
  have "case sample_sftp_opened of (Ok (a, r), _, _) \<Rightarrow> rm_opened r = [()] | _ \<Rightarrow> False" by code_simp
  then obtain a r w' c' where opened: "sample_sftp_opened = (Ok (a, r), w', c')" and r: "rm_opened r = [()]"
    by (auto split: prod.splits res.splits)
  obtain e r2 where close: "sftp_Close a r = (e, r2)" by (metis surj_pair)
  have req: "list_all remote_request [ReqStat \<lparr>pvalue = ''a''\<rparr>]" by code_simp
  from sftp_sessions_balanced [OF opened executes.finish _ close executes_one req, of Background] r opened close
  show ?thesis by (simp del: run_request.simps)
qed

text \<open>
  (C40) A write never reconnects: when the connection behind the current session is lost, a
  \<^verbatim>\<open>Write\<close> reports the loss and leaves the adapter with the same dead session, so that every
  later \<^verbatim>\<open>Write\<close> fails the same way; only an operation that retries, such as \<^verbatim>\<open>Stat\<close>, drops it.
\<close>

theorem sftp_Write_keeps_lost_session:
  assumes "rm_session r = Some i" and "\<not> rm_closed r" and "ctx_Err c = (None, c1)"
    and "wf_path p" and "\<not> IsRoot p" and "\<not> wo_IfNoneMatch opts"
    and "sftp_isConnectionError lost" and "\<not> sftp_isNotFound lost"
    and "\<forall>n w. ss_Stat (sa_ops a) i n w = (Inl lost, w) \<and> ss_Lstat (sa_ops a) i n w = (Inl lost, w)"
  shows "sftp_Write a p source opts r c = (Err lost, r, c1) \<and>
    i \<in> set (rm_released (fst (snd (sftp_Stat a p r c))))"
proof -
  have session: "current_session (sa_connector a) r c = (Inr i, r, c1)"
    using assms(1-3) by (simp add: current_session_def)
  have links: "sftp_rejectSymlinks a i p final w = (if link_candidates (sa_root a) p final = [] then None else Some lost, w)"
    for final w
    using assms(8,9) by (cases "link_candidates (sa_root a) p final")
      (simp_all add: sftp_rejectSymlinks_def sftp_is_link_def)
  have "sftp_upload a p 1 source i (rm_world r) c1 = (Inl lost, rm_world r, c1)"
    using assms(8,9) by (simp add: sftp_upload_def links Let_def sftp_mapError_def)
  then have wr: "sftp_Write a p source opts r c = (Err lost, r, c1)"
    using assms(5,6) session by (simp add: sftp_Write_def sftp_write_def sftp_currentSession_def on_world_def)
  let ?f = "sftp_checked a p (\<lambda>i. ss_Stat (sa_ops a) i (sftp_remotePath a p))"
  have "link_candidates (sa_root a) p True \<noteq> []" by (simp add: link_candidates_def Let_def)
  then have f: "?f i w c1 = (Inl lost, w, c1)" for w by (simp add: sftp_checked_def links)
  obtain x r' c' where stat: "with_session (sa_connector a) (ss_Close (sa_ops a)) sftp_isConnectionError True ?f r c
      = (x, r', c')" by (metis prod_cases3)
  obtain z r2 c2 where s: "current_session (sa_connector a)
      (invalidate_session (ss_Close (sa_ops a)) i r) c1 = (z, r2, c2)" by (metis prod_cases3)
  have "i \<in> set (rm_released (invalidate_session (ss_Close (sa_ops a)) i r))"
    using assms(1) by (simp add: invalidate_session_def release_def split: prod.splits)
  moreover have "rm_released r2 = rm_released (invalidate_session (ss_Close (sa_ops a)) i r)"
    using s by (auto simp: current_session_def split: prod.splits if_splits option.splits sum.splits)
  moreover have "rm_released r' = rm_released r2"
    using stat s assms(7)
    by (auto simp: with_session_def retry_on_def session on_world_def f split: sum.splits prod.splits)
  ultimately have "i \<in> set (rm_released (fst (snd (sftp_Stat a p r c))))"
    using stat by (simp add: sftp_Stat_def sftp_withSession_def)
  with wr show ?thesis by simp
qed

definition lost_sftp :: "(files, unit, string) sftp_adapter" where
  "lost_sftp = sample_sftp\<lparr>sa_ops := sample_sftp_ops\<lparr>ss_Stat := \<lambda>i n w. (Inl (Sentinel IoEOF), w),
     ss_Lstat := \<lambda>i n w. (Inl (Sentinel IoEOF), w)\<rparr>\<rparr>"

theorem sftp_Write_keeps_lost_session_witness:
  "sftp_Write lost_sftp \<lparr>pvalue = ''a''\<rparr> [(''new'', None)] plain_write (sample_remote []) Background =
    (Err (Sentinel IoEOF), sample_remote [], Background)"
proof -
  have wf: "wf_path \<lparr>pvalue = ''a''\<rparr>" "\<not> IsRoot \<lparr>pvalue = ''a''\<rparr>" by code_simp+
  have "rm_session (sample_remote []) = Some ()" "\<not> rm_closed (sample_remote [])"
    "ctx_Err Background = (None, Background)" "\<not> wo_IfNoneMatch plain_write"
    by (simp_all add: sample_remote_def plain_write_def)
  moreover have "sftp_isConnectionError (Sentinel IoEOF)" "\<not> sftp_isNotFound (Sentinel IoEOF)"
    by (simp_all add: sftp_isConnectionError_def sftp_isNotFound_def)
  moreover have "\<forall>n w. ss_Stat (sa_ops lost_sftp) () n w = (Inl (Sentinel IoEOF), w) \<and>
      ss_Lstat (sa_ops lost_sftp) () n w = (Inl (Sentinel IoEOF), w)"
    by (simp add: lost_sftp_def)
  ultimately show ?thesis
    using sftp_Write_keeps_lost_session [of "sample_remote []" "()" Background Background, OF _ _ _ wf] by blast
qed

end
