(* ===== verification/Ftp_Theorems.thy ===== *)
theory Ftp_Theorems
  imports Ftp_Adapter Remote_Theorems
begin

text \<open>
  The FTP adapter: its requests only make calls at the root and beneath, and on the way to the
  root where they make directories; it closes every session it opened; a \<^verbatim>\<open>Write\<close> creates its
  destination with the complete source or not at all and replaces no file; and a stream holds
  the bytes of one transfer.
\<close>

definition ftp_backend ::
  "('x, 'i) ftp_adapter \<Rightarrow> (('x, 'i) ftp_state, slice_iterator, ('x, 'i) ftp_state consumer) backend" where
  "ftp_backend a =
     \<lparr>be_Capabilities = ftp_Capabilities a, be_Open = ftp_OpenStream a, be_OpenRange = ftp_OpenRange a,
      be_Write = ftp_Write a, be_OpenWriter = ftp_OpenWriter a, be_Delete = ftp_Delete a,
      be_List = ftp_List a, be_Stat = ftp_Stat a, be_Copy = ftp_Copy a, be_Move = ftp_Move a,
      be_SetMetadata = ftp_SetMetadata a, be_Checksum = ftp_Checksum a,
      be_Visibility = ftp_Visibility a, be_SetVisibility = ftp_SetVisibility a,
      be_iterator = slice_iterator_ops\<rparr>"

section \<open>Calls\<close>

text \<open>One call on a session \<open>i\<close>; a directory is made, and looked up, also above the root.\<close>

inductive ftp_call :: "('x, 'i) ftp_adapter \<Rightarrow> 'i \<Rightarrow> 'x \<Rightarrow> 'x \<Rightarrow> bool" for a i where
  call_Retrieve: "under (fa_root a) name \<Longrightarrow> ftp_call a i w (snd (fp_Retrieve (fa_ops a) i name w))"
| call_Store: "under (fa_root a) name \<Longrightarrow>
    ftp_call a i w (fst (snd (fp_Store (fa_ops a) i name source w c)))"
| call_Stat: "under (fa_root a) name \<or> under name (fa_root a) \<Longrightarrow>
    ftp_call a i w (snd (fp_Stat (fa_ops a) i name w))"
| call_List: "under (fa_root a) name \<Longrightarrow> ftp_call a i w (snd (fp_List (fa_ops a) i name w))"
| call_MakeDir: "under (fa_root a) name \<or> under name (fa_root a) \<Longrightarrow>
    ftp_call a i w (snd (fp_MakeDir (fa_ops a) i name w))"
| call_Delete: "under (fa_root a) name \<Longrightarrow> ftp_call a i w (snd (fp_Delete (fa_ops a) i name w))"
| call_Rename: "under (fa_root a) old \<Longrightarrow> under (fa_root a) new \<Longrightarrow>
    ftp_call a i w (snd (fp_Rename (fa_ops a) i old new w))"
| call_random: "ftp_call a i w (snd (fa_random a w))"

definition ftp_calls :: "('x, 'i) ftp_adapter \<Rightarrow> 'i \<Rightarrow> 'x \<Rightarrow> 'x \<Rightarrow> bool" where
  "ftp_calls a i = (ftp_call a i)\<^sup>*\<^sup>*"

abbreviation ftp_run :: "('x, 'i) ftp_adapter \<Rightarrow> ('x, 'i) remote \<Rightarrow> ('x, 'i) remote \<Rightarrow> bool" where
  "ftp_run a \<equiv> remote_run (fa_connector a) (fp_Quit (fa_ops a)) (ftp_calls a) (\<lambda>_ _. False)"

lemma ftp_calls_refl: "reflp (ftp_calls a i)"
  by (rule reflpI) (simp add: ftp_calls_def)

lemma ftp_calls_trans: "transp (ftp_calls a i)"
  by (simp add: ftp_calls_def)

lemma ftp_calls_stay: "ftp_calls a i w w"
  by (simp add: ftp_calls_def)

lemma ftp_calls_one: "ftp_call a i w w' \<Longrightarrow> ftp_calls a i w w'"
  by (simp add: ftp_calls_def)

lemma ftp_calls_snoc: "ftp_calls a i w w' \<Longrightarrow> ftp_call a i w' w'' \<Longrightarrow> ftp_calls a i w w''"
  by (simp add: ftp_calls_def)

lemma ftp_calls_join: "ftp_calls a i w w' \<Longrightarrow> ftp_calls a i w' w'' \<Longrightarrow> ftp_calls a i w w''"
  by (simp add: ftp_calls_def)

lemma ftp_call_result:
  "ftp_call a i w (snd y) \<Longrightarrow> y = (x, w') \<Longrightarrow> ftp_call a i w w'"
  "ftp_call a i w (fst (snd z)) \<Longrightarrow> z = (x', w', c') \<Longrightarrow> ftp_call a i w w'"
  by simp_all

section \<open>Every operation is a run\<close>

lemma ftp_remotePath_under: "root_ok (fa_root a) \<Longrightarrow> wf_path p \<Longrightarrow> under (fa_root a) (ftp_remotePath a p)"
  by (simp add: ftp_remotePath_def remote_path_under)

lemma ftp_is_link_world: "snd (ftp_is_link ops i name w) = snd (fp_Stat ops i name w)"
  by (auto simp: ftp_is_link_def split: prod.splits sum.splits)

lemma rejectLink_calls:
  assumes "ftp_rejectLink a i p final w = (e, w')" and "root_ok (fa_root a)" and "wf_path p"
  shows "ftp_calls a i w w'"
proof (rule reject_links_touch [OF assms(1) [unfolded ftp_rejectLink_def] ftp_calls_refl ftp_calls_trans])
  fix name w assume "name \<in> set (link_candidates (fa_root a) p final)"
  from link_candidates_under [OF assms(2,3) this]
  show "ftp_calls a i w (snd (ftp_is_link (fa_ops a) i name w))"
    by (simp add: ftp_is_link_world ftp_calls_one call_Stat)
qed

lemma ftp_checked_calls:
  assumes "ftp_checked a p f i w c = (x, w', c')" and "root_ok (fa_root a)" and "wf_path p"
    and "\<And>w x w'. f i w = (x, w') \<Longrightarrow> ftp_calls a i w w'"
  shows "ftp_calls a i w w'"
proof -
  obtain e w1 where e: "ftp_rejectLink a i p True w = (e, w1)" by (metis surj_pair)
  have first: "ftp_calls a i w w1" using rejectLink_calls [OF e assms(2,3)] .
  show ?thesis
  proof (cases e)
    case None
    obtain y w2 where y: "f i w1 = (y, w2)" by (metis surj_pair)
    with assms(1) e None have "w' = w2" by (simp add: ftp_checked_def)
    with ftp_calls_join [OF first assms(4) [OF y]] show ?thesis by simp
  qed (use assms(1) e first in \<open>simp add: ftp_checked_def\<close>)
qed

lemma stat_checked_calls:
  assumes "root_ok (fa_root a)" and "wf_path p"
    and "ftp_checked a p (\<lambda>i. fp_Stat (fa_ops a) i (ftp_remotePath a p)) i w c = (x, w', c')"
  shows "ftp_calls a i w w'"
  by (rule ftp_checked_calls [OF assms(3,1,2)])
    (auto intro!: ftp_calls_one ftp_call_result(1) [OF call_Stat] ftp_remotePath_under [OF assms(1,2)])

lemma ftp_Stat_run:
  assumes "ftp_Stat a p r c = (x, r', c')" and "root_ok (fa_root a)" and "wf_path p"
  shows "ftp_run a r r'"
proof -
  obtain y where "with_session (fa_connector a) (fp_Quit (fa_ops a)) ftp_isConnectionError True
      (ftp_checked a p (\<lambda>i. fp_Stat (fa_ops a) i (ftp_remotePath a p))) r c = (y, r', c')"
    using assms(1) by (auto simp: ftp_Stat_def ftp_withLockedResult_def split: prod.splits)
  then show ?thesis by (rule with_session_run) (rule stat_checked_calls [OF assms(2,3)])
qed

lemma ftp_Delete_run:
  assumes "ftp_Delete a p r c = (x, r', c')" and "root_ok (fa_root a)" and "wf_path p"
  shows "ftp_run a r r'"
proof -
  let ?op = "\<lambda>i w. case fp_Delete (fa_ops a) i (ftp_remotePath a p) w of
      (Some e, w1) \<Rightarrow> (Inl e, w1) | (None, w1) \<Rightarrow> (Inr (), w1)"
  obtain y where "with_session (fa_connector a) (fp_Quit (fa_ops a)) ftp_isConnectionError False
      (ftp_checked a p ?op) r c = (y, r', c')"
    using assms(1)
    by (auto simp: ftp_Delete_def ftp_withLocked_def ftp_withLockedResult_def split: prod.splits)
  then show ?thesis
  proof (rule with_session_run)
    fix i w c x w' c' assume "ftp_checked a p ?op i w c = (x, w', c')"
    then show "ftp_calls a i w w'"
    proof (rule ftp_checked_calls [OF _ assms(2,3)])
      fix w x w' assume "?op i w = (x, w')"
      then have "w' = snd (fp_Delete (fa_ops a) i (ftp_remotePath a p) w)"
        by (auto split: prod.splits option.splits)
      then show "ftp_calls a i w w'"
        using ftp_calls_one [OF call_Delete [OF ftp_remotePath_under [OF assms(2,3)]]] by simp
    qed
  qed
qed

lemma ftp_list_calls:
  assumes "ftp_list a d recursive limit i w c = (x, w', c')" and "root_ok (fa_root a)" and "wf_path d"
  shows "ftp_calls a i w w'"
proof -
  obtain e w1 where e: "(if IsRoot d then (None, w) else ftp_rejectLink a i d True w) = (e, w1)"
    by (metis surj_pair)
  have first: "ftp_calls a i w w1"
    using e rejectLink_calls [OF _ assms(2,3)] ftp_calls_stay by (auto split: if_splits)
  show ?thesis
  proof (cases e)
    case None
    with assms(1) e have "walk_remote (ftp_read_dir a i) ftp_denied recursive limit [d] [] w1 c = (x, w', c')"
      by (simp add: ftp_list_def)
    then have "ftp_calls a i w1 w'"
    proof (rule walk_remote_touch [where d = d, OF _ _ _ ftp_calls_refl ftp_calls_trans])
      fix p w c x w' c' assume at: "at_or_beneath d p" and rd: "ftp_read_dir a i p w c = (x, w', c')"
      have "w' = w \<or> w' = snd (fp_List (fa_ops a) i (ftp_remotePath a p) w)"
        using rd by (auto simp: ftp_read_dir_def split: prod.splits option.splits)
      moreover have "wf_path p" using at by (simp add: at_or_beneath_def)
      ultimately show "ftp_calls a i w w'"
        using ftp_calls_one [OF call_List [OF ftp_remotePath_under [OF assms(2)]]] ftp_calls_stay by metis
    qed (use assms(3) in \<open>simp_all add: at_refl\<close>)
    with first show ?thesis by (rule ftp_calls_join)
  qed (use assms(1) e first in \<open>simp add: ftp_list_def\<close>)
qed

lemma ftp_List_run:
  assumes "ftp_List a d opts r c = (x, r', c')" and "root_ok (fa_root a)" and "wf_path d"
  shows "ftp_run a r r'"
proof (cases "sint (lo_Limit opts) < 0")
  case False
  let ?f = "ftp_list a d (lo_Recursive opts) (ftp_effectiveListLimit (lo_Limit opts) (fa_maxList a))"
  obtain y where "with_session (fa_connector a) (fp_Quit (fa_ops a)) ftp_isConnectionError True ?f r c
      = (y, r', c')"
    using assms(1) False by (auto simp: ftp_List_def ftp_withLockedResult_def split: prod.splits)
  then show ?thesis by (rule with_session_run) (erule ftp_list_calls [OF _ assms(2,3)])
qed (use assms(1) in \<open>auto simp: ftp_List_def intro: remote_run.intros\<close>)

text \<open>The directories that a write makes: ancestors of the root, the root, and then beneath it.\<close>

lemma near_root:
  assumes "list_all plain_elem (ks @ rest)" and "ks @ rest = ss @ rs"
  shows "under (rooted ss) (rooted ks) \<or> under (rooted ks) (rooted ss)"
proof -
  from assms(2) consider us where "ks = ss @ us" | us where "ss = ks @ us"
    by (auto simp: append_eq_append_conv2)
  then show ?thesis
  proof cases
    case 1
    with assms(1) rooted_under [of ss us] show ?thesis by simp
  next
    case 2
    have "list_all plain_elem (ss @ rs)" using assms by metis
    with 2 rooted_under [of ks us] show ?thesis by simp
  qed
qed

lemma make_each_calls:
  assumes "make_each (fa_ops a) i (rooted ks) segs w = (e, w')" and "fa_root a = rooted ss"
    and "list_all plain_elem (ks @ segs)" and "ks @ segs = ss @ rs"
  shows "ftp_calls a i w w'"
  using assms(1,3,4)
proof (induction segs arbitrary: ks w)
  case (Cons seg segs)
  let ?name = "rooted (ks @ [seg])"
  have join: "path_Join [rooted ks, seg] = ?name"
    using path_Join_rooted [of ks "[seg]"] Cons.prems(2) by simp
  have near: "under (fa_root a) ?name \<or> under ?name (fa_root a)"
    using near_root [of "ks @ [seg]" segs ss rs] Cons.prems(2,3) by (simp add: assms(2))
  obtain e1 w1 where m: "fp_MakeDir (fa_ops a) i ?name w = (e1, w1)" by (metis surj_pair)
  obtain y w2 where st: "fp_Stat (fa_ops a) i ?name w1 = (y, w2)" by (metis surj_pair)
  have w1: "ftp_calls a i w w1" using ftp_calls_one [OF ftp_call_result(1) [OF call_MakeDir [OF near] m]] .
  have w2: "ftp_calls a i w w2" using ftp_calls_snoc [OF w1 ftp_call_result(1) [OF call_Stat [OF near] st]] .
  have later: "ftp_calls a i v w'" if "make_each (fa_ops a) i ?name segs v = (e, w')" for v
    using Cons.IH [OF that] Cons.prems(2,3) by simp
  have "make_each (fa_ops a) i ?name segs w1 = (e, w') \<or> make_each (fa_ops a) i ?name segs w2 = (e, w') \<or> w' = w2"
    using Cons.prems(1) by (auto simp: join m st Let_def split: option.splits sum.splits if_splits)
  with w1 w2 later show ?case by (metis ftp_calls_join)
qed (simp add: ftp_calls_stay)

lemma split_TrimPrefix: "list_all plain_elem ks \<Longrightarrow> ks \<noteq> [] \<Longrightarrow> split_on slash (TrimPrefix (rooted ks) ''/'') = ks"
  by (simp add: TrimPrefix_def HasPrefix_def split_join plain_no_slash)

lemma makeDirectories_calls:
  assumes "ftp_makeDirectories a i (path_Dir (ftp_remotePath a p)) w = (e, w')"
    and "root_ok (fa_root a)" and "wf_path p" and "\<not> IsRoot p"
  shows "ftp_calls a i w w'"
proof -
  from assms(2-4) obtain ss rs l where
    p: "list_all plain_elem ss" "fa_root a = rooted ss" "segments p = rs @ [l]" "list_all plain_elem rs"
      "plain_elem l" "remote_path (fa_root a) p = rooted (ss @ rs @ [l])"
      "path_Dir (remote_path (fa_root a) p) = rooted (ss @ rs)" by (rule destination_parts)
  have dir: "path_Dir (ftp_remotePath a p) = rooted (ss @ rs)" using p by (simp add: ftp_remotePath_def)
  have pl: "list_all plain_elem (ss @ rs)" using p by simp
  show ?thesis
  proof (cases "ss @ rs = []")
    case True
    with assms(1) dir show ?thesis by (simp add: ftp_makeDirectories_def ftp_calls_stay)
  next
    case False
    have "make_each (fa_ops a) i (rooted []) (ss @ rs) w = (e, w') \<or> w' = w"
      using assms(1) split_TrimPrefix [OF pl False]
      by (auto simp: ftp_makeDirectories_def dir split: if_splits)
    then show ?thesis using make_each_calls [OF _ p(2), of i "[]" "ss @ rs" w e w' rs] pl ftp_calls_stay by auto
  qed
qed

lemma ftp_publish_calls:
  assumes "ftp_publish (fa_ops a) i t d source w c = (x, w', c')" and "under (fa_root a) t" and "under (fa_root a) d"
  shows "ftp_calls a i w w'"
proof -
  obtain e1 w1 c1 where st: "fp_Store (fa_ops a) i t source w c = (e1, w1, c1)" by (metis prod_cases3)
  obtain e2 w2 where rn: "fp_Rename (fa_ops a) i t d w1 = (e2, w2)" by (metis surj_pair)
  have w1: "ftp_calls a i w w1" using ftp_calls_one [OF ftp_call_result(2) [OF call_Store [OF assms(2)] st]] .
  have w2: "ftp_calls a i w w2" using ftp_calls_snoc [OF w1 ftp_call_result(1) [OF call_Rename [OF assms(2,3)] rn]] .
  have "w' = snd (fp_Delete (fa_ops a) i t w1) \<or> w' = snd (fp_Delete (fa_ops a) i t w2) \<or> w' = w2"
    using assms(1) by (auto simp: ftp_publish_def st rn split: option.splits prod.splits)
  then show ?thesis
    using ftp_calls_snoc [OF w1 call_Delete [OF assms(2)]] ftp_calls_snoc [OF w2 call_Delete [OF assms(2)]] w2
    by (elim disjE) simp_all
qed

text \<open>The way of a write through the calls.\<close>

lemma ftp_write_steps:
  assumes "ftp_write a p source i w c = (x, w', c')"
  obtains (refused) e w1 where "ftp_rejectLink a i p False w = (e, w1)" "w' = w1" "\<exists>e. x = Inl e"
  | (present) w1 y w2 where "ftp_rejectLink a i p False w = (None, w1)"
      "fp_Stat (fa_ops a) i (ftp_remotePath a p) w1 = (y, w2)" "w' = w2" "\<exists>e. x = Inl e"
  | (no_dir) w1 ne w2 e w3 where "ftp_rejectLink a i p False w = (None, w1)"
      "fp_Stat (fa_ops a) i (ftp_remotePath a p) w1 = (Inl ne, w2)" "ftp_isNotFound ne"
      "ftp_makeDirectories a i (path_Dir (ftp_remotePath a p)) w2 = (e, w3)" "w' = w3" "\<exists>e. x = Inl e"
  | (no_name) w1 ne w2 w3 e w4 where "ftp_rejectLink a i p False w = (None, w1)"
      "fp_Stat (fa_ops a) i (ftp_remotePath a p) w1 = (Inl ne, w2)" "ftp_isNotFound ne"
      "ftp_makeDirectories a i (path_Dir (ftp_remotePath a p)) w2 = (None, w3)"
      "temporary_path ''ftp'' (fa_random a) (path_Dir (ftp_remotePath a p)) w3 = (Inl e, w4)"
      "w' = w4" "\<exists>e. x = Inl e"
  | (temporary) w1 ne w2 w3 t w4 where "ftp_rejectLink a i p False w = (None, w1)"
      "fp_Stat (fa_ops a) i (ftp_remotePath a p) w1 = (Inl ne, w2)" "ftp_isNotFound ne"
      "ftp_makeDirectories a i (path_Dir (ftp_remotePath a p)) w2 = (None, w3)"
      "temporary_path ''ftp'' (fa_random a) (path_Dir (ftp_remotePath a p)) w3 = (Inr t, w4)"
      "ftp_publish (fa_ops a) i t (ftp_remotePath a p) source w4 c = (x, w', c')"
proof -
  let ?ops = "fa_ops a" and ?d = "ftp_remotePath a p"
  obtain e1 w1 where s1: "ftp_rejectLink a i p False w = (e1, w1)" by (metis surj_pair)
  obtain y w2 where s2: "fp_Stat ?ops i ?d w1 = (y, w2)" by (metis surj_pair)
  obtain e3 w3 where s3: "ftp_makeDirectories a i (path_Dir ?d) w2 = (e3, w3)" by (metis surj_pair)
  obtain t4 w4 where s4: "temporary_path ''ftp'' (fa_random a) (path_Dir ?d) w3 = (t4, w4)" by (metis surj_pair)
  note step = assms [unfolded ftp_write_def Let_def s1 prod.case]
  show thesis
  proof (cases e1)
    case (Some e)
    with step s1 show thesis by (intro refused) auto
  next
    case e1: None
    note step = step [unfolded e1 option.case s2 prod.case s3]
    show thesis
    proof (cases "\<exists>ne. y = Inl ne \<and> ftp_isNotFound ne")
      case False
      with step have "w' = w2 \<and> (\<exists>e. x = Inl e)" by (auto split: sum.splits if_splits)
      with s1 s2 e1 show thesis by (intro present) auto
    next
      case True
      then obtain ne where ne: "y = Inl ne" "ftp_isNotFound ne" by blast
      show thesis
      proof (cases e3)
        case (Some e)
        with step ne have "w' = w3 \<and> (\<exists>e. x = Inl e)" by auto
        with s1 s2 s3 e1 ne show thesis by (intro no_dir) auto
      next
        case e3: None
        show thesis
        proof (cases t4)
          case (Inl e)
          with step ne e3 s4 have "w' = w4 \<and> (\<exists>e. x = Inl e)" by auto
          with s1 s2 s3 s4 e1 e3 ne Inl show thesis by (intro no_name) auto
        next
          case (Inr t)
          with step ne e3 s4 have "ftp_publish ?ops i t ?d source w4 c = (x, w', c')" by simp
          with s1 s2 s3 s4 e1 e3 ne Inr show thesis by (intro temporary) auto
        qed
      qed
    qed
  qed
qed

lemma ftp_write_calls:
  assumes "ftp_write a p source i w c = (x, w', c')"
    and "root_ok (fa_root a)" and "wf_path p" and "\<not> IsRoot p"
  shows "ftp_calls a i w w'"
proof -
  note names = destination_names [OF assms(2-4), folded ftp_remotePath_def]
  note dest = ftp_remotePath_under [OF assms(2,3)]
  have near: "under (fa_root a) (ftp_remotePath a p) \<or> under (ftp_remotePath a p) (fa_root a)"
    using dest by simp
  have checked: "ftp_calls a i w w1" if "ftp_rejectLink a i p False w = (e, w1)" for e w1
    using rejectLink_calls [OF that assms(2,3)] .
  have stat: "ftp_calls a i w w2"
    if "ftp_rejectLink a i p False w = (e, w1)" and "fp_Stat (fa_ops a) i (ftp_remotePath a p) w1 = (y, w2)" for e w1 y w2
    using ftp_calls_snoc [OF checked [OF that(1)] ftp_call_result(1) [OF call_Stat [OF near] that(2)]] .
  have made: "ftp_calls a i w w3"
    if "ftp_rejectLink a i p False w = (e, w1)" and "fp_Stat (fa_ops a) i (ftp_remotePath a p) w1 = (y, w2)"
      and "ftp_makeDirectories a i (path_Dir (ftp_remotePath a p)) w2 = (e3, w3)" for e w1 y w2 e3 w3
    using ftp_calls_join [OF stat [OF that(1,2)] makeDirectories_calls [OF that(3) assms(2-4)]] .
  have random: "ftp_call a i w3 w4"
    if "temporary_path ''ftp'' (fa_random a) d w3 = (t, w4)" for t d w3 w4
    using that call_random [of a i w3] by (auto simp: temporary_path_def split: prod.splits sum.splits)
  from assms(1) show ?thesis
  proof (cases rule: ftp_write_steps)
    case (no_name w1 ne w2 w3 e w4)
    then show ?thesis using ftp_calls_snoc [OF made [OF no_name(1,2,4)] random [OF no_name(5)]] by simp
  next
    case (temporary w1 ne w2 w3 t w4)
    have t: "under (fa_root a) t" using names(2) [OF temporary(5)] by simp
    show ?thesis
      using ftp_calls_join [OF ftp_calls_snoc [OF made [OF temporary(1,2,4)] random [OF temporary(5)]]
          ftp_publish_calls [OF temporary(6) t dest]] .
  qed (use checked stat made in blast)+
qed

lemma ftp_currentSession_run:
  assumes "ftp_currentSession a r c = (x, r', c')"
  shows "ftp_run a r r'" and "x = Inr i \<Longrightarrow> rm_session r' = Some i"
  using current_session_run [OF assms [unfolded ftp_currentSession_def]] by blast+

lemma ftp_Write_run:
  assumes "ftp_Write a p source opts r c = (x, r', c')" and "root_ok (fa_root a)" and "wf_path p"
  shows "ftp_run a r r'"
proof (cases "IsRoot p \<or> wo_IfNoneMatch opts")
  case False
  obtain y r1 c1 where s: "ftp_currentSession a r c = (y, r1, c1)" by (metis prod_cases3)
  have r1: "ftp_run a r r1" using ftp_currentSession_run(1) [OF s] .
  show ?thesis
  proof (cases y)
    case (Inl e)
    with assms(1) False s r1 show ?thesis by (simp add: ftp_Write_def)
  next
    case (Inr i)
    obtain z r2 c2 where u: "on_world (ftp_write a p source i) r1 c1 = (z, r2, c2)" by (metis prod_cases3)
    have "ftp_run a r1 r2"
      by (rule on_world_run(1) [OF u ftp_currentSession_run(2) [OF s Inr]])
        (rule ftp_write_calls [OF _ assms(2,3)], use False in auto)
    with r1 have r2: "ftp_run a r r2" by (blast intro: remote_run_trans)
    have "r' = r2 \<or> ftp_Stat a p r2 c2 = (x, r', c')"
      using assms(1) False s Inr u by (auto simp: ftp_Write_def split: sum.splits)
    then show ?thesis using r2 ftp_Stat_run [OF _ assms(2,3)] by (blast intro: remote_run_trans)
  qed
qed (use assms(1) in \<open>auto simp: ftp_Write_def intro: remote_run.intros split: if_splits\<close>)

lemma ftp_retrieve_run:
  assumes "ftp_retrieve a i p r = (x, r')" and "rm_session r = Some i" and "root_ok (fa_root a)" and "wf_path p"
  shows "ftp_run a r r'"
proof -
  obtain w where w: "fp_Retrieve (fa_ops a) i (ftp_remotePath a p) (rm_world r) = (x, w)"
    and r': "r' = r\<lparr>rm_world := w\<rparr>"
    using assms(1) by (auto simp: ftp_retrieve_def split: prod.splits)
  have "ftp_calls a i (rm_world r) w"
    using ftp_calls_one [OF ftp_call_result(1) [OF call_Retrieve [OF ftp_remotePath_under [OF assms(3,4)]] w]] .
  with assms(2) show ?thesis unfolding r' by (rule remote_run.call [OF stay])
qed

lemma ftp_transfer_run:
  assumes "ftp_transfer a i p r c = (x, r', c')" and "rm_session r = Some i" and "root_ok (fa_root a)" and "wf_path p"
  shows "ftp_run a r r'"
proof -
  obtain chunks e r1 where rt: "ftp_retrieve a i p r = ((chunks, e), r1)" by (metis surj_pair)
  have r1: "ftp_run a r r1" using ftp_retrieve_run [OF rt assms(2-4)] .
  have replay: "ftp_run a r1 r2" if rp: "ftp_replay a i p chunks e' r1 c = (y, r2, c2)" for e' y r2 c2
  proof -
    obtain d c1 where d: "ctx_Err c = (d, c1)" by (metis surj_pair)
    obtain z r3 c3 where s: "ftp_currentSession a (ftp_invalidate a i r1) c1 = (z, r3, c3)" by (metis prod_cases3)
    have inval: "ftp_run a r1 (ftp_invalidate a i r1)" by (simp add: ftp_invalidate_def invalidate_run)
    have r3: "ftp_run a r1 r3" using remote_run_trans [OF ftp_currentSession_run(1) [OF s] inval] .
    show ?thesis
    proof (cases "r2 = r1 \<or> r2 = r3")
      case False
      then obtain j where j: "z = Inr j" "snd (ftp_retrieve a j p r3) = r2"
        using rp d s by (auto simp: ftp_replay_def split: option.splits sum.splits prod.splits)
      obtain v where "ftp_retrieve a j p r3 = (v, r2)" using j(2) by (metis surjective_pairing)
      from ftp_retrieve_run [OF this ftp_currentSession_run(2) [OF s j(1)] assms(3,4)] r3
      show ?thesis by (rule remote_run_trans)
    qed (use r3 in \<open>auto intro: remote_run.intros\<close>)
  qed
  have "r' = r1 \<or> (\<exists>e' y c2. ftp_replay a i p chunks e' r1 c = (y, r', c2))"
    using assms(1) by (auto simp: ftp_transfer_def rt split: prod.splits if_splits option.splits)
  then show ?thesis using r1 replay by (blast intro: remote_run_trans)
qed

lemma ftp_prepareOpen_run:
  assumes "ftp_prepareOpen a p i r c = (x, r', c')" and "rm_session r = Some i"
    and "root_ok (fa_root a)" and "wf_path p"
  shows "ftp_run a r r'" and "x = Inr (j, entry) \<Longrightarrow> rm_session r' = Some j"
proof -
  let ?op = "\<lambda>i w. case fp_Stat (fa_ops a) i (ftp_remotePath a p) w of (x, w1) \<Rightarrow> (map_sum id (Pair i) x, w1)"
  note run = assms(1) [unfolded ftp_prepareOpen_def]
  show "ftp_run a r r'"
  proof (rule retry_on_run [OF run assms(2)])
    fix i w c x w' c' assume "ftp_checked a p ?op i w c = (x, w', c')"
    then show "ftp_calls a i w w'"
    proof (rule ftp_checked_calls [OF _ assms(3,4)])
      fix w x w' assume "?op i w = (x, w')"
      then have "w' = snd (fp_Stat (fa_ops a) i (ftp_remotePath a p) w)" by (auto split: prod.splits)
      then show "ftp_calls a i w w'"
        using ftp_calls_one [OF call_Stat [OF disjI1 [OF ftp_remotePath_under [OF assms(3,4)]]]] by simp
    qed
  qed
  show "rm_session r' = Some j" if x: "x = Inr (j, entry)"
  proof -
    obtain k w d w' d' where k: "rm_session r' = Some k" "ftp_checked a p ?op k w d = (Inr (j, entry), w', d')"
      by (rule retry_on_current [OF run [unfolded x] assms(2)])
    from k(2) have "k = j"
      by (auto simp: ftp_checked_def map_sum_def split: prod.splits option.splits sum.splits)
    with k(1) show ?thesis by simp
  qed
qed

lemma ftp_OpenStream_run:
  assumes "ftp_OpenStream a p r c = (x, r', c')" and "root_ok (fa_root a)" and "wf_path p"
  shows "ftp_run a r r'"
proof -
  obtain d c0 where d: "ctx_Err c = (d, c0)" by (metis surj_pair)
  obtain y r1 c1 where s: "ftp_currentSession a r c0 = (y, r1, c1)" by (metis prod_cases3)
  have r1: "ftp_run a r r1" using ftp_currentSession_run(1) [OF s] .
  show ?thesis
  proof (cases "d = None \<and> (\<exists>i. y = Inr i)")
    case False
    then have "r' = r \<or> r' = r1"
      using assms(1) by (auto simp: ftp_OpenStream_def check_ctx_def d s split: option.splits sum.splits)
    with r1 show ?thesis by (auto intro: remote_run.intros)
  next
    case True
    then obtain i where y: "y = Inr i" and dn: "d = None" by blast
    obtain z r2 c2 where p: "ftp_prepareOpen a p i r1 c1 = (z, r2, c2)" by (metis prod_cases3)
    note prep = ftp_prepareOpen_run [OF p ftp_currentSession_run(2) [OF s y] assms(2,3)]
    have r2: "ftp_run a r r2" using remote_run_trans [OF prep(1) r1] .
    show ?thesis
    proof (cases "r' = r2")
      case False
      obtain j entry where z: "z = Inr (j, entry)" and t: "snd (ftp_transfer a j p r2 c2) = (r', c')"
        using assms(1) False
        by (auto simp: ftp_OpenStream_def check_ctx_def d dn s y p split: sum.splits if_splits prod.splits)
      obtain v where "ftp_transfer a j p r2 c2 = (v, r', c')" using t by (metis surjective_pairing)
      from ftp_transfer_run [OF this prep(2) [OF z] assms(2,3)] r2 show ?thesis by (rule remote_run_trans)
    qed (use r2 in simp)
  qed
qed

lemma ftp_request_run:
  assumes "run_request (ftp_backend a) req r c = (x, r', c')"
    and "root_ok (fa_root a)" and "remote_request req"
  shows "ftp_run a r r'"
proof (cases req)
  case (ReqOpen p)
  with assms show ?thesis
    by (auto simp: remote_request_def ftp_backend_def dest!: drop_result_state intro: ftp_OpenStream_run)
next
  case (ReqWrite p rs opts)
  with assms show ?thesis
    by (auto simp: remote_request_def ftp_backend_def dest!: drop_result_state intro: ftp_Write_run)
next
  case (ReqOpenWriter p opts)
  with assms have "r' = r"
    by (auto simp: ftp_backend_def ftp_OpenWriter_def check_ctx_def dest!: drop_result_state
        split: prod.splits option.splits if_splits)
  then show ?thesis by (simp add: stay)
next
  case (ReqDelete p)
  with assms show ?thesis by (auto simp: remote_request_def ftp_backend_def intro: ftp_Delete_run)
next
  case (ReqList p opts)
  with assms show ?thesis
    by (auto simp: remote_request_def ftp_backend_def dest!: drop_result_state intro: ftp_List_run)
next
  case (ReqStat p)
  with assms show ?thesis
    by (auto simp: remote_request_def ftp_backend_def dest!: drop_result_state intro: ftp_Stat_run)
qed (use assms in \<open>auto simp: ftp_backend_def ftp_OpenRange_def ftp_Copy_def ftp_Move_def ftp_SetMetadata_def
  ftp_Checksum_def ftp_Visibility_def ftp_SetVisibility_def drop_result_def intro: remote_run.intros\<close>)

lemma ftp_executes_run:
  assumes "executes (ftp_backend a) reqs r r'" and "root_ok (fa_root a)" and "list_all remote_request reqs"
  shows "ftp_run a r r'"
  using assms
proof (induction rule: executes.induct)
  case (serve req s c x t c' reqs u)
  then show ?case using ftp_request_run [OF serve.hyps(1)] by (auto intro: remote_run_trans)
qed (simp add: stay)

lemma ftp_newAdapter_ok:
  assumes "ftp_newAdapter ops rand ctx dial root maxList profile w = (Ok (a, r), w', c')"
  shows "root_ok (fa_root a) \<and> remote_ok r \<and> 0 < sint (fa_maxList a)"
  using assms
  by (auto simp: ftp_newAdapter_def check_ctx_def remote_ok_def ftp_validateRoot_def
      bind_res_Ok_iff not_le
      dest!: validate_root_ok split: option.splits res.splits prod.splits if_splits sum.splits)

lemma ftp_Open_ok:
  assumes "ftp_Open lib rand ctx config w = (Ok (a, r), w', c')"
  shows "root_ok (fa_root a) \<and> remote_ok r \<and> 0 < sint (fa_maxList a)"
  using assms
  by (auto simp: ftp_Open_def dest!: ftp_newAdapter_ok split: option.splits res.splits prod.splits)

section \<open>Writes\<close>

text \<open>
  What the write relies on of the server, with \<open>V\<close> the files of the server by name; no other
  client changes them meanwhile. Queries, directories and sessions do not change a file; a file
  that exists is not reported missing; a store only changes its own name, and stores the whole
  source when it succeeds; a failing delete or rename may or may not have taken effect.
\<close>

definition ftp_server :: "('x, 'i) ftp_adapter \<Rightarrow> ('x \<Rightarrow> string \<Rightarrow> string option) \<Rightarrow> bool" where
  "ftp_server a V =
     (let ops = fa_ops a in
      (\<forall>i n w. V (snd (fp_Stat ops i n w)) = V w) \<and> (\<forall>i n w. V (snd (fp_MakeDir ops i n w)) = V w) \<and>
      (\<forall>w. V (snd (fa_random a w)) = V w) \<and> (\<forall>i w. V (snd (fp_Quit ops i w)) = V w) \<and>
      (\<forall>c w. V (fst (snd (fa_connector a c w))) = V w) \<and>
      (\<forall>i n w. V w n \<noteq> None \<longrightarrow>
         (case fst (fp_Stat ops i n w) of Inl e \<Rightarrow> \<not> ftp_isNotFound e | Inr _ \<Rightarrow> True)) \<and>
      (\<forall>i n source w c. case fp_Store ops i n source w c of
         (e, w', c') \<Rightarrow> (\<forall>m. m \<noteq> n \<longrightarrow> V w' m = V w m) \<and>
           (e = None \<longrightarrow> (\<exists>content. io_copy source = (content, None) \<and> V w' n = Some content))) \<and>
      (\<forall>i n w. V (snd (fp_Delete ops i n w)) = V w \<or> V (snd (fp_Delete ops i n w)) = (V w)(n := None)) \<and>
      (\<forall>i old new w. old \<noteq> new \<longrightarrow>
         fst (fp_Rename ops i old new w) \<noteq> None \<and> V (snd (fp_Rename ops i old new w)) = V w \<or>
         V (snd (fp_Rename ops i old new w)) = (V w)(new := V w old, old := None)))"

lemma ftp_server_quiet:
  assumes "ftp_server a V"
  shows "V (snd (fp_Stat (fa_ops a) i n w)) = V w" "V (snd (fp_MakeDir (fa_ops a) i n w)) = V w"
    "V (snd (fa_random a w)) = V w" "V (snd (fp_Quit (fa_ops a) i w)) = V w"
    "V (fst (snd (fa_connector a c w))) = V w"
  using assms by (simp_all add: ftp_server_def Let_def)

lemma ftp_server_present:
  assumes "ftp_server a V" and "fp_Stat (fa_ops a) i n w = (Inl e, w')" and "ftp_isNotFound e"
  shows "V w n = None"
proof (rule ccontr)
  assume some: "V w n \<noteq> None"
  have "\<forall>i n w. V w n \<noteq> None \<longrightarrow>
      (case fst (fp_Stat (fa_ops a) i n w) of Inl e \<Rightarrow> \<not> ftp_isNotFound e | Inr _ \<Rightarrow> True)"
    using assms(1) unfolding ftp_server_def Let_def by (elim conjE)
  from this [THEN spec [of _ i], THEN spec, THEN spec, THEN mp, OF some] assms(2,3) show False by simp
qed

lemma ftp_server_store:
  assumes "ftp_server a V" and "fp_Store (fa_ops a) i n source w c = (e, w', c')"
  shows "\<forall>m. m \<noteq> n \<longrightarrow> V w' m = V w m"
    and "e = None \<Longrightarrow> \<exists>content. io_copy source = (content, None) \<and> V w' n = Some content"
proof -
  have "\<forall>i n source w c. case fp_Store (fa_ops a) i n source w c of
      (e, w', c') \<Rightarrow> (\<forall>m. m \<noteq> n \<longrightarrow> V w' m = V w m) \<and>
        (e = None \<longrightarrow> (\<exists>content. io_copy source = (content, None) \<and> V w' n = Some content))"
    using assms(1) unfolding ftp_server_def Let_def by (elim conjE)
  from this [THEN spec [of _ i], THEN spec [of _ n], THEN spec [of _ source], THEN spec [of _ w], THEN spec [of _ c]] assms(2)
  show "\<forall>m. m \<noteq> n \<longrightarrow> V w' m = V w m"
    and "e = None \<Longrightarrow> \<exists>content. io_copy source = (content, None) \<and> V w' n = Some content"
    by simp_all
qed

lemma ftp_server_delete:
  assumes "ftp_server a V" and "m \<noteq> n" shows "V (snd (fp_Delete (fa_ops a) i n w)) m = V w m"
proof -
  have "V (snd (fp_Delete (fa_ops a) i n w)) = V w \<or> V (snd (fp_Delete (fa_ops a) i n w)) = (V w)(n := None)"
    using assms(1) by (simp add: ftp_server_def Let_def)
  with assms(2) show ?thesis by auto
qed

lemma ftp_server_rename:
  assumes "ftp_server a V" and "old \<noteq> new" and "fp_Rename (fa_ops a) i old new w = (e, w')"
  shows "e \<noteq> None \<and> V w' = V w \<or> V w' = (V w)(new := V w old, old := None)"
proof -
  have "\<forall>i old new w. old \<noteq> new \<longrightarrow>
      fst (fp_Rename (fa_ops a) i old new w) \<noteq> None \<and> V (snd (fp_Rename (fa_ops a) i old new w)) = V w \<or>
      V (snd (fp_Rename (fa_ops a) i old new w)) = (V w)(new := V w old, old := None)"
    using assms(1) unfolding ftp_server_def Let_def by (elim conjE)
  from this [THEN spec [of _ i], THEN spec, THEN spec, THEN spec [of _ w], THEN mp, OF assms(2)] assms(3)
  show ?thesis by simp
qed

lemma ftp_publish_file:
  assumes "ftp_server a V" and "t \<noteq> d" and "ftp_publish (fa_ops a) i t d source w c = (x, w', c')"
  shows "(\<forall>n. n \<noteq> t \<longrightarrow> n \<noteq> d \<longrightarrow> V w' n = V w n) \<and>
    (V w' d = V w d \<and> (\<exists>e. x = Inl e) \<or>
     (\<exists>content. io_copy source = (content, None) \<and> V w' d = Some content))"
proof -
  obtain e1 w1 c1 where st: "fp_Store (fa_ops a) i t source w c = (e1, w1, c1)" by (metis prod_cases3)
  obtain e2 w2 where rn: "fp_Rename (fa_ops a) i t d w1 = (e2, w2)" by (metis surj_pair)
  note store = ftp_server_store [OF assms(1) st] and ren = ftp_server_rename [OF assms(1,2) rn]
  consider e where "x = Inl e" "w' = snd (fp_Delete (fa_ops a) i t w1)"
    | e where "e1 = None" "e2 \<noteq> None" "x = Inl e" "w' = snd (fp_Delete (fa_ops a) i t w2)"
    | "e1 = None" "e2 = None" "w' = w2"
    using assms(3) by (auto simp: ftp_publish_def st rn split: option.splits prod.splits)
  then show ?thesis
  proof cases
    case 1
    then show ?thesis using store(1) assms(2) by (auto simp: ftp_server_delete [OF assms(1)])
  next
    case 2
    from store(2) [OF 2(1)] obtain content where
      c: "io_copy source = (content, None)" "V w1 t = Some content" by blast
    show ?thesis using ren 2 c store(1) assms(2) by (auto simp: ftp_server_delete [OF assms(1)])
  next
    case 3
    from store(2) [OF 3(1)] obtain content where
      c: "io_copy source = (content, None)" "V w1 t = Some content" by blast
    show ?thesis using ren 3 c store(1) assms(2) by auto
  qed
qed

lemma rejectLink_file:
  assumes "ftp_server a V" and "ftp_rejectLink a i p final w = (e, w')" shows "V w' = V w"
proof -
  have "(\<lambda>w w'. V w' = V w) w w'"
    by (rule reject_links_touch [OF assms(2) [unfolded ftp_rejectLink_def]])
      (simp_all add: ftp_is_link_world ftp_server_quiet(1) [OF assms(1)] reflp_def transp_def)
  then show ?thesis .
qed

lemma make_each_file:
  assumes "ftp_server a V"
  shows "make_each (fa_ops a) i current segs w = (e, w') \<Longrightarrow> V w' = V w"
proof (induction segs arbitrary: current w)
  case (Cons seg segs)
  let ?name = "path_Join [current, seg]"
  obtain e1 w1 where m: "fp_MakeDir (fa_ops a) i ?name w = (e1, w1)" by (metis surj_pair)
  obtain y w2 where st: "fp_Stat (fa_ops a) i ?name w1 = (y, w2)" by (metis surj_pair)
  have w1: "V w1 = V w" using ftp_server_quiet(2) [OF assms, of i ?name w] m by simp
  have w2: "V w2 = V w" using ftp_server_quiet(1) [OF assms, of i ?name w1] st w1 by simp
  have "make_each (fa_ops a) i ?name segs w1 = (e, w') \<or> make_each (fa_ops a) i ?name segs w2 = (e, w') \<or> w' = w2"
    using Cons.prems by (auto simp: m st Let_def split: option.splits sum.splits if_splits)
  then show ?case using Cons.IH w1 w2 by metis
qed simp

lemma ftp_write_file:
  assumes "ftp_server a V" and "root_ok (fa_root a)" and "wf_path p" and "\<not> IsRoot p"
    and "\<not> temp_name (segments p)" and "ftp_write a p source i w c = (x, w', c')"
  shows "replaced source (ftp_remotePath a p) (\<exists>u. x = Inr u) (V w) (V w') \<and>
    (V w (ftp_remotePath a p) \<noteq> None \<longrightarrow> V w' (ftp_remotePath a p) = V w (ftp_remotePath a p) \<and> (\<exists>e. x = Inl e))"
proof -
  let ?d = "ftp_remotePath a p"
  note quiet = ftp_server_quiet [OF assms(1)]
  note names = destination_names [OF assms(2-4), folded ftp_remotePath_def]
  have failed: ?thesis if "V w' = V w" "\<exists>e. x = Inl e"
    using that replaced_not by auto
  have stat: "V w2 = V w"
    if "ftp_rejectLink a i p False w = (e, w1)" and "fp_Stat (fa_ops a) i ?d w1 = (y, w2)" for e w1 y w2
    using rejectLink_file [OF assms(1) that(1)] quiet(1) [of i ?d w1] that(2) by simp
  have made: "V w3 = V w"
    if "ftp_rejectLink a i p False w = (e, w1)" and "fp_Stat (fa_ops a) i ?d w1 = (y, w2)"
      and "ftp_makeDirectories a i (path_Dir ?d) w2 = (e3, w3)" for e w1 y w2 e3 w3
    using stat [OF that(1,2)] that(3) make_each_file [OF assms(1)]
    by (auto simp: ftp_makeDirectories_def split: if_splits)
  have random: "V w4 = V w3" if "temporary_path ''ftp'' (fa_random a) k w3 = (t, w4)" for t k w3 w4
    using that quiet(3) [of w3] by (auto simp: temporary_path_def split: prod.splits sum.splits)
  from assms(6) show ?thesis
  proof (cases rule: ftp_write_steps)
    case (refused e w1)
    then show ?thesis using rejectLink_file [OF assms(1)] by (intro failed) auto
  next
    case (present w1 y w2)
    then show ?thesis using stat [OF present(1,2)] by (intro failed) auto
  next
    case (no_dir w1 ne w2 e w3)
    then show ?thesis using made [OF no_dir(1,2,4)] by (intro failed) auto
  next
    case (no_name w1 ne w2 w3 e w4)
    then show ?thesis using made [OF no_name(1,2,4)] random [OF no_name(5)] by (intro failed) auto
  next
    case (temporary w1 ne w2 w3 t w4)
    have t: "temp_name (split_on slash t)" "t \<noteq> ?d"
      using names(2) [OF temporary(5)] names(3) assms(5) by auto
    have w4: "V w4 = V w" using made [OF temporary(1,2,4)] random [OF temporary(5)] by simp
    have "V w1 ?d = None" using ftp_server_present [OF assms(1) temporary(2,3)] .
    then have none: "V w ?d = None" using rejectLink_file [OF assms(1) temporary(1)] by simp
    from ftp_publish_file [OF assms(1) t(2) temporary(6)] w4 t(1) none show ?thesis
      by (auto simp: replaced_def)
  qed
qed

lemma ftp_currentSession_file:
  assumes "ftp_server a V" and "ftp_currentSession a r c = (x, r', c')"
  shows "V (rm_world r') = V (rm_world r)"
proof -
  note quiet = ftp_server_quiet [OF assms(1)]
  from current_session_run(1) [OF assms(2) [unfolded ftp_currentSession_def]]
  have "remote_run (fa_connector a) (fp_Quit (fa_ops a)) (\<lambda>_ _ _. False) (\<lambda>_ _. False) r r'" .
  then show ?thesis
  proof (rule remote_run_invariant [where J = "\<lambda>w. V w = V (rm_world r)"])
    show "V w' = V (rm_world r)" if "V w = V (rm_world r)" "fa_connector a c w = (x, w', c')" for c w x w' c'
      using that quiet(5) [of c w] by simp
  qed (simp_all add: quiet)
qed

lemma ftp_Stat_file:
  assumes "ftp_server a V" and "ftp_Stat a p r c = (x, r', c')"
  shows "V (rm_world r') = V (rm_world r)"
proof -
  note quiet = ftp_server_quiet [OF assms(1)]
  let ?f = "ftp_checked a p (\<lambda>i. fp_Stat (fa_ops a) i (ftp_remotePath a p))"
  obtain y where y: "with_session (fa_connector a) (fp_Quit (fa_ops a)) ftp_isConnectionError True ?f r c
      = (y, r', c')"
    using assms(2) by (auto simp: ftp_Stat_def ftp_withLockedResult_def split: prod.splits)
  have "remote_run (fa_connector a) (fp_Quit (fa_ops a)) (\<lambda>_ w w'. V w' = V w) (\<lambda>_ _. False) r r'"
  proof (rule with_session_run [OF y])
    fix i w c x w' c' assume f: "?f i w c = (x, w', c')"
    obtain e w1 where e: "ftp_rejectLink a i p True w = (e, w1)" by (metis surj_pair)
    have "w' = w1 \<or> w' = snd (fp_Stat (fa_ops a) i (ftp_remotePath a p) w1)"
      using f e by (auto simp: ftp_checked_def split: option.splits prod.splits)
    then show "V w' = V w" using rejectLink_file [OF assms(1) e] quiet(1) by auto
  qed
  then show ?thesis
  proof (rule remote_run_invariant [where J = "\<lambda>w. V w = V (rm_world r)"])
    show "V w' = V (rm_world r)" if "V w = V (rm_world r)" "fa_connector a c w = (x, w', c')" for c w x w' c'
      using that quiet(5) [of c w] by simp
  qed (simp_all add: quiet)
qed

section \<open>A server in memory\<close>

type_synonym ftp_files = "(string \<times> string) list"

definition ftp_info :: "string \<Rightarrow> ftp_files \<Rightarrow> (err + remote_info) \<times> ftp_files" where
  "ftp_info n w =
     (case map_of w n of
        None \<Rightarrow> (Inl errFileUnavailable, w)
      | Some content \<Rightarrow> (Inr \<lparr>ri_Name = path_Base n, ri_Size = go_len content, ri_Modified = 0,
          ri_Directory = False, ri_Link = False\<rparr>, w))"

definition sample_ftp_ops :: "(ftp_files, unit) ftp_session" where
  "sample_ftp_ops =
     \<lparr>fp_Retrieve = \<lambda>i n w. (([the (map_of w n)], None), w),
      fp_Store = \<lambda>i n source w c. (case io_copy source of (content, e) \<Rightarrow> (e, (n, content) # w, c)),
      fp_Stat = \<lambda>i. ftp_info, fp_List = \<lambda>i n w. (Inr [], w), fp_MakeDir = \<lambda>i n w. (None, w),
      fp_Delete = \<lambda>i n w. (None, filter (\<lambda>f. fst f \<noteq> n) w),
      fp_Rename = \<lambda>i old new w. (case map_of w old of
          None \<Rightarrow> (Some errFileUnavailable, w)
        | Some content \<Rightarrow> (None, filter (\<lambda>f. fst f \<noteq> old) ((new, content) # w))),
      fp_Abort = \<lambda>i w. (None, w), fp_Quit = \<lambda>i w. (None, w), fp_MachineListings = \<lambda>i. False\<rparr>"

definition sample_ftp :: "(ftp_files, unit) ftp_adapter" where
  "sample_ftp =
     \<lparr>fa_ops = sample_ftp_ops, fa_connector = \<lambda>c w. (Inr (), w, c),
      fa_random = \<lambda>w. (Inr ''0123456789abcdef'', w), fa_root = ''/srv'', fa_maxList = 10,
      fa_capabilities = \<lparr>cs_values = [], cs_index = {}\<rparr>,
      fa_profile = \<lparr>fpr_TLSMode = TLSPlaintext, fpr_DataMode = Passive, fpr_MachineListings = False\<rparr>\<rparr>"

definition sample_ftp_state :: "ftp_files \<Rightarrow> (ftp_files, unit) remote" where
  "sample_ftp_state w =
     \<lparr>rm_session = Some (), rm_closed = False, rm_world = w, rm_opened = [()], rm_released = []\<rparr>"

lemma map_of_without: "map_of (filter (\<lambda>f. fst f \<noteq> k) xs) = (map_of xs)(k := None)"
  by (induction xs) auto

lemma sample_ftp_server: "ftp_server sample_ftp map_of"
  unfolding ftp_server_def Let_def
  by (auto simp: sample_ftp_def sample_ftp_ops_def ftp_info_def map_of_without split: option.splits prod.splits)

section \<open>Properties\<close>


definition ftp_plain_write :: WriteOptions where
  "ftp_plain_write = \<lparr>wo_ContentType = [], wo_Metadata = None, wo_Visibility = VisibilityUnset,
     wo_IfNoneMatch = False\<rparr>"


text \<open>A transfer delivers the bytes of one \<^verbatim>\<open>Retrieve\<close>.\<close>

lemma concat_silent: "\<not> wrote_any chunks \<Longrightarrow> concat chunks = []"
  by (induction chunks) (simp_all add: wrote_any_def)

lemma ftp_retrieve_call:
  "ftp_retrieve a i p r = (x, r') \<Longrightarrow>
    \<exists>w'. fp_Retrieve (fa_ops a) i (ftp_remotePath a p) (rm_world r) = (x, w')"
  by (auto simp: ftp_retrieve_def split: prod.splits)

lemma ftp_replay_one:
  assumes "ftp_replay a i p chunks e r c = ((delivered, failure), r', c')" and "\<not> wrote_any chunks"
  shows "delivered = chunks \<and> failure \<noteq> None \<or>
    (\<exists>j w chunks' w'. fp_Retrieve (fa_ops a) j (ftp_remotePath a p) w = ((chunks', failure), w') \<and>
       concat delivered = concat chunks')"
proof -
  obtain d c1 where d: "ctx_Err c = (d, c1)" by (metis surj_pair)
  obtain z r2 c2 where s: "ftp_currentSession a (ftp_invalidate a i r) c1 = (z, r2, c2)" by (metis prod_cases3)
  show ?thesis
  proof (cases "d = None \<and> (\<exists>j. z = Inr j)")
    case False
    with assms(1) d s show ?thesis
      by (auto simp: ftp_replay_def split: option.splits sum.splits)
  next
    case True
    then obtain j where j: "d = None" "z = Inr j" by blast
    obtain chunks' e' r3 where rt: "ftp_retrieve a j p r2 = ((chunks', e'), r3)" by (metis surj_pair)
    with assms(1) d s j have out: "delivered = chunks @ chunks'" "failure = e'" by (simp_all add: ftp_replay_def)
    have "concat delivered = concat chunks'" unfolding out(1) concat_append concat_silent [OF assms(2)] by simp
    with ftp_retrieve_call [OF rt] out(2) show ?thesis by blast
  qed
qed

lemma ftp_transfer_one:
  assumes "ftp_transfer a i p r c = ((delivered, failure), r', c')"
  shows "\<exists>j w chunks e w'. fp_Retrieve (fa_ops a) j (ftp_remotePath a p) w = ((chunks, e), w') \<and>
    concat delivered = concat chunks \<and> (failure = None \<longrightarrow> e = None)"
proof -
  obtain chunks e r1 where rt: "ftp_retrieve a i p r = ((chunks, e), r1)" by (metis surj_pair)
  from ftp_retrieve_call [OF rt] obtain w1 where
    first: "fp_Retrieve (fa_ops a) i (ftp_remotePath a p) (rm_world r) = ((chunks, e), w1)" by blast
  let ?again = "e \<noteq> None \<and> ftp_isConnectionError (the e) \<and> \<not> wrote_any chunks"
  obtain d f r2 c1 where m: "(if ?again then ftp_replay a i p chunks (the e) r1 c else ((chunks, e), r1, c))
      = ((d, f), r2, c1)" by (metis surj_pair)
  have out: "delivered = d" "failure = None \<longrightarrow> f = None"
    using assms unfolding ftp_transfer_def rt prod.case m by (auto split: prod.splits option.splits)
  show ?thesis
  proof (cases ?again)
    case False
    with m have "d = chunks" "f = e" by (simp_all split: if_splits)
    with first out show ?thesis by blast
  next
    case True
    with m have "ftp_replay a i p chunks (the e) r1 c = ((d, f), r2, c1)" by simp
    from ftp_replay_one [OF this] True consider "d = chunks" "f \<noteq> None"
      | j w chunks' w' where "fp_Retrieve (fa_ops a) j (ftp_remotePath a p) w = ((chunks', f), w')"
          "concat d = concat chunks'" by blast
    then show ?thesis
    proof cases
      case 1
      with first out show ?thesis by blast
    next
      case 2
      with out show ?thesis by blast
    qed
  qed
qed

lemma io_copy_pipe: "fst (io_copy (pipe_reads (chunks, failure))) = concat chunks"
  by (induction chunks) (auto simp: pipe_reads_def split: option.splits prod.splits)

text \<open>
  (C18) A stream of \<^verbatim>\<open>Open\<close> holds the bytes of exactly one transfer of the file, also when the
  connection was lost and the transfer was made again: content of two transfers is never mixed
  or duplicated. A stream whose pipe was closed without an error is a complete transfer.
\<close>

theorem ftp_Open_one_transfer:
  assumes "ftp_OpenStream a p r c = (Ok st, r', c')"
  shows "\<exists>j w chunks e w' delivered failure.
    fp_Retrieve (fa_ops a) j (ftp_remotePath a p) w = ((chunks, e), w') \<and>
    st_reads st = pipe_reads (delivered, failure) \<and> fst (io_copy (st_reads st)) = concat chunks \<and>
    (failure = None \<longrightarrow> e = None)"
proof -
  from assms obtain i r2 c2 x r3 c3 where t: "ftp_transfer a i p r2 c2 = (x, r3, c3)"
    and st: "st_reads st = pipe_reads x"
    by (auto simp: ftp_OpenStream_def check_ctx_def split: prod.splits option.splits sum.splits if_splits)
  obtain delivered failure where x: "x = (delivered, failure)" by (metis surj_pair)
  from ftp_transfer_one [OF t [unfolded x]] obtain j w chunks e w' where
    "fp_Retrieve (fa_ops a) j (ftp_remotePath a p) w = ((chunks, e), w')"
    "concat delivered = concat chunks" "failure = None \<longrightarrow> e = None" by blast
  then show ?thesis using st x io_copy_pipe [of delivered failure]
    by (intro exI [of _ j] exI [of _ w] exI [of _ chunks] exI [of _ e] exI [of _ w'] exI [of _ delivered]
        exI [of _ failure]) simp
qed

text \<open>A server that loses its connection in a transfer: at once, or after a part of the file.\<close>

definition losing_ftp :: "string list \<Rightarrow> (nat, nat) ftp_adapter" where
  "losing_ftp part =
     \<lparr>fa_ops = \<lparr>fp_Retrieve = \<lambda>i n w. (if i = 0 then ((part, Some (Sentinel IoEOF)), w) else (([''whole''], None), w)),
        fp_Store = \<lambda>i n source w c. (None, w, c),
        fp_Stat = \<lambda>i n w. (Inr \<lparr>ri_Name = n, ri_Size = 5, ri_Modified = 0, ri_Directory = False, ri_Link = False\<rparr>, w),
        fp_List = \<lambda>i n w. (Inr [], w), fp_MakeDir = \<lambda>i n w. (None, w), fp_Delete = \<lambda>i n w. (None, w),
        fp_Rename = \<lambda>i old new w. (None, w), fp_Abort = \<lambda>i w. (None, w), fp_Quit = \<lambda>i w. (None, w),
        fp_MachineListings = \<lambda>i. False\<rparr>,
      fa_connector = \<lambda>c w. (Inr w, Suc w, c), fa_random = \<lambda>w. (Inr ''0123456789abcdef'', w),
      fa_root = ''/'', fa_maxList = 10, fa_capabilities = \<lparr>cs_values = [], cs_index = {}\<rparr>,
      fa_profile = \<lparr>fpr_TLSMode = TLSPlaintext, fpr_DataMode = Passive, fpr_MachineListings = False\<rparr>\<rparr>"

definition losing_state :: "(nat, nat) remote" where
  "losing_state = \<lparr>rm_session = Some 0, rm_closed = False, rm_world = 1, rm_opened = [0], rm_released = []\<rparr>"

theorem ftp_Open_one_transfer_witness:
  "case ftp_OpenStream (losing_ftp []) \<lparr>pvalue = ''a''\<rparr> losing_state Background of
     (Ok st, r', c') \<Rightarrow> io_copy (st_reads st) = (''whole'', None) \<and> rm_released r' = [0] \<and>
       (\<exists>j w chunks e w' delivered failure.
          fp_Retrieve (fa_ops (losing_ftp [])) j (ftp_remotePath (losing_ftp []) \<lparr>pvalue = ''a''\<rparr>) w = ((chunks, e), w') \<and>
          st_reads st = pipe_reads (delivered, failure) \<and> fst (io_copy (st_reads st)) = concat chunks \<and>
          (failure = None \<longrightarrow> e = None))
   | _ \<Rightarrow> False"
proof -
  have "case ftp_OpenStream (losing_ftp []) \<lparr>pvalue = ''a''\<rparr> losing_state Background of
     (Ok st, r', c') \<Rightarrow> io_copy (st_reads st) = (''whole'', None) \<and> rm_released r' = [0] | _ \<Rightarrow> False"
    by code_simp
  then obtain st r' c' where run: "ftp_OpenStream (losing_ftp []) \<lparr>pvalue = ''a''\<rparr> losing_state Background = (Ok st, r', c')"
    and st: "io_copy (st_reads st) = (''whole'', None)" "rm_released r' = [0]"
    by (auto split: prod.splits res.splits)
  from ftp_Open_one_transfer [OF run] run st show ?thesis by simp
qed

text \<open>
  A transfer that lost its connection after a part of the file, with the error \<^verbatim>\<open>io.EOF\<close>, closes
  its pipe with \<^verbatim>\<open>io.EOF\<close>: the client reads the part and a regular end of the stream.
\<close>

theorem ftp_lost_transfer_reads_complete:
  "case ftp_OpenStream (losing_ftp [''who'']) \<lparr>pvalue = ''a''\<rparr> losing_state Background of
     (Ok st, r', c') \<Rightarrow> io_copy (st_reads st) = (''who'', None) \<and> ftp_isConnectionError (Sentinel IoEOF)
   | _ \<Rightarrow> False"
  by code_simp

text \<open>
  The adapter fails closed: it is opened only for plaintext that the caller explicitly allowed,
  with a valid data mode and a root that is the whole server or explicitly allowed. Any TLS mode,
  and plaintext that was not allowed, is rejected before anything is dialled.
\<close>

theorem ftp_Open_fails_closed:
  assumes "ftp_Open lib rand ctx config w = (y, w', ctx')"
  shows "(\<forall>a r. y = Ok (a, r) \<longrightarrow>
      fc_TLSMode config = TLSPlaintext \<and> fc_AllowPlaintext config \<and> fc_DataMode config \<le> Active \<and>
      fc_Password config \<noteq> [] \<and> (fa_root a = ''/'' \<or> fc_AllowUnsafeSubroot config) \<and>
      fpr_TLSMode (ftp_Profile_of a) = TLSPlaintext) \<and>
    (fc_TLSMode config \<noteq> TLSPlaintext \<or> \<not> fc_AllowPlaintext config \<longrightarrow> (\<exists>e. y = Err e) \<and> w' = w)"
proof -
  have config: "fc_TLSMode config = TLSPlaintext \<and> fc_AllowPlaintext config \<and> fc_DataMode config \<le> Active \<and>
      fc_Password config \<noteq> [] \<and> (root = ''/'' \<or> fc_AllowUnsafeSubroot config)"
    if "ftp_check_config config = Ok root" for root
    using that by (auto simp: ftp_check_config_def bind_res_Ok_iff not_less split: if_splits option.splits)
  have panic: "ftp_check_config config \<noteq> Panic e" for e
    by (auto simp: ftp_check_config_def ftp_validateRoot_def validate_root_def Let_def
        split: option.splits if_splits)
  have first: "fc_TLSMode config = TLSPlaintext \<and> fc_AllowPlaintext config \<and> fc_DataMode config \<le> Active \<and>
      fc_Password config \<noteq> [] \<and> (fa_root a = ''/'' \<or> fc_AllowUnsafeSubroot config) \<and>
      fpr_TLSMode (ftp_Profile_of a) = TLSPlaintext" if "y = Ok (a, r)" for a r
  proof -
    from assms that obtain root c2 where root: "ftp_check_config config = Ok root"
      and new: "ftp_newAdapter (realSession (fl_client lib)) rand (Some c2)
          (Some (connect lib (fc_Address config) (fc_Username config) (fc_Password config) (ftp_options config)))
          root (ftp_defaultMaxList (fc_MaxListEntries config))
          \<lparr>fpr_TLSMode = fc_TLSMode config, fpr_DataMode = fc_DataMode config, fpr_MachineListings = False\<rparr> w
        = (Ok (a, r), w', ctx')"
      by (auto simp: ftp_Open_def split: option.splits res.splits prod.splits)
    from new have a: "ftp_validateRoot root = Ok (fa_root a)" "fpr_TLSMode (fa_profile a) = fc_TLSMode config"
      by (auto simp: ftp_newAdapter_def check_ctx_def bind_res_Ok_iff
          split: option.splits res.splits prod.splits if_splits sum.splits)
    have "fa_root a = ''/''" if "root = ''/''"
      using a(1) that by (simp add: ftp_validateRoot_def validate_root_def path_Clean_rooted [of "[]", simplified]
          split: if_splits option.splits)
    with config [OF root] a(2) show ?thesis by (auto simp: ftp_Profile_of_def)
  qed
  moreover have "(\<exists>e. y = Err e) \<and> w' = w" if "fc_TLSMode config \<noteq> TLSPlaintext \<or> \<not> fc_AllowPlaintext config"
    using that assms config panic by (auto simp: ftp_Open_def split: option.splits res.splits prod.splits)
  ultimately show ?thesis by blast
qed

text \<open>A protocol package that counts the connections it dialled.\<close>

definition sample_ftp_lib :: "(nat, unit) ftp_lib" where
  "sample_ftp_lib =
     \<lparr>fl_client = \<lparr>pc_Retrieve = \<lambda>k n w. (([], None), w), pc_Store = \<lambda>k n source w c. (None, w, c),
        pc_MLStat = \<lambda>k n w. (Inl errFileUnavailable, w), pc_List = \<lambda>k n w. (Inr [], w),
        pc_ModTime = \<lambda>k n w. (Inr 0, w), pc_MLList = \<lambda>k n w. (Inr [], w), pc_MakeDir = \<lambda>k n w. (None, w),
        pc_Delete = \<lambda>k n w. (None, w), pc_Rename = \<lambda>k old new w. (None, w), pc_Abort = \<lambda>k w. (None, w),
        pc_Quit = \<lambda>k w. (None, w)\<rparr>,
      fl_Dial = \<lambda>address options w. (Inr (), Suc w), fl_Login = \<lambda>k user password w. (None, w),
      fl_Features = \<lambda>k w. (Inr [''MLST''], w)\<rparr>"

definition sample_ftp_config :: "TLSMode \<Rightarrow> ftp_Config" where
  "sample_ftp_config mode =
     \<lparr>fc_Address = ''h'', fc_Username = ''u'', fc_Password = ''p'', fc_Root = [],
      fc_AllowUnsafeSubroot = False, fc_TLSMode = mode,
      fc_TLSConfig = Some \<lparr>tls_InsecureSkipVerify = False, tls_MinVersion = 0\<rparr>,
      fc_AllowPlaintext = True, fc_DataMode = Passive, fc_DisableEPSV = False, fc_Timeout = 0,
      fc_MaxListEntries = 0\<rparr>"

abbreviation sample_ftp_opened where
  "sample_ftp_opened mode \<equiv> ftp_Open sample_ftp_lib (\<lambda>w. (Inr ''0123456789abcdef'', w)) (Some Background)
     (sample_ftp_config mode) 0"

theorem ftp_Open_fails_closed_witness:
  "(case sample_ftp_opened TLSExplicit of (y, w', _) \<Rightarrow> (\<exists>e. y = Err e) \<and> w' = 0) \<and>
   (case sample_ftp_opened TLSPlaintext of
      (Ok (a, r), w', _) \<Rightarrow> w' = 1 \<and> fpr_TLSMode (ftp_Profile_of a) = TLSPlaintext | _ \<Rightarrow> False)"
proof
  have mode: "fc_TLSMode (sample_ftp_config TLSExplicit) \<noteq> TLSPlaintext" by code_simp
  obtain y w' c' where run: "sample_ftp_opened TLSExplicit = (y, w', c')" by (metis prod_cases3)
  from ftp_Open_fails_closed [OF run] mode run
  show "case sample_ftp_opened TLSExplicit of (y, w', _) \<Rightarrow> (\<exists>e. y = Err e) \<and> w' = 0" by simp
next
  have "case sample_ftp_opened TLSPlaintext of (Ok (a, r), w', _) \<Rightarrow> w' = 1 | _ \<Rightarrow> False" by code_simp
  then obtain a r c' where run: "sample_ftp_opened TLSPlaintext = (Ok (a, r), 1, c')"
    by (auto split: prod.splits res.splits)
  from ftp_Open_fails_closed [OF run] run
  show "case sample_ftp_opened TLSPlaintext of
      (Ok (a, r), w', _) \<Rightarrow> w' = 1 \<and> fpr_TLSMode (ftp_Profile_of a) = TLSPlaintext | _ \<Rightarrow> False" by simp
qed



end
