(* ===== verification/Ftp_Stream.thy ===== *)
theory Ftp_Stream
  imports Go_Errors "HOL-Library.Sublist"
begin

text \<open>
  The goroutines of the FTP adapter's read streams: \<^verbatim>\<open>readStream\<close> in \<^verbatim>\<open>src/ftp/ftp.go\<close>.

  Every stream has a goroutine that transfers and one that watches its context; the client reads
  and closes. All streams of an adapter share its control session and the lock \<^verbatim>\<open>opMu\<close>, which
  \<^verbatim>\<open>Open\<close> takes and the end of the transfer releases. The model is a step relation over all
  streams, so every interleaving is an execution. What one transfer delivers is the subject of
  \<^verbatim>\<open>Ftp_Adapter\<close>; here it is a list of chunks.
\<close>

section \<open>Streams\<close>

datatype watcher = Watching | WatchAborts | WatchGone
datatype closer = Unclosed | CloseAborts | CloseWaits | CloseReturned "err option"

text \<open>
  \<open>rs_chunks\<close> is what the server would send and \<open>rs_sent\<close> what went through the pipe;
  \<open>rs_outcome\<close> is the error the pipe was closed with, once the transfer has ended (\<^verbatim>\<open>done\<close> is
  closed then); \<open>rs_aborted\<close> is whether an \<^verbatim>\<open>Abort\<close> of the session met this transfer.
\<close>

record readStream =
  rs_chunks :: "string list"
  rs_sent :: "string list"
  rs_outcome :: "err option option"
  rs_readerClosed :: bool
  rs_aborted :: bool
  rs_ctx :: "sentinel option"
  rs_watcher :: watcher
  rs_closer :: closer

record ftp_streams =
  fx_streams :: "readStream list"
  fx_holder :: "nat option" \<comment> \<open>the stream that holds \<^verbatim>\<open>opMu\<close>\<close>

definition new_stream :: "string list \<Rightarrow> readStream" where
  "new_stream chunks =
     \<lparr>rs_chunks = chunks, rs_sent = [], rs_outcome = None, rs_readerClosed = False, rs_aborted = False,
      rs_ctx = None, rs_watcher = Watching, rs_closer = Unclosed\<rparr>"

definition no_streams :: ftp_streams where
  "no_streams = \<lparr>fx_streams = [], fx_holder = None\<rparr>"

definition on_stream :: "nat \<Rightarrow> (readStream \<Rightarrow> readStream) \<Rightarrow> ftp_streams \<Rightarrow> ftp_streams" where
  "on_stream i f s = s\<lparr>fx_streams := (fx_streams s)[i := f (fx_streams s ! i)]\<rparr>"

text \<open>\<^verbatim>\<open>abortTransfer\<close>: the session is aborted, whatever it is used for at that moment.\<close>

definition abort_session :: "ftp_streams \<Rightarrow> ftp_streams" where
  "abort_session s =
     (case fx_holder s of
        None \<Rightarrow> s
      | Some j \<Rightarrow>
          if rs_outcome (fx_streams s ! j) = None then on_stream j (\<lambda>r. r\<lparr>rs_aborted := True\<rparr>) s else s)"

text \<open>The error a transfer ends with: a cancelled context wins.\<close>

definition end_error :: "err option \<Rightarrow> readStream \<Rightarrow> err option" where
  "end_error e r = (case rs_ctx r of Some t \<Rightarrow> Some (Sentinel t) | None \<Rightarrow> e)"

inductive fx_step :: "ftp_streams \<Rightarrow> ftp_streams \<Rightarrow> bool" where
  opens: "fx_holder s = None \<Longrightarrow>
    fx_step s (s\<lparr>fx_streams := fx_streams s @ [new_stream chunks], fx_holder := Some (length (fx_streams s))\<rparr>)"
| delivers: "i < length (fx_streams s) \<Longrightarrow> r = fx_streams s ! i \<Longrightarrow> rs_outcome r = None \<Longrightarrow>
    \<not> rs_readerClosed r \<Longrightarrow> \<not> rs_aborted r \<Longrightarrow> rs_chunks r = rs_sent r @ chunk # rest \<Longrightarrow>
    fx_step s (on_stream i (\<lambda>r. r\<lparr>rs_sent := rs_sent r @ [chunk]\<rparr>) s)"
| completes: "i < length (fx_streams s) \<Longrightarrow> r = fx_streams s ! i \<Longrightarrow> rs_outcome r = None \<Longrightarrow>
    rs_sent r = rs_chunks r \<Longrightarrow>
    fx_step s (on_stream i (\<lambda>r. r\<lparr>rs_outcome := Some (end_error None r)\<rparr>) s)"
| fails: "i < length (fx_streams s) \<Longrightarrow> r = fx_streams s ! i \<Longrightarrow> rs_outcome r = None \<Longrightarrow>
    rs_aborted r \<or> rs_readerClosed r \<and> rs_sent r \<noteq> rs_chunks r \<Longrightarrow>
    fx_step s (on_stream i (\<lambda>r. r\<lparr>rs_outcome := Some (end_error (Some e) r)\<rparr>) s)"
| loses: "i < length (fx_streams s) \<Longrightarrow> r = fx_streams s ! i \<Longrightarrow> rs_outcome r = None \<Longrightarrow>
    fx_step s (on_stream i (\<lambda>r. r\<lparr>rs_outcome := Some (end_error (Some e) r)\<rparr>) s)"
| unlocks: "fx_holder s = Some i \<Longrightarrow> rs_outcome (fx_streams s ! i) \<noteq> None \<Longrightarrow>
    fx_step s (s\<lparr>fx_holder := None\<rparr>)"
| cancels: "i < length (fx_streams s) \<Longrightarrow> rs_ctx (fx_streams s ! i) = None \<Longrightarrow>
    t \<in> {ContextCanceled, ContextDeadlineExceeded} \<Longrightarrow>
    fx_step s (on_stream i (\<lambda>r. r\<lparr>rs_ctx := Some t\<rparr>) s)"
| watch_closes: "i < length (fx_streams s) \<Longrightarrow> r = fx_streams s ! i \<Longrightarrow> rs_watcher r = Watching \<Longrightarrow>
    rs_ctx r \<noteq> None \<Longrightarrow>
    fx_step s (on_stream i (\<lambda>r. r\<lparr>rs_readerClosed := True, rs_watcher := WatchAborts\<rparr>) s)"
| watch_aborts: "i < length (fx_streams s) \<Longrightarrow> rs_watcher (fx_streams s ! i) = WatchAborts \<Longrightarrow>
    fx_step s (on_stream i (\<lambda>r. r\<lparr>rs_watcher := WatchGone\<rparr>) (abort_session s))"
| watch_done: "i < length (fx_streams s) \<Longrightarrow> r = fx_streams s ! i \<Longrightarrow> rs_watcher r = Watching \<Longrightarrow>
    rs_outcome r \<noteq> None \<Longrightarrow>
    fx_step s (on_stream i (\<lambda>r. r\<lparr>rs_watcher := WatchGone\<rparr>) s)"
| call_Close: "i < length (fx_streams s) \<Longrightarrow> rs_closer (fx_streams s ! i) = Unclosed \<Longrightarrow>
    fx_step s (on_stream i (\<lambda>r. r\<lparr>rs_readerClosed := True, rs_closer := CloseAborts\<rparr>) s)"
| close_aborts: "i < length (fx_streams s) \<Longrightarrow> rs_closer (fx_streams s ! i) = CloseAborts \<Longrightarrow>
    fx_step s (on_stream i (\<lambda>r. r\<lparr>rs_closer := CloseWaits\<rparr>) (abort_session s))"
| close_returns: "i < length (fx_streams s) \<Longrightarrow> r = fx_streams s ! i \<Longrightarrow> rs_closer r = CloseWaits \<Longrightarrow>
    rs_outcome r \<noteq> None \<Longrightarrow>
    fx_step s (on_stream i (\<lambda>r. r\<lparr>rs_closer := CloseReturned (map_option Sentinel (rs_ctx r))\<rparr>) s)"

inductive fx_reachable :: "ftp_streams \<Rightarrow> bool" where
  start: "fx_reachable no_streams"
| step: "fx_reachable s \<Longrightarrow> fx_step s s' \<Longrightarrow> fx_reachable s'"

section \<open>The invariant\<close>

definition stream_ok :: "readStream \<Rightarrow> bool" where
  "stream_ok r =
     (prefix (rs_sent r) (rs_chunks r) \<and>
      (rs_outcome r = Some None \<longrightarrow> rs_sent r = rs_chunks r) \<and>
      (rs_closer r = CloseWaits \<and> rs_outcome r = None \<longrightarrow> rs_aborted r) \<and>
      (\<forall>e. rs_closer r = CloseReturned e \<longrightarrow> rs_outcome r \<noteq> None))"

text \<open>A transfer that has not ended holds the lock, so there is at most one.\<close>

definition fx_inv :: "ftp_streams \<Rightarrow> bool" where
  "fx_inv s =
     ((\<forall>r\<in>set (fx_streams s). stream_ok r) \<and>
      (\<forall>i<length (fx_streams s). rs_outcome (fx_streams s ! i) = None \<longrightarrow> fx_holder s = Some i) \<and>
      (\<forall>i. fx_holder s = Some i \<longrightarrow> i < length (fx_streams s)))"

lemma fx_invD:
  assumes "fx_inv s"
  shows "i < length (fx_streams s) \<Longrightarrow> stream_ok (fx_streams s ! i)"
    "i < length (fx_streams s) \<Longrightarrow> rs_outcome (fx_streams s ! i) = None \<Longrightarrow> fx_holder s = Some i"
    "fx_holder s = Some i \<Longrightarrow> i < length (fx_streams s)"
  using assms unfolding fx_inv_def by (blast intro: nth_mem)+

lemma on_stream_sel [simp]:
  "length (fx_streams (on_stream i f s)) = length (fx_streams s)" "fx_holder (on_stream i f s) = fx_holder s"
  "i < length (fx_streams s) \<Longrightarrow> j < length (fx_streams s) \<Longrightarrow>
    fx_streams (on_stream i f s) ! j = (if i = j then f (fx_streams s ! j) else fx_streams s ! j)"
  by (simp_all add: on_stream_def nth_list_update)

lemma fx_invI:
  assumes "\<And>i. i < length (fx_streams s) \<Longrightarrow> stream_ok (fx_streams s ! i)"
    and "\<And>i. i < length (fx_streams s) \<Longrightarrow> rs_outcome (fx_streams s ! i) = None \<Longrightarrow> fx_holder s = Some i"
    and "\<And>i. fx_holder s = Some i \<Longrightarrow> i < length (fx_streams s)"
  shows "fx_inv s"
  unfolding fx_inv_def using assms by (metis in_set_conv_nth)

lemma fx_inv_on_stream:
  assumes "fx_inv s" and "i < length (fx_streams s)" and "stream_ok (f (fx_streams s ! i))"
    and "rs_outcome (f (fx_streams s ! i)) = None \<Longrightarrow> rs_outcome (fx_streams s ! i) = None"
  shows "fx_inv (on_stream i f s)"
proof (rule fx_invI, unfold on_stream_sel(1,2))
  fix j
  show "fx_holder s = Some j \<Longrightarrow> j < length (fx_streams s)" by (rule fx_invD(3) [OF assms(1)])
  assume j: "j < length (fx_streams s)"
  show "stream_ok (fx_streams (on_stream i f s) ! j)"
    using assms(3) fx_invD(1) [OF assms(1) j] by (auto simp: on_stream_sel(3) [OF assms(2) j])
  assume "rs_outcome (fx_streams (on_stream i f s) ! j) = None"
  then have "rs_outcome (fx_streams s ! j) = None"
    unfolding on_stream_sel(3) [OF assms(2) j] using assms(4) by (auto split: if_splits)
  then show "fx_holder s = Some j" by (rule fx_invD(2) [OF assms(1) j])
qed

lemma abort_session_sel [simp]:
  "length (fx_streams (abort_session s)) = length (fx_streams s)" "fx_holder (abort_session s) = fx_holder s"
  by (simp_all add: abort_session_def split: option.split)

lemma abort_session_nth:
  assumes "fx_inv s" and "i < length (fx_streams s)"
  shows "fx_streams (abort_session s) ! i =
    (if fx_holder s = Some i \<and> rs_outcome (fx_streams s ! i) = None
     then (fx_streams s ! i)\<lparr>rs_aborted := True\<rparr> else fx_streams s ! i)"
proof (cases "fx_holder s")
  case (Some j)
  have "j < length (fx_streams s)" by (rule fx_invD(3) [OF assms(1) Some])
  with assms(2) show ?thesis by (simp add: abort_session_def Some)
qed (simp add: abort_session_def)

lemma abort_session_inv:
  assumes "fx_inv s" shows "fx_inv (abort_session s)"
proof (cases "fx_holder s")
  case (Some j)
  have j: "j < length (fx_streams s)" by (rule fx_invD(3) [OF assms Some])
  have "stream_ok ((fx_streams s ! j)\<lparr>rs_aborted := True\<rparr>)"
    using fx_invD(1) [OF assms j] by (simp add: stream_ok_def)
  then show ?thesis using fx_inv_on_stream [OF assms j] assms by (simp add: abort_session_def Some)
qed (simp add: abort_session_def assms)

lemma fx_step_inv:
  assumes "fx_step s s'" and inv: "fx_inv s" shows "fx_inv s'"
  using assms(1)
proof cases
  case (opens chunks)
  have new: "stream_ok (new_stream chunks)" by (simp add: stream_ok_def new_stream_def)
  show ?thesis
  proof (rule fx_invI)
    fix i
    show "fx_holder s' = Some i \<Longrightarrow> i < length (fx_streams s')" by (auto simp: opens(1))
    assume i: "i < length (fx_streams s')"
    show "stream_ok (fx_streams s' ! i)"
      using i new fx_invD(1) [OF inv, of i] by (cases "i < length (fx_streams s)") (simp_all add: opens(1) nth_append less_Suc_eq)
    show "fx_holder s' = Some i" if "rs_outcome (fx_streams s' ! i) = None"
      using that i fx_invD(2) [OF inv, of i] opens(2)
      by (cases "i < length (fx_streams s)") (simp_all add: opens(1) nth_append less_Suc_eq)
  qed
next
  case (delivers i r chunk rest)
  show ?thesis unfolding delivers(1)
    by (rule fx_inv_on_stream [OF inv delivers(2)])
      (use fx_invD(1) [OF inv delivers(2)] delivers(3-) in \<open>auto simp: stream_ok_def prefix_def\<close>)
next
  case (completes i r)
  show ?thesis unfolding completes(1)
    by (rule fx_inv_on_stream [OF inv completes(2)])
      (use fx_invD(1) [OF inv completes(2)] completes(3-) in \<open>auto simp: stream_ok_def\<close>)
next
  case (fails i r e)
  show ?thesis unfolding fails(1)
    by (rule fx_inv_on_stream [OF inv fails(2)])
      (use fx_invD(1) [OF inv fails(2)] fails(3-) in \<open>auto simp: stream_ok_def end_error_def split: option.splits\<close>)
next
  case (loses i r e)
  show ?thesis unfolding loses(1)
    by (rule fx_inv_on_stream [OF inv loses(2)])
      (use fx_invD(1) [OF inv loses(2)] loses(3-) in \<open>auto simp: stream_ok_def end_error_def split: option.splits\<close>)
next
  case (unlocks i)
  show ?thesis
  proof (rule fx_invI)
    fix j
    show "fx_holder s' = Some j \<Longrightarrow> j < length (fx_streams s')" by (simp add: unlocks(1))
    assume j: "j < length (fx_streams s')"
    then show "stream_ok (fx_streams s' ! j)" using fx_invD(1) [OF inv, of j] by (simp add: unlocks(1))
    show "fx_holder s' = Some j" if "rs_outcome (fx_streams s' ! j) = None"
      using that j fx_invD(2) [OF inv, of j] unlocks(2,3) by (simp add: unlocks(1))
  qed
next
  case (cancels i t)
  show ?thesis unfolding cancels(1)
    by (rule fx_inv_on_stream [OF inv cancels(2)])
      (use fx_invD(1) [OF inv cancels(2)] cancels(3-) in \<open>auto simp: stream_ok_def\<close>)
next
  case (watch_closes i r)
  show ?thesis unfolding watch_closes(1)
    by (rule fx_inv_on_stream [OF inv watch_closes(2)])
      (use fx_invD(1) [OF inv watch_closes(2)] watch_closes(3-) in \<open>auto simp: stream_ok_def\<close>)
next
  case (watch_aborts i)
  let ?s = "abort_session s"
  have i: "i < length (fx_streams ?s)" using watch_aborts(2) by simp
  show ?thesis unfolding watch_aborts(1)
    by (rule fx_inv_on_stream [OF abort_session_inv [OF inv] i])
      (use fx_invD(1) [OF abort_session_inv [OF inv] i] in \<open>auto simp: stream_ok_def\<close>)
next
  case (watch_done i r)
  show ?thesis unfolding watch_done(1)
    by (rule fx_inv_on_stream [OF inv watch_done(2)])
      (use fx_invD(1) [OF inv watch_done(2)] watch_done(3-) in \<open>auto simp: stream_ok_def\<close>)
next
  case (call_Close i)
  show ?thesis unfolding call_Close(1)
    by (rule fx_inv_on_stream [OF inv call_Close(2)])
      (use fx_invD(1) [OF inv call_Close(2)] call_Close(3-) in \<open>auto simp: stream_ok_def\<close>)
next
  case (close_aborts i)
  let ?s = "abort_session s"
  have i: "i < length (fx_streams ?s)" using close_aborts(2) by simp
  have hit: "rs_aborted (fx_streams ?s ! i)" if "rs_outcome (fx_streams ?s ! i) = None"
    using that fx_invD(2) [OF inv close_aborts(2)]
    by (simp add: abort_session_nth [OF inv close_aborts(2)] split: if_splits)
  show ?thesis unfolding close_aborts(1)
    by (rule fx_inv_on_stream [OF abort_session_inv [OF inv] i])
      (use fx_invD(1) [OF abort_session_inv [OF inv] i] hit in \<open>auto simp: stream_ok_def\<close>)
next
  case (close_returns i r)
  show ?thesis unfolding close_returns(1)
    by (rule fx_inv_on_stream [OF inv close_returns(2)])
      (use fx_invD(1) [OF inv close_returns(2)] close_returns(3-) in \<open>auto simp: stream_ok_def\<close>)
qed

lemma fx_reachable_inv: "fx_reachable s \<Longrightarrow> fx_inv s"
  by (induction rule: fx_reachable.induct) (simp add: fx_inv_def no_streams_def, rule fx_step_inv)

section \<open>Closing a stream\<close>

text \<open>What is left to do before a \<^verbatim>\<open>Close\<close> that was called has returned.\<close>

fun close_rank :: "readStream \<Rightarrow> nat" where
  "close_rank r =
     (case rs_closer r of
        Unclosed \<Rightarrow> 4
      | CloseAborts \<Rightarrow> 3
      | CloseWaits \<Rightarrow> if rs_outcome r = None then 2 else 1
      | CloseReturned e \<Rightarrow> 0)"

declare close_rank.simps [simp del]

lemma rank_on_stream:
  assumes "i < length (fx_streams s)" and "j < length (fx_streams s)"
    and "close_rank (f (fx_streams s ! j)) \<le> close_rank (fx_streams s ! j)"
  shows "close_rank (fx_streams (on_stream j f s) ! i) \<le> close_rank (fx_streams s ! i)"
  using assms(3) by (auto simp: on_stream_sel(3) [OF assms(2,1)])

lemma rank_abort:
  assumes "fx_inv s" and "i < length (fx_streams s)"
  shows "close_rank (fx_streams (abort_session s) ! i) = close_rank (fx_streams s ! i)"
  by (auto simp: abort_session_nth [OF assms] close_rank.simps)

lemma fx_step_rank:
  assumes "fx_step s s'" and inv: "fx_inv s" and i: "i < length (fx_streams s)"
  shows "i < length (fx_streams s')" and "close_rank (fx_streams s' ! i) \<le> close_rank (fx_streams s ! i)"
proof -
  show "i < length (fx_streams s')" using assms(1) i by cases simp_all
  show "close_rank (fx_streams s' ! i) \<le> close_rank (fx_streams s ! i)" using assms(1)
  proof cases
    case (watch_aborts j)
    then have "j < length (fx_streams (abort_session s))" "i < length (fx_streams (abort_session s))" using i by simp_all
    moreover have "close_rank (r\<lparr>rs_watcher := WatchGone\<rparr>) \<le> close_rank r" for r by (auto simp: close_rank.simps)
    ultimately show ?thesis
      unfolding watch_aborts(1) rank_abort [OF inv i, symmetric] by (intro rank_on_stream)
  next
    case (close_aborts j)
    then have j: "j < length (fx_streams (abort_session s))" "i < length (fx_streams (abort_session s))" using i by simp_all
    have "rs_closer (fx_streams (abort_session s) ! j) = CloseAborts"
      using close_aborts(3) by (simp add: abort_session_nth [OF inv close_aborts(2)])
    then have "close_rank ((fx_streams (abort_session s) ! j)\<lparr>rs_closer := CloseWaits\<rparr>) \<le> close_rank (fx_streams (abort_session s) ! j)"
      by (simp add: close_rank.simps)
    with j show ?thesis
      unfolding close_aborts(1) rank_abort [OF inv i, symmetric] by (intro rank_on_stream)
  qed (use i in \<open>auto intro!: rank_on_stream simp: close_rank.simps nth_append split: closer.splits\<close>)
qed

lemma close_moves:
  assumes inv: "fx_inv s" and i: "i < length (fx_streams s)" and "rs_closer (fx_streams s ! i) = c"
    and "c = CloseAborts \<or> c = CloseWaits"
  shows "\<exists>s'. fx_step s s' \<and> close_rank (fx_streams s' ! i) < close_rank (fx_streams s ! i)"
proof -
  let ?r = "fx_streams s ! i"
  consider "rs_closer ?r = CloseAborts" | "rs_closer ?r = CloseWaits" "rs_outcome ?r = None"
    | "rs_closer ?r = CloseWaits" "rs_outcome ?r \<noteq> None" using assms(3,4) by blast
  then show ?thesis
  proof cases
    case 1
    have "i < length (fx_streams (abort_session s))" using i by simp
    then have "close_rank (fx_streams (on_stream i (\<lambda>r. r\<lparr>rs_closer := CloseWaits\<rparr>) (abort_session s)) ! i) < close_rank ?r"
      using 1 i by (simp add: close_rank.simps)
    with fx_step.close_aborts [OF i 1] show ?thesis by blast
  next
    case 2
    then have "rs_aborted ?r" using fx_invD(1) [OF inv i] by (simp add: stream_ok_def)
    then have "fx_step s (on_stream i (\<lambda>r. r\<lparr>rs_outcome := Some (end_error (Some (New ''aborted'')) r)\<rparr>) s)"
      by (intro fx_step.fails [OF i refl 2(2)]) blast
    moreover have "close_rank (fx_streams (on_stream i (\<lambda>r. r\<lparr>rs_outcome := Some (end_error (Some (New ''aborted'')) r)\<rparr>) s) ! i)
        < close_rank ?r" using 2 i by (simp add: close_rank.simps)
    ultimately show ?thesis by blast
  next
    case 3
    have "close_rank (fx_streams (on_stream i (\<lambda>r. r\<lparr>rs_closer := CloseReturned (map_option Sentinel (rs_ctx r))\<rparr>) s) ! i)
        < close_rank ?r" using 3 i by (simp add: close_rank.simps)
    with fx_step.close_returns [OF i refl 3] show ?thesis by blast
  qed
qed


section \<open>A stream that aborts another\<close>

text \<open>The first stream was read to its end, the second is being read when the first is closed.\<close>

definition first_read :: readStream where
  "first_read = (new_stream [])\<lparr>rs_outcome := Some None, rs_readerClosed := True, rs_closer := CloseWaits\<rparr>"

definition crossed :: ftp_streams where
  "crossed = \<lparr>fx_streams = [first_read, (new_stream [''data''])\<lparr>rs_aborted := True\<rparr>], fx_holder = Some 1\<rparr>"

lemma crossed_reachable: "fx_reachable crossed"
proof -
  let ?a = "new_stream []" and ?b = "new_stream [''data'']"
  let ?s1 = "\<lparr>fx_streams = [?a], fx_holder = Some 0\<rparr>"
  let ?s2 = "\<lparr>fx_streams = [?a\<lparr>rs_outcome := Some None\<rparr>], fx_holder = Some 0\<rparr>"
  let ?s3 = "\<lparr>fx_streams = [?a\<lparr>rs_outcome := Some None\<rparr>], fx_holder = None\<rparr>"
  let ?s4 = "\<lparr>fx_streams = [?a\<lparr>rs_outcome := Some None\<rparr>, ?b], fx_holder = Some 1\<rparr>"
  let ?s5 = "\<lparr>fx_streams = [?a\<lparr>rs_outcome := Some None, rs_readerClosed := True, rs_closer := CloseAborts\<rparr>, ?b],
    fx_holder = Some 1\<rparr>"
  have "fx_step no_streams ?s1" using fx_step.opens [of no_streams "[]"] by (simp add: no_streams_def)
  moreover have "fx_step ?s1 ?s2" using fx_step.completes [of 0 ?s1 ?a]
    by (simp add: on_stream_def new_stream_def end_error_def)
  moreover have "fx_step ?s2 ?s3" using fx_step.unlocks [of ?s2 0] by simp
  moreover have "fx_step ?s3 ?s4" using fx_step.opens [of ?s3 "[''data'']"] by simp
  moreover have "fx_step ?s4 ?s5" using fx_step.call_Close [of 0 ?s4] by (simp add: on_stream_def new_stream_def)
  moreover have "fx_step ?s5 crossed" using fx_step.close_aborts [of 0 ?s5]
    by (simp add: on_stream_def new_stream_def abort_session_def crossed_def first_read_def)
  ultimately show ?thesis by (meson fx_reachable.intros)
qed

text \<open>
  Closing a stream that was already read to its end aborts the transfer of another stream, whose
  context is not cancelled and which nobody closed.
\<close>

theorem Close_aborts_other_stream:
  "\<exists>s. fx_reachable s \<and> rs_outcome (fx_streams s ! 0) = Some None \<and>
     rs_closer (fx_streams s ! 1) = Unclosed \<and> rs_ctx (fx_streams s ! 1) = None \<and>
     rs_outcome (fx_streams s ! 1) = None \<and> rs_aborted (fx_streams s ! 1)"
  using crossed_reachable by (intro exI [of _ crossed]) (simp add: crossed_def first_read_def new_stream_def)


end
