(* ===== verification/Fault_Injection.thy ===== *)
theory Fault_Injection
  imports Iterator_Contract
begin

text \<open>
  The fault seams of \<^verbatim>\<open>src/fstest/fault.go\<close>.
  A reader here is its \<^verbatim>\<open>Read\<close> method over a state of its own: it gets the length of the buffer
  and gives the bytes it put there and an error. A latency only delays a call: it is kept with the
  options and has no effect on the result.
\<close>

section \<open>Readers and writers\<close>

type_synonym 'r reading = "nat \<Rightarrow> 'r \<Rightarrow> (string \<times> err option) \<times> 'r"
type_synonym 'w writing = "string \<Rightarrow> 'w \<Rightarrow> (nat \<times> err option) \<times> 'w"

text \<open>A sequence of \<^verbatim>\<open>Read\<close> calls with buffers of these lengths, and the bytes they gave.\<close>

fun run_reads :: "'r reading \<Rightarrow> nat list \<Rightarrow> 'r \<Rightarrow> (string \<times> err option) list \<times> 'r" where
  "run_reads read [] r = ([], r)"
| "run_reads read (n # ns) r =
     (case read n r of
        (x, r1) \<Rightarrow> (case run_reads read ns r1 of (xs, r2) \<Rightarrow> (x # xs, r2)))"

definition delivered :: "(string \<times> err option) list \<Rightarrow> string" where
  "delivered outs = concat (map fst outs)"

lemma delivered_simps [simp]:
  "delivered [] = []" "delivered (x # xs) = fst x @ delivered xs" "delivered (xs @ ys) = delivered xs @ delivered ys"
  by (simp_all add: delivered_def)

text \<open>The contract of \<^verbatim>\<open>io.Reader\<close> that its clients rely on: it fits its buffer.\<close>

locale io_reader =
  fixes read :: "'r reading"
  assumes fits: "length (fst (fst (read n r))) \<le> n"
begin

lemma run_fits: "length (delivered (fst (run_reads read ns r))) \<le> sum_list ns"
proof (induction ns arbitrary: r)
  case (Cons n ns)
  obtain x r1 where x: "read n r = (x, r1)" by (metis surj_pair)
  have "length (fst x) \<le> n" using fits [of n r] x by simp
  then show ?case using Cons.IH [of r1] by (cases "run_reads read ns r1") (simp add: x)
qed simp

end

text \<open>\<^verbatim>\<open>strings.Reader\<close>.\<close>

definition strings_Read :: "string reading" where
  "strings_Read n s = (if s = [] then (([], Some (Sentinel IoEOF)), s) else ((take n s, None), drop n s))"

interpretation strings_reader: io_reader strings_Read
  by unfold_locales (simp add: strings_Read_def)

section \<open>The faulty reader\<close>

record FaultReaderOptions =
  fro_MaxChunk :: int64
  fro_FailAfter :: int64
  fro_Err :: "err option"
  fro_Latency :: int64
  fro_CorruptOffsets :: "int64 list"

record 'r FaultReader =
  fr_reader :: 'r
  fr_maxChunk :: int64
  fr_failAfter :: int64
  fr_err :: err
  fr_read :: int64
  fr_latency :: int64
  fr_corrupt :: "int64 list"

definition injected_error :: "err option \<Rightarrow> err" where
  "injected_error e = (case e of None \<Rightarrow> Sentinel IoErrUnexpectedEOF | Some e \<Rightarrow> e)"

definition NewFaultReader :: "'r \<Rightarrow> FaultReaderOptions \<Rightarrow> 'r FaultReader" where
  "NewFaultReader r opts =
     \<lparr>fr_reader = r, fr_maxChunk = fro_MaxChunk opts, fr_failAfter = fro_FailAfter opts,
      fr_err = injected_error (fro_Err opts), fr_read = 0,
      fr_latency = fro_Latency opts,
      fr_corrupt = filter (\<lambda>offset. 0 \<le> sint offset) (fro_CorruptOffsets opts)\<rparr>"

text \<open>How much of a buffer of length \<open>n\<close> is used, with \<open>passed\<close> bytes behind.\<close>

definition fault_limit :: "int64 \<Rightarrow> int64 \<Rightarrow> int64 \<Rightarrow> nat \<Rightarrow> nat" where
  "fault_limit maxChunk failAfter passed n =
     (let limit = (if 0 < sint maxChunk \<and> sint maxChunk < int n then nat (sint maxChunk) else n);
          remaining = failAfter - passed
      in if 0 \<le> sint failAfter \<and> sint remaining < int limit then nat (sint remaining) else limit)"

definition invert :: "char \<Rightarrow> char" where
  "invert c = char_of (255 - of_char c :: nat)"

fun corrupt_from :: "int64 list \<Rightarrow> int64 \<Rightarrow> string \<Rightarrow> string" where
  "corrupt_from corrupt offset [] = []"
| "corrupt_from corrupt offset (c # cs) =
     (if offset \<in> set corrupt then invert c else c) # corrupt_from corrupt (offset + 1) cs"

definition reached :: "int64 \<Rightarrow> int64 \<Rightarrow> bool" where
  "reached failAfter passed = (0 \<le> sint failAfter \<and> sint failAfter \<le> sint passed)"

definition FaultReader_Read :: "'r reading \<Rightarrow> 'r FaultReader reading" where
  "FaultReader_Read read n r =
     (if reached (fr_failAfter r) (fr_read r) then (([], Some (fr_err r)), r)
      else (case read (fault_limit (fr_maxChunk r) (fr_failAfter r) (fr_read r) n) (fr_reader r) of
        ((bytes, e), inner) \<Rightarrow>
          let r' = r\<lparr>fr_reader := inner, fr_read := fr_read r + of_nat (length bytes)\<rparr> in
          ((corrupt_from (fr_corrupt r) (fr_read r) bytes,
            if reached (fr_failAfter r') (fr_read r') then Some (fr_err r) else e), r')))"

section \<open>The faulty writer\<close>

record FaultWriterOptions =
  fwo_MaxChunk :: int64
  fwo_FailAfter :: int64
  fwo_Err :: "err option"
  fwo_Latency :: int64

record 'w FaultWriter =
  fw_writer :: 'w
  fw_maxChunk :: int64
  fw_failAfter :: int64
  fw_err :: err
  fw_latency :: int64
  fw_written :: int64

definition NewFaultWriter :: "'w \<Rightarrow> FaultWriterOptions \<Rightarrow> 'w FaultWriter" where
  "NewFaultWriter w opts =
     \<lparr>fw_writer = w, fw_maxChunk = fwo_MaxChunk opts, fw_failAfter = fwo_FailAfter opts,
      fw_err = injected_error (fwo_Err opts), fw_latency = fwo_Latency opts, fw_written = 0\<rparr>"

definition FaultWriter_Write :: "'w writing \<Rightarrow> 'w FaultWriter writing" where
  "FaultWriter_Write write buffer w =
     (if reached (fw_failAfter w) (fw_written w) then ((0, Some (fw_err w)), w)
      else (case write (take (fault_limit (fw_maxChunk w) (fw_failAfter w) (fw_written w) (length buffer)) buffer)
                (fw_writer w) of
        ((n, e), inner) \<Rightarrow>
          let w' = w\<lparr>fw_writer := inner, fw_written := fw_written w + of_nat n\<rparr> in
          ((n, if reached (fw_failAfter w') (fw_written w') then Some (fw_err w) else e), w')))"

definition FaultWriter_Written :: "'w FaultWriter \<Rightarrow> int64" where
  "FaultWriter_Written w = fw_written w"

section \<open>The faulty iterator\<close>

record FaultIterator =
  fi_entries :: "Entry list"
  fi_failAfter :: int64
  fi_fault :: err
  fi_index :: nat
  fi_current :: Entry
  fi_err :: "err option"
  fi_closed :: bool

definition NewFaultIterator :: "Entry list \<Rightarrow> int64 \<Rightarrow> err option \<Rightarrow> FaultIterator" where
  "NewFaultIterator entries failAfter fault =
     \<lparr>fi_entries = entries, fi_failAfter = failAfter,
      fi_fault = (case fault of None \<Rightarrow> New ''fstest: injected listing failure'' | Some e \<Rightarrow> e),
      fi_index = 0, fi_current = zero_Entry, fi_err = None, fi_closed = False\<rparr>"

definition FaultIterator_Next :: "FaultIterator \<Rightarrow> bool \<times> FaultIterator" where
  "FaultIterator_Next i =
     (if fi_closed i \<or> fi_err i \<noteq> None then (False, i)
      else if 0 \<le> sint (fi_failAfter i) \<and> sint (fi_failAfter i) \<le> int (fi_index i)
      then (False, i\<lparr>fi_err := Some (fi_fault i)\<rparr>)
      else if length (fi_entries i) \<le> fi_index i then (False, i)
      else (True, i\<lparr>fi_current := fi_entries i ! fi_index i, fi_index := Suc (fi_index i)\<rparr>))"

definition FaultIterator_Entry :: "FaultIterator \<Rightarrow> Entry" where
  "FaultIterator_Entry i = fi_current i"

definition FaultIterator_Err :: "FaultIterator \<Rightarrow> err option" where
  "FaultIterator_Err i = fi_err i"

definition FaultIterator_Close :: "FaultIterator \<Rightarrow> err option \<times> FaultIterator" where
  "FaultIterator_Close i = (None, i\<lparr>fi_closed := True\<rparr>)"

definition FaultIterator_Closed :: "FaultIterator \<Rightarrow> bool" where
  "FaultIterator_Closed i = fi_closed i"

definition fault_iterator_ops :: "FaultIterator iterator_ops" where
  "fault_iterator_ops =
     \<lparr>it_Next = FaultIterator_Next, it_Entry = FaultIterator_Entry, it_Err = FaultIterator_Err,
      it_Close = FaultIterator_Close\<rparr>"

section \<open>Lemmas\<close>

lemma corrupt_length [simp]: "length (corrupt_from corrupt offset s) = length s"
  by (induction s arbitrary: offset) simp_all

lemma corrupt_append:
  "corrupt_from corrupt offset (s @ t) =
     corrupt_from corrupt offset s @ corrupt_from corrupt (offset + of_nat (length s)) t"
  by (induction s arbitrary: offset) (simp_all add: ac_simps)

lemma invert_invert [simp]: "invert (invert c) = c"
proof -
  have "(of_char c :: nat) < 256" by simp
  then have "(of_char c :: nat) \<le> 255" by linarith
  then show ?thesis by (simp add: invert_def of_char_of)
qed

lemma corrupt_nth:
  "k < length s \<Longrightarrow> corrupt_from corrupt offset s ! k =
     (if offset + of_nat k \<in> set corrupt then invert (s ! k) else s ! k)"
  by (induction s arbitrary: offset k) (auto simp: nth_Cons ac_simps split: nat.split)

lemma sint_of_nat: "k < 2 ^ 63 \<Longrightarrow> sint (of_nat k :: int64) = int k"
  by (simp add: signed_of_nat signed_take_bit_int_eq_self)

lemma sint_minus:
  fixes a b :: int64
  assumes "0 \<le> sint a" and "0 \<le> sint b" shows "sint (a - b) = sint a - sint b"
proof -
  have "sint a < 2 ^ 63" "sint b < 2 ^ 63" using sint_lt [of a] sint_lt [of b] by simp_all
  then show ?thesis using assms
    by (simp add: sint_word_ariths(2) signed_take_bit_int_eq_self)
qed

lemma fault_limit_le: "fault_limit m f d n \<le> n"
  by (auto simp: fault_limit_def Let_def)

lemma fault_limit_fail:
  assumes "0 \<le> sint f" and "0 \<le> sint d" and "sint d < sint f"
  shows "int (fault_limit m f d n) \<le> sint f - sint d"
  using assms by (auto simp: fault_limit_def Let_def sint_minus)

text \<open>A faulty reader over a reader is a reader.\<close>

lemma fault_reader:
  assumes "io_reader read" shows "io_reader (FaultReader_Read read)"
proof
  fix n :: nat and r
  show "length (fst (fst (FaultReader_Read read n r))) \<le> n"
    using io_reader.fits [OF assms, of "fault_limit (fr_maxChunk r) (fr_failAfter r) (fr_read r) n" "fr_reader r"]
      fault_limit_le [of "fr_maxChunk r" "fr_failAfter r" "fr_read r" n]
    by (auto simp: FaultReader_Read_def Let_def split: prod.splits)
qed

interpretation fault_strings: io_reader "FaultReader_Read strings_Read"
  by (rule fault_reader) (rule strings_reader.io_reader_axioms)

definition fi_pending :: "FaultIterator \<Rightarrow> Entry list" where
  "fi_pending i =
     (if fi_closed i \<or> fi_err i \<noteq> None then []
      else if sint (fi_failAfter i) < 0 then drop (fi_index i) (fi_entries i)
      else take (nat (sint (fi_failAfter i)) - fi_index i) (drop (fi_index i) (fi_entries i)))"

definition fi_outcome :: "FaultIterator \<Rightarrow> err option" where
  "fi_outcome i =
     (if fi_err i \<noteq> None then fi_err i
      else if fi_closed i then None
      else if 0 \<le> sint (fi_failAfter i) \<and>
        sint (fi_failAfter i) \<le> int (max (fi_index i) (length (fi_entries i))) then Some (fi_fault i)
      else None)"

interpretation fault_iterator: entry_iterator fault_iterator_ops fi_pending fi_outcome
proof
  fix i e es
  show "\<exists>i'. it_Next fault_iterator_ops i = (False, i') \<and> fi_pending i' = [] \<and>
      it_Err fault_iterator_ops i' = fi_outcome i \<and> fi_outcome i' = fi_outcome i" if "fi_pending i = []"
    using that
    by (auto simp: fault_iterator_ops_def FaultIterator_Next_def FaultIterator_Err_def fi_pending_def
        fi_outcome_def split: if_splits)
  show "\<exists>i'. it_Next fault_iterator_ops i = (True, i') \<and> it_Entry fault_iterator_ops i' = e \<and>
      fi_pending i' = es \<and> fi_outcome i' = fi_outcome i \<and> it_Err fault_iterator_ops i' = None"
    if p: "fi_pending i = e # es"
  proof -
    let ?xs = "drop (fi_index i) (fi_entries i)" and ?f = "sint (fi_failAfter i)"
    have live: "\<not> fi_closed i" "fi_err i = None" using p by (auto simp: fi_pending_def split: if_splits)
    have "?xs \<noteq> []" using p by (auto simp: fi_pending_def simp del: drop_eq_Nil split: if_splits)
    then have lt: "fi_index i < length (fi_entries i)" by simp
    then have xs: "?xs = fi_entries i ! fi_index i # drop (Suc (fi_index i)) (fi_entries i)"
      by (rule Cons_nth_drop_Suc [symmetric])
    have before: "\<not> (0 \<le> ?f \<and> ?f \<le> int (fi_index i))"
    proof
      assume f: "0 \<le> ?f \<and> ?f \<le> int (fi_index i)"
      then have "nat ?f - fi_index i = 0" by linarith
      with f p live show False by (simp add: fi_pending_def)
    qed
    let ?j = "i\<lparr>fi_current := fi_entries i ! fi_index i, fi_index := Suc (fi_index i)\<rparr>"
    have nxt: "FaultIterator_Next i = (True, ?j)" using live lt before by (auto simp: FaultIterator_Next_def)
    have pend: "fi_entries i ! fi_index i = e \<and> fi_pending ?j = es"
    proof (cases "?f < 0")
      case True
      with p live xs show ?thesis by (simp add: fi_pending_def)
    next
      case False
      with before have "nat ?f - fi_index i = Suc (nat ?f - Suc (fi_index i))" by linarith
      with p live xs False show ?thesis by (simp add: fi_pending_def)
    qed
    have "fi_outcome ?j = fi_outcome i" using live lt by (simp add: fi_outcome_def max_def)
    then show ?thesis
      unfolding conjunct1 [OF pend, symmetric]
      using nxt live conjunct2 [OF pend]
      by (simp add: fault_iterator_ops_def FaultIterator_Entry_def FaultIterator_Err_def)
  qed
  show "fi_pending (snd (it_Close fault_iterator_ops i)) = []"
    by (simp add: fault_iterator_ops_def FaultIterator_Close_def fi_pending_def)
  show "fst (it_Close fault_iterator_ops i) = None" if "fi_outcome i = None"
    by (simp add: fault_iterator_ops_def FaultIterator_Close_def)
qed

section \<open>What a faulty reader delivers\<close>

lemma fault_run:
  assumes "io_reader read" and "fr_read fr = of_nat k" and "k + sum_list ns < 2 ^ 63"
    and "0 \<le> sint (fr_failAfter fr) \<longrightarrow> int k \<le> sint (fr_failAfter fr)"
    and "run_reads (FaultReader_Read read) ns fr = (outs, fr')"
  shows "(\<exists>ms inner. run_reads read ms (fr_reader fr) = (inner, fr_reader fr') \<and>
      delivered outs = corrupt_from (fr_corrupt fr) (of_nat k) (delivered inner)) \<and>
    (0 \<le> sint (fr_failAfter fr) \<longrightarrow> int (k + length (delivered outs)) \<le> sint (fr_failAfter fr) \<and>
      (\<forall>j<length outs. sint (fr_failAfter fr) \<le> int (k + length (delivered (take (Suc j) outs))) \<longrightarrow>
        snd (outs ! j) = Some (fr_err fr)))"
  using assms(2-5)
proof (induction ns arbitrary: fr k outs)
  case Nil
  then show ?case by (auto intro!: exI [of _ "[]"])
next
  case (Cons n ns)
  let ?F = "sint (fr_failAfter fr)"
  obtain out fr1 where one: "FaultReader_Read read n fr = (out, fr1)" by (metis surj_pair)
  obtain rest where rest: "run_reads (FaultReader_Read read) ns fr1 = (rest, fr')" and outs: "outs = out # rest"
    using Cons.prems(4) by (auto simp: one split: prod.splits)
  have k: "sint (fr_read fr) = int k" using Cons.prems(1,2) sint_of_nat by simp
  have errs: "snd (outs ! j) = Some (fr_err fr)"
    if j: "j < length outs" and first: "?F \<le> int (k + length (fst out)) \<Longrightarrow> snd out = Some (fr_err fr)"
      and later: "\<And>j. j < length rest \<Longrightarrow>
        ?F \<le> int (k + length (fst out) + length (delivered (take (Suc j) rest))) \<Longrightarrow> snd (rest ! j) = Some (fr_err fr)"
      and F: "?F \<le> int (k + length (delivered (take (Suc j) outs)))" for j
    using j first later F unfolding outs by (cases j) (auto simp: add.assoc)
  show ?case
  proof (cases "reached (fr_failAfter fr) (fr_read fr)")
    case True
    then have out: "out = ([], Some (fr_err fr))" "fr1 = fr" using one by (auto simp: FaultReader_Read_def)
    from Cons.IH [of fr k rest] Cons.prems rest out(2)
    have IH: "(\<exists>ms inner. run_reads read ms (fr_reader fr) = (inner, fr_reader fr') \<and>
        delivered rest = corrupt_from (fr_corrupt fr) (of_nat k) (delivered inner)) \<and>
      (0 \<le> ?F \<longrightarrow> int (k + length (delivered rest)) \<le> ?F \<and>
        (\<forall>j<length rest. ?F \<le> int (k + length (delivered (take (Suc j) rest))) \<longrightarrow>
          snd (rest ! j) = Some (fr_err fr)))" by simp
    then show ?thesis using errs out by (auto simp: outs)
  next
    case False
    let ?m = "fault_limit (fr_maxChunk fr) (fr_failAfter fr) (fr_read fr) n"
    obtain bytes e inner1 where rd: "read ?m (fr_reader fr) = ((bytes, e), inner1)" by (metis surj_pair)
    have len: "length bytes \<le> ?m" using io_reader.fits [OF assms(1), of ?m "fr_reader fr"] rd by simp
    then have lenn: "length bytes \<le> n" using fault_limit_le [of "fr_maxChunk fr" "fr_failAfter fr" "fr_read fr" n] by simp
    let ?k = "k + length bytes"
    have fr1: "fr1 = fr\<lparr>fr_reader := inner1, fr_read := of_nat ?k\<rparr>"
      and out: "fst out = corrupt_from (fr_corrupt fr) (of_nat k) bytes"
        "snd out = (if reached (fr_failAfter fr) (of_nat ?k) then Some (fr_err fr) else e)"
      using one False rd Cons.prems(1) by (auto simp: FaultReader_Read_def Let_def)
    have k1: "sint (of_nat ?k :: int64) = int ?k" by (rule sint_of_nat) (use Cons.prems(2) lenn in simp)
    have within: "int ?k \<le> ?F" if F: "0 \<le> ?F"
    proof -
      have "int k < ?F" using False F k by (simp add: reached_def)
      with fault_limit_fail [OF F, of "fr_read fr" "fr_maxChunk fr" n] k have "int ?m \<le> ?F - int k" by simp
      with len show ?thesis by linarith
    qed
    have "?k + sum_list ns < 2 ^ 63" using Cons.prems(2) lenn by simp
    from Cons.IH [of fr1 ?k rest] this rest within fr1
    have IH: "(\<exists>ms inner. run_reads read ms inner1 = (inner, fr_reader fr') \<and>
        delivered rest = corrupt_from (fr_corrupt fr) (of_nat ?k) (delivered inner))"
      "0 \<le> ?F \<Longrightarrow> int (?k + length (delivered rest)) \<le> ?F \<and>
        (\<forall>j<length rest. ?F \<le> int (?k + length (delivered (take (Suc j) rest))) \<longrightarrow>
          snd (rest ! j) = Some (fr_err fr))" by simp_all
    from IH(1) obtain ms inner where "run_reads read ms inner1 = (inner, fr_reader fr')"
      "delivered rest = corrupt_from (fr_corrupt fr) (of_nat ?k) (delivered inner)" by blast
    then have "run_reads read (?m # ms) (fr_reader fr) = ((bytes, e) # inner, fr_reader fr') \<and>
        delivered outs = corrupt_from (fr_corrupt fr) (of_nat k) (delivered ((bytes, e) # inner))"
      by (simp add: rd outs out corrupt_append)
    moreover have "int (k + length (delivered outs)) \<le> ?F \<and>
        (\<forall>j<length outs. ?F \<le> int (k + length (delivered (take (Suc j) outs))) \<longrightarrow>
          snd (outs ! j) = Some (fr_err fr))" if F: "0 \<le> ?F"
    proof (intro conjI allI impI)
      show "int (k + length (delivered outs)) \<le> ?F" using IH(2) [OF F] by (simp add: outs out)
      fix j assume "j < length outs" "?F \<le> int (k + length (delivered (take (Suc j) outs)))"
      then show "snd (outs ! j) = Some (fr_err fr)"
        using IH(2) [OF F] F k1 by (intro errs) (auto simp: out reached_def)
    qed
    ultimately show ?thesis by blast
  qed
qed

text \<open>
  (C38) A faulty reader delivers the bytes of its source with exactly the configured offsets
  inverted, whatever buffers it is read with, and never more bytes than it was told to fail
  after; once that many were delivered, every \<^verbatim>\<open>Read\<close> reports the injected error.
\<close>

theorem FaultReader_exact:
  assumes "io_reader read" and "sum_list ns < 2 ^ 63"
    and "run_reads (FaultReader_Read read) ns (NewFaultReader r opts) = (outs, fr)"
  shows "(\<exists>ms inner. run_reads read ms r = (inner, fr_reader fr) \<and>
      length (delivered outs) = length (delivered inner) \<and>
      (\<forall>k<length (delivered outs). delivered outs ! k =
        (if (\<exists>offset\<in>set (fro_CorruptOffsets opts). sint offset = int k)
         then invert (delivered inner ! k) else delivered inner ! k))) \<and>
    (0 \<le> sint (fro_FailAfter opts) \<longrightarrow> int (length (delivered outs)) \<le> sint (fro_FailAfter opts) \<and>
      (\<forall>j<length outs. sint (fro_FailAfter opts) \<le> int (length (delivered (take (Suc j) outs))) \<longrightarrow>
        snd (outs ! j) = Some (injected_error (fro_Err opts))))"
proof -
  let ?fr = "NewFaultReader r opts"
  have fr: "fr_read ?fr = of_nat 0" "fr_failAfter ?fr = fro_FailAfter opts" "fr_reader ?fr = r"
    "fr_err ?fr = injected_error (fro_Err opts)"
    "set (fr_corrupt ?fr) = {offset \<in> set (fro_CorruptOffsets opts). 0 \<le> sint offset}"
    by (simp_all add: NewFaultReader_def)
  from fault_run [OF assms(1) fr(1) _ _ assms(3)] assms(2) fr(2-4)
  have run: "\<exists>ms inner. run_reads read ms r = (inner, fr_reader fr) \<and>
      delivered outs = corrupt_from (fr_corrupt ?fr) 0 (delivered inner)"
    and fail: "0 \<le> sint (fro_FailAfter opts) \<longrightarrow> int (length (delivered outs)) \<le> sint (fro_FailAfter opts) \<and>
      (\<forall>j<length outs. sint (fro_FailAfter opts) \<le> int (length (delivered (take (Suc j) outs))) \<longrightarrow>
        snd (outs ! j) = Some (injected_error (fro_Err opts)))" by simp_all
  from run obtain ms inner where ms: "run_reads read ms r = (inner, fr_reader fr)"
    and out: "delivered outs = corrupt_from (fr_corrupt ?fr) 0 (delivered inner)" by blast
  have short: "length (delivered outs) < 2 ^ 63"
    using io_reader.run_fits [OF fault_reader [OF assms(1)], of ns ?fr] assms(2,3) by simp
  have "(of_nat k \<in> set (fr_corrupt ?fr)) = (\<exists>offset\<in>set (fro_CorruptOffsets opts). sint offset = int k)"
    if "k < length (delivered outs)" for k
  proof -
    have k: "sint (of_nat k :: int64) = int k" using that short by (intro sint_of_nat) simp
    have same: "offset = of_nat k" if "sint offset = int k" for offset :: int64
    proof -
      have "word_of_int (sint offset) = (of_nat k :: int64)" unfolding that by simp
      then show ?thesis by simp
    qed
    show ?thesis
    proof
      assume "of_nat k \<in> set (fr_corrupt ?fr)"
      then have "of_nat k \<in> set (fro_CorruptOffsets opts)" unfolding fr(5) by simp
      with k show "\<exists>offset\<in>set (fro_CorruptOffsets opts). sint offset = int k" by blast
    next
      assume "\<exists>offset\<in>set (fro_CorruptOffsets opts). sint offset = int k"
      then obtain offset where "offset \<in> set (fro_CorruptOffsets opts)" "sint offset = int k" by blast
      with same [OF this(2)] show "of_nat k \<in> set (fr_corrupt ?fr)" unfolding fr(5) by simp
    qed
  qed
  then have "\<forall>k<length (delivered outs). delivered outs ! k =
      (if (\<exists>offset\<in>set (fro_CorruptOffsets opts). sint offset = int k)
       then invert (delivered inner ! k) else delivered inner ! k)"
    by (auto simp: out corrupt_nth)
  with ms out fail show ?thesis by auto
qed


theorem FaultReader_exact_witness:
  "run_reads (FaultReader_Read strings_Read) [2, 9, 9] (NewFaultReader ''abcde''
      \<lparr>fro_MaxChunk = 0, fro_FailAfter = 4, fro_Err = None, fro_Latency = 0, fro_CorruptOffsets = [1]\<rparr>) =
    ([([CHR ''a'', invert (CHR ''b'')], None), (''cd'', Some (Sentinel IoErrUnexpectedEOF)),
      ([], Some (Sentinel IoErrUnexpectedEOF))],
     \<lparr>fr_reader = ''e'', fr_maxChunk = 0, fr_failAfter = 4, fr_err = Sentinel IoErrUnexpectedEOF,
      fr_read = 4, fr_latency = 0, fr_corrupt = [1]\<rparr>) \<and>
   (\<exists>ms inner. run_reads strings_Read ms ''abcde'' = (inner, ''e'') \<and> length (delivered inner) = 4 \<and>
      delivered inner ! 1 = CHR ''b'')"
proof
  let ?opts = "\<lparr>fro_MaxChunk = 0, fro_FailAfter = 4, fro_Err = None, fro_Latency = 0, fro_CorruptOffsets = [1]\<rparr> :: FaultReaderOptions"
  let ?outs = "[([CHR ''a'', invert (CHR ''b'')], None), (''cd'', Some (Sentinel IoErrUnexpectedEOF)),
      ([], Some (Sentinel IoErrUnexpectedEOF))]"
  let ?fr = "\<lparr>fr_reader = ''e'', fr_maxChunk = 0, fr_failAfter = 4, fr_err = Sentinel IoErrUnexpectedEOF,
      fr_read = 4, fr_latency = 0, fr_corrupt = [1]\<rparr> :: string FaultReader"
  show run: "run_reads (FaultReader_Read strings_Read) [2, 9, 9] (NewFaultReader ''abcde'' ?opts) = (?outs, ?fr)"
    by code_simp
  have "sum_list [2, 9, 9] < (2 :: nat) ^ 63" by simp
  from FaultReader_exact [OF strings_reader.io_reader_axioms this run] obtain ms inner where
    inner: "run_reads strings_Read ms ''abcde'' = (inner, ''e'')" "length (delivered inner) = 4"
      "\<forall>k<4. delivered ?outs ! k = (if (\<exists>offset\<in>set [1 :: int64]. sint offset = int k)
        then invert (delivered inner ! k) else delivered inner ! k)"
    by (auto simp: delivered_def)
  from inner(3) have "invert (delivered inner ! 1) = invert (CHR ''b'')" by (auto dest: spec [of _ 1])
  then have "invert (invert (delivered inner ! 1)) = invert (invert (CHR ''b''))" by simp
  then have "delivered inner ! 1 = CHR ''b''" by (simp add: invert_invert)
  with inner(1,2) show "\<exists>ms inner. run_reads strings_Read ms ''abcde'' = (inner, ''e'') \<and>
      length (delivered inner) = 4 \<and> delivered inner ! 1 = CHR ''b''" by blast
qed

end
