(* ===== verification/Tcp_Proxy.thy ===== *)
theory Tcp_Proxy
  imports Fault_Injection "HOL-Library.Multiset"
begin

text \<open>
  The TCP fault proxy: \<^verbatim>\<open>src/fstest/proxy.go\<close>. One direction of a connection is a copy from a
  faulty reader into a faulty writer. The goroutines of the proxy are a step relation over the
  connections it tracks; the listener and the sockets are the events of the environment.
\<close>

section \<open>Options\<close>

record TCPFaultDirection =
  td_DisconnectAfter :: int64
  td_Latency :: int64
  td_CorruptOffsets :: "int64 list"

record TCPFaultProxyOptions =
  to_ClientToServer :: TCPFaultDirection
  to_ServerToClient :: TCPFaultDirection

text \<open>The checks of \<^verbatim>\<open>NewTCPFaultProxy\<close>; \<open>host_port\<close> is whether \<^verbatim>\<open>net.SplitHostPort\<close> accepts the address.\<close>

definition check_proxy :: "(string \<Rightarrow> bool) \<Rightarrow> string \<Rightarrow> TCPFaultProxyOptions \<Rightarrow> err option" where
  "check_proxy host_port upstream opts =
     (let c = to_ClientToServer opts; s = to_ServerToClient opts in
      if \<not> host_port upstream
      then Some (New ''fstest: TCP fault proxy upstream must include host and port'')
      else if sint (td_DisconnectAfter c) < 0 \<or> sint (td_DisconnectAfter s) < 0
      then Some (New ''fstest: TCP fault proxy cutoff must not be negative'')
      else if sint (td_Latency c) < 0 \<or> sint (td_Latency s) < 0
      then Some (New ''fstest: TCP fault proxy latency must not be negative'')
      else None)"

section \<open>One direction\<close>

text \<open>\<^verbatim>\<open>io.Copy\<close> with its buffer of 32 KiB; a source that never ends has no result.\<close>

definition ErrShortWrite :: err where
  "ErrShortWrite = Sentinel (Package_error ''io.ErrShortWrite'')"

partial_function (option) io_Copy ::
  "'r reading \<Rightarrow> 'w writing \<Rightarrow> 'r \<Rightarrow> 'w \<Rightarrow> ('r \<times> 'w \<times> err option) option" where
  "io_Copy read wr r w =
     (case read 32768 r of
        ((bytes, er), r1) \<Rightarrow>
          (case (if bytes = [] then ((0, None), w) else wr bytes w) of
             ((n, ew), w1) \<Rightarrow>
               if ew \<noteq> None then Some (r1, w1, ew)
               else if length bytes < n then Some (r1, w1, Some (New ''invalid write result''))
               else if n \<noteq> length bytes then Some (r1, w1, Some ErrShortWrite)
               else (case er of
                   None \<Rightarrow> io_Copy read wr r1 w1
                 | Some e \<Rightarrow> Some (r1, w1, if e = Sentinel IoEOF then None else Some e))))"

definition direction_reader :: "'r \<Rightarrow> TCPFaultDirection \<Rightarrow> 'r FaultReader" where
  "direction_reader source d =
     NewFaultReader source
       \<lparr>fro_MaxChunk = 0,
        fro_FailAfter = (if 0 < sint (td_DisconnectAfter d) then td_DisconnectAfter d else -1),
        fro_Err = Some (Sentinel IoEOF), fro_Latency = 0, fro_CorruptOffsets = td_CorruptOffsets d\<rparr>"

definition direction_writer :: "'w \<Rightarrow> TCPFaultDirection \<Rightarrow> 'w FaultWriter" where
  "direction_writer destination d =
     NewFaultWriter destination
       \<lparr>fwo_MaxChunk = 0, fwo_FailAfter = -1, fwo_Err = None, fwo_Latency = td_Latency d\<rparr>"

definition copyDirection ::
  "'r reading \<Rightarrow> 'w writing \<Rightarrow> 'w \<Rightarrow> 'r \<Rightarrow> TCPFaultDirection \<Rightarrow>
    ('r FaultReader \<times> 'w FaultWriter \<times> err option) option" where
  "copyDirection read wr destination source d =
     io_Copy (FaultReader_Read read) (FaultWriter_Write wr) (direction_reader source d)
       (direction_writer destination d)"

text \<open>A destination that takes what it is given, and the writer of a direction over it.\<close>

definition buffer_Write :: "string writing" where
  "buffer_Write bytes w = ((length bytes, None), w @ bytes)"

lemma direction_write:
  assumes "fw_maxChunk w = 0" and "fw_failAfter w = -1"
  shows "FaultWriter_Write buffer_Write bytes w =
    ((length bytes, None), w\<lparr>fw_writer := fw_writer w @ bytes, fw_written := fw_written w + of_nat (length bytes)\<rparr>)"
  using assms by (simp add: FaultWriter_Write_def fault_limit_def buffer_Write_def reached_def)

lemma copy_forwards:
  assumes "fr_read r = of_nat k" and "fr_maxChunk r = 0" and "fr_err r = Sentinel IoEOF"
    and "k + length (fr_reader r) < 2 ^ 63" and "sint (fr_failAfter r) < 0 \<or> int k < sint (fr_failAfter r)"
    and "fw_maxChunk w = 0" and "fw_failAfter w = -1"
  shows "\<exists>r' w'. io_Copy (FaultReader_Read strings_Read) (FaultWriter_Write buffer_Write) r w = Some (r', w', None) \<and>
    fw_writer w' = fw_writer w @ corrupt_from (fr_corrupt r) (of_nat k)
      (if sint (fr_failAfter r) < 0 then fr_reader r
       else take (nat (sint (fr_failAfter r)) - k) (fr_reader r))"
  using assms
proof (induction "length (fr_reader r)" arbitrary: r k w rule: less_induct)
  case less
  let ?F = "sint (fr_failAfter r)" and ?s = "fr_reader r"
  let ?m = "fault_limit 0 (fr_failAfter r) (fr_read r) 32768"
  have k: "sint (fr_read r) = int k" using less.prems(1,4) sint_of_nat [of k] by simp
  have live: "\<not> reached (fr_failAfter r) (fr_read r)" using less.prems(5) k by (auto simp: reached_def)
  have m: "?m = (if ?F < 0 then 32768 else min 32768 (nat ?F - k))"
    using less.prems(5) k by (auto simp: fault_limit_def Let_def sint_minus min_def)
  then have pos: "0 < ?m" using less.prems(5) by (auto simp: min_def)
  show ?case
  proof (cases "?s = []")
    case True
    then show ?thesis using live less.prems(1-3)
      by (subst io_Copy.simps) (simp add: FaultReader_Read_def strings_Read_def)
  next
    case False
    let ?b = "take ?m ?s" and ?k = "k + length (take ?m ?s)"
    let ?r = "r\<lparr>fr_reader := drop ?m ?s, fr_read := of_nat ?k\<rparr>"
    let ?w = "w\<lparr>fw_writer := fw_writer w @ corrupt_from (fr_corrupt r) (of_nat k) ?b,
      fw_written := fw_written w + of_nat (length ?b)\<rparr>"
    have k1: "sint (of_nat ?k :: int64) = int ?k" by (rule sint_of_nat) (use less.prems(4) in simp)
    have rd: "FaultReader_Read strings_Read 32768 r =
        ((corrupt_from (fr_corrupt r) (of_nat k) ?b,
          if reached (fr_failAfter r) (of_nat ?k) then Some (Sentinel IoEOF) else None), ?r)"
      using live False less.prems(1-3) by (simp add: FaultReader_Read_def strings_Read_def)
    have ne: "corrupt_from (fr_corrupt r) (of_nat k) ?b \<noteq> []"
      using False pos corrupt_length [of "fr_corrupt r" "of_nat k" ?b] by (metis length_0_conv take_eq_Nil neq0_conv)
    have one: "io_Copy (FaultReader_Read strings_Read) (FaultWriter_Write buffer_Write) r w =
        (if reached (fr_failAfter r) (of_nat ?k) then Some (?r, ?w, None)
         else io_Copy (FaultReader_Read strings_Read) (FaultWriter_Write buffer_Write) ?r ?w)"
      by (subst io_Copy.simps) (simp add: rd ne direction_write [OF less.prems(6,7)] del: length_take)
    show ?thesis
    proof (cases "reached (fr_failAfter r) (of_nat ?k)")
      case True
      then have "\<not> ?F < 0" "nat ?F - k \<le> length ?b" using k1 by (auto simp: reached_def)
      with m have "take (nat ?F - k) ?s = ?b" by (auto simp: min_def split: if_splits)
      with one True \<open>\<not> ?F < 0\<close> show ?thesis by simp
    next
      case more: False
      let ?t = "if ?F < 0 then drop ?m ?s else take (nat ?F - ?k) (drop ?m ?s)"
      have "\<exists>r' w'. io_Copy (FaultReader_Read strings_Read) (FaultWriter_Write buffer_Write) ?r ?w = Some (r', w', None) \<and>
          fw_writer w' = fw_writer ?w @ corrupt_from (fr_corrupt ?r) (of_nat ?k)
            (if sint (fr_failAfter ?r) < 0 then fr_reader ?r
             else take (nat (sint (fr_failAfter ?r)) - ?k) (fr_reader ?r))"
      proof (rule less.hyps)
        show "length (fr_reader ?r) < length ?s" using False pos by simp
        show "sint (fr_failAfter ?r) < 0 \<or> int ?k < sint (fr_failAfter ?r)" using more k1 by (auto simp: reached_def)
      qed (use less.prems in simp_all)
      then obtain r' w' where run: "io_Copy (FaultReader_Read strings_Read) (FaultWriter_Write buffer_Write) ?r ?w = Some (r', w', None)"
        and w': "fw_writer w' = fw_writer ?w @ corrupt_from (fr_corrupt r) (of_nat ?k) ?t" by auto
      have t: "?b @ ?t = (if ?F < 0 then ?s else take (nat ?F - k) ?s)"
      proof (cases "?F < 0")
        case False
        with more k1 have lt: "?k < nat ?F" by (auto simp: reached_def)
        show ?thesis
        proof (cases "?m \<le> length ?s")
          case True
          with lt have "nat ?F - k = ?m + (nat ?F - ?k)" by simp
          then show ?thesis using False by (simp add: take_add True)
        next
          case short: False
          with lt False show ?thesis by simp
        qed
      qed simp
      have "fw_writer w' = fw_writer w @ corrupt_from (fr_corrupt r) (of_nat k) (?b @ ?t)"
        unfolding w' corrupt_append by simp
      with one more run show ?thesis unfolding t by simp
    qed
  qed
qed

text \<open>
  A direction forwards the source's bytes up to the cutoff with the configured offsets inverted,
  and its copy ends without an error.
\<close>

lemma copyDirection_forwards:
  assumes "0 \<le> sint (td_DisconnectAfter d)" and "length source < 2 ^ 63"
  shows "\<exists>r w. copyDirection strings_Read buffer_Write [] source d = Some (r, w, None) \<and>
    fw_writer w = corrupt_from (filter (\<lambda>offset. 0 \<le> sint offset) (td_CorruptOffsets d)) 0
      (if td_DisconnectAfter d = 0 then source else take (nat (sint (td_DisconnectAfter d))) source)"
proof -
  have zero: "(sint (td_DisconnectAfter d) = 0) = (td_DisconnectAfter d = 0)"
  proof
    assume "sint (td_DisconnectAfter d) = 0"
    then have "word_of_int (sint (td_DisconnectAfter d)) = (0 :: int64)" by simp
    then show "td_DisconnectAfter d = 0" by simp
  qed simp
  have "\<exists>r w. io_Copy (FaultReader_Read strings_Read) (FaultWriter_Write buffer_Write)
      (direction_reader source d) (direction_writer [] d) = Some (r, w, None) \<and>
    fw_writer w = fw_writer (direction_writer [] d) @ corrupt_from (fr_corrupt (direction_reader source d)) (of_nat 0)
      (if sint (fr_failAfter (direction_reader source d)) < 0 then fr_reader (direction_reader source d)
       else take (nat (sint (fr_failAfter (direction_reader source d))) - 0) (fr_reader (direction_reader source d)))"
    by (rule copy_forwards)
      (use assms zero in \<open>auto simp: direction_reader_def direction_writer_def NewFaultReader_def NewFaultWriter_def injected_error_def\<close>)
  then show ?thesis using assms(1) zero
    by (auto simp: copyDirection_def direction_reader_def direction_writer_def NewFaultReader_def NewFaultWriter_def
        split: if_splits)
qed

section \<open>Connections\<close>

text \<open>
  A connection is a number that no earlier connection had. The acceptor is the goroutine of
  \<^verbatim>\<open>accept\<close>, waiting or holding a connection it has not handed over; a worker is a goroutine of
  \<^verbatim>\<open>forward\<close> at one of its points: before its dial, before \<^verbatim>\<open>track\<close>, waiting for the directions
  that still copy (client to server, server to client), or before \<^verbatim>\<open>untrack\<close>.
\<close>

type_synonym conn = nat

datatype acceptor = Accepting | Accepted conn | Stopped
datatype worker = Dialing conn | Dialled conn conn | Forwarding conn conn bool bool | Releasing conn conn

text \<open>
  \<open>px_active\<close> and \<open>px_closed\<close> are the fields of the source and \<open>px_once\<close> is whether \<^verbatim>\<open>closeOnce\<close>
  ran. Of the sockets, \<open>px_open\<close> are those not closed, \<open>px_shut\<close> those whose write half was, and
  \<open>px_next\<close> is the next number. The wait group counts the acceptor and the workers.
\<close>

record proxy =
  px_listening :: bool
  px_active :: "conn set"
  px_closed :: bool
  px_once :: bool
  px_acceptor :: acceptor
  px_workers :: "worker list"
  px_open :: "conn set"
  px_shut :: "conn set"
  px_next :: conn

definition new_proxy :: proxy where
  "new_proxy =
     \<lparr>px_listening = True, px_active = {}, px_closed = False, px_once = False, px_acceptor = Accepting,
      px_workers = [], px_open = {}, px_shut = {}, px_next = 0\<rparr>"

definition NewTCPFaultProxy ::
  "(string \<Rightarrow> bool) \<Rightarrow> err option \<Rightarrow> string \<Rightarrow> TCPFaultProxyOptions \<Rightarrow> proxy res" where
  "NewTCPFaultProxy host_port listen upstream opts =
     (case check_proxy host_port upstream opts of
        Some e \<Rightarrow> Err e
      | None \<Rightarrow> (case listen of Some e \<Rightarrow> Err e | None \<Rightarrow> Ok new_proxy))"

definition track :: "conn list \<Rightarrow> proxy \<Rightarrow> bool \<times> proxy" where
  "track connections p =
     (if px_closed p then (False, p) else (True, p\<lparr>px_active := px_active p \<union> set connections\<rparr>))"

definition untrack :: "conn list \<Rightarrow> proxy \<Rightarrow> proxy" where
  "untrack connections p = p\<lparr>px_active := px_active p - set connections\<rparr>"

definition close_conns :: "conn set \<Rightarrow> proxy \<Rightarrow> proxy" where
  "close_conns cs p = p\<lparr>px_open := px_open p - cs\<rparr>"

text \<open>A worker goes from one point to the next, or returns.\<close>

definition becomes :: "worker \<Rightarrow> worker list \<Rightarrow> proxy \<Rightarrow> proxy" where
  "becomes wk wks p = p\<lparr>px_workers := wks @ remove1 wk (px_workers p)\<rparr>"

definition forward_dialled :: "conn \<Rightarrow> conn \<Rightarrow> proxy \<Rightarrow> proxy" where
  "forward_dialled client server p =
     (case track [client, server] p of
        (True, p') \<Rightarrow> becomes (Dialled client server) [Forwarding client server True True] p'
      | (False, p') \<Rightarrow> becomes (Dialled client server) [] (close_conns {client, server} p'))"

text \<open>\<^verbatim>\<open>Close\<close>: its listener part, then its critical section; it returns once no goroutine is left.\<close>

definition close_listener :: "proxy \<Rightarrow> proxy" where
  "close_listener p = p\<lparr>px_once := True, px_listening := False\<rparr>"

definition close_tracked :: "proxy \<Rightarrow> proxy" where
  "close_tracked p = close_conns (px_active p) (p\<lparr>px_closed := True\<rparr>)"

definition joined :: "proxy \<Rightarrow> bool" where
  "joined p = (px_closed p \<and> px_acceptor p = Stopped \<and> px_workers p = [])"

text \<open>Its result, from what the listener returned; a call after the first has no listener error.\<close>

definition close_result :: "err option \<Rightarrow> err option" where
  "close_result closeErr =
     (case closeErr of None \<Rightarrow> None | Some e \<Rightarrow> if errors_is e NetErrClosed then None else Some e)"

inductive proxy_step :: "proxy \<Rightarrow> proxy \<Rightarrow> bool" where
  accepted: "px_acceptor p = Accepting \<Longrightarrow> px_listening p \<Longrightarrow>
    proxy_step p (p\<lparr>px_acceptor := Accepted (px_next p), px_open := insert (px_next p) (px_open p),
      px_next := Suc (px_next p)\<rparr>)"
| handed: "px_acceptor p = Accepted c \<Longrightarrow>
    proxy_step p (p\<lparr>px_acceptor := Accepting, px_workers := Dialing c # px_workers p\<rparr>)"
| stopped: "px_acceptor p = Accepting \<Longrightarrow> proxy_step p (p\<lparr>px_acceptor := Stopped\<rparr>)"
| refused: "Dialing c \<in> set (px_workers p) \<Longrightarrow>
    proxy_step p (becomes (Dialing c) [] (close_conns {c} p))"
| dialled: "Dialing c \<in> set (px_workers p) \<Longrightarrow> s = px_next p \<Longrightarrow>
    proxy_step p (becomes (Dialing c) [Dialled c s] (p\<lparr>px_open := insert s (px_open p), px_next := Suc s\<rparr>))"
| tracked: "Dialled c s \<in> set (px_workers p) \<Longrightarrow> proxy_step p (forward_dialled c s p)"
| sent: "Forwarding c s True down \<in> set (px_workers p) \<Longrightarrow>
    proxy_step p (becomes (Forwarding c s True down) [Forwarding c s False down] (p\<lparr>px_shut := insert s (px_shut p)\<rparr>))"
| received: "Forwarding c s up True \<in> set (px_workers p) \<Longrightarrow>
    proxy_step p (becomes (Forwarding c s up True) [Forwarding c s up False] (p\<lparr>px_shut := insert c (px_shut p)\<rparr>))"
| copied: "Forwarding c s False False \<in> set (px_workers p) \<Longrightarrow>
    proxy_step p (becomes (Forwarding c s False False) [Releasing c s] (close_conns {c, s} p))"
| released: "Releasing c s \<in> set (px_workers p) \<Longrightarrow>
    proxy_step p (becomes (Releasing c s) [] (untrack [c, s] p))"
| listener: "\<not> px_once p \<Longrightarrow> proxy_step p (close_listener p)"
| closing: "px_once p \<Longrightarrow> \<not> px_closed p \<Longrightarrow> proxy_step p (close_tracked p)"

inductive proxy_reachable :: "proxy \<Rightarrow> bool" where
  start: "proxy_reachable new_proxy"
| step: "proxy_reachable p \<Longrightarrow> proxy_step p p' \<Longrightarrow> proxy_reachable p'"

inductive_cases proxy_stepE: "proxy_step p p'"

section \<open>Who owns a connection\<close>

fun conns :: "worker \<Rightarrow> conn list" where
  "conns (Dialing c) = [c]"
| "conns (Dialled c s) = [c, s]"
| "conns (Forwarding c s up down) = [c, s]"
| "conns (Releasing c s) = [c, s]"

fun held :: "acceptor \<Rightarrow> conn list" where
  "held (Accepted c) = [c]"
| "held a = []"

definition owned :: "proxy \<Rightarrow> conn multiset" where
  "owned p = mset (held (px_acceptor p) @ concat (map conns (px_workers p)))"

fun worker_ok :: "proxy \<Rightarrow> worker \<Rightarrow> bool" where
  "worker_ok p (Forwarding c s up down) =
     (if px_closed p then c \<notin> px_open p \<and> s \<notin> px_open p else c \<in> px_active p \<and> s \<in> px_active p)"
| "worker_ok p (Releasing c s) = (c \<notin> px_open p \<and> s \<notin> px_open p)"
| "worker_ok p wk = True"

lemma worker_ok_mono:
  assumes "worker_ok p wk" and "px_closed q = px_closed p"
    and "\<And>c. c \<in> set (conns wk) \<Longrightarrow> c \<in> px_open q \<Longrightarrow> c \<in> px_open p"
    and "\<And>c. c \<in> set (conns wk) \<Longrightarrow> c \<in> px_active p \<Longrightarrow> c \<in> px_active q"
  shows "worker_ok q wk"
  using assms by (cases wk) (auto split: if_splits)

lemma worker_ok_frame [simp]:
  "worker_ok (p\<lparr>px_workers := wks\<rparr>) wk = worker_ok p wk"
  "worker_ok (p\<lparr>px_acceptor := a\<rparr>) wk = worker_ok p wk"
  by (cases wk; simp)+

text \<open>
  Every open connection has exactly one owner, a forwarding worker is tracked until the proxy is
  closed, and from then on its connections are closed.
\<close>

definition proxy_inv :: "proxy \<Rightarrow> bool" where
  "proxy_inv p =
     (px_open p \<subseteq> set_mset (owned p) \<and> (\<forall>c. count (owned p) c \<le> 1) \<and>
      (\<forall>c\<in>#owned p. c < px_next p) \<and> (\<forall>wk\<in>set (px_workers p). worker_ok p wk) \<and>
      (px_closed p \<longrightarrow> px_once p) \<and> (px_once p \<longrightarrow> \<not> px_listening p))"

lemma proxy_invD:
  assumes "proxy_inv p"
  shows "px_open p \<subseteq> set_mset (owned p)" "count (owned p) c \<le> 1" "c \<in># owned p \<Longrightarrow> c < px_next p"
    "wk \<in> set (px_workers p) \<Longrightarrow> worker_ok p wk" "px_closed p \<Longrightarrow> px_once p" "px_once p \<Longrightarrow> \<not> px_listening p"
  using assms by (auto simp: proxy_inv_def)

lemma mset_concat_remove1:
  "x \<in> set xs \<Longrightarrow> mset (concat (map f xs)) = mset (f x) + mset (concat (map f (remove1 x xs)))"
  by (induction xs) auto

lemma owned_split:
  assumes "wk \<in> set (px_workers p)"
  shows "owned p = mset (conns wk) + owned (p\<lparr>px_workers := remove1 wk (px_workers p)\<rparr>)"
  using mset_concat_remove1 [OF assms, of conns] by (simp add: owned_def)

lemma owned_member: "wk \<in> set (px_workers p) \<Longrightarrow> c \<in> set (conns wk) \<Longrightarrow> c \<in># owned p"
  by (simp add: owned_split)

text \<open>A worker that moves on gives up its connections and owns those of its next point.\<close>

lemma owned_becomes:
  assumes "wk \<in> set (px_workers p)"
  shows "owned (becomes wk wks p) + mset (conns wk) = owned p + mset (concat (map conns wks))"
  using owned_split [OF assms] by (simp add: owned_def becomes_def ac_simps)

text \<open>Another worker shares no connection with it.\<close>

lemma disjoint_workers:
  assumes "proxy_inv p" and "wk \<in> set (px_workers p)" and "wk' \<in> set (remove1 wk (px_workers p))"
    and "c \<in> set (conns wk)"
  shows "c \<notin> set (conns wk')"
proof
  assume "c \<in> set (conns wk')"
  let ?q = "p\<lparr>px_workers := remove1 wk (px_workers p)\<rparr>"
  have "c \<in># owned ?q" using owned_member [of wk' ?q c] assms(3) \<open>c \<in> set (conns wk')\<close> by simp
  moreover have "c \<in># mset (conns wk)" using assms(4) by simp
  ultimately have "0 < count (mset (conns wk)) c" "0 < count (owned ?q) c" by (simp_all only: count_greater_zero_iff)
  moreover have "count (mset (conns wk)) c + count (owned ?q) c \<le> 1"
    using proxy_invD(2) [OF assms(1), of c] owned_split [OF assms(2)] by simp
  ultimately show False by linarith
qed

lemma owned_distinct:
  assumes "proxy_inv p" and "wk \<in> set (px_workers p)" shows "distinct (conns wk)"
proof -
  have "count (mset (conns wk)) c \<le> 1" for c
    using proxy_invD(2) [OF assms(1), of c] owned_split [OF assms(2)] by simp
  then have "count (mset (conns wk)) c = (if c \<in> set (conns wk) then 1 else 0)" for c
    by (metis One_nat_def count_eq_zero_iff le_Suc_eq le_zero_eq set_mset_mset)
  then show ?thesis by (simp add: distinct_count_atmost_1)
qed

section \<open>Every step keeps it\<close>

lemma proxy_inv_new: "proxy_inv new_proxy"
  by (simp add: proxy_inv_def new_proxy_def owned_def)

text \<open>
  The step of one worker: it keeps what it owns or closes it, and leaves the other workers'
  connections as they are.
\<close>

lemma worker_step:
  assumes inv: "proxy_inv p" and wk: "wk \<in> set (px_workers p)"
    and workers: "px_workers q = px_workers p" and same: "px_acceptor q = px_acceptor p" "px_closed q = px_closed p"
      "px_once q = px_once p" "px_listening q = px_listening p"
    and new: "set_mset (mset (concat (map conns wks))) \<subseteq> set (conns wk) \<union> {px_next p..<px_next q}"
      "distinct (concat (map conns wks))" "px_next p \<le> px_next q"
    and opened: "px_open q \<subseteq> px_open p \<union> {px_next p..<px_next q}"
      "px_open q \<inter> (set (conns wk) \<union> {px_next p..<px_next q}) \<subseteq> set (concat (map conns wks))"
    and active: "\<And>c. c \<notin> set (conns wk) \<Longrightarrow> c \<in> px_active p \<Longrightarrow> c \<in> px_active q"
    and ok: "\<And>w. w \<in> set wks \<Longrightarrow> worker_ok q w"
  shows "proxy_inv (becomes wk wks q)"
proof -
  let ?r = "p\<lparr>px_workers := remove1 wk (px_workers p)\<rparr>" and ?new = "concat (map conns wks)"
  have split: "owned p = mset (conns wk) + owned ?r" by (rule owned_split [OF wk])
  have own: "owned (becomes wk wks q) = mset ?new + owned ?r"
    by (simp add: owned_def becomes_def workers same)
  have apart: "c \<notin># owned ?r" if "c \<in> set ?new" for c
  proof (cases "c \<in> set (conns wk)")
    case True
    then have "0 < count (mset (conns wk)) c" by (simp only: count_greater_zero_iff set_mset_mset)
    moreover have "count (mset (conns wk)) c + count (owned ?r) c \<le> 1"
      using proxy_invD(2) [OF inv, of c] split by simp
    ultimately have "count (owned ?r) c = 0" by linarith
    then show ?thesis by (simp add: count_eq_zero_iff)
  next
    case False
    with new(1) that have "px_next p \<le> c" by auto
    then show ?thesis using proxy_invD(3) [OF inv, of c] split by auto
  qed
  have "count (owned (becomes wk wks q)) c \<le> 1" for c
  proof (cases "c \<in> set ?new")
    case True
    then have "count (owned ?r) c = 0" using apart by (simp add: count_eq_zero_iff)
    moreover have "count (mset ?new) c \<le> 1" using new(2) by (simp add: distinct_count_atmost_1)
    ultimately show ?thesis by (simp add: own)
  next
    case False
    then have "count (mset ?new) c = 0" by (simp only: count_eq_zero_iff set_mset_mset not_False_eq_True)
    moreover have "count (mset (conns wk)) c + count (owned ?r) c \<le> 1"
      using proxy_invD(2) [OF inv, of c] split by simp
    ultimately show ?thesis unfolding own count_union by linarith
  qed
  moreover have "c < px_next q" if "c \<in># owned (becomes wk wks q)" for c
  proof (cases "c \<in># owned p")
    case True
    then show ?thesis using proxy_invD(3) [OF inv, of c] new(3) by simp
  next
    case False
    with that split have "c \<in> set ?new" "c \<notin> set (conns wk)" by (auto simp: own)
    with new(1) show ?thesis by auto
  qed
  moreover have "px_open q \<subseteq> set_mset (owned (becomes wk wks q))"
  proof
    fix c assume c: "c \<in> px_open q"
    show "c \<in># owned (becomes wk wks q)"
    proof (cases "c \<in> set (conns wk) \<union> {px_next p..<px_next q}")
      case True
      with c opened(2) show ?thesis by (auto simp: own)
    next
      case False
      with c opened(1) have "c \<in> px_open p" by blast
      with proxy_invD(1) [OF inv] have "c \<in># owned p" by blast
      with False show ?thesis by (simp add: own split)
    qed
  qed
  moreover have "worker_ok q w" if w: "w \<in> set (remove1 wk (px_workers p))" for w
  proof -
    have ok0: "worker_ok p w" using proxy_invD(4) [OF inv] w by (meson notin_set_remove1)
    have "c \<notin> set (conns wk) \<and> c < px_next p" if "c \<in> set (conns w)" for c
      using that disjoint_workers [OF inv wk w] proxy_invD(3) [OF inv] owned_member [of w p c] w
      by (meson notin_set_remove1)
    with opened(1) active show ?thesis by (intro worker_ok_mono [OF ok0 same(2)]) fastforce+
  qed
  ultimately show ?thesis
    using proxy_invD(5,6) [OF inv] ok same
    by (auto simp: proxy_inv_def becomes_def workers)
qed

lemma proxy_step_inv:
  assumes "proxy_step p p'" and inv: "proxy_inv p" shows "proxy_inv p'"
  using assms(1)
proof cases
  case accepted
  let ?n = "px_next p"
  have fresh: "?n \<notin># owned p" using proxy_invD(3) [OF inv, of ?n] by blast
  have own: "owned p' = add_mset ?n (owned p)" by (simp add: accepted owned_def)
  have one: "count (owned p') c \<le> 1" for c
    using proxy_invD(2) [OF inv, of c] fresh by (auto simp: own count_eq_zero_iff)
  have "worker_ok p' wk" if wk: "wk \<in> set (px_workers p)" for wk
  proof (rule worker_ok_mono [OF proxy_invD(4) [OF inv wk]])
    fix c assume "c \<in> set (conns wk)" "c \<in> px_open p'"
    with owned_member [OF wk] fresh show "c \<in> px_open p" by (auto simp: accepted)
  qed (simp_all add: accepted)
  moreover have "\<forall>c\<in>#owned p'. c < px_next p'" unfolding own using proxy_invD(3) [OF inv] by (auto simp: accepted less_Suc_eq)
  moreover have "px_open p' \<subseteq> set_mset (owned p')" unfolding own using proxy_invD(1) [OF inv] by (auto simp: accepted)
  ultimately show ?thesis unfolding proxy_inv_def using one proxy_invD(5,6) [OF inv] by (auto simp: accepted)
next
  case (handed c)
  with inv show ?thesis by (auto simp: proxy_inv_def owned_def)
next
  case stopped
  with inv show ?thesis by (auto simp: proxy_inv_def owned_def)
next
  case (refused c)
  show ?thesis unfolding refused(1)
    by (rule worker_step [OF inv refused(2)]) (auto simp: close_conns_def)
next
  case (dialled c s)
  have "c < px_next p" using proxy_invD(3) [OF inv owned_member [OF dialled(2)], of c] by simp
  then show ?thesis unfolding dialled(1)
    by (intro worker_step [OF inv dialled(2)]) (auto simp: dialled(3))
next
  case (tracked c s)
  have "c \<noteq> s" using owned_distinct [OF inv tracked(2)] by simp
  then show ?thesis unfolding tracked(1) forward_dialled_def track_def
    by (cases "px_closed p")
      (auto intro!: worker_step [OF inv tracked(2)] simp: close_conns_def)
next
  case (sent c s down)
  have "c \<noteq> s" using owned_distinct [OF inv sent(2)] by simp
  then show ?thesis unfolding sent(1)
    using proxy_invD(4) [OF inv sent(2)] by (intro worker_step [OF inv sent(2)]) auto
next
  case (received c s up)
  have "c \<noteq> s" using owned_distinct [OF inv received(2)] by simp
  then show ?thesis unfolding received(1)
    using proxy_invD(4) [OF inv received(2)] by (intro worker_step [OF inv received(2)]) auto
next
  case (copied c s)
  have "c \<noteq> s" using owned_distinct [OF inv copied(2)] by simp
  then show ?thesis unfolding copied(1)
    by (intro worker_step [OF inv copied(2)]) (auto simp: close_conns_def)
next
  case (released c s)
  show ?thesis unfolding released(1)
    using proxy_invD(4) [OF inv released(2)]
    by (intro worker_step [OF inv released(2)]) (auto simp: untrack_def)
next
  case listener
  have "worker_ok p' wk" if "wk \<in> set (px_workers p)" for wk
    by (rule worker_ok_mono [OF proxy_invD(4) [OF inv that]]) (simp_all add: listener close_listener_def)
  with inv show ?thesis by (simp add: proxy_inv_def owned_def listener close_listener_def)
next
  case closing
  have "worker_ok (close_tracked p) wk" if "wk \<in> set (px_workers p)" for wk
    using proxy_invD(4) [OF inv that] closing(3) by (cases wk) (auto simp: close_tracked_def close_conns_def)
  with closing inv show ?thesis by (auto simp: proxy_inv_def owned_def close_tracked_def close_conns_def)
qed

lemma proxy_reachable_inv: "proxy_reachable p \<Longrightarrow> proxy_inv p"
  by (induction rule: proxy_reachable.induct) (auto intro: proxy_inv_new proxy_step_inv)

section \<open>Closing\<close>

fun acceptor_work :: "acceptor \<Rightarrow> nat" where
  "acceptor_work Accepting = 1"
| "acceptor_work (Accepted c) = 4"
| "acceptor_work Stopped = 0"

fun worker_work :: "worker \<Rightarrow> nat" where
  "worker_work (Dialing c) = 2"
| "worker_work (Dialled c s) = 1"
| "worker_work (Forwarding c s up down) = 2 + of_bool up + of_bool down"
| "worker_work (Releasing c s) = 1"

text \<open>A bound on the steps a closed proxy has left.\<close>

definition work :: "proxy \<Rightarrow> nat" where
  "work p = acceptor_work (px_acceptor p) + sum_list (map worker_work (px_workers p))"

lemma work_becomes:
  assumes "wk \<in> set (px_workers p)"
  shows "work (becomes wk wks p) + worker_work wk = work p + sum_list (map worker_work wks)"
  using sum_list_map_remove1 [OF assms, of worker_work] by (simp add: work_def becomes_def)

text \<open>Once closed, every step leaves less to do, and only a joined proxy has none.\<close>

lemma closed_step:
  assumes "proxy_step p p'" and inv: "proxy_inv p" and closed: "px_closed p"
  shows "px_closed p' \<and> work p' < work p"
  using assms(1)
proof cases
  case accepted
  with proxy_invD(5,6) [OF inv] closed show ?thesis by blast
next
  case (handed c)
  with closed show ?thesis by (simp add: work_def)
next
  case stopped
  with closed show ?thesis by (simp add: work_def)
next
  case (refused c)
  with closed work_becomes [of "Dialing c" "close_conns {c} p" "[]"] show ?thesis
    by (simp add: close_conns_def becomes_def work_def)
next
  case (dialled c s)
  with closed work_becomes [of "Dialing c" "p\<lparr>px_open := insert s (px_open p), px_next := Suc s\<rparr>" "[Dialled c s]"]
  show ?thesis by (simp add: becomes_def work_def)
next
  case (tracked c s)
  with closed work_becomes [of "Dialled c s" "close_conns {c, s} p" "[]"] show ?thesis
    by (simp add: forward_dialled_def track_def close_conns_def becomes_def work_def)
next
  case (sent c s down)
  with closed work_becomes [of "Forwarding c s True down" "p\<lparr>px_shut := insert s (px_shut p)\<rparr>" "[Forwarding c s False down]"]
  show ?thesis by (simp add: becomes_def work_def)
next
  case (received c s up)
  with closed work_becomes [of "Forwarding c s up True" "p\<lparr>px_shut := insert c (px_shut p)\<rparr>" "[Forwarding c s up False]"]
  show ?thesis by (simp add: becomes_def work_def)
next
  case (copied c s)
  with closed work_becomes [of "Forwarding c s False False" "close_conns {c, s} p" "[Releasing c s]"]
  show ?thesis by (simp add: close_conns_def becomes_def work_def)
next
  case (released c s)
  with closed work_becomes [of "Releasing c s" "untrack [c, s] p" "[]"] show ?thesis
    by (simp add: untrack_def becomes_def work_def)
next
  case listener
  with proxy_invD(5) [OF inv] closed show ?thesis by blast
next
  case closing
  with closed show ?thesis by blast
qed

lemma worker_moves: "wk \<in> set (px_workers p) \<Longrightarrow> \<exists>p'. proxy_step p p'"
proof (cases wk)
  case (Forwarding c s up down)
  assume "wk \<in> set (px_workers p)"
  with Forwarding show ?thesis
    using proxy_step.sent [of c s down p] proxy_step.received [of c s up p] proxy_step.copied [of c s p]
    by (cases up; cases down) auto
qed (auto intro: proxy_step.refused proxy_step.tracked proxy_step.released)

lemma closed_moves:
  assumes "px_closed p" and "\<not> joined p" shows "\<exists>p'. proxy_step p p'"
proof (cases "px_workers p")
  case Nil
  with assms have "px_acceptor p \<noteq> Stopped" by (simp add: joined_def)
  then show ?thesis using proxy_step.handed [of p] proxy_step.stopped [of p] by (cases "px_acceptor p") auto
next
  case (Cons wk wks)
  then show ?thesis using worker_moves [of wk p] by simp
qed

text \<open>
  (C21) Once \<^verbatim>\<open>Close\<close> has marked the proxy closed, every connection that is being forwarded is
  closed, whatever the interleaving of the accepting, dialling and copying goroutines was; every
  further step leaves fewer to take, a step is possible until all goroutines have returned, and
  when they have, which is when \<^verbatim>\<open>Close\<close> returns, no connection is left open.
\<close>

theorem proxy_Close_joins:
  assumes "proxy_reachable p" and "px_closed p"
  shows "(\<forall>c s up down. Forwarding c s up down \<in> set (px_workers p) \<longrightarrow> c \<notin> px_open p \<and> s \<notin> px_open p) \<and>
    (\<forall>p'. proxy_step p p' \<longrightarrow> px_closed p' \<and> work p' < work p) \<and>
    (joined p \<or> (\<exists>p'. proxy_step p p')) \<and> (joined p \<longrightarrow> px_open p = {})"
proof -
  have inv: "proxy_inv p" using assms(1) by (rule proxy_reachable_inv)
  have "c \<notin> px_open p \<and> s \<notin> px_open p" if "Forwarding c s up down \<in> set (px_workers p)" for c s up down
    using proxy_invD(4) [OF inv that] assms(2) by simp
  moreover have "px_open p = {}" if "joined p"
    using proxy_invD(1) [OF inv] that by (simp add: joined_def owned_def)
  ultimately show ?thesis using closed_step [OF _ inv assms(2)] closed_moves [OF assms(2)] by blast
qed

text \<open>A client is accepted and forwarded, and the proxy is closed while both directions copy.\<close>

definition sample_proxy :: proxy where
  "sample_proxy =
     \<lparr>px_listening = False, px_active = {0, 1}, px_closed = True, px_once = True, px_acceptor = Accepting,
      px_workers = [Forwarding 0 1 True True], px_open = {}, px_shut = {}, px_next = 2\<rparr>"

lemma sample_proxy_reachable: "proxy_reachable sample_proxy"
proof -
  let ?p1 = "new_proxy\<lparr>px_acceptor := Accepted 0, px_open := {0}, px_next := 1\<rparr>"
  let ?p2 = "?p1\<lparr>px_acceptor := Accepting, px_workers := [Dialing 0]\<rparr>"
  let ?p3 = "?p2\<lparr>px_workers := [Dialled 0 1], px_open := {0, 1}, px_next := 2\<rparr>"
  let ?p4 = "?p3\<lparr>px_workers := [Forwarding 0 1 True True], px_active := {0, 1}\<rparr>"
  have "proxy_step new_proxy ?p1" using proxy_step.accepted [of new_proxy] by (simp add: new_proxy_def)
  moreover have "proxy_step ?p1 ?p2" using proxy_step.handed [of ?p1 0] by (simp add: new_proxy_def)
  moreover have "proxy_step ?p2 ?p3" using proxy_step.dialled [of 0 ?p2 1]
    by (simp add: new_proxy_def becomes_def insert_commute numeral_2_eq_2)
  moreover have "proxy_step ?p3 ?p4" using proxy_step.tracked [of 0 1 ?p3]
    by (simp add: new_proxy_def becomes_def forward_dialled_def track_def)
  moreover have "proxy_step ?p4 (close_listener ?p4)" using proxy_step.listener [of ?p4] by (simp add: new_proxy_def)
  moreover have "proxy_step (close_listener ?p4) sample_proxy" using proxy_step.closing [of "close_listener ?p4"]
    by (simp add: new_proxy_def close_listener_def close_tracked_def close_conns_def sample_proxy_def)
  ultimately show ?thesis by (meson proxy_reachable.intros)
qed

theorem proxy_Close_joins_witness:
  "proxy_reachable sample_proxy \<and> px_closed sample_proxy \<and> (\<exists>p'. proxy_step sample_proxy p' \<and> work p' < work sample_proxy)"
proof -
  have closed: "px_closed sample_proxy" and busy: "\<not> joined sample_proxy"
    by (simp_all add: sample_proxy_def joined_def)
  from proxy_Close_joins [OF sample_proxy_reachable closed] busy show ?thesis
    using sample_proxy_reachable closed by blast
qed

end
