(* ===== verification/Tabular_Ingestion.thy ===== *)
theory Tabular_Ingestion
  imports Fault_Injection
begin

text \<open>
  The bounded CSV ingestion: \<^verbatim>\<open>src/integration/tabular-ingestion/composition.go\<close>.

  The CSV parser is another module's: it is a parameter, the two calls the composition makes on
  it, with a state of its own. The composition hands it a reader; that it uses the reader only
  through \<^verbatim>\<open>Read\<close> is the hypothesis \<open>borrows\<close>. The context is polled by the composition and by
  its reader, so its state travels with the reader.
\<close>

section \<open>Configuration\<close>

definition tabErrInvalidConfig :: err where
  "tabErrInvalidConfig = Sentinel (Package_error ''filesystem tabular ingestion: invalid configuration'')"

definition ErrObjectTooLarge :: err where
  "ErrObjectTooLarge = Sentinel (Package_error ''filesystem tabular ingestion: object byte limit exceeded'')"

definition ErrRowLimitExceeded :: err where
  "ErrRowLimitExceeded = Sentinel (Package_error ''filesystem tabular ingestion: row limit exceeded'')"

record Config =
  cf_MaxObjectBytes :: int64
  cf_MaxRecordBytes :: int64
  cf_MaxFieldBytes :: int64
  cf_MaxRows :: int64

definition ingest_config_ok :: "Config \<Rightarrow> bool" where
  "ingest_config_ok config =
     (0 < sint (cf_MaxObjectBytes config) \<and> 0 < sint (cf_MaxRecordBytes config) \<and>
      0 < sint (cf_MaxFieldBytes config) \<and> 0 < sint (cf_MaxRows config))"

section \<open>The bounded reader\<close>

text \<open>
  \<^verbatim>\<open>Read\<close> of a stream that has these results to give: one that does not fit the buffer is given
  in parts.
\<close>

definition stream_Read :: "reads reading" where
  "stream_Read n rs =
     (case rs of
        [] \<Rightarrow> (([], Some (Sentinel IoEOF)), [])
      | (chunk, e) # rest \<Rightarrow>
          if length chunk \<le> n then ((chunk, e), rest) else ((take n chunk, None), (drop n chunk, e) # rest))"

record boundedContextReader =
  bc_ctx :: ctx
  bc_source :: reads
  bc_remaining :: int64

definition bounded_Read :: "boundedContextReader reading" where
  "bounded_Read n r =
     (case ctx_Err (bc_ctx r) of
        (Some e, c) \<Rightarrow> (([], Some e), r\<lparr>bc_ctx := c\<rparr>)
      | (None, c) \<Rightarrow>
          if bc_remaining r = 0
          then (case stream_Read 1 (bc_source r) of
              ((probe, e), source) \<Rightarrow>
                (([], if probe \<noteq> [] then Some ErrObjectTooLarge else e), r\<lparr>bc_ctx := c, bc_source := source\<rparr>))
          else (case stream_Read (if sint (bc_remaining r) < int n then nat (sint (bc_remaining r)) else n)
                  (bc_source r) of
              ((bytes, e), source) \<Rightarrow>
                ((bytes, e), r\<lparr>bc_ctx := c, bc_source := source,
                  bc_remaining := bc_remaining r - of_nat (length bytes)\<rparr>)))"

section \<open>Ingestion\<close>

text \<open>What the composition passes to the parser's constructor.\<close>

datatype HeaderCase = HeaderCaseLower

record HeaderConfig =
  hc_TrimSpace :: bool
  hc_Case :: HeaderCase
  hc_RejectEmpty :: bool
  hc_RejectDuplicates :: bool

record DelimitedConfig =
  dc_MaxRecordBytes :: int64
  dc_MaxFieldBytes :: int64
  dc_MaxSourceBytes :: int64
  dc_Header :: "HeaderConfig option"

text \<open>The parser: its constructor and its \<^verbatim>\<open>Read\<close>, which gives a row and an error as in Go.\<close>

record ('p, 'row) tabular =
  tb_NewCSVReader :: "boundedContextReader reading \<Rightarrow> DelimitedConfig \<Rightarrow> boundedContextReader \<Rightarrow>
    (err + 'p) \<times> boundedContextReader"
  tb_Read :: "boundedContextReader reading \<Rightarrow> 'p \<Rightarrow> boundedContextReader \<Rightarrow>
    ('row \<times> err option) \<times> 'p \<times> boundedContextReader"

definition delimited :: "Config \<Rightarrow> DelimitedConfig" where
  "delimited config =
     \<lparr>dc_MaxRecordBytes = cf_MaxRecordBytes config, dc_MaxFieldBytes = cf_MaxFieldBytes config,
      dc_MaxSourceBytes = cf_MaxObjectBytes config,
      dc_Header = Some \<lparr>hc_TrimSpace = True, hc_Case = HeaderCaseLower, hc_RejectEmpty = True,
        hc_RejectDuplicates = True\<rparr>\<rparr>"

text \<open>The loop; \<open>consume\<close> is the callback over the state it changes.\<close>

partial_function (option) ingest_rows ::
  "('p, 'row) tabular \<Rightarrow> ('row \<Rightarrow> 'c \<Rightarrow> err option \<times> 'c) \<Rightarrow> int64 \<Rightarrow> int64 \<Rightarrow> 'p \<Rightarrow>
    boundedContextReader \<Rightarrow> 'c \<Rightarrow> (err option \<times> boundedContextReader \<times> 'c) option" where
  "ingest_rows tb consume maxRows rows p r cs =
     (case ctx_Err (bc_ctx r) of
        (Some e, c) \<Rightarrow> Some (Some e, r\<lparr>bc_ctx := c\<rparr>, cs)
      | (None, c) \<Rightarrow>
          (case tb_Read tb bounded_Read p (r\<lparr>bc_ctx := c\<rparr>) of
             ((row, e), p1, r1) \<Rightarrow>
               (case ctx_Err (bc_ctx r1) of
                  (Some ce, c1) \<Rightarrow> Some (Some ce, r1\<lparr>bc_ctx := c1\<rparr>, cs)
                | (None, c1) \<Rightarrow>
                    let r2 = r1\<lparr>bc_ctx := c1\<rparr> in
                    (case e of
                       Some e \<Rightarrow> Some (if errors_is e IoEOF then None else Some e, r2, cs)
                     | None \<Rightarrow>
                         if rows = maxRows then Some (Some ErrRowLimitExceeded, r2, cs)
                         else (case consume row cs of
                             (Some e, cs1) \<Rightarrow> Some (Some e, r2, cs1)
                           | (None, cs1) \<Rightarrow> ingest_rows tb consume maxRows (rows + 1) p1 r2 cs1)))))"

text \<open>The part between the opening of the stream and the deferred \<^verbatim>\<open>Close\<close>.\<close>

definition ingest_stream ::
  "('p, 'row) tabular \<Rightarrow> Config \<Rightarrow> ('row \<Rightarrow> 'c \<Rightarrow> err option \<times> 'c) \<Rightarrow> boundedContextReader \<Rightarrow> 'c \<Rightarrow>
    (err option \<times> boundedContextReader \<times> 'c) option" where
  "ingest_stream tb config consume r cs =
     (case tb_NewCSVReader tb bounded_Read (delimited config) r of
        (Inl e, r1) \<Rightarrow> Some (Some e, r1, cs)
      | (Inr p, r1) \<Rightarrow> ingest_rows tb consume (cf_MaxRows config) 0 p r1 cs)"

text \<open>Nil arguments and a nil stream are \<^term>\<open>None\<close>; the result has the states of source, context and callback.\<close>

definition IngestCSV ::
  "('p, 'row) tabular \<Rightarrow> ctx option \<Rightarrow> (path \<Rightarrow> ('s, stream option) action) option \<Rightarrow> path \<Rightarrow> Config \<Rightarrow>
    ('row \<Rightarrow> 'c \<Rightarrow> err option \<times> 'c) option \<Rightarrow> 's \<Rightarrow> 'c \<Rightarrow> (unit res \<times> 's \<times> 'c) option" where
  "IngestCSV tb ctx source object config consume s cs =
     (case (ctx, source, consume) of
        (Some c, Some source, Some consume) \<Rightarrow>
          if \<not> ingest_config_ok config then Some (Err tabErrInvalidConfig, s, cs)
          else (case source object s c of
              (Err e, s1, c1) \<Rightarrow> Some (Err e, s1, cs)
            | (Panic e, s1, c1) \<Rightarrow> Some (Panic e, s1, cs)
            | (Ok None, s1, c1) \<Rightarrow> Some (Err tabErrInvalidConfig, s1, cs)
            | (Ok (Some st), s1, c1) \<Rightarrow>
                (case ingest_stream tb config consume
                        \<lparr>bc_ctx = c1, bc_source = st_reads st, bc_remaining = cf_MaxObjectBytes config\<rparr> cs of
                   None \<Rightarrow> None
                 | Some (returnErr, r, cs1) \<Rightarrow>
                     Some (case errors_Join [returnErr, st_close st] of None \<Rightarrow> Ok () | Some e \<Rightarrow> Err e, s1, cs1)))
      | _ \<Rightarrow> Some (Err tabErrInvalidConfig, s, cs))"

section \<open>What the parser is given\<close>

interpretation stream_reader: io_reader stream_Read
  by unfold_locales (auto simp: stream_Read_def split: list.splits)

interpretation bounded_reader: io_reader bounded_Read
proof
  fix n :: nat and r :: boundedContextReader
  let ?m = "if sint (bc_remaining r) < int n then nat (sint (bc_remaining r)) else n"
  have "length (fst (fst (stream_Read ?m (bc_source r)))) \<le> ?m" by (rule stream_reader.fits)
  moreover have "?m \<le> n" by auto
  ultimately have "length (fst (fst (stream_Read ?m (bc_source r)))) \<le> n" by linarith
  then show "length (fst (fst (bounded_Read n r))) \<le> n"
    by (auto simp: bounded_Read_def split: prod.splits option.splits if_splits)
qed

definition reads_content :: "reads \<Rightarrow> string" where
  "reads_content rs = concat (map fst rs)"

lemma stream_Read_content: "stream_Read n rs = ((bytes, e), rs') \<Longrightarrow> reads_content rs = bytes @ reads_content rs'"
  by (auto simp: stream_Read_def reads_content_def split: list.splits if_splits)

text \<open>The reads of the parser, with polls of the context by the composition between them.\<close>

inductive bounded_run :: "boundedContextReader \<Rightarrow> (string \<times> err option) list \<Rightarrow> boundedContextReader \<Rightarrow> bool" where
  stay: "bounded_run r [] r"
| read: "bounded_Read n r = (out, r1) \<Longrightarrow> bounded_run r1 outs r' \<Longrightarrow> bounded_run r (out # outs) r'"
| poll: "bounded_run (r\<lparr>bc_ctx := c\<rparr>) outs r' \<Longrightarrow> bounded_run r outs r'"

lemma bounded_run_trans: "bounded_run r outs r1 \<Longrightarrow> bounded_run r1 outs' r' \<Longrightarrow> bounded_run r (outs @ outs') r'"
  by (induction rule: bounded_run.induct) (auto intro: bounded_run.intros)

lemma bounded_run_reads: "bounded_run r (fst (run_reads bounded_Read ns r)) (snd (run_reads bounded_Read ns r))"
proof (induction ns arbitrary: r)
  case (Cons n ns)
  obtain out r1 where "bounded_Read n r = (out, r1)" by (metis surj_pair)
  with bounded_run.read [OF this Cons.IH [of r1]] show ?case by (cases "run_reads bounded_Read ns r1") simp
qed (simp add: bounded_run.stay)

text \<open>One read: what is taken from the budget is what is delivered, and that is the stream's next bytes.\<close>

lemma bounded_Read_budget:
  assumes "bounded_Read n r = (out, r1)" and "0 \<le> sint (bc_remaining r)"
  shows "sint (bc_remaining r) = int (length (fst out)) + sint (bc_remaining r1) \<and> 0 \<le> sint (bc_remaining r1) \<and>
    (bc_remaining r1 = 0 \<and> fst out = [] \<or> reads_content (bc_source r) = fst out @ reads_content (bc_source r1))"
proof (cases "ctx_Err (bc_ctx r)")
  case (Pair e c)
  show ?thesis
  proof (cases "e = None \<and> bc_remaining r \<noteq> 0")
    case False
    then show ?thesis using assms Pair by (auto simp: bounded_Read_def split: prod.splits option.splits if_splits)
  next
    case True
    let ?m = "if sint (bc_remaining r) < int n then nat (sint (bc_remaining r)) else n"
    obtain bytes e' source where rd: "stream_Read ?m (bc_source r) = ((bytes, e'), source)" by (metis surj_pair)
    have len: "int (length bytes) \<le> sint (bc_remaining r)"
      using stream_reader.fits [of ?m "bc_source r"] assms(2) by (simp add: rd split: if_splits)
    then have "length bytes < 2 ^ 63" using sint_lt [of "bc_remaining r"] by simp
    then have k: "sint (of_nat (length bytes) :: int64) = int (length bytes)" by (rule sint_of_nat)
    have "sint (bc_remaining r - of_nat (length bytes)) = sint (bc_remaining r) - int (length bytes)"
      using sint_minus [of "bc_remaining r" "of_nat (length bytes)"] assms(2) k by simp
    moreover have "fst out = bytes" "bc_source r1 = source" "bc_remaining r1 = bc_remaining r - of_nat (length bytes)"
      using assms(1) True Pair rd by (auto simp: bounded_Read_def)
    ultimately show ?thesis using len stream_Read_content [OF rd] by simp
  qed
qed

lemma bounded_run_budget:
  assumes "bounded_run r outs r'" and "0 \<le> sint (bc_remaining r)"
  shows "sint (bc_remaining r) = int (length (delivered outs)) + sint (bc_remaining r') \<and> 0 \<le> sint (bc_remaining r') \<and>
    (\<exists>rest. reads_content (bc_source r) = delivered outs @ rest)"
  using assms
proof (induction rule: bounded_run.induct)
  case (read n r out r1 outs r')
  note one = bounded_Read_budget [OF read.hyps(1) read.prems]
  have later: "sint (bc_remaining r1) = int (length (delivered outs)) + sint (bc_remaining r')"
    "0 \<le> sint (bc_remaining r')" "\<exists>rest. reads_content (bc_source r1) = delivered outs @ rest"
    using read.IH one by blast+
  have "\<exists>rest. reads_content (bc_source r) = delivered (out # outs) @ rest"
  proof (cases "bc_remaining r1 = 0 \<and> fst out = []")
    case True
    with later(1,2) have "length (delivered outs) = 0" by (simp only: signed_0)
    with True show ?thesis by simp
  next
    case False
    with one later(3) show ?thesis by auto
  qed
  with one later show ?case by simp
qed simp_all

section \<open>The bounds hold\<close>

text \<open>The documented behaviour of the parser that the composition relies on.\<close>

definition borrows :: "('p, 'row) tabular \<Rightarrow> bool" where
  "borrows tb =
     ((\<forall>config r. \<exists>ns. snd (tb_NewCSVReader tb bounded_Read config r) = snd (run_reads bounded_Read ns r)) \<and>
      (\<forall>p r. \<exists>ns. snd (snd (tb_Read tb bounded_Read p r)) = snd (run_reads bounded_Read ns r)))"

text \<open>A callback that keeps the rows and decides on them.\<close>

definition keeping :: "('row list \<Rightarrow> 'row \<Rightarrow> err option) \<Rightarrow> 'row \<Rightarrow> 'row list \<Rightarrow> err option \<times> 'row list" where
  "keeping verdict row rows = (verdict rows row, rows @ [row])"

lemma ingest_rows_step:
  assumes "borrows tb"
  shows "(\<exists>e r' outs. ingest_rows tb (keeping verdict) maxRows rows p r log = Some (e, r', log) \<and> bounded_run r outs r') \<or>
    (\<exists>row p1 r1 outs. rows \<noteq> maxRows \<and> bounded_run r outs r1 \<and>
      ingest_rows tb (keeping verdict) maxRows rows p r log =
        (case verdict log row of
           Some e \<Rightarrow> Some (Some e, r1, log @ [row])
         | None \<Rightarrow> ingest_rows tb (keeping verdict) maxRows (rows + 1) p1 r1 (log @ [row])))"
proof -
  obtain e c where c: "ctx_Err (bc_ctx r) = (e, c)" by (metis surj_pair)
  show ?thesis
  proof (cases e)
    case (Some e1)
    have "bounded_run r [] (r\<lparr>bc_ctx := c\<rparr>)" by (rule bounded_run.poll) (rule bounded_run.stay)
    moreover have "ingest_rows tb (keeping verdict) maxRows rows p r log = Some (Some e1, r\<lparr>bc_ctx := c\<rparr>, log)"
      by (subst ingest_rows.simps) (simp add: c Some)
    ultimately show ?thesis by blast
  next
    case None
    obtain row e2 p1 r1 where rd: "tb_Read tb bounded_Read p (r\<lparr>bc_ctx := c\<rparr>) = ((row, e2), p1, r1)" by (metis surj_pair)
    obtain e3 c1 where c1: "ctx_Err (bc_ctx r1) = (e3, c1)" by (metis surj_pair)
    let ?r2 = "r1\<lparr>bc_ctx := c1\<rparr>"
    from assms obtain ns where "snd (snd (tb_Read tb bounded_Read p (r\<lparr>bc_ctx := c\<rparr>))) = snd (run_reads bounded_Read ns (r\<lparr>bc_ctx := c\<rparr>))"
      unfolding borrows_def by blast
    with bounded_run_reads [of "r\<lparr>bc_ctx := c\<rparr>" ns] rd
    have "bounded_run (r\<lparr>bc_ctx := c\<rparr>) (fst (run_reads bounded_Read ns (r\<lparr>bc_ctx := c\<rparr>))) r1" by simp
    then have "\<exists>outs. bounded_run r outs r1" by (blast intro: bounded_run.poll)
    moreover have "bounded_run r1 [] ?r2" by (rule bounded_run.poll) (rule bounded_run.stay)
    ultimately obtain outs where run: "bounded_run r outs ?r2" by (blast dest: bounded_run_trans)
    have eq: "ingest_rows tb (keeping verdict) maxRows rows p r log =
        (case e3 of
           Some ce \<Rightarrow> Some (Some ce, ?r2, log)
         | None \<Rightarrow> (case e2 of
              Some e \<Rightarrow> Some (if errors_is e IoEOF then None else Some e, ?r2, log)
            | None \<Rightarrow> if rows = maxRows then Some (Some ErrRowLimitExceeded, ?r2, log)
                else (case verdict log row of
                    Some e \<Rightarrow> Some (Some e, ?r2, log @ [row])
                  | None \<Rightarrow> ingest_rows tb (keeping verdict) maxRows (rows + 1) p1 ?r2 (log @ [row]))))"
      by (subst ingest_rows.simps) (simp add: c None rd c1 keeping_def split: option.split)
    show ?thesis
    proof (cases "e3 = None \<and> e2 = None \<and> rows \<noteq> maxRows")
      case True
      with eq run show ?thesis
        by (intro disjI2 exI [of _ row] exI [of _ p1] exI [of _ ?r2] exI [of _ outs]) simp
    next
      case False
      then have "\<exists>e. ingest_rows tb (keeping verdict) maxRows rows p r log = Some (e, ?r2, log)"
        unfolding eq by (auto split: option.split)
      with run show ?thesis by blast
    qed
  qed
qed

lemma ingest_rows_bounded:
  assumes "borrows tb" and "0 \<le> sint rows" and "sint rows + int k = sint maxRows"
  shows "\<exists>e r' taken outs. ingest_rows tb (keeping verdict) maxRows rows p r log = Some (e, r', log @ taken) \<and>
    length taken \<le> k \<and> bounded_run r outs r'"
  using assms(2,3)
proof (induction k arbitrary: rows p r log)
  case 0
  then have "word_of_int (sint rows) = (word_of_int (sint maxRows) :: int64)" by simp
  then have "rows = maxRows" by simp
  with ingest_rows_step [OF assms(1), of verdict maxRows rows p r log] show ?case by auto
next
  case (Suc k)
  let ?run = "ingest_rows tb (keeping verdict) maxRows"
  from ingest_rows_step [OF assms(1), of verdict maxRows rows p r log] show ?case
  proof (elim disjE exE conjE)
    fix e r' outs
    assume "?run rows p r log = Some (e, r', log)" "bounded_run r outs r'"
    then show ?thesis by (intro exI [of _ e] exI [of _ r'] exI [of _ "[]"] exI [of _ outs]) simp
  next
    fix row p1 r1 outs
    assume run: "bounded_run r outs r1" and eq: "?run rows p r log =
      (case verdict log row of Some e \<Rightarrow> Some (Some e, r1, log @ [row]) | None \<Rightarrow> ?run (rows + 1) p1 r1 (log @ [row]))"
    show ?thesis
    proof (cases "verdict log row")
      case (Some e)
      with eq run show ?thesis
        by (intro exI [of _ "Some e"] exI [of _ r1] exI [of _ "[row]"] exI [of _ outs]) simp
    next
      case None
      have "sint (rows + 1) = sint rows + 1"
      proof -
        have "sint rows + 1 < 2 ^ 63" using Suc.prems(2) sint_lt [of maxRows] by simp
        with Suc.prems(1) show ?thesis by (simp add: sint_word_ariths(1) signed_take_bit_int_eq_self)
      qed
      with Suc.IH [of "rows + 1" p1 r1 "log @ [row]"] Suc.prems obtain e r' taken outs' where
        "?run (rows + 1) p1 r1 (log @ [row]) = Some (e, r', (log @ [row]) @ taken)" "length taken \<le> k"
        "bounded_run r1 outs' r'" by auto
      with eq None run show ?thesis
        by (intro exI [of _ e] exI [of _ r'] exI [of _ "row # taken"] exI [of _ "outs @ outs'"])
          (simp add: bounded_run_trans)
    qed
  qed
qed

text \<open>
  (C20) An ingestion that opened its stream returns, whatever the parser makes of the bytes and
  whatever the callback decides: the callback saw at most \<^verbatim>\<open>MaxRows\<close> rows, the bytes the parser
  was given up to the state its reader ended in are the first ones of the object and at most
  \<^verbatim>\<open>MaxObjectBytes\<close>, and the error of the stream's \<^verbatim>\<open>Close\<close> is joined with the outcome, so that
  neither is lost.
\<close>

theorem IngestCSV_bounded:
  assumes "borrows tb" and "ingest_config_ok config" and "source object s c = (Ok (Some st), s1, c1)"
    and "start = \<lparr>bc_ctx = c1, bc_source = st_reads st, bc_remaining = cf_MaxObjectBytes config\<rparr>"
  shows "\<exists>returnErr r rows.
    ingest_stream tb config (keeping verdict) start [] = Some (returnErr, r, rows) \<and>
    IngestCSV tb (Some c) (Some source) object config (Some (keeping verdict)) s [] =
      Some (case errors_Join [returnErr, st_close st] of None \<Rightarrow> Ok () | Some e \<Rightarrow> Err e, s1, rows) \<and>
    int (length rows) \<le> sint (cf_MaxRows config) \<and> 0 \<le> sint (bc_remaining r) \<and>
    (\<exists>outs rest. bounded_run start outs r \<and> reads_content (st_reads st) = delivered outs @ rest \<and>
      int (length (delivered outs)) = sint (cf_MaxObjectBytes config) - sint (bc_remaining r))"
proof -
  have pos: "0 \<le> sint (bc_remaining start)" "0 < sint (cf_MaxRows config)"
    using assms(2,4) by (simp_all add: ingest_config_ok_def)
  obtain x r0 where new: "tb_NewCSVReader tb bounded_Read (delimited config) start = (x, r0)" by (metis surj_pair)
  from assms(1) obtain ns where
    "snd (tb_NewCSVReader tb bounded_Read (delimited config) start) = snd (run_reads bounded_Read ns start)"
    unfolding borrows_def by blast
  with bounded_run_reads [of start ns] new obtain outs0 where run0: "bounded_run start outs0 r0" by auto
  have "\<exists>returnErr r rows outs. ingest_stream tb config (keeping verdict) start [] = Some (returnErr, r, rows) \<and>
      int (length rows) \<le> sint (cf_MaxRows config) \<and> bounded_run start outs r"
  proof (cases x)
    case (Inl e)
    with new run0 pos(2) show ?thesis
      by (intro exI [of _ "Some e"] exI [of _ r0] exI [of _ "[]"] exI [of _ outs0]) (simp add: ingest_stream_def)
  next
    case (Inr p)
    have "sint (0 :: int64) + int (nat (sint (cf_MaxRows config))) = sint (cf_MaxRows config)" using pos(2) by simp
    from ingest_rows_bounded [OF assms(1) _ this, of verdict p r0 "[]"] obtain e r rows outs where
      "ingest_rows tb (keeping verdict) (cf_MaxRows config) 0 p r0 [] = Some (e, r, rows)"
      "length rows \<le> nat (sint (cf_MaxRows config))" "bounded_run r0 outs r" by auto
    with new Inr bounded_run_trans [OF run0] pos(2) show ?thesis
      by (intro exI [of _ e] exI [of _ r] exI [of _ rows] exI [of _ "outs0 @ outs"]) (simp add: ingest_stream_def)
  qed
  then obtain returnErr r rows outs where res: "ingest_stream tb config (keeping verdict) start [] = Some (returnErr, r, rows)"
    and rows: "int (length rows) \<le> sint (cf_MaxRows config)" and run: "bounded_run start outs r" by blast
  have "IngestCSV tb (Some c) (Some source) object config (Some (keeping verdict)) s [] =
      Some (case errors_Join [returnErr, st_close st] of None \<Rightarrow> Ok () | Some e \<Rightarrow> Err e, s1, rows)"
    using assms(2,3) res by (simp add: IngestCSV_def assms(4))
  moreover have "sint (cf_MaxObjectBytes config) = int (length (delivered outs)) + sint (bc_remaining r)"
    "0 \<le> sint (bc_remaining r)" "\<exists>rest. reads_content (st_reads st) = delivered outs @ rest"
    using bounded_run_budget [OF run pos(1)] by (simp_all add: assms(4))
  ultimately show ?thesis using res rows run by auto
qed

text \<open>A parser whose rows are the chunks it reads, over an object of ten bytes and a limit of eight.\<close>

definition chunk_parser :: "(unit, string) tabular" where
  "chunk_parser =
     \<lparr>tb_NewCSVReader = (\<lambda>read config r. (Inr (), r)),
      tb_Read = (\<lambda>read p r. case read 4 r of ((bytes, e), r1) \<Rightarrow> ((bytes, e), (), r1))\<rparr>"

lemma chunk_parser_borrows: "borrows chunk_parser"
proof -
  have "snd (snd (tb_Read chunk_parser bounded_Read p r)) = snd (run_reads bounded_Read [4] r)" for p r
    by (simp add: chunk_parser_def split: prod.split)
  moreover have "snd (tb_NewCSVReader chunk_parser bounded_Read config r) = snd (run_reads bounded_Read [] r)" for config r
    by (simp add: chunk_parser_def)
  ultimately show ?thesis unfolding borrows_def by blast
qed

definition sample_source :: "path \<Rightarrow> (unit, stream option) action" where
  "sample_source p s c = (Ok (Some (bytes_stream ''0123456789'')), s, c)"

definition sample_ingest :: Config where
  "sample_ingest = \<lparr>cf_MaxObjectBytes = 8, cf_MaxRecordBytes = 4, cf_MaxFieldBytes = 4, cf_MaxRows = 5\<rparr>"

theorem IngestCSV_bounded_witness:
  "\<exists>e rows. IngestCSV chunk_parser (Some Background) (Some sample_source) Root sample_ingest
      (Some (keeping (\<lambda>_ _. None))) () [] = Some (e, (), rows) \<and> length rows \<le> 5"
proof -
  let ?st = "bytes_stream ''0123456789''"
  have ok: "ingest_config_ok sample_ingest" by (simp add: ingest_config_ok_def sample_ingest_def)
  have five: "sint (cf_MaxRows sample_ingest) = 5" by (simp add: sample_ingest_def)
  have opened: "sample_source Root () Background = (Ok (Some ?st), (), Background)"
    by (simp add: sample_source_def)
  obtain returnErr rows where
    res: "IngestCSV chunk_parser (Some Background) (Some sample_source) Root sample_ingest
      (Some (keeping (\<lambda>_ _. None))) () [] =
      Some (case errors_Join [returnErr, st_close ?st] of None \<Rightarrow> Ok () | Some e \<Rightarrow> Err e, (), rows)"
    and rows: "int (length rows) \<le> sint (cf_MaxRows sample_ingest)"
    using IngestCSV_bounded [where source = sample_source and object = Root and s = "()" and c = Background
        and verdict = "\<lambda>_ _. None", OF chunk_parser_borrows ok opened refl] by blast
  from rows have "length rows \<le> 5" unfolding five by linarith
  with res show ?thesis by blast
qed

section \<open>What is ingested\<close>

text \<open>The rows a parser gives before the error that ends them, under a context that is not cancelled.\<close>

inductive yields :: "('p, 'row) tabular \<Rightarrow> 'p \<Rightarrow> boundedContextReader \<Rightarrow> 'row list \<Rightarrow> err \<Rightarrow> bool" for tb where
  ends: "tb_Read tb bounded_Read p r = ((row, Some e), p1, r1) \<Longrightarrow> bc_ctx r = Background \<Longrightarrow>
    bc_ctx r1 = Background \<Longrightarrow> yields tb p r [] e"
| row: "tb_Read tb bounded_Read p r = ((row, None), p1, r1) \<Longrightarrow> bc_ctx r = Background \<Longrightarrow>
    bc_ctx r1 = Background \<Longrightarrow> yields tb p1 r1 rows e \<Longrightarrow> yields tb p r (row # rows) e"

lemma Background_frame [simp]: "bc_ctx r = Background \<Longrightarrow> r\<lparr>bc_ctx := Background\<rparr> = r"
  by (cases r) simp

lemma ingest_rows_exact:
  assumes "yields tb p r rows e" and "0 \<le> sint n" and "sint n + int k = sint maxRows"
  shows "\<exists>r'. ingest_rows tb (keeping (\<lambda>_ _. None)) maxRows n p r log =
    Some (if k < length rows then Some ErrRowLimitExceeded else if errors_is e IoEOF then None else Some e,
      r', log @ take k rows)"
  using assms
proof (induction arbitrary: n k log rule: yields.induct)
  case (ends p r row e p1 r1)
  then show ?case by (subst ingest_rows.simps) simp
next
  case (row p r rw p1 r1 rows e)
  let ?run = "ingest_rows tb (keeping (\<lambda>_ _. None)) maxRows"
  have eq: "?run n p r log =
      (if n = maxRows then Some (Some ErrRowLimitExceeded, r1, log) else ?run (n + 1) p1 r1 (log @ [rw]))"
    by (subst ingest_rows.simps) (simp add: row.hyps keeping_def)
  show ?case
  proof (cases k)
    case 0
    with row.prems have "word_of_int (sint n) = (word_of_int (sint maxRows) :: int64)" by simp
    then have "n = maxRows" by simp
    with eq 0 show ?thesis by simp
  next
    case (Suc m)
    with row.prems have ne: "n \<noteq> maxRows" by auto
    have "sint (n + 1) = sint n + 1"
    proof -
      have "sint n + 1 < 2 ^ 63" using row.prems(2) Suc sint_lt [of maxRows] by simp
      with row.prems(1) show ?thesis by (simp add: sint_word_ariths(1) signed_take_bit_int_eq_self)
    qed
    with row.IH [of "n + 1" m "log @ [rw]"] row.prems Suc eq ne show ?thesis by simp
  qed
qed

text \<open>
  With a parser that yields these rows, a stream that closes and a callback that accepts,
  the callback gets exactly the first \<^verbatim>\<open>MaxRows\<close> of them in order, and the ingestion fails with
  \<^verbatim>\<open>ErrRowLimitExceeded\<close> exactly when there are more; otherwise it succeeds at the end of the
  input and reports any other error of the parser, the one for an object that is too large
  included.
\<close>

theorem IngestCSV_exact:
  assumes "ingest_config_ok config" and "source object s c = (Ok (Some st), s1, c1)" and "st_close st = None"
    and "tb_NewCSVReader tb bounded_Read (delimited config)
      \<lparr>bc_ctx = c1, bc_source = st_reads st, bc_remaining = cf_MaxObjectBytes config\<rparr> = (Inr p, r)"
    and "yields tb p r rows e"
  shows "IngestCSV tb (Some c) (Some source) object config (Some (keeping (\<lambda>_ _. None))) s [] =
    Some (if nat (sint (cf_MaxRows config)) < length rows then Err (Joined [ErrRowLimitExceeded])
       else if errors_is e IoEOF then Ok () else Err (Joined [e]),
      s1, take (nat (sint (cf_MaxRows config))) rows)"
proof -
  have "sint (0 :: int64) + int (nat (sint (cf_MaxRows config))) = sint (cf_MaxRows config)"
    using assms(1) by (simp add: ingest_config_ok_def)
  from ingest_rows_exact [OF assms(5) _ this, of "[]"] assms(1-4) show ?thesis
    by (auto simp: IngestCSV_def ingest_stream_def errors_Join_def List.map_filter_def)
qed

theorem IngestCSV_exact_witness:
  "IngestCSV chunk_parser (Some Background) (Some sample_source) Root sample_ingest
      (Some (keeping (\<lambda>_ _. None))) () [] = Some (Err (Joined [ErrObjectTooLarge]), (), [''0123'', ''4567''])"
proof -
  let ?r = "\<lambda>rs k. \<lparr>bc_ctx = Background, bc_source = rs, bc_remaining = k\<rparr>"
  have 1: "tb_Read chunk_parser bounded_Read () (?r [(''0123456789'', None)] 8) =
      ((''0123'', None), (), ?r [(''456789'', None)] 4)"
    by (simp add: chunk_parser_def bounded_Read_def stream_Read_def)
  have 2: "tb_Read chunk_parser bounded_Read () (?r [(''456789'', None)] 4) = ((''4567'', None), (), ?r [(''89'', None)] 0)"
    by (simp add: chunk_parser_def bounded_Read_def stream_Read_def)
  have 3: "tb_Read chunk_parser bounded_Read () (?r [(''89'', None)] 0) =
      (([], Some ErrObjectTooLarge), (), ?r [(''9'', None)] 0)"
    by (simp add: chunk_parser_def bounded_Read_def stream_Read_def)
  have y: "yields chunk_parser () (?r [(''0123456789'', None)] 8) [''0123'', ''4567''] ErrObjectTooLarge"
    by (intro yields.row [OF 1] yields.row [OF 2] yields.ends [OF 3]) simp_all
  have ok: "ingest_config_ok sample_ingest" by (simp add: ingest_config_ok_def sample_ingest_def)
  have opened: "sample_source Root () Background = (Ok (Some (bytes_stream ''0123456789'')), (), Background)"
    by (simp add: sample_source_def)
  have new: "tb_NewCSVReader chunk_parser bounded_Read (delimited sample_ingest)
      \<lparr>bc_ctx = Background, bc_source = st_reads (bytes_stream ''0123456789''),
       bc_remaining = cf_MaxObjectBytes sample_ingest\<rparr> = (Inr (), ?r [(''0123456789'', None)] 8)"
    by (simp add: chunk_parser_def bytes_stream_def sample_ingest_def)
  have "st_close (bytes_stream ''0123456789'') = None" by (simp add: bytes_stream_def)
  from IngestCSV_exact [where source = sample_source and object = Root and s = "()" and c = Background,
      OF ok opened this new y] show ?thesis
    by (simp add: sample_ingest_def ErrObjectTooLarge_def)
qed

end
