(* ===== verification/Windows_Rename.thy ===== *)
theory Windows_Rename
  imports FS_Prelude
begin

text \<open>
  The rename record that the local adapter hands to Windows: \<^verbatim>\<open>src/local/rename_information.go\<close>.
  A byte is an \<^typ>\<open>8 word\<close>, a UTF-16 unit a \<^typ>\<open>16 word\<close>, and nil is \<^term>\<open>None\<close>.
\<close>

unbundle bit_operations_syntax

definition windowsRenameFilenameCapacity :: nat where
  "windowsRenameFilenameCapacity = 260"

definition windowsObjectAttributesLength :: "int \<Rightarrow> 32 word" where
  "windowsObjectAttributesLength pointerBytes =
     (if pointerBytes = 4 then 24 else if pointerBytes = 8 then 48 else 0)"

text \<open>\<^verbatim>\<open>binary.LittleEndian\<close>: \<^verbatim>\<open>PutUint16\<close>, \<^verbatim>\<open>PutUint32\<close> and \<^verbatim>\<open>PutUint64\<close> at an offset of the buffer.\<close>

fun le_bytes :: "nat \<Rightarrow> nat \<Rightarrow> 8 word list" where
  "le_bytes 0 v = []"
| "le_bytes (Suc n) v = of_nat v # le_bytes n (v div 256)"

definition put :: "nat \<Rightarrow> 'a list \<Rightarrow> 'a list \<Rightarrow> 'a list" where
  "put offset bytes buffer = take offset buffer @ bytes @ drop (offset + length bytes) buffer"

fun put_units :: "nat \<Rightarrow> 16 word list \<Rightarrow> 8 word list \<Rightarrow> 8 word list" where
  "put_units offset [] buffer = buffer"
| "put_units offset (u # us) buffer = put_units (offset + 2) us (put offset (le_bytes 2 (unat u)) buffer)"

definition marshalWindowsRenameInformation :: "int \<Rightarrow> 64 word \<Rightarrow> 16 word list \<Rightarrow> 8 word list option" where
  "marshalWindowsRenameInformation pointerBytes directory filename =
     (if pointerBytes \<noteq> 4 \<and> pointerBytes \<noteq> 8 then None
      else
        let filenameLength = int (length filename) - 1 in
        if filenameLength < 0 \<or> int windowsRenameFilenameCapacity \<le> filenameLength \<or>
          filename ! nat filenameLength \<noteq> 0 then None
        else
          let lengthOffset = 2 * pointerBytes;
              filenameOffset = lengthOffset + 4;
              size = filenameOffset + 2 * int windowsRenameFilenameCapacity;
              size = (size + pointerBytes - 1) AND NOT (pointerBytes - 1);
              information = replicate (nat size) 0
          in
          if pointerBytes = 4 \<and> 2 ^ 32 - 1 < unat directory then None
          else
            let information = put (nat pointerBytes)
                  (if pointerBytes = 4 then le_bytes 4 (unat (ucast directory :: 32 word)) else le_bytes 8 (unat directory))
                  information;
                information = put (nat lengthOffset)
                  (le_bytes 4 (unat ((of_int filenameLength :: 32 word) * 2))) information
            in Some (put_units (nat filenameOffset) filename information))"

section \<open>Reading it back\<close>

fun le_nat :: "8 word list \<Rightarrow> nat" where
  "le_nat [] = 0"
| "le_nat (b # bs) = unat b + 256 * le_nat bs"

lemma le_bytes_length [simp]: "length (le_bytes n v) = n"
  by (induction n arbitrary: v) simp_all

lemma le_round_trip: "v < 256 ^ n \<Longrightarrow> le_nat (le_bytes n v) = v"
proof (induction n arbitrary: v)
  case (Suc n)
  then have "v div 256 < 256 ^ n" by (simp add: less_mult_imp_div_less ac_simps)
  then show ?case using Suc.IH [of "v div 256"] by (simp add: unat_of_nat)
qed simp

lemma put_middle:
  "length a = offset \<Longrightarrow> length b = length bytes \<Longrightarrow> put offset bytes (a @ b @ c) = a @ bytes @ c"
  by (simp add: put_def)

lemma put_units_middle:
  assumes "length a = offset" and "length b = 2 * length us"
  shows "put_units offset us (a @ b @ c) = a @ concat (map (\<lambda>u. le_bytes 2 (unat u)) us) @ c"
  using assms
proof (induction us arbitrary: offset a b)
  case (Cons u us)
  have "put offset (le_bytes 2 (unat u)) (a @ take 2 b @ drop 2 b @ c) = a @ le_bytes 2 (unat u) @ drop 2 b @ c"
    by (rule put_middle) (use Cons.prems in simp_all)
  then have "put offset (le_bytes 2 (unat u)) (a @ b @ c) = (a @ le_bytes 2 (unat u)) @ drop 2 b @ c"
    by (simp flip: append_assoc)
  then show ?case using Cons.IH [of "a @ le_bytes 2 (unat u)" "offset + 2" "drop 2 b"] Cons.prems by simp
qed simp

text \<open>The \<open>n\<close> units of a name.\<close>

fun units :: "nat \<Rightarrow> 8 word list \<Rightarrow> 16 word list" where
  "units 0 bs = []"
| "units (Suc n) bs = of_nat (le_nat (take 2 bs)) # units n (drop 2 bs)"

lemma units_concat:
  "units (length us) (concat (map (\<lambda>u. le_bytes 2 (unat u)) us) @ rest) = us"
proof (induction us)
  case (Cons u us)
  have "unat u < 256 ^ 2" using unsigned_less [of u] by simp
  with Cons show ?case by (simp add: le_round_trip del: le_bytes.simps)
qed simp

text \<open>
  The fields a reader of the record finds at the offsets of the legacy layout: whether existing
  files are replaced (with the padding behind it), the directory handle, the length of the name
  in bytes, the name, and everything behind it.
\<close>

definition rename_fields :: "nat \<Rightarrow> 8 word list \<Rightarrow> 8 word list \<times> nat \<times> nat \<times> 16 word list \<times> 8 word list" where
  "rename_fields p bs =
     (let n = le_nat (take 4 (drop (2 * p) bs)) in
      (take p bs, le_nat (take p (drop p bs)), n, units (n div 2) (drop (2 * p + 4) bs), drop (2 * p + 4 + n) bs))"

lemma rename_fields_parts:
  assumes "length a = q" and "length h = q" and "length l = 4" and "le_nat l = length name"
  shows "rename_fields q (a @ h @ l @ name @ rest) = (a, le_nat h, length name, units (length name div 2) (name @ rest), rest)"
  using assms by (simp add: rename_fields_def Let_def)

definition rename_input :: "int \<Rightarrow> 64 word \<Rightarrow> 16 word list \<Rightarrow> bool" where
  "rename_input p directory filename =
     ((p = 4 \<or> p = 8) \<and> filename \<noteq> [] \<and> length filename \<le> 260 \<and> last filename = 0 \<and>
      (p = 4 \<longrightarrow> unat directory < 2 ^ 32))"

definition rename_size :: "nat \<Rightarrow> nat" where
  "rename_size q = (if q = 4 then 532 else 544)"

lemma marshal_layout:
  assumes "rename_input (int q) directory filename"
  shows "marshalWindowsRenameInformation (int q) directory filename =
    Some (replicate q 0 @ le_bytes q (unat directory) @ le_bytes 4 (2 * (length filename - 1)) @
      concat (map (\<lambda>u. le_bytes 2 (unat u)) filename) @
      replicate (rename_size q - (2 * q + 4 + 2 * length filename)) 0)"
proof -
  let ?n = "length filename" and ?name = "concat (map (\<lambda>u. le_bytes 2 (unat u)) filename)"
  have q: "q = 4 \<or> q = 8" and n: "0 < ?n" "?n \<le> 260" and small: "q = 4 \<Longrightarrow> unat directory < 2 ^ 32"
    and nul: "filename ! (?n - 1) = 0"
    using assms by (auto simp: rename_input_def last_conv_nth)
  have nat_n: "nat (int ?n - 1) = ?n - 1" by simp
  have size: "nat ((2 * int q + 4 + 2 * 260 + int q - 1) AND NOT (int q - 1)) = rename_size q"
    using q by (auto simp: rename_size_def)
  have fits: "2 * q + 4 + 2 * ?n \<le> rename_size q" using q n by (auto simp: rename_size_def)
  let ?rest = "rename_size q - (2 * q + 4 + 2 * ?n)"
  have zero: "replicate (rename_size q) 0 =
      replicate q 0 @ replicate q 0 @ replicate 4 0 @ replicate (2 * ?n) 0 @ replicate ?rest (0 :: 8 word)"
    using fits by (simp flip: replicate_add)
  have handle: "(if int q = 4 then le_bytes 4 (unat (ucast directory :: 32 word)) else le_bytes 8 (unat directory)) =
      le_bytes q (unat directory)"
    using q small by (auto simp: unsigned_ucast_eq take_bit_nat_eq_self)
  have len: "unat ((of_int (int ?n - 1) :: 32 word) * 2) = 2 * (?n - 1)"
  proof -
    have "(of_int (int ?n - 1) :: 32 word) * 2 = of_nat (2 * (?n - 1))"
    proof -
      have "int ?n - 1 = int (?n - 1)" using n by linarith
      then show ?thesis by (simp only: of_int_of_nat_eq of_nat_mult of_nat_numeral mult.commute)
    qed
    then show ?thesis using n by (simp only: unat_of_nat) simp
  qed
  have "put q (le_bytes q (unat directory)) (replicate (rename_size q) 0) =
      replicate q 0 @ le_bytes q (unat directory) @ replicate 4 0 @ replicate (2 * ?n) 0 @ replicate ?rest 0"
    unfolding zero by (rule put_middle) simp_all
  moreover have "put (2 * q) (le_bytes 4 (2 * (?n - 1)))
      ((replicate q 0 @ le_bytes q (unat directory)) @ replicate 4 0 @ replicate (2 * ?n) 0 @ replicate ?rest 0) =
      (replicate q 0 @ le_bytes q (unat directory)) @ le_bytes 4 (2 * (?n - 1)) @ replicate (2 * ?n) 0 @ replicate ?rest 0"
    by (rule put_middle) simp_all
  moreover have "put_units (2 * q + 4) filename
      ((replicate q 0 @ le_bytes q (unat directory) @ le_bytes 4 (2 * (?n - 1))) @ replicate (2 * ?n) 0 @ replicate ?rest 0) =
      (replicate q 0 @ le_bytes q (unat directory) @ le_bytes 4 (2 * (?n - 1))) @ ?name @ replicate ?rest 0"
    by (rule put_units_middle) simp_all
  ultimately have bytes: "put_units (2 * q + 4) filename (put (2 * q) (le_bytes 4 (2 * (?n - 1)))
      (put q (le_bytes q (unat directory)) (replicate (rename_size q) 0))) =
      replicate q 0 @ le_bytes q (unat directory) @ le_bytes 4 (2 * (?n - 1)) @ ?name @ replicate ?rest 0"
    by (simp only: append_assoc)
  have ok: "\<not> (int q \<noteq> 4 \<and> int q \<noteq> 8)" "\<not> (int ?n - 1 < 0 \<or> int 260 \<le> int ?n - 1 \<or> filename ! nat (int ?n - 1) \<noteq> 0)"
    "\<not> (int q = 4 \<and> 2 ^ 32 - 1 < unat directory)" using q n nul small by (auto simp: nat_n)
  have offsets: "nat (int q) = q" "nat (2 * int q) = 2 * q" "nat (2 * int q + 4) = 2 * q + 4" by simp_all
  have cap: "2 * int 260 = (2 * 260 :: int)" by simp
  show ?thesis
    unfolding marshalWindowsRenameInformation_def windowsRenameFilenameCapacity_def Let_def
    by (simp only: ok handle len offsets size cap bytes if_False)
qed

lemma guards: "a \<or> b \<or> c \<Longrightarrow> (if a then None else if b then None else if c then None else Some x) = None"
  by auto

lemma marshal_spec:
  "case marshalWindowsRenameInformation p directory filename of
     None \<Rightarrow> \<not> rename_input p directory filename
   | Some bytes \<Rightarrow> rename_input p directory filename \<and> length bytes = rename_size (nat p) \<and>
       rename_fields (nat p) bytes =
         (replicate (nat p) 0, unat directory, 2 * (length filename - 1), butlast filename,
          replicate (length bytes - (2 * nat p + 4 + 2 * (length filename - 1))) 0)"
proof (cases "rename_input p directory filename")
  case True
  then obtain q where q: "p = int q" "q = 4 \<or> q = 8" by (auto simp: rename_input_def)
  let ?n = "length filename" and ?name = "\<lambda>us. concat (map (\<lambda>u. le_bytes 2 (unat u)) us)"
  let ?rest = "rename_size q - (2 * q + 4 + 2 * ?n)"
  have n: "0 < ?n" "?n \<le> 260" and nul: "filename = butlast filename @ [0]"
    using True append_butlast_last_id [of filename] by (auto simp: rename_input_def)
  have small: "unat directory < 256 ^ q"
  proof (cases "q = 4")
    case True
    with \<open>rename_input p directory filename\<close> q(1) show ?thesis by (simp add: rename_input_def)
  next
    case False
    with q(2) show ?thesis using unsigned_less [of directory] by simp
  qed
  have fits: "2 * q + 4 + 2 * ?n \<le> rename_size q" using q(2) n by (auto simp: rename_size_def)
  have name: "?name filename @ replicate ?rest 0 = ?name (butlast filename) @ replicate (2 + ?rest) 0"
  proof -
    have "?name (butlast filename @ [0]) @ replicate k 0 = ?name (butlast filename) @ replicate (2 + k) 0" for k
      by (simp add: numeral_2_eq_2)
    then show ?thesis using nul by simp
  qed
  have len: "length (?name us) = 2 * length us" for us :: "16 word list" by (induction us) simp_all
  have count: "le_nat (le_bytes 4 (2 * (?n - 1))) = 2 * (?n - 1)" by (rule le_round_trip) (use n in simp)
  have again: "units (?n - 1) (?name (butlast filename) @ replicate (2 + ?rest) 0) = butlast filename"
    using units_concat [of "butlast filename"] by simp
  let ?bytes = "replicate q 0 @ le_bytes q (unat directory) @ le_bytes 4 (2 * (?n - 1)) @
      ?name (butlast filename) @ replicate (2 + ?rest) 0"
  have "rename_fields q ?bytes = (replicate q 0, unat directory, 2 * (?n - 1), butlast filename, replicate (2 + ?rest) 0)"
  proof -
    let ?b = "butlast filename" and ?tail = "replicate (2 + ?rest) (0 :: 8 word)"
    have lb: "length (?name ?b) = 2 * (?n - 1)" unfolding len by simp
    have half: "2 * (?n - 1) div 2 = ?n - 1" by simp
    have l: "le_nat (le_bytes 4 (2 * (?n - 1))) = length (?name ?b)" unfolding lb by (rule count)
    show ?thesis
      using rename_fields_parts [OF length_replicate le_bytes_length le_bytes_length l, of q 0 "unat directory" ?tail]
      unfolding lb half again le_round_trip [OF small] .
  qed
  moreover have "length ?bytes = rename_size q"
  proof -
    have "q + (q + (4 + (2 * (?n - 1) + (2 + ?rest)))) = rename_size q" using fits n(1) by linarith
    then show ?thesis by (simp only: length_append length_replicate le_bytes_length len length_butlast)
  qed
  moreover have "2 + ?rest = rename_size q - (2 * q + 4 + 2 * (?n - 1))" using fits n(1) by linarith
  moreover have "marshalWindowsRenameInformation p directory filename = Some ?bytes"
    using marshal_layout [of q directory filename] True unfolding q(1) name by simp
  ultimately show ?thesis using True q(1) by (simp only: option.case nat_int simp_thms)
next
  case False
  then have "(p \<noteq> 4 \<and> p \<noteq> 8) \<or>
      (int (length filename) - 1 < 0 \<or> int 260 \<le> int (length filename) - 1 \<or>
        filename ! nat (int (length filename) - 1) \<noteq> 0) \<or> (p = 4 \<and> 2 ^ 32 - 1 < unat directory)"
    by (cases filename rule: rev_cases) (auto simp: rename_input_def)
  then have "marshalWindowsRenameInformation p directory filename = None"
    unfolding marshalWindowsRenameInformation_def windowsRenameFilenameCapacity_def Let_def by (rule guards)
  with False show ?thesis by simp
qed

lemma marshal_fields:
  assumes "marshalWindowsRenameInformation p directory filename = Some bytes"
  shows "rename_fields (nat p) bytes =
    (replicate (nat p) 0, unat directory, 2 * (length filename - 1), butlast filename,
     replicate (length bytes - (2 * nat p + 4 + 2 * (length filename - 1))) 0)"
  using marshal_spec [of p directory filename] assms by simp

lemma marshal_valid:
  assumes "marshalWindowsRenameInformation p directory filename = Some bytes"
  shows "rename_input p directory filename" "length bytes = rename_size (nat p)"
  using marshal_spec [of p directory filename] assms by simp_all

text \<open>
  (C39) The record is made exactly for a supported pointer width, a handle of that width and a
  terminated name of at most 260 units. It then has the size of the layout, at most the 544 bytes
  the caller accepts, and reading its fields gives back the handle and the name without its
  terminator; \<^verbatim>\<open>ReplaceIfExists\<close>, all padding and everything behind the name is zero.
\<close>

theorem rename_information_round_trip:
  "case marshalWindowsRenameInformation p directory filename of
     None \<Rightarrow> \<not> rename_input p directory filename
   | Some bytes \<Rightarrow> rename_input p directory filename \<and> length bytes = rename_size (nat p) \<and>
       rename_fields (nat p) bytes =
         (replicate (nat p) 0, unat directory, 2 * (length filename - 1), butlast filename,
          replicate (length bytes - (2 * nat p + 4 + 2 * (length filename - 1))) 0)"
  by (rule marshal_spec)

end
