(* ===== verification/Platform_Rename.thy ===== *)
theory Platform_Rename
  imports Windows_Rename Contracts
begin

text \<open>
  The exclusive renames of the platforms: \<^verbatim>\<open>src/local/rename_unix.go\<close>, \<^verbatim>\<open>rename_linux.go\<close>,
  \<^verbatim>\<open>rename_darwin.go\<close>, \<^verbatim>\<open>rename_other.go\<close> and \<^verbatim>\<open>rename_windows.go\<close>. The system calls and the
  helpers of \<^verbatim>\<open>golang.org/x/sys\<close> are parameters. On Windows the calls are recorded, and the
  answer to a call may depend on all calls before it.
\<close>

section \<open>Unix and other platforms\<close>

definition exclusiveRenameError :: "err option \<Rightarrow> err option" where
  "exclusiveRenameError e =
     (if opt_is e (Errno ENOSYS) \<or> opt_is e (Errno EOPNOTSUPP)
      then errors_Join [Some (Unsupported ''local'' CapabilityMove OperationMove), e]
      else e)"

datatype rename_flag = RENAME_NOREPLACE | RENAME_EXCL

type_synonym ('f, 's) rename_call = "'f \<Rightarrow> string \<Rightarrow> 'f \<Rightarrow> string \<Rightarrow> rename_flag \<Rightarrow> 's \<Rightarrow> err option \<times> 's"

definition linux_renameNoReplace ::
  "('f, 's) rename_call \<Rightarrow> 'f \<Rightarrow> string \<Rightarrow> 'f \<Rightarrow> string \<Rightarrow> 's \<Rightarrow> err option \<times> 's" where
  "linux_renameNoReplace renameat2 source sourceName destination destinationName s =
     (case renameat2 source sourceName destination destinationName RENAME_NOREPLACE s of
        (e, s') \<Rightarrow> (exclusiveRenameError e, s'))"

definition darwin_renameNoReplace ::
  "('f, 's) rename_call \<Rightarrow> 'f \<Rightarrow> string \<Rightarrow> 'f \<Rightarrow> string \<Rightarrow> 's \<Rightarrow> err option \<times> 's" where
  "darwin_renameNoReplace renameatxNp source sourceName destination destinationName s =
     (case renameatxNp source sourceName destination destinationName RENAME_EXCL s of
        (e, s') \<Rightarrow> (exclusiveRenameError e, s'))"

definition other_renameNoReplace :: "'f \<Rightarrow> string \<Rightarrow> 'f \<Rightarrow> string \<Rightarrow> 's \<Rightarrow> err option \<times> 's" where
  "other_renameNoReplace source sourceName destination destinationName s =
     (Some (Unsupported ''local'' CapabilityMove OperationMove), s)"

section \<open>Windows\<close>

type_synonym handle = "64 word"

record OBJECT_ATTRIBUTES =
  oa_Length :: "32 word"
  oa_RootDirectory :: handle
  oa_ObjectName :: "16 word list"

datatype nt_flag =
    SYNCHRONIZE | DELETE_ACCESS | FILE_SHARE_DELETE | FILE_SHARE_READ | FILE_SHARE_WRITE | FILE_OPEN
  | FILE_OPEN_REPARSE_POINT | FILE_OPEN_FOR_BACKUP_INTENT | FILE_SYNCHRONOUS_IO_NONALERT

datatype nt_call =
    NtCreateFile OBJECT_ATTRIBUTES "nt_flag list" "nt_flag list" nt_flag "nt_flag list"
      \<comment> \<open>attributes, access, sharing, disposition, options\<close>
  | NtSetInformationFile handle "8 word list" \<comment> \<open>with \<^verbatim>\<open>FileRenameInformation\<close>\<close>
  | CloseHandle handle

text \<open>What the rename uses of its environment: \<open>nt_errno\<close> is the conversion of an \<^verbatim>\<open>NTStatus\<close>.\<close>

record nt =
  nt_IsLocal :: "string \<Rightarrow> bool"
  nt_NewNTUnicodeString :: "string \<Rightarrow> err + 16 word list"
  nt_UTF16FromString :: "string \<Rightarrow> err + 16 word list"
  nt_errno :: "err \<Rightarrow> err option"
  nt_answer :: "nt_call list \<Rightarrow> nt_call \<Rightarrow> err option \<times> handle"

definition ERROR_NOT_SUPPORTED :: sentinel where
  "ERROR_NOT_SUPPORTED = Package_error ''windows.ERROR_NOT_SUPPORTED''"

definition ERROR_CALL_NOT_IMPLEMENTED :: sentinel where
  "ERROR_CALL_NOT_IMPLEMENTED = Package_error ''windows.ERROR_CALL_NOT_IMPLEMENTED''"

definition renameStatusError :: "nt \<Rightarrow> err option \<Rightarrow> err option" where
  "renameStatusError sys e =
     (let e = (case e of None \<Rightarrow> None | Some x \<Rightarrow> (case nt_errno sys x of Some y \<Rightarrow> Some y | None \<Rightarrow> Some x)) in
      if opt_is e ERROR_NOT_SUPPORTED \<or> opt_is e ERROR_CALL_NOT_IMPLEMENTED
      then errors_Join [Some (Unsupported ''local'' CapabilityMove OperationMove), e]
      else e)"

definition bad_name :: "nt \<Rightarrow> string \<Rightarrow> bool" where
  "bad_name sys name = (name = ''.'' \<or> \<not> nt_IsLocal sys name \<or> CHR ''?'' \<in> set name)"

definition open_source :: "int \<Rightarrow> handle \<Rightarrow> 16 word list \<Rightarrow> nt_call" where
  "open_source pointerBytes source objectName =
     NtCreateFile
       \<lparr>oa_Length = windowsObjectAttributesLength pointerBytes, oa_RootDirectory = source, oa_ObjectName = objectName\<rparr>
       [SYNCHRONIZE, DELETE_ACCESS] [FILE_SHARE_DELETE, FILE_SHARE_READ, FILE_SHARE_WRITE] FILE_OPEN
       [FILE_OPEN_REPARSE_POINT, FILE_OPEN_FOR_BACKUP_INTENT, FILE_SYNCHRONOUS_IO_NONALERT]"

text \<open>The part between the opening of the source and the deferred \<^verbatim>\<open>CloseHandle\<close>.\<close>

definition rename_opened ::
  "nt \<Rightarrow> int \<Rightarrow> handle \<Rightarrow> handle \<Rightarrow> string \<Rightarrow> nt_call list \<Rightarrow> err option \<times> nt_call list" where
  "rename_opened sys pointerBytes opened destination destinationName h =
     (case nt_UTF16FromString sys destinationName of
        Inl e \<Rightarrow> (Some e, h)
      | Inr filename \<Rightarrow>
          if windowsRenameFilenameCapacity < length filename then (Some (Sentinel (Errno EINVAL)), h)
          else
            let information = (case marshalWindowsRenameInformation pointerBytes destination filename of
                  None \<Rightarrow> [] | Some bytes \<Rightarrow> bytes);
                informationLength = length information
            in if informationLength < 1 \<or> 544 < informationLength then (Some (Sentinel (Errno EINVAL)), h)
               else
                 let call = NtSetInformationFile opened information in
                 (renameStatusError sys (fst (nt_answer sys h call)), h @ [call]))"

definition windows_renameNoReplace ::
  "nt \<Rightarrow> int \<Rightarrow> handle \<Rightarrow> string \<Rightarrow> handle \<Rightarrow> string \<Rightarrow> nt_call list \<Rightarrow> err option \<times> nt_call list" where
  "windows_renameNoReplace sys pointerBytes source sourceName destination destinationName h =
     (if bad_name sys sourceName \<or> bad_name sys destinationName then (Some (Sentinel (Errno EINVAL)), h)
      else (case nt_NewNTUnicodeString sys sourceName of
          Inl e \<Rightarrow> (Some e, h)
        | Inr objectName \<Rightarrow>
            let call = open_source pointerBytes source objectName in
            (case nt_answer sys h call of
               (Some e, opened) \<Rightarrow> (renameStatusError sys (Some e), h @ [call])
             | (None, opened) \<Rightarrow>
                 (case rename_opened sys pointerBytes opened destination destinationName (h @ [call]) of
                    (e, h') \<Rightarrow> (e, h' @ [CloseHandle opened])))))"

section \<open>Lemmas\<close>

text \<open>An unavailable primitive is reported as unsupported, and no failure becomes a success.\<close>

lemma exclusiveRenameError_cases:
  "(exclusiveRenameError e = None \<longleftrightarrow> e = None) \<and> (opt_is e t \<longrightarrow> opt_is (exclusiveRenameError e) t) \<and>
   (opt_is e (Errno ENOSYS) \<or> opt_is e (Errno EOPNOTSUPP) \<longrightarrow> opt_is (exclusiveRenameError e) ErrUnsupportedCapability)"
  by (cases e) (auto simp: exclusiveRenameError_def errors_Join_def List.map_filter_def Unsupported_def)

lemma renameStatusError_None: "renameStatusError sys e = None \<longleftrightarrow> e = None"
  by (auto simp: renameStatusError_def Let_def errors_Join_None_iff split: option.splits)

lemma rename_opened_cases:
  obtains e where "rename_opened sys p opened destination name h = (Some e, h)"
  | filename bytes where "nt_UTF16FromString sys name = Inr filename" "rename_input p destination filename"
      "marshalWindowsRenameInformation p destination filename = Some bytes"
      "rename_opened sys p opened destination name h =
        (renameStatusError sys (fst (nt_answer sys h (NtSetInformationFile opened bytes))),
         h @ [NtSetInformationFile opened bytes])"
proof (cases "\<exists>e. rename_opened sys p opened destination name h = (Some e, h)")
  case False
  then obtain filename where f: "nt_UTF16FromString sys name = Inr filename"
    by (cases "nt_UTF16FromString sys name") (auto simp: rename_opened_def)
  with False have len: "\<not> windowsRenameFilenameCapacity < length filename" by (auto simp: rename_opened_def)
  from False f len obtain bytes where b: "marshalWindowsRenameInformation p destination filename = Some bytes"
    by (cases "marshalWindowsRenameInformation p destination filename") (auto simp: rename_opened_def Let_def)
  then have "rename_opened sys p opened destination name h =
      (if length bytes < 1 \<or> 544 < length bytes then (Some (Sentinel (Errno EINVAL)), h)
       else (renameStatusError sys (fst (nt_answer sys h (NtSetInformationFile opened bytes))),
         h @ [NtSetInformationFile opened bytes]))"
    using f len by (simp add: rename_opened_def Let_def)
  with False that(2) [OF f marshal_valid(1) [OF b] b] show thesis by (auto split: if_splits)
qed (use that(1) in blast)

text \<open>
  On Windows a rename opens at most the source entry itself, without following a link, and closes
  what it opened; at most one rename is sent, for that handle, and its record says not to replace,
  names the destination directory and the destination's name. It succeeds only if that call did.
\<close>

theorem windows_rename_exclusive:
  assumes "windows_renameNoReplace sys p source sourceName destination destinationName h = (e, h')"
  shows "(\<exists>x. e = Some x \<and> (h' = h \<or> (\<exists>name. h' = h @ [open_source p source name]) \<or>
        (\<exists>name opened. h' = h @ [open_source p source name, CloseHandle opened] \<and>
          nt_answer sys h (open_source p source name) = (None, opened)))) \<or>
    (\<exists>name opened bytes filename.
      h' = h @ [open_source p source name, NtSetInformationFile opened bytes, CloseHandle opened] \<and>
      nt_answer sys h (open_source p source name) = (None, opened) \<and>
      nt_UTF16FromString sys destinationName = Inr filename \<and>
      fst (rename_fields (nat p) bytes) = replicate (nat p) 0 \<and>
      fst (snd (rename_fields (nat p) bytes)) = unat destination \<and>
      fst (snd (snd (snd (rename_fields (nat p) bytes)))) = butlast filename \<and>
      (e = None \<longleftrightarrow> fst (nt_answer sys (h @ [open_source p source name]) (NtSetInformationFile opened bytes)) = None))"
proof (cases "bad_name sys sourceName \<or> bad_name sys destinationName \<or> isl (nt_NewNTUnicodeString sys sourceName)")
  case True
  with assms show ?thesis by (auto simp: windows_renameNoReplace_def split: if_splits sum.splits)
next
  case False
  then obtain name where name: "nt_NewNTUnicodeString sys sourceName = Inr name" by (cases "nt_NewNTUnicodeString sys sourceName") auto
  let ?open = "open_source p source name"
  obtain oe opened where a: "nt_answer sys h ?open = (oe, opened)" by (metis surj_pair)
  show ?thesis
  proof (cases oe)
    case (Some x)
    have "renameStatusError sys (Some x) \<noteq> None" by (simp add: renameStatusError_None)
    with assms False name a Some show ?thesis by (auto simp: windows_renameNoReplace_def Let_def)
  next
    case None
    with assms False name a have run: "(case rename_opened sys p opened destination destinationName (h @ [?open]) of
        (e, h1) \<Rightarrow> (e, h1 @ [CloseHandle opened])) = (e, h')"
      by (simp add: windows_renameNoReplace_def Let_def)
    show ?thesis
    proof (rule rename_opened_cases [of sys p opened destination destinationName "h @ [?open]"])
      fix x assume "rename_opened sys p opened destination destinationName (h @ [?open]) = (Some x, h @ [?open])"
      with run a None show ?thesis by auto
    next
      fix filename bytes
      assume f: "nt_UTF16FromString sys destinationName = Inr filename" "rename_input p destination filename"
        and b: "marshalWindowsRenameInformation p destination filename = Some bytes"
        and r: "rename_opened sys p opened destination destinationName (h @ [?open]) =
          (renameStatusError sys (fst (nt_answer sys (h @ [?open]) (NtSetInformationFile opened bytes))),
           (h @ [?open]) @ [NtSetInformationFile opened bytes])"
      from marshal_fields [OF b] r run f a None show ?thesis
        by (intro disjI2 exI [of _ name] exI [of _ opened] exI [of _ bytes] exI [of _ filename])
          (auto simp: renameStatusError_None)
    qed
  qed
qed

end
