(* ===== verification/Digest_Vector.thy ===== *)
theory Digest_Vector
  imports Digest
begin

text \<open>
  The SHA-256 of \<^verbatim>\<open>Digest\<close> on the input of the conformance suite. The words are read as integers,
  on which the simplifier computes, and the digest is evaluated there.
\<close>

unbundle bit_operations_syntax

section \<open>Words as integers\<close>

lemma rotr32:
  assumes n: "0 < n" "n < 32"
  shows "word_rotr n (w :: 32 word) = drop_bit n w OR push_bit (32 - n) w"
proof (rule bit_word_eqI)
  fix k assume "k < LENGTH(32)"
  then have k: "k < 32" by simp
  show "bit (word_rotr n w) k = bit (drop_bit n w OR push_bit (32 - n) w) k"
  proof (cases "n + k < 32")
    case True
    with n k show ?thesis by (auto simp: bit_simps ac_simps)
  next
    case False
    then have "(k + n) mod 32 = k - (32 - n)" using n k by (simp add: mod_if)
    moreover have "\<not> bit w (n + k)" using False bit_imp_le_length [of w "n + k"] by auto
    ultimately show ?thesis using False n k by (auto simp: bit_simps)
  qed
qed

lemma uint_bound: "0 \<le> uint (w :: 32 word)" "uint w < 4294967296"
  using unsigned_less [of w, where 'a = int] by simp_all

lemma take_uint [simp]: "take_bit 32 (uint (w :: 32 word)) = uint w"
  by (rule take_bit_int_eq_self) (use uint_bound [of w] in simp_all)

definition int_rotr :: "nat \<Rightarrow> int \<Rightarrow> int" where
  "int_rotr n x = (x div 2 ^ n) OR (x mod 2 ^ n * 2 ^ (32 - n))"

definition int_add :: "int \<Rightarrow> int \<Rightarrow> int" where
  "int_add x y = (x + y) mod 4294967296"

lemma uint_rotr32:
  assumes n: "0 < n" "n < 32"
  shows "uint (word_rotr n (w :: 32 word)) = int_rotr n (uint w)"
proof -
  have "uint (word_rotr n w) = drop_bit n (uint w) OR take_bit 32 (push_bit (32 - n) (uint w))"
    by (simp only: rotr32 [OF n] unsigned_or_eq unsigned_drop_bit_eq unsigned_push_bit_eq) simp
  also have "take_bit 32 (push_bit (32 - n) (uint w)) = push_bit (32 - n) (take_bit n (uint w))"
    using n by (simp add: take_bit_push_bit)
  finally show ?thesis by (simp add: int_rotr_def drop_bit_eq_div push_bit_eq_mult take_bit_eq_mod)
qed

lemma uint_add32: "uint (a + b :: 32 word) = int_add (uint a) (uint b)"
  by (simp add: int_add_def uint_word_ariths)

lemma uint_not32: "uint (NOT a :: 32 word) = 4294967295 - uint a"
proof -
  have "uint (NOT a) = (- uint a - 1) mod 4294967296"
    by (simp add: unsigned_not_eq take_bit_eq_mod not_int_def)
  also have "\<dots> = (4294967295 - uint a) mod 4294967296"
    using mod_add_self2 [of "- uint a - 1" "4294967296 :: int"] by (simp add: algebra_simps)
  also have "\<dots> = 4294967295 - uint a" using uint_bound [of a] by (intro mod_pos_pos_trivial) linarith+
  finally show ?thesis .
qed

lemma uint_drop32: "uint (drop_bit n (a :: 32 word)) = uint a div 2 ^ n"
proof -
  have "uint (drop_bit n a) = drop_bit n (uint a)" by (simp only: unsigned_drop_bit_eq) simp
  then show ?thesis by (simp only: drop_bit_eq_div)
qed

lemmas uint32 = uint_add32 uint_rotr32 uint_not32 uint_drop32 unsigned_xor_eq unsigned_and_eq

section \<open>The digest on integers\<close>

definition int_mix :: "nat \<Rightarrow> nat \<Rightarrow> int \<Rightarrow> int \<Rightarrow> int" where
  "int_mix m n z x = int_rotr m x XOR int_rotr n x XOR z"

definition int_extend :: "int list \<Rightarrow> int list" where
  "int_extend w =
     w @ [int_add (int_add (int_add (w ! (length w - 16))
         (int_mix 7 18 (w ! (length w - 15) div 8) (w ! (length w - 15)))) (w ! (length w - 7)))
       (int_mix 17 19 (w ! (length w - 2) div 1024) (w ! (length w - 2)))]"

fun int_schedule :: "nat \<Rightarrow> int list \<Rightarrow> int list" where
  "int_schedule 0 w = w"
| "int_schedule (Suc k) w = int_schedule k (int_extend w)"

fun int_next :: "int list \<Rightarrow> int \<Rightarrow> int \<Rightarrow> int list" where
  "int_next [a, b, c, d, e, f, g, h] t1 t2 = [int_add t1 t2, a, b, c, int_add d t1, e, f, g]"
| "int_next s t1 t2 = s"

fun int_t1 :: "int list \<Rightarrow> int \<Rightarrow> int \<Rightarrow> int" where
  "int_t1 [a, b, c, d, e, f, g, h] k x =
     int_add (int_add (int_add (int_add h (int_mix 6 11 (int_rotr 25 e) e)) ((e AND f) XOR ((4294967295 - e) AND g))) k) x"
| "int_t1 s k x = 0"

fun int_t2 :: "int list \<Rightarrow> int" where
  "int_t2 [a, b, c, d, e, f, g, h] =
     int_add (int_mix 2 13 (int_rotr 22 a) a) ((a AND b) XOR (a AND c) XOR (b AND c))"
| "int_t2 s = 0"

fun int_rounds :: "int list \<Rightarrow> int list \<Rightarrow> int list \<Rightarrow> int list" where
  "int_rounds (k # ks) (x # xs) s = int_rounds ks xs (int_next s (int_t1 s k x) (int_t2 s))"
| "int_rounds ks xs s = s"

lemma int_add_assoc: "int_add (int_add x y) z = int_add x (int_add y z)"
  by (simp add: int_add_def mod_simps ac_simps)

lemma uint_schedule:
  "16 \<le> length w \<Longrightarrow> map uint (sha256_schedule k w) = int_schedule k (map uint w)"
proof (induction k arbitrary: w)
  case (Suc k)
  then show ?case by (simp add: Let_def uint32 int_extend_def int_mix_def)
qed simp

lemma uint_round:
  assumes "length s = 8" and "i < 64" and "i < length w"
  shows "map uint (sha256_round w s i) =
      int_next (map uint s) (int_t1 (map uint s) (uint (sha256_K ! i)) (uint (w ! i))) (int_t2 (map uint s))"
    and "length (sha256_round w s i) = 8"
proof -
  from assms(1) obtain a b c d e f g h where s: "s = [a, b, c, d, e, f, g, h]"
    by (auto simp: length_Suc_conv eval_nat_numeral)
  show "map uint (sha256_round w s i) =
      int_next (map uint s) (int_t1 (map uint s) (uint (sha256_K ! i)) (uint (w ! i))) (int_t2 (map uint s))"
    by (simp add: s sha256_round_def Let_def uint32 int_mix_def int_add_assoc xor.assoc)
  show "length (sha256_round w s i) = 8" by (simp add: s sha256_round_def Let_def)
qed

lemma uint_rounds:
  assumes "length s = 8" and "length w = 64" and "i \<le> 64"
  shows "map uint (foldl (sha256_round w) s [i..<64]) =
    int_rounds (map uint (drop i sha256_K)) (map uint (drop i w)) (map uint s)"
  using assms(1,3)
proof (induction "64 - i" arbitrary: i s)
  case 0
  then show ?case using assms(2) by simp
next
  case (Suc n)
  then have i: "i < 64" by simp
  have K: "length sha256_K = 64" by (simp add: sha256_K_def)
  have "[i..<64] = i # [Suc i..<64]" using i by (simp add: upt_conv_Cons)
  moreover have "drop i w = w ! i # drop (Suc i) w" "drop i sha256_K = sha256_K ! i # drop (Suc i) sha256_K"
    using i assms(2) K by (simp_all add: Cons_nth_drop_Suc)
  moreover have "n = 64 - Suc i" using Suc.hyps(2) by simp
  ultimately show ?case using Suc.hyps(1) [of "Suc i" "sha256_round w s i"] uint_round [OF Suc.prems(1) i] i assms(2)
    by simp
qed

section \<open>The vector\<close>

lemma int_schedule_numeral: "int_schedule (numeral k) w = int_schedule (pred_numeral k) (int_extend w)"
  by (simp only: numeral_eq_Suc int_schedule.simps)

definition vector_bytes :: "nat list" where
  "vector_bytes =
     [99, 111, 110, 116, 101, 110, 116, 128, 0, 0, 0, 0, 0, 0, 0, 0, 0, 0, 0, 0, 0, 0, 0, 0,
      0, 0, 0, 0, 0, 0, 0, 0, 0, 0, 0, 0, 0, 0, 0, 0, 0, 0, 0, 0, 0, 0, 0, 0,
      0, 0, 0, 0, 0, 0, 0, 0, 0, 0, 0, 0, 0, 0, 0, 56]"

lemma blocks_of_numeral:
  "blocks_of (numeral k) n xs = (if xs = [] then [] else take n xs # blocks_of (pred_numeral k) n (drop n xs))"
  by (simp add: numeral_eq_Suc)

lemma replicate_steps: "replicate (numeral k) x = x # replicate (pred_numeral k) x"
  by (simp add: numeral_eq_Suc)

lemma vector_pad: "sha256_pad (bytes_of ''content'') = vector_bytes"
  by (simp add: sha256_pad_def pad_zeros_def length_bytes_def vector_bytes_def replicate_steps)

lemma vector_block:
  "map be_word (blocks_of 16 4 vector_bytes) =
     [0x636F6E74, 0x656E7480, 0, 0, 0, 0, 0, 0, 0, 0, 0, 0, 0, 0, 0, 0x38]"
  "blocks_of (length vector_bytes) 64 vector_bytes = [vector_bytes]"
  by (simp_all add: vector_bytes_def blocks_of_numeral be_word_def)

definition sha256_start :: "32 word list" where
  "sha256_start =
     [0x6A09E667, 0xBB67AE85, 0x3C6EF372, 0xA54FF53A, 0x510E527F, 0x9B05688C, 0x1F83D9AB, 0x5BE0CD19]"

lemmas int_defs = int_schedule_numeral int_extend_def int_mix_def int_rotr_def int_add_def

lemma schedule_length: "length (sha256_schedule k w) = length w + k"
  by (induction k arbitrary: w) (simp_all add: Let_def)

abbreviation (input) vector_words :: "32 word list" where
  "vector_words \<equiv> [0x636F6E74, 0x656E7480, 0, 0, 0, 0, 0, 0, 0, 0, 0, 0, 0, 0, 0, 0x38]"

lemma vector_rounds:
  "map uint (foldl (sha256_round (sha256_schedule 48 vector_words)) sha256_start [0..<64]) =
     [2204507213, 2122448383, 582173195, 3705386714, 4083465534, 452723890, 2847885548, 1577833050]"
proof -
  have "map uint (sha256_schedule 48 vector_words) = int_schedule 48 (map uint vector_words)"
    by (subst uint_schedule) simp_all
  then show ?thesis
    by (subst uint_rounds) (simp_all add: schedule_length sha256_start_def sha256_K_def int_defs)
qed

lemma words_of_uints:
  assumes "map uint ws = map uint (vs :: 32 word list)" shows "ws = vs"
  by (rule map_injective [OF assms]) (metis injI word_of_int_uint)

lemma vector_digest:
  "hex_EncodeToString (sha256_Sum (bytes_of ''content'')) =
     ''ed7002b439e9ac845f22357d822bac1444730fbdb6016d3ec9432297b9ec9f73''"
proof -
  have "foldl (sha256_round (sha256_schedule 48 vector_words)) sha256_start [0..<64] =
      [2204507213, 2122448383, 582173195, 3705386714, 4083465534, 452723890, 2847885548, 1577833050]"
    by (rule words_of_uints) (simp add: vector_rounds)
  then have "sha256_block sha256_start vector_bytes =
      [0xED7002B4, 0x39E9AC84, 0x5F22357D, 0x822BAC14, 0x44730FBD, 0xB6016D3E, 0xC9432297, 0xB9EC9F73]"
    by (simp add: sha256_block_def Let_def vector_block(1)) (simp add: sha256_start_def)
  then have "sha256_Sum (bytes_of ''content'') =
      concat (map be_bytes32 [0xED7002B4, 0x39E9AC84, 0x5F22357D, 0x822BAC14, 0x44730FBD, 0xB6016D3E, 0xC9432297, 0xB9EC9F73])"
    unfolding sha256_Sum_def Let_def vector_pad vector_block(2) sha256_start_def by simp
  then show ?thesis
    by (simp add: be_bytes32_def byte_at_def hex_EncodeToString_def hex_digit_def char_of_def bit_0)
qed

end
