(* ===== verification/Conformance.thy ===== *)
theory Conformance
  imports Stream_Writer Decorated_Store Digest_Vector
begin

text \<open>
  The conformance suite for adapters: \<^verbatim>\<open>src/fstest/conformance.go\<close>.

  A test is a function of an adapter and the state its factory returns. Its report lists the
  failures by the format of their message; a test has passed when it returns the empty report.
  A listing need not end, so a test may have no result. \<^verbatim>\<open>t.Fatal\<close> ends a test, \<^verbatim>\<open>t.Errorf\<close>
  does not.
\<close>

section \<open>Reports\<close>

type_synonym report = "string list option"

abbreviation (input) passed :: report where
  "passed \<equiv> Some []"

definition fatal :: "string \<Rightarrow> report" where
  "fatal message = Some [message]"

text \<open>\<^verbatim>\<open>if err != nil { t.Fatal(err) }\<close> after a call, and a condition that must hold.\<close>

definition require_ok :: "'a res \<times> 's \<times> ctx \<Rightarrow> ('a \<Rightarrow> 's \<Rightarrow> report) \<Rightarrow> report" where
  "require_ok outcome k =
     (case outcome of
        (Ok x, s, c) \<Rightarrow> k x s
      | (Err e, s, c) \<Rightarrow> fatal ''%v''
      | (Panic e, s, c) \<Rightarrow> fatal ''panic'')"

definition require :: "string \<Rightarrow> bool \<Rightarrow> report \<Rightarrow> report" where
  "require message ok rest = (if ok then rest else fatal message)"

definition require_is :: "string \<Rightarrow> sentinel \<Rightarrow> 'a res \<times> 's \<times> ctx \<Rightarrow> ('s \<Rightarrow> report) \<Rightarrow> report" where
  "require_is message t outcome k =
     (case outcome of (r, s, c) \<Rightarrow> require message (fails_with r t) (k s))"

definition with_path :: "string \<Rightarrow> (path \<Rightarrow> report) \<Rightarrow> report" where
  "with_path v k = (case MustParsePath v of Ok p \<Rightarrow> k p | _ \<Rightarrow> fatal ''panic'')"

text \<open>\<^verbatim>\<open>io.ReadAll\<close> and \<^verbatim>\<open>Close\<close> of a stream, with the checks of both errors and of the content.\<close>

definition require_content :: "string \<Rightarrow> string \<Rightarrow> stream \<Rightarrow> report \<Rightarrow> report" where
  "require_content message expected st rest =
     (case io_copy (st_reads st) of
        (content, readErr) \<Rightarrow>
          require ''read error = %v, close error = %v'' (readErr = None \<and> st_close st = None)
            (require message (content = expected) rest))"

fun containsPath :: "string list \<Rightarrow> string \<Rightarrow> bool" where
  "containsPath [] target = False"
| "containsPath (candidate # paths) target = (if candidate = target then True else containsPath paths target)"

section \<open>Writers\<close>

text \<open>
  The \<^verbatim>\<open>io.WriteCloser\<close> of \<^verbatim>\<open>OpenWriter\<close>. \<open>wr_Close\<close> gets the context as it is by then: a test
  may have cancelled the one it opened the writer with.
\<close>

record ('s, 'w) writer_ops =
  wr_Write :: "string \<Rightarrow> 'w \<Rightarrow> (nat \<times> err option) \<times> 'w"
  wr_Close :: "'w \<Rightarrow> ctx \<Rightarrow> 's \<Rightarrow> unit res \<times> 's \<times> ctx"

fun write_chunks :: "('s, 'w) writer_ops \<Rightarrow> string list \<Rightarrow> 'w \<Rightarrow> ('w \<Rightarrow> report) \<Rightarrow> report" where
  "write_chunks wr [] w k = k w"
| "write_chunks wr (chunk # chunks) w k =
     (case wr_Write wr chunk w of ((n, e), w1) \<Rightarrow> require ''%v'' (e = None) (write_chunks wr chunks w1 k))"

section \<open>The tests\<close>

abbreviation zero_WriteOptions :: WriteOptions where
  "zero_WriteOptions \<equiv>
     \<lparr>wo_ContentType = [], wo_Metadata = None, wo_Visibility = VisibilityUnset, wo_IfNoneMatch = False\<rparr>"

definition text_plain :: WriteOptions where
  "text_plain = zero_WriteOptions\<lparr>wo_ContentType := ''text/plain''\<rparr>"

definition strings_NewReader :: "string \<Rightarrow> reads" where
  "strings_NewReader s = (if s = [] then [] else [(s, None)])"

definition test_capabilities :: "('s, 'i, 'w) backend \<Rightarrow> report" where
  "test_capabilities be =
     Some (concat (map (\<lambda>capability.
         if \<not> Supports (be_Capabilities be) capability then [''Capabilities().Supports(%q) = false''] else [])
       [CapabilityRead, CapabilityWrite, CapabilityStreamingWrite, CapabilityDelete, CapabilityList,
        CapabilityStat]))"

definition test_writer_publishes :: "('s, 'i, 'w) backend \<Rightarrow> ('s, 'w) writer_ops \<Rightarrow> 's \<Rightarrow> report" where
  "test_writer_publishes be wr adapter =
     with_path ''streamed/writer.txt'' (\<lambda>path.
     require_ok (be_OpenWriter be path text_plain adapter Background) (\<lambda>writer s.
     write_chunks wr [''hello '', ''streaming '', ''writer''] writer (\<lambda>writer.
     require_ok (wr_Close wr writer Background s) (\<lambda>_ s.
     require_ok (be_Open be path s Background) (\<lambda>stream s.
     require_content ''Open() content = %q'' ''hello streaming writer'' stream passed)))))"

definition test_writer_setup :: "('s, 'i, 'w) backend \<Rightarrow> 's \<Rightarrow> report" where
  "test_writer_setup be adapter =
     with_path ''canceled.txt'' (\<lambda>path.
     require_is ''OpenWriter(canceled) error = %v'' ContextCanceled
       (be_OpenWriter be path zero_WriteOptions adapter (CancelAfter 0 ContextCanceled)) (\<lambda>s.
     require_is ''OpenWriter(root) error = %v'' ErrInvalidPath
       (be_OpenWriter be Root zero_WriteOptions s Background) (\<lambda>s. passed)))"

text \<open>\<open>polls\<close> is how often the consumer had polled the context when \<^verbatim>\<open>cancel()\<close> was called.\<close>

definition test_writer_cancelled :: "nat \<Rightarrow> ('s, 'i, 'w) backend \<Rightarrow> ('s, 'w) writer_ops \<Rightarrow> 's \<Rightarrow> report" where
  "test_writer_cancelled polls be wr adapter =
     with_path ''canceled-writer.txt'' (\<lambda>path.
     require_ok (be_OpenWriter be path zero_WriteOptions adapter Background) (\<lambda>writer s.
     write_chunks wr [''partial''] writer (\<lambda>writer.
     require_is ''Close() error = %v, want context.Canceled'' ContextCanceled
       (wr_Close wr writer (CancelAfter polls ContextCanceled) s) (\<lambda>s. passed))))"

definition test_write_read_stat :: "('s, 'i, 'w) backend \<Rightarrow> 's \<Rightarrow> report" where
  "test_write_read_stat be adapter =
     with_path ''nested/object.txt'' (\<lambda>path.
     require_ok (be_Write be path (strings_NewReader ''hello filesystem'') text_plain adapter Background) (\<lambda>metadata s.
     require ''Write() metadata = %+v''
       (m_Path metadata = path \<and> m_Size metadata = go_len ''hello filesystem'')
     (require_ok (be_Open be path s Background) (\<lambda>stream s.
     require_content ''Open() content = %q'' ''hello filesystem'' stream
     (require_ok (be_Stat be path s Background) (\<lambda>stat s.
     require ''Stat() = %+v'' (m_Kind stat = EntryKindFile)
     (require ''Stat().ContentType = %q, want text/plain''
       (\<not> (Supports (be_Capabilities be) CapabilityMetadata \<and> m_ContentType stat \<noteq> ''text/plain''))
       passed)))))))"

definition test_range :: "('s, 'i, 'w) backend \<Rightarrow> 's \<Rightarrow> report" where
  "test_range be adapter =
     with_path ''range.txt'' (\<lambda>path.
     require_ok (be_Write be path (strings_NewReader ''0123456789'') zero_WriteOptions adapter Background) (\<lambda>_ s.
     let opened = be_OpenRange be path \<lparr>br_Offset = 2, br_Length = 4\<rparr> s Background in
     if \<not> Supports (be_Capabilities be) CapabilityRangeRead
     then require_is ''OpenRange() error = %v, want ErrUnsupportedCapability'' ErrUnsupportedCapability opened (\<lambda>s. passed)
     else require_ok opened (\<lambda>stream s. require_content ''OpenRange() content = %q, want 2345'' ''2345'' stream passed)))"

text \<open>The parts of \<^verbatim>\<open>copy move list and delete\<close>: each gives the path that is listed next.\<close>

definition test_copy :: "('s, 'i, 'w) backend \<Rightarrow> path \<Rightarrow> path \<Rightarrow> 's \<Rightarrow> (path \<Rightarrow> 's \<Rightarrow> report) \<Rightarrow> report" where
  "test_copy be source copyPath s k =
     (if Supports (be_Capabilities be) CapabilityCopy
      then require_ok (be_Copy be source copyPath \<lparr>co_Overwrite = True\<rparr> s Background) (\<lambda>_ s. k copyPath s)
      else require_is ''Copy() error = %v, want ErrUnsupportedCapability'' ErrUnsupportedCapability
        (be_Copy be source copyPath \<lparr>co_Overwrite = False\<rparr> s Background) (\<lambda>s. k source s))"

definition test_move :: "('s, 'i, 'w) backend \<Rightarrow> path \<Rightarrow> path \<Rightarrow> 's \<Rightarrow> (path \<Rightarrow> 's \<Rightarrow> report) \<Rightarrow> report" where
  "test_move be listedPath movedPath s k =
     (if Supports (be_Capabilities be) CapabilityMove
      then require_ok (be_Move be listedPath movedPath \<lparr>mo_Overwrite = True\<rparr> s Background) (\<lambda>_ s.
        require_is ''Stat(move source) error = %v, want ErrNotFound'' ErrNotFound
          (be_Stat be listedPath s Background) (\<lambda>s. k movedPath s))
      else require_is ''Move() error = %v, want ErrUnsupportedCapability'' ErrUnsupportedCapability
        (be_Move be listedPath movedPath \<lparr>mo_Overwrite = False\<rparr> s Background) (\<lambda>s. k listedPath s))"

definition file_paths :: "Entry list \<Rightarrow> string list" where
  "file_paths entries =
     map (\<lambda>entry. Path_String (e_Path entry)) (filter (\<lambda>entry. e_Kind entry = EntryKindFile) entries)"

definition test_list :: "('s, 'i, 'w) backend \<Rightarrow> path \<Rightarrow> path \<Rightarrow> 's \<Rightarrow> ('s \<Rightarrow> report) \<Rightarrow> report" where
  "test_list be source listedPath s k =
     require_ok (be_List be Root \<lparr>lo_Recursive = True, lo_Limit = 10\<rparr> s Background) (\<lambda>iterator s.
     case drain (be_iterator be) iterator [] of
       None \<Rightarrow> None
     | Some (entries, iterator) \<Rightarrow>
         require ''%v'' (it_Err (be_iterator be) iterator = None)
         (require ''%v'' (fst (it_Close (be_iterator be) iterator) = None)
         (require ''List() paths = %v, want %q and %q''
           (\<not> (\<not> containsPath (file_paths entries) (Path_String listedPath) \<or>
               \<not> containsPath (file_paths entries) (Path_String source)))
           (k s))))"

definition test_delete :: "('s, 'i, 'w) backend \<Rightarrow> path \<Rightarrow> 's \<Rightarrow> report" where
  "test_delete be listedPath s =
     require_ok (be_Delete be listedPath s Background) (\<lambda>_ s.
     require_is ''Open(deleted) error = %v, want ErrNotFound'' ErrNotFound
       (be_Open be listedPath s Background) (\<lambda>s. passed))"

definition test_copy_move_list_delete :: "('s, 'i, 'w) backend \<Rightarrow> 's \<Rightarrow> report" where
  "test_copy_move_list_delete be adapter =
     with_path ''source.txt'' (\<lambda>source. with_path ''directory/copy.txt'' (\<lambda>copyPath.
     with_path ''directory/moved.txt'' (\<lambda>movedPath.
     require_ok (be_Write be source (strings_NewReader ''content'') zero_WriteOptions adapter Background) (\<lambda>_ s.
     test_copy be source copyPath s (\<lambda>listedPath s.
     test_move be listedPath movedPath s (\<lambda>listedPath s.
     test_list be source listedPath s (\<lambda>s.
     test_delete be listedPath s)))))))"

definition test_visibility :: "('s, 'i, 'w) backend \<Rightarrow> path \<Rightarrow> 's \<Rightarrow> ('s \<Rightarrow> report) \<Rightarrow> report" where
  "test_visibility be path s k =
     (if Supports (be_Capabilities be) CapabilityVisibility
      then require_ok (be_SetVisibility be path VisibilityPublic s Background) (\<lambda>_ s.
        require_ok (be_Visibility be path s Background) (\<lambda>visibility s.
        require ''Visibility() = %q'' (visibility = VisibilityPublic) (k s)))
      else require_is ''Visibility() error = %v, want ErrUnsupportedCapability'' ErrUnsupportedCapability
        (be_Visibility be path s Background) k)"

definition test_checksum :: "('s, 'i, 'w) backend \<Rightarrow> path \<Rightarrow> 's \<Rightarrow> report" where
  "test_checksum be path s =
     (let outcome = be_Checksum be path ChecksumSHA256 s Background in
      if \<not> Supports (be_Capabilities be) CapabilityChecksum
      then require_is ''Checksum() error = %v, want ErrUnsupportedCapability'' ErrUnsupportedCapability outcome (\<lambda>s. passed)
      else require_ok outcome (\<lambda>checksum s.
        require ''Checksum() = %+v''
          (ck_Value checksum = ''ed7002b439e9ac845f22357d822bac1444730fbdb6016d3ec9432297b9ec9f73'') passed))"

definition test_properties :: "('s, 'i, 'w) backend \<Rightarrow> 's \<Rightarrow> report" where
  "test_properties be adapter =
     with_path ''properties.txt'' (\<lambda>path.
     require_ok (be_Write be path (strings_NewReader ''content'') zero_WriteOptions adapter Background) (\<lambda>_ s.
     let rest = \<lambda>s. test_visibility be path s (test_checksum be path) in
     if Supports (be_Capabilities be) CapabilityMetadata
     then require_ok (be_SetMetadata be path (Some [(''owner'', ''test'')]) s Background) (\<lambda>_ s. rest s)
     else require_is ''SetMetadata() error = %v, want ErrUnsupportedCapability'' ErrUnsupportedCapability
       (be_SetMetadata be path None s Background) rest))"

text \<open>The suite: every test on an adapter of its own.\<close>

definition TestFilesystem ::
  "nat \<Rightarrow> ('s, 'i, 'w) backend \<Rightarrow> ('s, 'w) writer_ops \<Rightarrow> 's \<Rightarrow> report list" where
  "TestFilesystem polls be wr factory =
     [test_capabilities be, test_writer_publishes be wr factory, test_writer_setup be factory,
      test_writer_cancelled polls be wr factory, test_write_read_stat be factory, test_range be factory,
      test_copy_move_list_delete be factory, test_properties be factory]"

section \<open>Writers over a pipe\<close>

text \<open>
  The writer of \<^verbatim>\<open>internal/streamwriter\<close> in the execution in which its consumer takes every chunk
  in one read: writing a chunk puts a read in front of what the consumer gets later, \<^verbatim>\<open>Close\<close>
  ends them with \<^verbatim>\<open>io.EOF\<close> and returns the consumer's result.
\<close>

definition pipe_writer :: "('s, 's Contracts.consumer) writer_ops" where
  "pipe_writer =
     \<lparr>wr_Write = (\<lambda>chunk w. ((length chunk, None), \<lambda>rs. w ((chunk, None) # rs))),
      wr_Close = (\<lambda>w c s. w [([], Some (Sentinel IoEOF))] s c)\<rparr>"

definition chunk_reads :: "string list \<Rightarrow> reads" where
  "chunk_reads chunks = map (\<lambda>chunk. (chunk, None)) chunks"

lemma write_chunks_pipe:
  "write_chunks pipe_writer chunks w k = k (\<lambda>rs. w (chunk_reads chunks @ rs))"
  by (induction chunks arbitrary: w) (simp_all add: pipe_writer_def chunk_reads_def require_def)

lemma pipe_writer_Close [simp]: "wr_Close pipe_writer w c s = w [([], Some (Sentinel IoEOF))] s c"
  by (simp add: pipe_writer_def)

text \<open>It is an execution of the stream writer.\<close>

lemma pipe_execution:
  "\<exists>w. sw_reachable chunks w \<and> sw_reads w = chunk_reads chunks @ [([], Some (Sentinel IoEOF))] \<and> all_accepted w"
proof -
  let ?at = "\<lambda>fin todo. (sw_New chunks)\<lparr>sw_script := todo, sw_written := fin,
    sw_results := map (\<lambda>chunk. (length chunk, None)) fin, sw_reads := chunk_reads fin\<rparr>"
  have idle: "sw_reachable chunks (?at fin todo)" if "chunks = fin @ todo" for fin todo
    using that
  proof (induction fin arbitrary: todo rule: rev_induct)
    case Nil
    then show ?case using sw_reachable.start [of chunks] by (simp add: sw_New_def chunk_reads_def)
  next
    case (snoc chunk fin)
    let ?w0 = "?at fin (chunk # todo)"
    let ?w1 = "?w0\<lparr>sw_script := todo, sw_producer := Writing chunk 0 True, sw_written := fin @ [chunk]\<rparr>"
    let ?w2 = "?w1\<lparr>sw_producer := Writing [] (length chunk) False, sw_reads := chunk_reads fin @ [(chunk, None)]\<rparr>"
    have "sw_reachable chunks ?w0" using snoc by simp
    moreover have "sw_step ?w0 ?w1" using call_Write [of ?w0 chunk todo] by (simp add: sw_New_def)
    moreover have "sw_step ?w1 ?w2"
      using transfer [of ?w1 chunk 0 True "length chunk"] by (simp add: sw_New_def pipe_done_def)
    moreover have "sw_step ?w2 (?at (fin @ [chunk]) todo)"
      using return_Write [of ?w2 "length chunk"] by (simp add: sw_New_def chunk_reads_def)
    ultimately show ?case by (meson sw_reachable.step)
  qed
  let ?w = "?at chunks []"
  let ?c = "?w\<lparr>sw_producer := Closing, sw_werr := Some (Sentinel IoEOF)\<rparr>"
  let ?e = "?c\<lparr>sw_consumer := Ended (Sentinel IoEOF), sw_reads := chunk_reads chunks @ [([], Some (Sentinel IoEOF))]\<rparr>"
  have "sw_step ?w ?c" using call_Close [of ?w] by (simp add: sw_New_def)
  moreover have "sw_step ?c ?e"
    using read_end [of ?c "Sentinel IoEOF"] by (simp add: sw_New_def pipe_done_def readCloseError_def)
  ultimately have "sw_reachable chunks ?e" using idle [of chunks "[]"] by (simp, meson sw_reachable.step)
  moreover have "all_accepted ?e" by (simp add: all_accepted_def list_all_iff)
  ultimately show ?thesis by (intro exI [of _ ?e]) simp
qed

section \<open>What the contract gives\<close>

lemma containsPath_iff [simp]: "containsPath paths target \<longleftrightarrow> target \<in> set paths"
  by (induction paths) auto

lemma require_True [simp]: "require message True rest = rest"
  by (simp add: require_def)

lemma with_path_Ok: "MustParsePath v = Ok p \<Longrightarrow> with_path v k = k p"
  by (simp add: with_path_def)

lemma require_content_of: "stream_of st expected \<Longrightarrow> require_content message expected st rest = rest"
  by (simp add: stream_of_def require_content_def)

lemma copy_of_strings: "io_copy (strings_NewReader s) = (s, None)"
  by (simp add: strings_NewReader_def)

text \<open>The paths of the suite.\<close>

lemma suite_paths:
  "MustParsePath ''nested/object.txt'' = Ok (sample_path ''nested/object.txt'')"
  "MustParsePath ''source.txt'' = Ok (sample_path ''source.txt'')"
  "MustParsePath ''directory/copy.txt'' = Ok (sample_path ''directory/copy.txt'')"
  "MustParsePath ''directory/moved.txt'' = Ok (sample_path ''directory/moved.txt'')"
  "wf_path (sample_path ''nested/object.txt'')" "\<not> IsRoot (sample_path ''nested/object.txt'')"
  "wf_path (sample_path ''source.txt'')" "\<not> IsRoot (sample_path ''source.txt'')"
  "wf_path (sample_path ''directory/copy.txt'')" "\<not> IsRoot (sample_path ''directory/copy.txt'')"
  "wf_path (sample_path ''directory/moved.txt'')" "\<not> IsRoot (sample_path ''directory/moved.txt'')"
  by code_simp+

text \<open>
  A store that keeps the contract, has room for the few objects of a test and describes what it
  wrote. Everything a test then sees follows from the laws.
\<close>

locale tested_store = object_store +
  assumes small_room: "good s \<Longrightarrow> card (dom (view s)) \<le> 3 \<Longrightarrow> room s"
    and Write_reports: "good s \<Longrightarrow> wf_path p \<Longrightarrow> be_Write be p source opts s Background = (Ok md, s', c) \<Longrightarrow>
      io_copy source = (content, None) \<Longrightarrow> m_Path md = p \<and> m_Size md = go_len content"
begin

lemma written:
  assumes "good s" and "card (dom (view s)) \<le> 3" and "wf_path p" and "\<not> IsRoot p"
    and "wo_Visibility opts = VisibilityUnset" and "\<not> wo_IfNoneMatch opts"
  obtains md s' where "be_Write be p (strings_NewReader content) opts s Background = (Ok md, s', Background)"
    "good s'" "view s' = (view s)(p \<mapsto> written_file opts content VisibilityPrivate)"
    "m_Path md = p" "m_Size md = go_len content"
proof -
  have v: "spec_visibility (wo_Visibility opts) = Some VisibilityPrivate" by (simp add: assms(5) spec_visibility_def)
  from Write_law [OF assms(1) small_room [OF assms(1,2)] assms(3,4) copy_of_strings [of content] v] assms(6)
  obtain md s' where "be_Write be p (strings_NewReader content) opts s Background = (Ok md, s', Background)"
    "good s'" "view s' = (view s)(p \<mapsto> written_file opts content VisibilityPrivate)"
    by (auto simp: implements_def spec_write_def split: prod.splits)
  with Write_reports [OF assms(1,3) this(1) copy_of_strings [of content]] that show thesis by blast
qed

lemma opened:
  assumes "good s" and "wf_path p" and "view s p = Some f"
  obtains st s' where "be_Open be p s Background = (Ok st, s', Background)" "good s'" "view s' = view s"
    "stream_of st (f_content f)"
  using Open_law [OF assms(1,2)] assms(3) that by (auto simp: observes_def split: prod.splits)

lemma absent:
  assumes "good s" and "wf_path p" and "view s p = None"
  shows "require_is message ErrNotFound (be_Open be p s Background) (\<lambda>s. passed) = passed"
    and "\<exists>s'. good s' \<and> view s' = view s \<and> require_is message ErrNotFound (be_Stat be p s Background) k = k s'"
  using Open_law [OF assms(1,2)] Stat_law [OF assms(1,2)] assms(3)
  by (auto simp: observes_def require_is_def require_def split: prod.splits)

lemma write_read_stat:
  assumes "good s" and "view s = Map.empty"
  shows "test_write_read_stat be s = passed"
proof -
  let ?p = "sample_path ''nested/object.txt''" and ?f = "written_file text_plain ''hello filesystem'' VisibilityPrivate"
  obtain md s1 where w: "be_Write be ?p (strings_NewReader ''hello filesystem'') text_plain s Background = (Ok md, s1, Background)"
    "good s1" "view s1 = (view s)(?p \<mapsto> ?f)" "m_Path md = ?p" "m_Size md = go_len ''hello filesystem''"
    by (rule written [OF assms(1) _ suite_paths(5,6), of text_plain]) (use assms(2) in \<open>simp_all add: text_plain_def\<close>)
  then have f: "view s1 ?p = Some ?f" by simp
  obtain st s2 where r: "be_Open be ?p s1 Background = (Ok st, s2, Background)" "good s2" "view s2 = view s1"
    "stream_of st (f_content ?f)" by (rule opened [OF w(2) suite_paths(5) f])
  have f2: "view s2 ?p = Some ?f" using r(3) f by simp
  obtain md2 s3 c3 where t: "be_Stat be ?p s2 Background = (Ok md2, s3, c3)" "describes md2 ?p ?f"
    using Stat_law [OF r(2) suite_paths(5)] f2 by (auto simp: observes_def split: prod.splits)
  have "stream_of st ''hello filesystem''" using r(4) by (simp add: written_file_def)
  then show ?thesis using w r t
    by (simp add: test_write_read_stat_def with_path_Ok suite_paths require_ok_def require_content_of describes_def
        written_file_def text_plain_def)
qed

lemma listed_files:
  assumes "good s" and "dom (view s) = {p, q}" and "\<not> IsRoot p" and "\<not> IsRoot q"
  shows "\<exists>s'. good s' \<and> view s' = view s \<and> test_list be p q s k = k s'"
proof -
  let ?opts = "\<lparr>lo_Recursive = True, lo_Limit = 10\<rparr>"
  have root: "wf_path Root" by code_simp
  have "0 \<le> sint (lo_Limit ?opts)" by simp
  from List_law [OF assms(1) root this] obtain it es s' where
    run: "be_List be Root ?opts s Background = (Ok it, s', Background)" "good s'" "view s' = view s"
    and es: "listing (view s) Root True es" "pending it = limited 10 es" "fault it = None"
    by (auto simp: observes_def split: prod.splits)
  have "beneath Root x" if "\<not> IsRoot x" for x
    using that by (auto simp: beneath_iff IsRoot_segments Root_def segments_def)
  then have "{x \<in> dom (view s). beneath Root x} = {p, q}" using assms(2-4) by auto
  with es(1) have paths: "e_Path ` set es = {p, q}" and files: "\<forall>e\<in>set es. e_Kind e = EntryKindFile"
    and sorted: "sorted_wrt (<) (map entry_key es)"
    by (auto simp: listing_def child_path_def entry_true_def)
  have "distinct (map e_Path es)"
  proof -
    have "distinct (map entry_key es)" using sorted by (simp add: strict_sorted_iff)
    then show ?thesis by (auto simp: distinct_map entry_key_def inj_on_def)
  qed
  then have "length es = card {p, q}" using paths by (metis distinct_card length_map set_map)
  then have "length es \<le> 10" using card_insert_le_m1 [of 2 "{q}" p] by simp
  then have all: "pending it = es" by (simp add: es(2) limited_def)
  from it.drain_total [of it "[]"] obtain it' where
    d: "drain (be_iterator be) it [] = Some (es, it')" "it_Err (be_iterator be) it' = None" "fault it' = None"
    by (auto simp: all es(3))
  have "Path_String ` e_Path ` set es \<subseteq> set (file_paths es)" using files by (auto simp: file_paths_def)
  then have "Path_String p \<in> set (file_paths es)" "Path_String q \<in> set (file_paths es)" unfolding paths by auto
  with d it.close_clean [OF d(3)] run have "test_list be p q s k = k s'"
    by (simp add: test_list_def require_ok_def)
  with run(2,3) show ?thesis by blast
qed

lemma copied:
  assumes "good s" and "card (dom (view s)) \<le> 3" and "wf_path p" and "wf_path q" and "\<not> IsRoot q"
    and "view s p = Some f" and "Supports (be_Capabilities be) CapabilityCopy"
  obtains s' where "good s'" "view s' = (view s)(q \<mapsto> f)" "\<And>k. test_copy be p q s k = k q s'"
  using Copy_law [OF assms(1) small_room [OF assms(1,2)] assms(3-5), of "\<lparr>co_Overwrite = True\<rparr>"] assms(6,7) that
  by (auto simp: implements_def spec_copy_def test_copy_def require_ok_def split: prod.splits)

lemma moved:
  assumes "good s" and "card (dom (view s)) \<le> 3" and "wf_path p" and "wf_path q" and "\<not> IsRoot q"
    and "view s p = Some f" and "p \<noteq> q" and "Supports (be_Capabilities be) CapabilityMove"
  shows "\<exists>s'. good s' \<and> view s' = (view s)(q \<mapsto> f, p := None) \<and> test_move be p q s k = k q s'"
proof -
  from Move_law [OF assms(1) small_room [OF assms(1,2)] assms(3-5), of "\<lparr>mo_Overwrite = True\<rparr>"] assms(6,7)
  obtain s1 where m: "be_Move be p q \<lparr>mo_Overwrite = True\<rparr> s Background = (Ok (), s1, Background)" "good s1"
    "view s1 = (view s)(q \<mapsto> f, p := None)"
    by (auto simp: implements_def spec_move_def split: prod.splits)
  from m(3) assms(7) have "view s1 p = None" by simp
  from absent(2) [OF m(2) assms(3) this, of "''Stat(move source) error = %v, want ErrNotFound''" "k q"]
  obtain s2 where "good s2" "view s2 = view s1" "test_move be p q s k = k q s2"
    using m(1) assms(8) by (auto simp: test_move_def require_ok_def)
  with m(3) show ?thesis by auto
qed

lemma deleted:
  assumes "good s" and "wf_path p" and "view s p = Some f" shows "test_delete be p s = passed"
proof -
  from Delete_law [OF assms(1,2)] assms(3) obtain s1 where
    d: "be_Delete be p s Background = (Ok (), s1, Background)" "good s1" "view s1 p = None"
    by (auto simp: implements_def spec_delete_def split: prod.splits)
  with absent(1) [OF d(2) assms(2) d(3)] show ?thesis by (simp add: test_delete_def require_ok_def)
qed

lemma copy_move_list_delete:
  assumes "good s" and "view s = Map.empty"
    and "Supports (be_Capabilities be) CapabilityCopy" and "Supports (be_Capabilities be) CapabilityMove"
  shows "test_copy_move_list_delete be s = passed"
proof -
  let ?a = "sample_path ''source.txt''" and ?b = "sample_path ''directory/copy.txt''"
    and ?c = "sample_path ''directory/moved.txt''"
  let ?f = "written_file zero_WriteOptions ''content'' VisibilityPrivate"
  have ne: "?a \<noteq> ?b" "?b \<noteq> ?c" "?a \<noteq> ?c" by (simp_all add: sample_path_def)
  obtain md s1 where w: "be_Write be ?a (strings_NewReader ''content'') zero_WriteOptions s Background = (Ok md, s1, Background)"
    "good s1" "view s1 = (view s)(?a \<mapsto> ?f)"
    by (rule written [OF assms(1) _ suite_paths(7,8), of zero_WriteOptions "''content''"]) (use assms(2) in simp_all)
  have f1: "view s1 ?a = Some ?f" and c1: "card (dom (view s1)) \<le> 3" using w(3) assms(2) by simp_all
  obtain s2 where cp: "good s2" "view s2 = (view s1)(?b \<mapsto> ?f)" "\<And>k. test_copy be ?a ?b s1 k = k ?b s2"
    by (rule copied [OF w(2) c1 suite_paths(7,9,10) f1 assms(3)]) blast
  have d2: "dom (view s2) = {?a, ?b}" using cp(2) w(3) assms(2) by auto
  then have f2: "view s2 ?b = Some ?f" and c2: "card (dom (view s2)) \<le> 3"
    using cp(2) card_insert_le_m1 [of 2 "{?b}" ?a] by simp_all
  let ?k = "\<lambda>listedPath s. test_list be ?a listedPath s (\<lambda>s. test_delete be listedPath s)"
  from moved [OF cp(1) c2 suite_paths(9,11,12) f2 ne(2) assms(4), of ?k] obtain s3 where
    mv: "good s3" "view s3 = (view s2)(?c \<mapsto> ?f, ?b := None)" "test_move be ?b ?c s2 ?k = ?k ?c s3" by blast
  have "dom (view s3) = {?a, ?c}" using mv(2) d2 ne by auto
  from listed_files [OF mv(1) this suite_paths(8,12), of "\<lambda>s. test_delete be ?c s"] obtain s4 where
    ls: "good s4" "view s4 = view s3" "?k ?c s3 = test_delete be ?c s4" by blast
  have "view s4 ?c = Some ?f" using ls(2) mv(2) ne by simp
  from deleted [OF ls(1) suite_paths(11) this] w(1) cp(3) mv(3) ls(3) show ?thesis
    by (simp add: test_copy_move_list_delete_def with_path_Ok suite_paths require_ok_def)
qed

end

section \<open>The in-memory adapter\<close>

lemma mem_Write_reports:
  assumes "mem_Write p source opts a Background = (Ok md, a', c)" and "io_copy source = (content, None)"
  shows "m_Path md = p \<and> m_Size md = go_len content"
proof -
  have cp: "context_copy Background source = ((content, None), Background)"
    using assms(2) by (simp add: context_copy_Background)
  show ?thesis using assms(1)
    by (auto simp: mem_Write_def cp mem_publish_def metadataFor_def Let_def split: if_splits res.splits prod.splits)
qed

lemma card_mem_view: "mem_ok a \<Longrightarrow> length (mem_objects a) = card (dom (mem_view a))"
proof -
  assume ok: "mem_ok a"
  have "dom (mem_view a) = (\<lambda>k. \<lparr>pvalue = k\<rparr>) ` set (map fst (mem_objects a))"
  proof (rule set_eqI)
    fix p :: path
    show "p \<in> dom (mem_view a) \<longleftrightarrow> p \<in> (\<lambda>k. \<lparr>pvalue = k\<rparr>) ` set (map fst (mem_objects a))"
      by (cases p) (auto simp: mem_view_def lookup_object_def Path_String_def map_of_eq_None_iff domIff
          image_iff simp flip: not_None_eq)
  qed
  then have "card (dom (mem_view a)) = card (set (map fst (mem_objects a)))"
    by (simp add: card_image inj_on_def)
  also have "\<dots> = length (mem_objects a)" using ok by (simp only: mem_ok_def distinct_card length_map)
  finally show ?thesis by simp
qed

interpretation mem_tested: tested_store memory_backend mem_good mem_view mem_room si_pending "\<lambda>_. None"
proof unfold_locales
  fix s p source opts md s' c content
  assume "mem_good s"
  then show "mem_room s" if "card (dom (mem_view s)) \<le> 3"
    using that card_mem_view [of s] by (simp add: mem_good_def mem_room_def)
  show "m_Path md = p \<and> m_Size md = go_len content"
    if "be_Write memory_backend p source opts s Background = (Ok md, s', c)" "io_copy source = (content, None)"
    using mem_Write_reports [OF _ that(2), of p opts s md s' c] that(1) by (simp add: memory_backend_sel)
qed

text \<open>A new adapter, with any clock and any order of its map.\<close>

abbreviation (input) fresh :: "(nat \<Rightarrow> time) \<Rightarrow> ((string \<times> object) list \<Rightarrow> (string \<times> object) list) \<Rightarrow> memory" where
  "fresh wall order \<equiv> memory_New wall order []"

lemma fresh_good: "mem_good (fresh wall order)" "mem_view (fresh wall order) = Map.empty"
  by (auto simp: memory_New_def mem_good_def mem_ok_def mem_view_def lookup_object_def)

lemma mem_supports:
  "\<forall>capability\<in>set memory_capability_list. Supports memory_Capabilities capability"
  by code_simp

lemma mem_capabilities: "test_capabilities memory_backend = passed"
  using mem_supports by (simp add: test_capabilities_def memory_backend_sel memory_capability_list_def)

lemma more_paths:
  "MustParsePath ''streamed/writer.txt'' = Ok (sample_path ''streamed/writer.txt'')"
  "MustParsePath ''canceled.txt'' = Ok (sample_path ''canceled.txt'')"
  "MustParsePath ''canceled-writer.txt'' = Ok (sample_path ''canceled-writer.txt'')"
  "MustParsePath ''range.txt'' = Ok (sample_path ''range.txt'')"
  "MustParsePath ''properties.txt'' = Ok (sample_path ''properties.txt'')"
  "\<not> IsRoot (sample_path ''streamed/writer.txt'')" "\<not> IsRoot (sample_path ''canceled-writer.txt'')"
  "\<not> IsRoot (sample_path ''range.txt'')" "\<not> IsRoot (sample_path ''properties.txt'')" "IsRoot Root"
  "wf_path (sample_path ''streamed/writer.txt'')" "wf_path (sample_path ''range.txt'')"
  "wf_path (sample_path ''properties.txt'')"
  by code_simp+

lemma mem_writer_setup: "test_writer_setup memory_backend a = passed"
  by (simp add: test_writer_setup_def with_path_Ok more_paths require_is_def memory_backend_sel mem_OpenWriter_def
      check_ctx_def rootPathError_def)

text \<open>
  The consumer polls before the read of the chunk, before the read of the end and before it
  publishes; the end comes after the cancellation.
\<close>

lemma mem_writer_cancelled:
  assumes "polls \<le> 2" shows "test_writer_cancelled polls memory_backend pipe_writer a = passed"
proof -
  have "polls = 0 \<or> polls = 1 \<or> polls = 2" using assms by auto
  then have "fails_with (fst (mem_Write (sample_path ''canceled-writer.txt'')
      [(''partial'', None), ([], Some (Sentinel IoEOF))] zero_WriteOptions a (CancelAfter polls ContextCanceled))) ContextCanceled"
    by (auto simp: mem_Write_def more_paths normalizeVisibility_def numeral_2_eq_2 check_ctx_def)
  then show ?thesis
    by (auto simp: test_writer_cancelled_def with_path_Ok more_paths require_ok_def require_is_def memory_backend_sel
        mem_OpenWriter_def write_chunks_pipe chunk_reads_def drop_result_def simp del: write_chunks.simps
        split: prod.splits res.splits elim!: fails_with.elims)
qed

lemma mem_writer_publishes:
  assumes "mem_good a" and "mem_view a = Map.empty"
  shows "test_writer_publishes memory_backend pipe_writer a = passed"
proof -
  let ?p = "sample_path ''streamed/writer.txt''" and ?all = "''hello streaming writer''"
  let ?rs = "chunk_reads [''hello '', ''streaming '', ''writer''] @ [([], Some (Sentinel IoEOF))]"
  have cp: "io_copy ?rs = (?all, None)" by (simp add: chunk_reads_def)
  have room: "mem_room a" using mem_tested.small_room [OF assms(1)] assms(2) by simp
  have v: "spec_visibility (wo_Visibility text_plain) = Some VisibilityPrivate" by (simp add: text_plain_def spec_visibility_def)
  from mem.Write_law [OF assms(1) room more_paths(11,6) cp v] assms(2)
  obtain md a1 where w: "mem_Write ?p ?rs text_plain a Background = (Ok md, a1, Background)" "mem_good a1"
    "mem_view a1 ?p = Some (written_file text_plain ?all VisibilityPrivate)"
    by (auto simp: implements_def spec_write_def memory_backend_sel text_plain_def split: prod.splits)
  obtain st a2 where r: "mem_Open ?p a1 Background = (Ok st, a2, Background)" "stream_of st ?all"
    by (rule mem_tested.opened [OF w(2) more_paths(11) w(3)]) (simp add: memory_backend_sel written_file_def)
  from w(1) r show ?thesis
    by (simp add: test_writer_publishes_def with_path_Ok more_paths require_ok_def memory_backend_sel
        mem_OpenWriter_def write_chunks_pipe drop_result_def require_content_of del: write_chunks.simps)
qed

lemma mem_range_read:
  assumes "mem_good a" and "mem_view a = Map.empty"
  shows "test_range memory_backend a = passed"
proof -
  let ?p = "sample_path ''range.txt''"
  obtain md a1 where w: "mem_Write ?p (strings_NewReader ''0123456789'') zero_WriteOptions a Background = (Ok md, a1, Background)"
    "mem_view a1 = (mem_view a)(?p \<mapsto> written_file zero_WriteOptions ''0123456789'' VisibilityPrivate)"
    by (rule mem_tested.written [OF assms(1) _ more_paths(12,8), of zero_WriteOptions "''0123456789''"])
      (use assms(2) in \<open>simp_all add: memory_backend_sel\<close>)
  then have "mem_view a1 ?p = Some (written_file zero_WriteOptions ''0123456789'' VisibilityPrivate)" by simp
  then obtain stored where look: "lookup_object a1 ?p = Some stored" and cont: "o_content stored = ''0123456789''"
    by (auto simp: mem_view_def file_of_def written_file_def)
  have "mem_OpenRange ?p \<lparr>br_Offset = 2, br_Length = 4\<rparr> a1 Background = (Ok (bytes_stream ''2345''), a1, Background)"
    by (simp add: mem_OpenRange_def look cont go_len_def go_min_def go_slice_def)
  moreover have "Supports memory_Capabilities CapabilityRangeRead"
    using mem_supports by (simp add: memory_capability_list_def)
  moreover have "stream_of (bytes_stream ''2345'') ''2345''" by (simp add: stream_of_def bytes_stream_def)
  ultimately show ?thesis using w(1)
    by (simp add: test_range_def with_path_Ok more_paths require_ok_def memory_backend_sel require_content_of)
qed

lemma mem_properties:
  assumes "mem_good a" and "mem_view a = Map.empty"
  shows "test_properties memory_backend a = passed"
proof -
  let ?p = "sample_path ''properties.txt''"
  obtain md a1 where w: "mem_Write ?p (strings_NewReader ''content'') zero_WriteOptions a Background = (Ok md, a1, Background)"
    "mem_view a1 = (mem_view a)(?p \<mapsto> written_file zero_WriteOptions ''content'' VisibilityPrivate)"
    by (rule mem_tested.written [OF assms(1) _ more_paths(13,9), of zero_WriteOptions "''content''"])
      (use assms(2) in \<open>simp_all add: memory_backend_sel\<close>)
  then have "mem_view a1 ?p = Some (written_file zero_WriteOptions ''content'' VisibilityPrivate)" by simp
  then obtain stored where look: "lookup_object a1 ?p = Some stored" and cont: "o_content stored = ''content''"
    by (auto simp: mem_view_def file_of_def written_file_def)
  obtain a2 stored2 where m: "mem_SetMetadata ?p (Some [(''owner'', ''test'')]) a1 Background = (Ok (), a2, Background)"
    and look2: "lookup_object a2 ?p = Some stored2" "o_content stored2 = ''content''"
    by (cases "clock_now a1") (auto simp: mem_SetMetadata_def look cont)
  obtain a3 stored3 where v: "mem_SetVisibility ?p VisibilityPublic a2 Background = (Ok (), a3, Background)"
    and look3: "lookup_object a3 ?p = Some stored3" "o_content stored3 = ''content''" "o_visibility stored3 = VisibilityPublic"
    by (cases "clock_now a2") (auto simp: mem_SetVisibility_def normalizeVisibility_def look2)
  have vis: "mem_Visibility ?p a3 Background = (Ok VisibilityPublic, a3, Background)"
    by (simp add: mem_Visibility_def mem_Stat_def look3 metadataFor_def)
  have sum: "mem_Checksum ?p ChecksumSHA256 a3 Background = (Ok \<lparr>ck_Algorithm = ChecksumSHA256, ck_Value =
      ''ed7002b439e9ac845f22357d822bac1444730fbdb6016d3ec9432297b9ec9f73''\<rparr>, a3, Background)"
    by (simp only: mem_Checksum_def look3 Let_def check_ctx_Background option.case ChecksumAlgorithm.case vector_digest)
  have sup: "Supports memory_Capabilities CapabilityMetadata" "Supports memory_Capabilities CapabilityVisibility"
    "Supports memory_Capabilities CapabilityChecksum" using mem_supports by (simp_all add: memory_capability_list_def)
  show ?thesis using w(1) m v vis sum sup
    by (simp add: test_properties_def test_visibility_def test_checksum_def with_path_Ok more_paths require_ok_def
        memory_backend_sel)
qed



text \<open>
  (C6) The contract of an object store is enough for the suite: an adapter that keeps it, has room
  for the objects of a test and describes what it wrote passes the tests that write, read, stat,
  copy, move, list and delete, whatever its implementation is.
\<close>

theorem contract_conforms:
  assumes "tested_store be good view room pending fault" and "good s" and "view s = Map.empty"
    and "Supports (be_Capabilities be) CapabilityCopy" and "Supports (be_Capabilities be) CapabilityMove"
  shows "test_write_read_stat be s = Some [] \<and> test_copy_move_list_delete be s = Some []"
  using tested_store.write_read_stat [OF assms(1-3)] tested_store.copy_move_list_delete [OF assms(1-5)] by blast

theorem contract_conforms_witness:
  "test_write_read_stat memory_backend (memory_New (\<lambda>_. 0) rev []) = Some [] \<and>
   test_copy_move_list_delete memory_backend (memory_New (\<lambda>_. 0) rev []) = Some []"
proof -
  have sup: "Supports (be_Capabilities memory_backend) CapabilityCopy" "Supports (be_Capabilities memory_backend) CapabilityMove"
    using mem_supports by (simp_all add: memory_backend_sel memory_capability_list_def)
  show ?thesis by (rule contract_conforms [OF mem_tested.tested_store_axioms fresh_good sup])
qed

end
