(* ===== verification/Spec2Isabelle.thy ===== *)
theory Spec2Isabelle
  imports IO_FS R2_Adapter Stream_Writer Local_Listing Sftp_Theorems Ftp_Theorems
    Ftp_Stream Tcp_Proxy Tabular_Ingestion Platform_Rename Conformance
begin

text \<open>
  A verification development of the Go module \<^verbatim>\<open>go-filesystem\<close>.

  \<^bold>\<open>The program.\<close> The root package \<^verbatim>\<open>src\<close> defines logical paths, capabilities, errors and
  the interfaces of a portable object store. Six adapters implement them: \<^verbatim>\<open>src/memory\<close>,
  \<^verbatim>\<open>src/local\<close>, \<^verbatim>\<open>src/s3\<close>, \<^verbatim>\<open>src/r2\<close> (a profile over \<^verbatim>\<open>src/s3\<close>), \<^verbatim>\<open>src/sftp\<close> and
  \<^verbatim>\<open>src/ftp\<close>. \<^verbatim>\<open>src/decorator\<close> wraps any of them with a prefix, retries and an observer, and
  \<^verbatim>\<open>src/iofs.go\<close> shows any of them as an \<^verbatim>\<open>io/fs\<close> tree. \<^verbatim>\<open>src/internal/streamwriter\<close> turns a
  \<^verbatim>\<open>Write\<close> into a stream for their \<^verbatim>\<open>OpenWriter\<close>, \<^verbatim>\<open>src/internal/redact\<close> removes secrets from
  error messages, \<^verbatim>\<open>src/fstest\<close> holds the conformance suite and the fault seams for tests, and
  \<^verbatim>\<open>src/integration/tabular-ingestion\<close> reads bounded CSV objects through the interfaces.

  \<^bold>\<open>Conventions.\<close> A Go string is a list of bytes (\<open>string\<close>); \<^verbatim>\<open>int\<close> and \<^verbatim>\<open>int64\<close> are
  \<open>64 word\<close>, read with \<open>sint\<close>, so additions wrap. A call that may fail or panic gives \<open>Ok\<close>,
  \<open>Err\<close> or \<open>Panic\<close>; errors are trees on which \<open>errors_is\<close> is \<^verbatim>\<open>errors.Is\<close>. A context is
  \<open>Background\<close> or cancelled after a number of polls of \<^verbatim>\<open>ctx.Err()\<close>, so a theorem over all
  contexts covers every moment of cancellation. A reader is the list of the results of its
  \<^verbatim>\<open>Read\<close> calls. Methods take and return the state of their adapter; goroutines are steps of
  an inductive relation.

  \<^bold>\<open>Theories and sources.\<close>
  \<^item> \<open>FS_Prelude\<close>: what the sources use of \<^verbatim>\<open>strings\<close>, \<^verbatim>\<open>unicode/utf8\<close> and \<^verbatim>\<open>path\<close>.
  \<^item> \<open>Go_Errors\<close>: \<^verbatim>\<open>src/errors.go\<close>, results and contexts. \<open>Capability_Sets\<close>:
    \<^verbatim>\<open>src/capability.go\<close>. \<open>Logical_Path\<close>: \<^verbatim>\<open>src/path.go\<close>; \<^verbatim>\<open>ParsePath\<close> returns exactly the
    well-formed paths.
  \<^item> \<open>Contracts\<close>, \<open>Iterator_Contract\<close>, \<open>Store_Contract\<close>: \<^verbatim>\<open>src/contracts.go\<close>. The locales
    \<open>entry_iterator\<close> and \<open>object_store\<close> state what \<^verbatim>\<open>EntryIterator\<close> and the storage interfaces
    promise, against an abstract store from paths to files.
  \<^item> \<open>Digest\<close>, \<open>Digest_Vector\<close>: the digests of the \<^verbatim>\<open>Checksum\<close> methods, and SHA-256 evaluated on
    the input of the conformance suite.
  \<^item> \<open>Memory_Adapter\<close>, \<open>Memory_Store\<close>, \<open>Memory_Theorems\<close>: \<^verbatim>\<open>src/memory/memory.go\<close>. The adapter
    interprets \<open>object_store\<close>; its writes are atomic, its ranges and listings exact.
  \<^item> \<open>Decorator\<close>, \<open>Decorator_Theorems\<close>, \<open>Decorated_Store\<close>: \<^verbatim>\<open>src/decorator/decorator.go\<close>. Over any
    backend the requests stay beneath the prefix, retries and events are exact; over an
    \<open>object_store\<close> the decorator is an \<open>object_store\<close> again (a sublocale), and it changes nothing
    outside its prefix.
  \<^item> \<open>IO_FS\<close>: \<^verbatim>\<open>src/iofs.go\<close>; opening, and a paged \<^verbatim>\<open>ReadDir\<close> that loses nothing.
  \<^item> \<open>Redact\<close>: \<^verbatim>\<open>src/internal/redact/redact.go\<close>; secrets do not survive, and credentials in
    URLs do not influence the message.
  \<^item> \<open>S3_Adapter\<close>, \<open>S3_Theorems\<close>, \<open>R2_Adapter\<close>: \<^verbatim>\<open>src/s3/s3.go\<close>, \<^verbatim>\<open>src/r2/r2.go\<close>; refinement of the
    abstract store against a service that behaves as documented, listings for every paging.
  \<^item> \<open>Stream_Writer\<close>: \<^verbatim>\<open>src/internal/streamwriter/writer.go\<close> as a step relation over an
    \<^verbatim>\<open>io.Pipe\<close>; every interleaving delivers the written bytes, and \<^verbatim>\<open>Close\<close> returns.
  \<^item> \<open>File_Transfer\<close>, \<open>Local_Adapter\<close>, \<open>Local_Root\<close>, \<open>Local_Theorems\<close>, \<open>Local_Listing\<close>:
    \<^verbatim>\<open>src/local/local.go\<close> and \<^verbatim>\<open>src/local/rename.go\<close> over a POSIX tree in which any call may fail;
    \<^verbatim>\<open>Write\<close> is atomic, \<^verbatim>\<open>List\<close> returns and is exact on a tree of logical names.
  \<^item> \<open>Windows_Rename\<close>, \<open>Platform_Rename\<close>: \<^verbatim>\<open>src/local/rename_information.go\<close> and the
    \<^verbatim>\<open>rename_*.go\<close> of each platform; the Windows record is laid out as specified and reads back.
  \<^item> \<open>Remote_Session\<close>, \<open>Remote_Theorems\<close>: what \<^verbatim>\<open>src/sftp/sftp.go\<close> and \<^verbatim>\<open>src/ftp/ftp.go\<close> share.
    \<open>Sftp_Adapter\<close>, \<open>Sftp_Theorems\<close>, \<open>Ftp_Adapter\<close>, \<open>Ftp_Theorems\<close>: the two adapters; requests stay
    under the root, sessions are closed once, writes publish completely or not at all.
    \<open>Ftp_Stream\<close>: the goroutines of the FTP \<^verbatim>\<open>readStream\<close>.
  \<^item> \<open>Fault_Injection\<close>, \<open>Tcp_Proxy\<close>, \<open>Conformance\<close>: \<^verbatim>\<open>src/fstest/fault.go\<close>, \<^verbatim>\<open>proxy.go\<close> and
    \<^verbatim>\<open>conformance.go\<close>. The memory adapter passes the suite, and every \<open>object_store\<close> passes the
    tests of its operations.
  \<^item> \<open>Tabular_Ingestion\<close>: \<^verbatim>\<open>src/integration/tabular-ingestion/composition.go\<close>; the limits on rows and
    bytes hold, and an ingestion returns.

  \<^bold>\<open>Bounds.\<close> No fuel is used. \<open>drain\<close>, \<open>io_Copy\<close>, \<open>s3_list_loop\<close>, \<open>walk_dir\<close> and
  \<open>ingest_rows\<close> are partial functions to \<open>option\<close>, for which \<open>None\<close> is a loop that does not end;
  the theorems on them prove that there is a result. \<open>retry_loop\<close>, \<open>walk_remote\<close>, the
  redactions and the lookup of \<^verbatim>\<open>os.Root\<close> end by a measure: the attempts left, the limit of the
  listing, the length of the message, and the links left to follow. Bounds of \<open>2 ^ 63\<close> are those
  of \<^verbatim>\<open>int64\<close>. The conformance suite is proved for writers cancelled before the end of their
  tests, which polls the context at most twice more.

  \<^bold>\<open>Not modelled.\<close> The AWS SDK, the SSH, SFTP and FTP clients, the CSV parser, \<^verbatim>\<open>net/url\<close>, sockets
  and the system calls of \<^verbatim>\<open>golang.org/x/sys\<close> are outside the sources: they are parameters, with
  hypotheses that sample instances satisfy. The methods of \<^verbatim>\<open>realSession\<close> in \<^verbatim>\<open>src/sftp/sftp.go\<close> only
  pass their arguments to that client. Sleeping, latency and deadlines have no effect in the model
  but the cancellation they may cause; the verbs of error messages are not
  formatted. The iterators and context readers that the adapters repeat are those of
  \<^verbatim>\<open>src/memory/memory.go\<close> word for word and are modelled once. \<^verbatim>\<open>Address\<close> of the proxy and the other
  getters that return a field have no definition. A mutex is the atomicity of the method that
  holds it, except in \<open>Ftp_Stream\<close> and \<open>Tcp_Proxy\<close>, where holding it is part of the state.
\<close>

end
